(* ===== verification/Numbers.thy ===== *)
theory Numbers
  imports Complex_Main "HOL-Library.Char_ord"
begin

text \<open>
  JavaScript numbers and their text.  A number is \<open>NInt\<close> for an integral double, \<open>NFrac\<close> for a
  finite non-integral one, represented by its shortest decimal text (the one \<open>String\<close> and
  \<open>JSON.stringify\<close> print, so that equal numbers are equal values), and \<open>NNonFinite\<close> for NaN and
  the infinities; negative zero is not told from zero.  With it the nearest double of a decimal
  literal or a rational, and \<open>Number::toString\<close>.
\<close>

section \<open>Numbers\<close>

type_synonym millis = int

datatype js_num = NInt int | NFrac string | NNonFinite

text \<open>\<open>Number.MAX_SAFE_INTEGER\<close>\<close>

definition MAX_SAFE_INTEGER :: int where
  "MAX_SAFE_INTEGER = 9007199254740991"

definition is_safe_int :: "int \<Rightarrow> bool" where
  "is_safe_int i \<longleftrightarrow> \<bar>i\<bar> \<le> MAX_SAFE_INTEGER"

text \<open>\<open>Number.isSafeInteger\<close>, returning the integer when it is one.\<close>

fun safe_integer :: "js_num \<Rightarrow> int option" where
  "safe_integer (NInt i) = (if is_safe_int i then Some i else None)"
| "safe_integer _ = None"

text \<open>\<open>Number.isFinite\<close> on a number\<close>

fun is_finite_num :: "js_num \<Rightarrow> bool" where
  "is_finite_num NNonFinite = False"
| "is_finite_num _ = True"

lemma safe_integer_Some [simp]:
  "safe_integer n = Some i \<longleftrightarrow> n = NInt i \<and> is_safe_int i"
  by (cases n) auto

section \<open>Digits\<close>

definition code_unit :: "char \<Rightarrow> nat" where
  "code_unit c = of_char c"

definition digit_char :: "nat \<Rightarrow> char" where
  "digit_char d = char_of (48 + d)"

fun show_nat :: "nat \<Rightarrow> string" where
  "show_nat n = (if n < 10 then [digit_char n] else show_nat (n div 10) @ [digit_char (n mod 10)])"

declare show_nat.simps [simp del]

definition show_int :: "int \<Rightarrow> string" where
  "show_int i = (if i < 0 then CHR ''-'' # show_nat (nat (- i)) else show_nat (nat i))"

definition digits_value :: "string \<Rightarrow> nat" where
  "digits_value s = foldl (\<lambda>a c. 10 * a + (code_unit c - 48)) 0 s"

definition is_digit :: "char \<Rightarrow> bool" where
  "is_digit c \<longleftrightarrow> 48 \<le> code_unit c \<and> code_unit c \<le> 57"

section \<open>Doubles\<close>

fun bit_length :: "nat \<Rightarrow> nat" where
  "bit_length n = (if n = 0 then 0 else Suc (bit_length (n div 2)))"

declare bit_length.simps [simp del]

definition round_half_even :: "nat \<Rightarrow> nat \<Rightarrow> nat" where
  "round_half_even a b =
     (let q = a div b; r = a mod b in
      if 2 * r < b then q else if b < 2 * r then q + 1 else if even q then q else q + 1)"

text \<open>\<open>p / q\<close> scaled down by \<open>2 ^ e\<close>, as a fraction.\<close>

definition scaled :: "nat \<Rightarrow> nat \<Rightarrow> int \<Rightarrow> nat \<times> nat" where
  "scaled p q e = (if 0 \<le> e then (p, q * 2 ^ nat e) else (p * 2 ^ nat (- e), q))"

text \<open>The exponent of the double nearest to \<open>p / q\<close>: 53 significant bits, or the subnormal one.\<close>

definition double_exponent :: "nat \<Rightarrow> nat \<Rightarrow> int" where
  "double_exponent p q =
     (let e = int (bit_length p) - int (bit_length q) - 53;
          (a, b) = scaled p q e
      in max (-1074) (if 2 ^ 53 \<le> a div b then e + 1 else e))"

datatype double_value = Whole nat | Broken | Infinite

definition nearest_double :: "nat \<Rightarrow> nat \<Rightarrow> double_value" where
  "nearest_double p q =
     (if p = 0 then Whole 0
      else
        let e = double_exponent p q; (a, b) = scaled p q e; n = round_half_even a b in
        if 0 \<le> e then (if 2 ^ 1024 \<le> n * 2 ^ nat e then Infinite else Whole (n * 2 ^ nat e))
        else if n mod 2 ^ nat (- e) = 0 then Whole (n div 2 ^ nat (- e))
        else Broken)"

text \<open>The double nearest to a rational amount, as a rational; the sum of two doubles is rounded so.\<close>

definition to_double :: "rat \<Rightarrow> rat" where
  "to_double x =
     (let (p, q) = quotient_of x; n = nat \<bar>p\<bar>; d = nat q; e = double_exponent n d; (a, b) = scaled n d e;
          m = round_half_even a b;
          y = (if 0 \<le> e then of_nat (m * 2 ^ nat e) else of_nat m / of_nat (2 ^ nat (- e)))
      in if p = 0 then 0 else if p < 0 then - y else y)"

definition double_add :: "rat \<Rightarrow> rat \<Rightarrow> rat" where
  "double_add x y = to_double (x + y)"

section \<open>Number to string\<close>

text \<open>The double nearest to \<open>p / q\<close> as a reduced fraction; two fractions give the same one iff they round alike.\<close>

definition double_ratio :: "nat \<Rightarrow> nat \<Rightarrow> nat \<times> nat" where
  "double_ratio p q =
     (let e = double_exponent p q; (a, b) = scaled p q e; n = round_half_even a b;
          (u, v) = (if 0 \<le> e then (n * 2 ^ nat e, 1) else (n, 2 ^ nat (- e))); g = gcd u v
      in (u div g, v div g))"

text \<open>\<open>x * 10 ^ e\<close> of a fraction.\<close>

definition shift10 :: "nat \<times> nat \<Rightarrow> int \<Rightarrow> nat \<times> nat" where
  "shift10 x e = (if 0 \<le> e then (fst x * 10 ^ nat e, snd x) else (fst x, snd x * 10 ^ nat (- e)))"

text \<open>The decimal exponent \<open>n\<close> with \<open>10 ^ (n - 1) \<le> x < 10 ^ n\<close>, from the digits of numerator and denominator.\<close>

definition decimal_exponent :: "nat \<times> nat \<Rightarrow> int" where
  "decimal_exponent x =
     (let e = int (length (show_nat (fst x))) - int (length (show_nat (snd x)));
          (a, b) = shift10 x (- e)
      in if b \<le> a then e + 1 else e)"

text \<open>The \<open>k\<close>-digit integers next to \<open>x * 10 ^ (k - n)\<close> that still denote the double \<open>x\<close>, the closer first.\<close>

definition digit_candidates :: "nat \<times> nat \<Rightarrow> int \<Rightarrow> nat \<Rightarrow> nat list" where
  "digit_candidates x n k =
     (let (a, b) = shift10 x (int k - n); lo = a div b; r = a mod b;
          ordered = (if 2 * r < b \<or> (2 * r = b \<and> even lo) then [lo, lo + 1] else [lo + 1, lo])
      in filter (\<lambda>s. s \<noteq> 0 \<and> (let (c, d) = shift10 (s, 1) (n - int k) in double_ratio c d = x)) ordered)"

text \<open>Shortest digits: 17 always suffice for a double.\<close>

fun shortest_digits :: "nat \<times> nat \<Rightarrow> int \<Rightarrow> nat list \<Rightarrow> nat \<times> int" where
  "shortest_digits x n [] = (fst x div snd x, n)"
| "shortest_digits x n (k # ks) =
     (case digit_candidates x n k of
        [] \<Rightarrow> shortest_digits x n ks
      | s # _ \<Rightarrow> if s = 10 ^ k then (1, n + 1) else (s, n))"

definition digits_layout :: "string \<Rightarrow> int \<Rightarrow> string" where
  "digits_layout ds n =
     (let k = int (length ds) in
      if k \<le> n \<and> n \<le> 21 then ds @ replicate (nat (n - k)) (CHR ''0'')
      else if 0 < n \<and> n \<le> 21 then take (nat n) ds @ ''.'' @ drop (nat n) ds
      else if -6 < n \<and> n \<le> 0 then ''0.'' @ replicate (nat (- n)) (CHR ''0'') @ ds
      else take 1 ds @ (if k = 1 then [] else ''.'' @ drop 1 ds) @ ''e'' @ (if 0 < n then ''+'' else ''-'') @
        show_nat (nat \<bar>n - 1\<bar>))"

definition shortest_text :: "nat \<times> nat \<Rightarrow> string" where
  "shortest_text x = (let (s, n) = shortest_digits x (decimal_exponent x) [1..<18] in digits_layout (show_nat s) n)"

fun num_text :: "js_num \<Rightarrow> string" where
  "num_text (NInt i) =
     (if is_safe_int i then show_int i
      else (if i < 0 then ''-'' else []) @ shortest_text (nat \<bar>i\<bar>, 1))"
| "num_text (NFrac t) = t"
| "num_text NNonFinite = ''null''"

end
