(* ===== verification/Prelude.thy ===== *)
theory Prelude
  imports Numbers "HOL-Library.AList"
begin

text \<open>
  Shared ground of the development: JavaScript values as the program sees them
  (numbers, strings, parsed JSON), the few functions of the JavaScript library
  the modelled code calls, and the generic locales for a machine with an
  invariant, a machine with a monotone reading and a single-use resource.

  A JavaScript string is a \<open>string\<close>, one \<open>char\<close> per UTF-16 code unit; the code
  units covered are U+0000 to U+00FF, and a dash of a message that lies outside
  them is written as a hyphen.  Numbers are those of \<open>Numbers\<close>.  An absent property is
  \<open>None\<close>.  A JavaScript \<open>Map\<close> is an association list in insertion order,
  updated by \<open>AList.update\<close> and \<open>AList.delete\<close> of the library.
\<close>

section \<open>Strings\<close>

fun split_on :: "char \<Rightarrow> string \<Rightarrow> string list" where
  "split_on d [] = [[]]"
| "split_on d (c # cs) =
     (if c = d then [] # split_on d cs
      else (case split_on d cs of [] \<Rightarrow> [[c]] | s # ss \<Rightarrow> (c # s) # ss))"

fun join_with :: "string \<Rightarrow> string list \<Rightarrow> string" where
  "join_with sep [] = []"
| "join_with sep [s] = s"
| "join_with sep (s # t # ss) = s @ sep @ join_with sep (t # ss)"

lemma split_on_not_Nil [simp]: "split_on d s \<noteq> []"
  by (induction s) (auto split: list.splits)

lemma join_split_on: "join_with [d] (split_on d s) = s"
proof (induction s)
  case (Cons c cs)
  show ?case
  proof (cases "split_on d cs")
    case (Cons x xs)
    then show ?thesis using \<open>join_with [d] (split_on d cs) = cs\<close> by (cases xs) auto
  qed simp
qed simp

lemma split_on_free: "x \<in> set (split_on d s) \<Longrightarrow> d \<notin> set x"
proof (induction s arbitrary: x)
  case (Cons c cs)
  then show ?case by (cases "split_on d cs") (auto split: if_splits)
qed simp

definition quoted :: "string \<Rightarrow> string" where
  "quoted s = CHR 0x22 # s @ [CHR 0x22]"

section \<open>Parsed JSON and its text\<close>

text \<open>
  What \<open>JSON.parse\<close> returns.  \<open>JObj\<close> lists the own properties in enumeration
  order; the keys of a parsed object are distinct.
\<close>

datatype json =
    JNull
  | JBool bool
  | JNum js_num
  | JStr string
  | JArr "json list"
  | JObj "(string \<times> json) list"

text \<open>An own property of a value, \<open>None\<close> where JavaScript reads \<open>undefined\<close>.\<close>

fun own_field :: "string \<Rightarrow> json \<Rightarrow> json option" where
  "own_field k (JObj kvs) = map_of kvs k"
| "own_field k _ = None"

fun is_plain_object :: "json \<Rightarrow> bool" where
  "is_plain_object (JObj _) = True"
| "is_plain_object _ = False"

fun object_entries :: "json \<Rightarrow> (string \<times> json) list" where
  "object_entries (JObj kvs) = kvs"
| "object_entries _ = []"

definition hex_char :: "nat \<Rightarrow> char" where
  "hex_char d = (if d < 10 then char_of (48 + d) else char_of (87 + d))"

definition escape_char :: "char \<Rightarrow> string" where
  "escape_char c =
     (let n = code_unit c in
      if n = 34 \<or> n = 92 then [CHR 0x5C, c]
      else if n = 8 then [CHR 0x5C, CHR ''b'']
      else if n = 9 then [CHR 0x5C, CHR ''t'']
      else if n = 10 then [CHR 0x5C, CHR ''n'']
      else if n = 12 then [CHR 0x5C, CHR ''f'']
      else if n = 13 then [CHR 0x5C, CHR ''r'']
      else if n < 32 then [CHR 0x5C] @ ''u00'' @ [hex_char (n div 16), hex_char (n mod 16)]
      else [c])"

definition json_string_text :: "string \<Rightarrow> string" where
  "json_string_text s = quoted (concat (map escape_char s))"

text \<open>\<open>JSON.stringify\<close> without indentation\<close>

fun json_text :: "json \<Rightarrow> string" where
  "json_text JNull = ''null''"
| "json_text (JBool b) = (if b then ''true'' else ''false'')"
| "json_text (JNum n) = num_text n"
| "json_text (JStr s) = json_string_text s"
| "json_text (JArr xs) = ''['' @ join_with '','' (map json_text xs) @ '']''"
| "json_text (JObj kvs) =
     ''{'' @ join_with '',''
       (map (\<lambda>p. json_string_text (fst p) @ '':'' @ json_text (snd p)) kvs) @ ''}''"

section \<open>Insertion-ordered maps\<close>

text \<open>\<open>Map.prototype.keys\<close> in insertion order, and the facts the clients use.\<close>

definition map_keys :: "('k \<times> 'v) list \<Rightarrow> 'k list" where
  "map_keys m = map fst m"

lemma set_map_keys: "set (map_keys m) = dom (map_of m)"
  by (simp add: map_keys_def dom_map_of_conv_image_fst)

lemma distinct_keys_update:
  "distinct (map_keys m) \<Longrightarrow> distinct (map_keys (AList.update k v m))"
  by (simp add: map_keys_def distinct_update)

lemma distinct_keys_delete:
  "distinct (map_keys m) \<Longrightarrow> distinct (map_keys (AList.delete k m))"
  by (simp add: map_keys_def distinct_delete)

lemma set_keys_update: "set (map_keys (AList.update k v m)) = insert k (set (map_keys m))"
  by (simp add: map_keys_def dom_update)

lemma set_keys_delete: "set (map_keys (AList.delete k m)) = set (map_keys m) - {k}"
  by (auto simp: map_keys_def AList.delete_eq)

lemma length_update_present:
  "k \<in> set (map_keys m) \<Longrightarrow> length (AList.update k v m) = length m"
  by (induction m) (auto simp: map_keys_def)

lemma length_update_absent:
  "k \<notin> set (map_keys m) \<Longrightarrow> length (AList.update k v m) = Suc (length m)"
  by (induction m) (auto simp: map_keys_def)

lemma length_delete_le: "length (AList.delete k m) \<le> length m"
  by (simp add: AList.delete_eq)

lemma foldl_update_distinct:
  "distinct (map_keys (m0 @ kvs)) \<Longrightarrow> foldl (\<lambda>m kv. AList.update (fst kv) (snd kv) m) m0 kvs = m0 @ kvs"
proof (induction kvs arbitrary: m0)
  case (Cons kv kvs)
  have new: "k \<notin> set (map_keys m) \<Longrightarrow> AList.update k v m = m @ [(k, v)]" for k :: 'a and v :: 'b and m
    by (induction m) (auto simp: map_keys_def)
  from Cons.prems have "fst kv \<notin> set (map_keys m0)" by (auto simp: map_keys_def)
  with Cons.IH[of "m0 @ [kv]"] Cons.prems show ?case by (simp add: new)
qed simp

text \<open>
  \<open>Object.fromEntries\<close> followed by enumeration: keys that are canonical array indices
  come first, in numeric order, then the other keys in insertion order.
\<close>

definition array_index_key :: "string \<Rightarrow> bool" where
  "array_index_key s \<longleftrightarrow> s \<noteq> [] \<and> list_all is_digit s \<and>
     (hd s = CHR ''0'' \<longrightarrow> length s = 1) \<and> digits_value s < 4294967295"

definition object_order :: "(string \<times> 'v) list \<Rightarrow> (string \<times> 'v) list" where
  "object_order kvs =
     sort_key (\<lambda>p. digits_value (fst p)) (filter (\<lambda>p. array_index_key (fst p)) kvs) @
     filter (\<lambda>p. \<not> array_index_key (fst p)) kvs"

lemma set_object_order [simp]: "set (object_order kvs) = set kvs"
  by (auto simp: object_order_def)

lemma length_object_order [simp]: "length (object_order kvs) = length kvs"
  by (simp add: object_order_def) (metis sum_length_filter_compl)

lemma object_order_Nil [simp]: "object_order [] = []"
  by (simp add: object_order_def)

lemma object_order_eq_Nil [simp]: "object_order kvs = [] \<longleftrightarrow> kvs = []"
  by (metis length_object_order length_0_conv)

lemma set_keys_object_order [simp]: "set (map_keys (object_order kvs)) = set (map_keys kvs)"
  by (simp add: map_keys_def)

lemma distinct_keys_object_order [simp]:
  "distinct (map_keys kvs) \<Longrightarrow> distinct (map_keys (object_order kvs))"
  by (metis card_distinct distinct_card length_map length_object_order map_keys_def
      set_keys_object_order)

lemma map_of_object_order:
  "distinct (map_keys kvs) \<Longrightarrow> map_of (object_order kvs) = map_of kvs"
  by (metis distinct_keys_object_order map_keys_def map_of_eqI map_of_inject_set set_object_order)

lemma object_order_idem: "object_order (object_order kvs) = object_order kvs"
  by (simp add: object_order_def filter_sort sort_key_id_if_sorted)

lemma object_order_plain:
  "list_all (\<lambda>p. \<not> array_index_key (fst p)) kvs \<Longrightarrow> object_order kvs = kvs"
  by (auto simp: object_order_def list_all_iff filter_empty_conv filter_id_conv)

lemma sort_key_map: "sort_key f (map g xs) = map g (sort_key (f \<circ> g) xs)"
proof -
  have "insort_key f (g x) (map g ys) = map g (insort_key (f \<circ> g) x ys)" for x ys
    by (induction ys) auto
  then show ?thesis by (induction xs) auto
qed

lemma object_order_map:
  "object_order (map (\<lambda>kv. (fst kv, f (snd kv))) kvs) = map (\<lambda>kv. (fst kv, f (snd kv))) (object_order kvs)"
  by (simp add: object_order_def filter_map sort_key_map comp_def)

section \<open>System calls\<close>

text \<open>What one system call does: fail, move some bytes, or complete; a script gives the coming ones.\<close>

datatype syscall = Fails | Transfers nat | Completes

text \<open>How much of \<open>left\<close> one read or write call moves: at least a byte, at most all.\<close>

fun transferred :: "syscall \<Rightarrow> nat \<Rightarrow> nat" where
  "transferred (Transfers k) left = max 1 (min k left)"
| "transferred _ left = left"

lemma transferred_pos: "0 < left \<Longrightarrow> 0 < transferred c left"
  by (cases c) auto

lemma transferred_le: "0 < left \<Longrightarrow> transferred c left \<le> left"
  by (cases c) auto

definition byte_length :: "string \<Rightarrow> nat" where
  "byte_length s = sum_list (map (\<lambda>c. if code_unit c < 128 then 1 else 2) s)"

section \<open>Generic machines\<close>

text \<open>A property of the state that a run gains, it gains at one of its steps.\<close>

lemma run_gains:
  assumes "\<not> P s" and "P (foldl step s es)"
  shows "\<exists>es1 e es2. es = es1 @ e # es2 \<and> \<not> P (foldl step s es1) \<and> P (step (foldl step s es1) e)"
  using assms(2)
proof (induction es rule: rev_induct)
  case (snoc e es)
  show ?case
  proof (cases "P (foldl step s es)")
    case True
    then obtain es1 e' es2 where "es = es1 @ e' # es2" "\<not> P (foldl step s es1)" "P (step (foldl step s es1) e')"
      using snoc.IH by blast
    then show ?thesis by (intro exI[of _ es1] exI[of _ e'] exI[of _ "es2 @ [e]"]) simp
  next
    case False
    with snoc.prems show ?thesis by (intro exI[of _ es] exI[of _ e] exI[of _ "[]"]) simp
  qed
qed (use assms(1) in simp)

text \<open>A deterministic machine whose every step keeps an invariant.\<close>

locale machine =
  fixes step :: "'s \<Rightarrow> 'e \<Rightarrow> 's" and inv :: "'s \<Rightarrow> bool"
  assumes inv_step: "inv s \<Longrightarrow> inv (step s e)"
begin

lemma inv_run: "inv s \<Longrightarrow> inv (foldl step s es)"
  by (induction es arbitrary: s) (auto simp: inv_step)

end

text \<open>A machine with a reading that never goes down.\<close>

locale monotone_machine =
  fixes step :: "'s \<Rightarrow> 'e \<Rightarrow> 's" and reading :: "'s \<Rightarrow> int"
  assumes reading_step: "reading s \<le> reading (step s e)"
begin

lemma reading_run: "reading s \<le> reading (foldl step s es)"
  by (induction es arbitrary: s) (auto intro: order.trans reading_step)

end

text \<open>
  A single-use resource: an attempt names a key and succeeds or not.  \<open>wins\<close>
  counts the successful attempts at one key along a run.
\<close>

primrec wins :: "('s \<Rightarrow> 'e \<Rightarrow> 's \<times> bool) \<Rightarrow> ('e \<Rightarrow> 'k) \<Rightarrow> 'k \<Rightarrow> 's \<Rightarrow> 'e list \<Rightarrow> nat" where
  "wins attempt key k s [] = 0"
| "wins attempt key k s (e # es) =
     (if key e = k \<and> snd (attempt s e) then 1 else 0) + wins attempt key k (fst (attempt s e)) es"

locale single_use =
  fixes attempt :: "'s \<Rightarrow> 'e \<Rightarrow> 's \<times> bool"
    and key :: "'e \<Rightarrow> 'k"
    and spent :: "'s \<Rightarrow> 'k \<Rightarrow> bool"
  assumes spent_stays: "spent s k \<Longrightarrow> spent (fst (attempt s e)) k"
    and spent_refused: "spent s (key e) \<Longrightarrow> \<not> snd (attempt s e)"
    and success_spends: "snd (attempt s e) \<Longrightarrow> spent (fst (attempt s e)) (key e)"
begin

lemma no_win_once_spent: "spent s k \<Longrightarrow> wins attempt key k s es = 0"
  by (induction es arbitrary: s) (auto simp: spent_stays spent_refused)

lemma at_most_one_win: "wins attempt key k s es \<le> 1"
proof (induction es arbitrary: s)
  case (Cons e es)
  show ?case
  proof (cases "key e = k \<and> snd (attempt s e)")
    case True
    then have "spent (fst (attempt s e)) k" using success_spends by blast
    with True show ?thesis by (simp add: no_win_once_spent)
  next
    case False
    with Cons show ?thesis by auto
  qed
qed simp

end

text \<open>
  A ledger of capabilities: a key becomes live only by being issued, and spending it takes it
  away.  \<open>count_run\<close> counts the steps of a run that satisfy a predicate.
\<close>

primrec count_run :: "('s \<Rightarrow> 'e \<Rightarrow> 's) \<Rightarrow> ('s \<Rightarrow> 'e \<Rightarrow> bool) \<Rightarrow> 's \<Rightarrow> 'e list \<Rightarrow> nat" where
  "count_run step P s [] = 0"
| "count_run step P s (e # es) = (if P s e then 1 else 0) + count_run step P (step s e) es"

lemma count_run_snoc:
  "count_run step P s (es @ [e]) = count_run step P s es + (if P (foldl step s es) e then 1 else 0)"
  by (induction es arbitrary: s) auto

locale ledger = machine step inv
  for step :: "'s \<Rightarrow> 'e \<Rightarrow> 's" and inv :: "'s \<Rightarrow> bool" +
  fixes issues :: "'k \<Rightarrow> 's \<Rightarrow> 'e \<Rightarrow> bool"
    and spends :: "'k \<Rightarrow> 's \<Rightarrow> 'e \<Rightarrow> bool"
    and live :: "'k \<Rightarrow> 's \<Rightarrow> bool"
  assumes live_by_issue: "inv s \<Longrightarrow> live k (step s e) \<Longrightarrow> live k s \<or> issues k s e"
    and spend_needs_live: "inv s \<Longrightarrow> spends k s e \<Longrightarrow> live k s"
    and spend_takes: "inv s \<Longrightarrow> spends k s e \<Longrightarrow> \<not> live k (step s e)"
begin

lemma spends_within_issues:
  "inv s \<Longrightarrow> count_run step (spends k) s es \<le> count_run step (issues k) s es + (if live k s then 1 else 0)"
proof (induction es arbitrary: s)
  case (Cons e es)
  show ?case
    using Cons.IH[OF inv_step[OF Cons.prems], of e] live_by_issue[OF Cons.prems, of k e]
      spend_needs_live[OF Cons.prems, of k e] spend_takes[OF Cons.prems, of k e]
    by (auto split: if_splits)
qed simp

text \<open>Agreement: what is spent was issued, and nothing spent it since.\<close>

lemma live_was_issued:
  assumes "inv s" and "live k (foldl step s es)" and "\<not> live k s"
  shows "\<exists>es1 e es2. es = es1 @ e # es2 \<and> issues k (foldl step s es1) e \<and>
     count_run step (spends k) (foldl step s (es1 @ [e])) es2 = 0"
  using assms(2)
proof (induction es rule: rev_induct)
  case (snoc e es)
  note here = inv_run[OF assms(1), of es]
  show ?case
  proof (cases "issues k (foldl step s es) e")
    case True
    then show ?thesis by (intro exI[of _ es] exI[of _ e] exI[of _ "[]"]) simp
  next
    case False
    with snoc.prems live_by_issue[OF here, of k e] have "live k (foldl step s es)" by simp
    then obtain es1 e' es2 where "es = es1 @ e' # es2" "issues k (foldl step s es1) e'"
        "count_run step (spends k) (foldl step s (es1 @ [e'])) es2 = 0"
      using snoc.IH by blast
    moreover have "\<not> spends k (foldl step s es) e" using snoc.prems spend_takes[OF here, of k e] by auto
    ultimately show ?thesis by (intro exI[of _ es1] exI[of _ e'] exI[of _ "es2 @ [e]"]) (simp add: count_run_snoc)
  qed
qed (use assms(3) in simp)

lemma spent_was_issued:
  assumes "inv s" and "spends k (foldl step s es) e" and "\<not> live k s"
  shows "\<exists>es1 e' es2. es = es1 @ e' # es2 \<and> issues k (foldl step s es1) e' \<and>
     count_run step (spends k) (foldl step s (es1 @ [e'])) es2 = 0"
  using live_was_issued[OF assms(1) spend_needs_live[OF inv_run[OF assms(1)] assms(2)] assms(3)] .

end

end
