(* ===== verification/AgentId.thy ===== *)
theory AgentId
  imports Prelude
begin

text \<open>
  The agent-identifier contract of \<open>packages/shared/src/agent-id.ts\<close>: the one
  validator the gateway, the kill surfaces, the state-file loader and the
  \<open>/status\<close> parser share, and the ceiling on scope-killed agents.
\<close>

definition MAX_AGENT_ID_CHARS :: nat where
  "MAX_AGENT_ID_CHARS = 128"

definition MAX_KILLED_AGENTS :: nat where
  "MAX_KILLED_AGENTS = 64"

definition FORBIDDEN_AGENT_IDS :: "string list" where
  "FORBIDDEN_AGENT_IDS = [''__proto__'', ''constructor'', ''prototype'']"

text \<open>The character classes \<open>[\x20-\x7e]\<close> and \<open>[\x21-\x7e]\<close> of the pattern\<close>

definition printable_ascii :: "char \<Rightarrow> bool" where
  "printable_ascii c \<longleftrightarrow> 0x20 \<le> code_unit c \<and> code_unit c \<le> 0x7e"

definition graphic_ascii :: "char \<Rightarrow> bool" where
  "graphic_ascii c \<longleftrightarrow> 0x21 \<le> code_unit c \<and> code_unit c \<le> 0x7e"

text \<open>The pattern: a graphic character, then optionally printable ones that end in a graphic one\<close>

fun agent_id_shape :: "string \<Rightarrow> bool" where
  "agent_id_shape [] = False"
| "agent_id_shape [c] = graphic_ascii c"
| "agent_id_shape (c # cs) =
     (graphic_ascii c \<and> list_all printable_ascii (butlast cs) \<and> graphic_ascii (last cs))"

definition isValidAgentId :: "string \<Rightarrow> bool" where
  "isValidAgentId value \<longleftrightarrow>
     length value \<ge> 1 \<and> length value \<le> MAX_AGENT_ID_CHARS \<and>
     agent_id_shape value \<and> value \<notin> set FORBIDDEN_AGENT_IDS"

text \<open>Evaluation of the validator on a literal identifier\<close>

lemmas valid_id_simps = isValidAgentId_def MAX_AGENT_ID_CHARS_def FORBIDDEN_AGENT_IDS_def
  printable_ascii_def graphic_ascii_def code_unit_def

lemma graphic_printable: "graphic_ascii c \<Longrightarrow> printable_ascii c"
  by (simp add: graphic_ascii_def printable_ascii_def)

lemma agent_id_shape_chars:
  assumes "agent_id_shape v"
  shows "v \<noteq> [] \<and> list_all printable_ascii v \<and> graphic_ascii (hd v) \<and> graphic_ascii (last v)"
proof (cases v rule: agent_id_shape.cases)
  case (3 c d ds)
  have split: "butlast (d # ds) @ [last (d # ds)] = d # ds"
    by (rule append_butlast_last_id) simp
  have "list_all printable_ascii (butlast (d # ds) @ [last (d # ds)])"
    using 3 assms by (auto simp: graphic_printable)
  with split 3 assms show ?thesis by (auto simp: graphic_printable)
qed (use assms in \<open>auto simp: graphic_printable\<close>)

text \<open>What every holder of a valid identifier may rely on.\<close>

lemma valid_agent_id_facts:
  assumes "isValidAgentId v"
  shows "v \<noteq> []" and "length v \<le> 128" and "list_all printable_ascii v"
    and "hd v \<noteq> CHR '' ''" and "last v \<noteq> CHR '' ''" and "v \<notin> set FORBIDDEN_AGENT_IDS"
proof -
  have shape: "v \<noteq> [] \<and> list_all printable_ascii v \<and> graphic_ascii (hd v) \<and> graphic_ascii (last v)"
    using assms agent_id_shape_chars by (simp add: isValidAgentId_def)
  have space: "\<not> graphic_ascii (CHR '' '')" by (simp add: graphic_ascii_def code_unit_def)
  show "v \<noteq> []" "list_all printable_ascii v" using shape by simp_all
  show "hd v \<noteq> CHR '' ''" "last v \<noteq> CHR '' ''" using shape space by auto
  show "length v \<le> 128" "v \<notin> set FORBIDDEN_AGENT_IDS"
    using assms by (simp_all add: isValidAgentId_def MAX_AGENT_ID_CHARS_def)
qed

end
