(* ===== verification/PolicyEngine.thy ===== *)
theory PolicyEngine
  imports AgentId
begin

text \<open>
  The policy model of \<open>packages/shared/src/index.ts\<close> and the decision function
  of \<open>packages/gateway/src/engine.ts\<close>: tool globs turned into the text of a regular
  expression, the reading and the search of such a text as JavaScript does them, the rules
  that match a tool, and \<open>evaluate\<close> with its order of authority.

  A rule's \<open>argsPattern\<close> is a regular expression of the policy's author, compiled
  and rejected at configuration load when malformed; running it is the parameter
  \<open>re_test\<close> (pattern, subject).
\<close>

section \<open>The policy model\<close>

datatype decision = Allow | Veto | Approve | Deny

record tool_call =
  call_agentId :: string
  call_tool :: string
  call_args :: "json option"
  call_timestamp :: "js_num option"

record policy_rule =
  pr_id :: string
  pr_description :: "string option"
  pr_tool :: string
  pr_argsPattern :: "string option"
  pr_decision :: decision

record policy =
  pol_rules :: "policy_rule list"
  pol_defaultDecision :: decision

record verdict =
  v_decision :: decision
  v_ruleId :: "string option"
  v_reason :: string

record kill_state =
  ks_killed :: bool
  ks_reason :: "string option"
  ks_killedAgents :: "string list"
  ks_durable :: "bool option"
  ks_epoch :: "int option"

section \<open>Tool globs\<close>

text \<open>
  \<open>globToRegex\<close> splits the glob at its stars, puts a backslash before every character of a piece that
  means something in a regular expression, joins the pieces with \<open>.*\<close> and anchors the whole.
\<close>

definition backslash :: char where "backslash = CHR 0x5C"

text \<open>The class of the replacement, \<open>[.*+?^${}()|[\]\\]\<close>\<close>

definition RE_SPECIAL :: string where
  "RE_SPECIAL = ''.*+?^${}()|[]'' @ [backslash]"

definition escapeRe :: "string \<Rightarrow> string" where
  "escapeRe s = concat (map (\<lambda>c. if c \<in> set RE_SPECIAL then [backslash, c] else [c]) s)"

definition globToRegex :: "string \<Rightarrow> string" where
  "globToRegex glob = ''^'' @ join_with ''.*'' (map escapeRe (split_on CHR ''*'' glob)) @ ''$''"

text \<open>
  The part of \<open>RegExp\<close> this needs: alternatives of anchors and single characters (a literal, an
  escaped special character, the dot), each of the latter perhaps starred.  A pattern with anything
  else (another quantifier, a group, a class, a brace) has no parse here.
\<close>

text \<open>The grammar's own syntax characters.\<close>

definition re_syntax :: "char set" where
  "re_syntax = {CHR ''^'', CHR ''$'', backslash, CHR ''.'', CHR ''*'', CHR ''+'', CHR ''?'', CHR ''('', CHR '')'',
     CHR ''['', CHR '']'', CHR ''{'', CHR ''}'', CHR ''|''}"

datatype re_atom = Lit char | AnyChar

datatype re_term = One re_atom | Many re_atom | AtStart | AtEnd

fun read_atom :: "string \<Rightarrow> (re_atom \<times> string) option" where
  "read_atom [] = None"
| "read_atom (c # cs) =
     (if c = backslash then
        (case cs of e # r \<Rightarrow> if e \<in> re_syntax then Some (Lit e, r) else None | [] \<Rightarrow> None)
      else if c = CHR ''.'' then Some (AnyChar, cs)
      else if c \<in> re_syntax then None
      else Some (Lit c, cs))"

fun re_cons :: "re_term \<Rightarrow> re_term list list \<Rightarrow> re_term list list" where
  "re_cons t [] = [[t]]"
| "re_cons t (r # rs) = (t # r) # rs"

lemma read_atom_length: "read_atom s = Some (a, r) \<Longrightarrow> length r < length s"
  by (cases s) (auto split: if_split_asm list.split_asm)

function re_parse :: "string \<Rightarrow> re_term list list option" where
  "re_parse [] = Some [[]]"
| "re_parse (c # cs) =
     (if c = CHR ''|'' then map_option (Cons []) (re_parse cs)
      else if c = CHR ''^'' then map_option (re_cons AtStart) (re_parse cs)
      else if c = CHR ''$'' then map_option (re_cons AtEnd) (re_parse cs)
      else
        (case read_atom (c # cs) of
           None \<Rightarrow> None
         | Some (a, r) \<Rightarrow>
             if r \<noteq> [] \<and> hd r = CHR ''*'' then map_option (re_cons (Many a)) (re_parse (drop 1 r))
             else map_option (re_cons (One a)) (re_parse r)))"
  by pat_completeness auto

termination re_parse
  by (relation "measure length") (auto dest!: read_atom_length simp del: read_atom.simps)

text \<open>\<open>RegExp.prototype.test\<close>: some alternative matches from some position; \<open>first\<close> says that it is the first one.\<close>

definition line_terminator :: "char \<Rightarrow> bool" where
  "line_terminator c \<longleftrightarrow> code_unit c = 10 \<or> code_unit c = 13"

fun re_char :: "re_atom \<Rightarrow> char \<Rightarrow> bool" where
  "re_char (Lit a) c = (a = c)"
| "re_char AnyChar c = (\<not> line_terminator c)"

fun re_here :: "re_term list \<Rightarrow> bool \<Rightarrow> string \<Rightarrow> bool" where
  "re_here [] first s = True"
| "re_here (AtStart # r) first s = (first \<and> re_here r first s)"
| "re_here (AtEnd # r) first s = (s = [] \<and> re_here r first s)"
| "re_here (One a # r) first [] = False"
| "re_here (One a # r) first (c # s) = (re_char a c \<and> re_here r False s)"
| "re_here (Many a # r) first [] = re_here r first []"
| "re_here (Many a # r) first (c # s) = (re_char a c \<and> re_here (Many a # r) False s \<or> re_here r first (c # s))"

fun re_search :: "re_term list list \<Rightarrow> bool \<Rightarrow> string \<Rightarrow> bool" where
  "re_search rs first [] = list_ex (\<lambda>r. re_here r first []) rs"
| "re_search rs first (c # s) = (list_ex (\<lambda>r. re_here r first (c # s)) rs \<or> re_search rs False s)"

definition toolGlobMatches :: "string \<Rightarrow> string \<Rightarrow> bool" where
  "toolGlobMatches glob nm = (case re_parse (globToRegex glob) of None \<Rightarrow> False | Some rs \<Rightarrow> re_search rs True nm)"

text \<open>The declarative meaning of a glob, character by character.\<close>

inductive glob_spec :: "string \<Rightarrow> string \<Rightarrow> bool" where
  glob_nil: "glob_spec [] []"
| glob_lit: "c \<noteq> CHR ''*'' \<Longrightarrow> glob_spec g s \<Longrightarrow> glob_spec (c # g) (c # s)"
| glob_star: "list_all (\<lambda>c. \<not> line_terminator c) u \<Longrightarrow> glob_spec g s \<Longrightarrow>
    glob_spec (CHR ''*'' # g) (u @ s)"

inductive_simps glob_spec_Nil: "glob_spec [] s"
inductive_simps glob_spec_Cons: "glob_spec (c # g) s"

text \<open>The pattern of a glob, piece by piece, and what it parses to.\<close>

fun glob_source :: "string \<Rightarrow> string" where
  "glob_source [] = []"
| "glob_source (c # g) =
     (if c = CHR ''*'' then ''.*'' else if c \<in> set RE_SPECIAL then [backslash, c] else [c]) @ glob_source g"

definition glob_term :: "char \<Rightarrow> re_term" where
  "glob_term c = (if c = CHR ''*'' then Many AnyChar else One (Lit c))"

lemma joined_pieces: "join_with ''.*'' (map escapeRe (split_on CHR ''*'' g)) = glob_source g"
proof (induction g)
  case (Cons c g)
  obtain p ps where "split_on CHR ''*'' g = p # ps" by (cases "split_on CHR ''*'' g") (auto simp: split_on_not_Nil)
  with Cons show ?case by (cases ps) (auto simp: escapeRe_def)
qed (simp add: escapeRe_def)

lemma special_chars [simp]:
  "set RE_SPECIAL = {CHR ''.'', CHR ''*'', CHR ''+'', CHR ''?'', CHR ''^'', CHR ''$'', CHR ''{'', CHR ''}'', CHR ''('',
     CHR '')'', CHR ''|'', CHR ''['', CHR '']'', backslash}"
  by (auto simp: RE_SPECIAL_def)

lemma escaped_is_syntax: "set RE_SPECIAL = re_syntax"
  by (auto simp: re_syntax_def)

lemma glob_source_start: "glob_source g @ ''$'' \<noteq> [] \<and> hd (glob_source g @ ''$'') \<noteq> CHR ''*''"
  by (cases g) (auto simp: backslash_def)

lemma parse_glob: "re_parse (glob_source g @ ''$'') = Some [map glob_term g @ [AtEnd]]"
proof (induction g)
  case (Cons c g)
  note start = glob_source_start[of g]
  consider "c = CHR ''*''" | "c \<noteq> CHR ''*''" "c \<in> set RE_SPECIAL" | "c \<notin> set RE_SPECIAL" by blast
  then show ?case
  proof cases
    case 2
    then have "read_atom (backslash # c # glob_source g @ ''$'') = Some (Lit c, glob_source g @ ''$'')" by (simp add: escaped_is_syntax del: special_chars)
    with 2 start Cons show ?thesis
      by (simp add: glob_term_def del: special_chars read_atom.simps) (simp add: backslash_def)
  next
    case 3
    then have "read_atom (c # glob_source g @ ''$'') = Some (Lit c, glob_source g @ ''$'')" unfolding escaped_is_syntax by (auto simp: re_syntax_def)
    with 3 start Cons show ?thesis
      by (simp add: glob_term_def del: read_atom.simps)
  qed (use Cons in \<open>simp add: glob_term_def backslash_def\<close>)
qed simp

text \<open>A matcher for globs, and that it is what the search with the anchored pattern does.\<close>

fun glob_match :: "string \<Rightarrow> string \<Rightarrow> bool" where
  "glob_match [] s = (s = [])"
| "glob_match (c # g) [] = (c = CHR ''*'' \<and> glob_match g [])"
| "glob_match (c # g) (d # s) =
     (if c = CHR ''*'' then glob_match g (d # s) \<or> \<not> line_terminator d \<and> glob_match (c # g) s
      else c = d \<and> glob_match g s)"

lemma here_glob: "re_here (map glob_term g @ [AtEnd]) first s = glob_match g s"
  by (induction g s arbitrary: first rule: glob_match.induct) (auto simp: glob_term_def)

lemma anchored_search: "re_search [AtStart # r] False s = False"
  by (induction s) auto

lemma toolGlobMatches_glob: "toolGlobMatches glob nm = glob_match glob nm"
proof -
  have "re_parse (globToRegex glob) = Some [AtStart # map glob_term glob @ [AtEnd]]"
    unfolding globToRegex_def joined_pieces by (simp add: parse_glob)
  then show ?thesis by (cases nm) (simp_all add: toolGlobMatches_def here_glob anchored_search)
qed

lemma ex_append_Cons:
  "(\<exists>u v. c # s = u @ v \<and> P u v) \<longleftrightarrow> P [] (c # s) \<or> (\<exists>u v. s = u @ v \<and> P (c # u) v)"
proof
  assume "\<exists>u v. c # s = u @ v \<and> P u v"
  then obtain u v where uv: "c # s = u @ v" "P u v" by blast
  then show "P [] (c # s) \<or> (\<exists>u v. s = u @ v \<and> P (c # u) v)" by (cases u) auto
next
  assume "P [] (c # s) \<or> (\<exists>u v. s = u @ v \<and> P (c # u) v)"
  then show "\<exists>u v. c # s = u @ v \<and> P u v" by (metis append_Cons append_Nil)
qed

lemma glob_match_star:
  "glob_match (CHR ''*'' # g) s \<longleftrightarrow>
     (\<exists>u v. s = u @ v \<and> list_all (\<lambda>c. \<not> line_terminator c) u \<and> glob_match g v)"
proof (induction s)
  case (Cons c s)
  have "glob_match (CHR ''*'' # g) (c # s) \<longleftrightarrow> glob_match g (c # s) \<or> \<not> line_terminator c \<and>
      (\<exists>u v. s = u @ v \<and> list_all (\<lambda>c. \<not> line_terminator c) u \<and> glob_match g v)"
    by (simp add: Cons)
  also have "\<dots> \<longleftrightarrow>
      (\<exists>u v. c # s = u @ v \<and> list_all (\<lambda>c. \<not> line_terminator c) u \<and> glob_match g v)"
    by (subst ex_append_Cons) auto
  finally show ?case .
qed simp

lemma glob_match_char: "c \<noteq> CHR ''*'' \<Longrightarrow> glob_match (c # g) s \<longleftrightarrow> (\<exists>t. s = c # t \<and> glob_match g t)"
  by (cases s) auto

section \<open>Rules and the decision\<close>

definition rulesMatchingTool :: "policy \<Rightarrow> string \<Rightarrow> policy_rule list" where
  "rulesMatchingTool pol nm = filter (\<lambda>rule. toolGlobMatches (pr_tool rule) nm) (pol_rules pol)"

text \<open>\<open>JSON.stringify(call.args ?? {})\<close>\<close>

definition args_text :: "tool_call \<Rightarrow> string" where
  "args_text call = json_text (case call_args call of None \<Rightarrow> JObj [] | Some a \<Rightarrow> a)"

text \<open>An absent or empty \<open>argsPattern\<close> is falsy and constrains nothing.\<close>

definition args_match :: "(string \<Rightarrow> string \<Rightarrow> bool) \<Rightarrow> tool_call \<Rightarrow> policy_rule \<Rightarrow> bool" where
  "args_match re_test call rule =
     (case pr_argsPattern rule of
        None \<Rightarrow> True
      | Some p \<Rightarrow> p = [] \<or> re_test p (args_text call))"

fun first_rule :: "(string \<Rightarrow> string \<Rightarrow> bool) \<Rightarrow> tool_call \<Rightarrow> policy_rule list \<Rightarrow> verdict option" where
  "first_rule re_test call [] = None"
| "first_rule re_test call (rule # rs) =
     (if \<not> args_match re_test call rule then first_rule re_test call rs
      else Some \<lparr>v_decision = pr_decision rule, v_ruleId = Some (pr_id rule),
             v_reason = (case pr_description rule of
                 None \<Rightarrow> ''matched rule '' @ pr_id rule | Some d \<Rightarrow> d)\<rparr>)"

definition evaluate :: "(string \<Rightarrow> string \<Rightarrow> bool) \<Rightarrow> tool_call \<Rightarrow> policy \<Rightarrow> kill_state \<Rightarrow> verdict" where
  "evaluate re_test call pol kill =
     (if ks_killed kill then
        \<lparr>v_decision = Deny, v_ruleId = None,
         v_reason = ''kill switch engaged'' @
           (case ks_reason kill of None \<Rightarrow> [] | Some r \<Rightarrow> if r = [] then [] else '': '' @ r)\<rparr>
      else if call_agentId call \<in> set (ks_killedAgents kill) then
        \<lparr>v_decision = Deny, v_ruleId = None,
         v_reason = ''agent '' @ quoted (call_agentId call) @
           '' is scope-killed - denied until an owner restores it''\<rparr>
      else (case first_rule re_test call (rulesMatchingTool pol (call_tool call)) of
              Some v \<Rightarrow> v
            | None \<Rightarrow> \<lparr>v_decision = pol_defaultDecision pol, v_ruleId = None,
                        v_reason = ''no rule matched - fail-closed default''\<rparr>))"

text \<open>A rule fires for a call when its glob and its arguments pattern both match.\<close>

definition rule_fires :: "(string \<Rightarrow> string \<Rightarrow> bool) \<Rightarrow> tool_call \<Rightarrow> policy_rule \<Rightarrow> bool" where
  "rule_fires re_test call rule \<longleftrightarrow>
     toolGlobMatches (pr_tool rule) (call_tool call) \<and> args_match re_test call rule"

lemma first_rule_find:
  "first_rule re_test call rs =
     map_option (\<lambda>rule. \<lparr>v_decision = pr_decision rule, v_ruleId = Some (pr_id rule),
        v_reason = (case pr_description rule of
            None \<Rightarrow> ''matched rule '' @ pr_id rule | Some d \<Rightarrow> d)\<rparr>)
       (find (args_match re_test call) rs)"
  by (induction rs) auto

lemma find_filter: "find P (filter Q xs) = find (\<lambda>x. Q x \<and> P x) xs"
  by (induction xs) auto

lemma first_rule_matching:
  "find (args_match re_test call) (rulesMatchingTool pol (call_tool call)) =
     find (rule_fires re_test call) (pol_rules pol)"
  by (simp add: rulesMatchingTool_def find_filter rule_fires_def[abs_def])

lemma evaluate_killed: "ks_killed kill \<Longrightarrow> v_decision (evaluate re_test call pol kill) = Deny"
  by (simp add: evaluate_def)

lemma evaluate_scope_killed:
  "call_agentId call \<in> set (ks_killedAgents kill) \<Longrightarrow> v_decision (evaluate re_test call pol kill) = Deny"
  by (simp add: evaluate_def)

section \<open>Properties\<close>

text \<open>
  C32: the pattern compiled from a tool glob matches exactly the tool names the glob
  means: every character other than the star stands for itself, whatever it means
  in a regular expression, and a star stands for any run without a line terminator.
\<close>
theorem toolGlobMatches_spec: "toolGlobMatches glob nm \<longleftrightarrow> glob_spec glob nm"
  unfolding toolGlobMatches_glob
proof (induction glob arbitrary: nm)
  case (Cons c g)
  then show ?case
    by (cases "c = CHR ''*''") (auto simp: glob_spec_Cons glob_match_star glob_match_char simp del: glob_match.simps)
qed (simp add: glob_spec_Nil)

text \<open>
  C9: the order of authority of \<open>evaluate\<close>.  The verdict is a denial under a global
  kill and under a scoped kill of the caller, whatever the policy says; otherwise it
  is the decision of the first rule in policy order whose glob and arguments pattern
  match, and the policy's default when there is none.
\<close>
theorem evaluate_authority:
  "v_decision (evaluate re_test call pol kill) =
     (if ks_killed kill \<or> call_agentId call \<in> set (ks_killedAgents kill) then Deny
      else case find (rule_fires re_test call) (pol_rules pol) of
             Some rule \<Rightarrow> pr_decision rule
           | None \<Rightarrow> pol_defaultDecision pol)"
  by (simp add: evaluate_def first_rule_find first_rule_matching split: option.split)

end
