(* ===== verification/Json.thy ===== *)
theory Json
  imports Prelude
begin

text \<open>
  The part of the JavaScript library the stores of the program rest on: \<open>JSON.parse\<close>
  and \<open>JSON.stringify\<close> with an indentation, over the values of the prelude, and the theorem
  that parsing undoes printing.

  A number literal is read as the nearest double (ties to even), \<open>NInt\<close> when that double is
  integral.  A \<open>u\<close> escape of a code unit above U+00FF lies outside the modelled strings and is
  refused here.  An object lists its keys in JavaScript's enumeration order; of a repeated key
  the last value counts.
\<close>

section \<open>Number literals\<close>

text \<open>The value of a literal: sign, digits before and after the point, exponent.\<close>

definition literal_value :: "bool \<Rightarrow> string \<Rightarrow> string \<Rightarrow> int \<Rightarrow> js_num" where
  "literal_value neg ip fp ex =
     (let m = digits_value (ip @ fp); e = ex - int (length fp) in
      if m = 0 then NInt 0
      else if 400 < e then NNonFinite
      else if e < - int (length (ip @ fp)) - 400 then NInt 0
      else
        let (p, q) = (if 0 \<le> e then (m * 10 ^ nat e, 1) else (m, 10 ^ nat (- e))) in
        (case nearest_double p q of
           Whole v \<Rightarrow> NInt (if neg then - int v else int v)
         | Broken \<Rightarrow> NFrac ((if neg then ''-'' else []) @ shortest_text (double_ratio p q))
         | Infinite \<Rightarrow> NNonFinite))"

definition span_digits :: "string \<Rightarrow> string \<times> string" where
  "span_digits s = (takeWhile is_digit s, dropWhile is_digit s)"

fun drop_sign :: "string \<Rightarrow> bool \<times> string" where
  "drop_sign (c # cs) = (if c = CHR ''-'' then (True, cs) else (False, c # cs))"
| "drop_sign [] = (False, [])"

fun parse_fraction :: "string \<Rightarrow> (string \<times> string) option" where
  "parse_fraction (c # cs) =
     (if c = CHR ''.'' then (case span_digits cs of ([], _) \<Rightarrow> None | (d # ds, r) \<Rightarrow> Some (d # ds, r))
      else Some ([], c # cs))"
| "parse_fraction [] = Some ([], [])"

fun exponent_sign :: "string \<Rightarrow> bool \<times> string" where
  "exponent_sign (d # r) = (if d = CHR ''+'' then (False, r) else drop_sign (d # r))"
| "exponent_sign [] = (False, [])"

fun parse_exponent :: "string \<Rightarrow> (int \<times> string) option" where
  "parse_exponent (c # cs) =
     (if c = CHR ''e'' \<or> c = CHR ''E'' then
        (case span_digits (snd (exponent_sign cs)) of
           ([], _) \<Rightarrow> None
         | (d # dd, r) \<Rightarrow>
             Some (if fst (exponent_sign cs) then - int (digits_value (d # dd)) else int (digits_value (d # dd)), r))
      else Some (0, c # cs))"
| "parse_exponent [] = Some (0, [])"

definition parse_number :: "string \<Rightarrow> (json \<times> string) option" where
  "parse_number s =
     (let (neg, s1) = drop_sign s; (ip, s2) = span_digits s1 in
      if ip = [] \<or> (hd ip = CHR ''0'' \<and> 1 < length ip) then None
      else
        case parse_fraction s2 of
          None \<Rightarrow> None
        | Some (fp, s3) \<Rightarrow>
            (case parse_exponent s3 of
               None \<Rightarrow> None
             | Some (ex, s4) \<Rightarrow>
                 Some (JNum (literal_value neg ip fp ex), s4)))"

text \<open>The exact value of a literal, and the comparison of an integer reading with a number.\<close>

definition literal_rat :: "string \<Rightarrow> rat" where
  "literal_rat s =
     (let (neg, s1) = drop_sign s; (ip, s2) = span_digits s1;
          (fp, s3) = (case parse_fraction s2 of None \<Rightarrow> ([], s2) | Some x \<Rightarrow> x);
          ex = (case parse_exponent s3 of None \<Rightarrow> 0 | Some x \<Rightarrow> fst x) - int (length fp);
          m = rat_of_nat (digits_value (ip @ fp));
          v = (if 0 \<le> ex then m * 10 ^ nat ex else m / 10 ^ nat (- ex))
      in if neg then - v else v)"

fun before_num :: "int \<Rightarrow> js_num \<Rightarrow> bool" where
  "before_num now (NInt i) = (now < i)"
| "before_num now (NFrac t) = (rat_of_int now < to_double (literal_rat t))"
| "before_num now NNonFinite = False"

section \<open>String literals\<close>

definition hex_value :: "char \<Rightarrow> nat option" where
  "hex_value c =
     (let n = code_unit c in
      if is_digit c then Some (n - 48)
      else if 97 \<le> n \<and> n \<le> 102 then Some (n - 87)
      else if 65 \<le> n \<and> n \<le> 70 then Some (n - 55)
      else None)"

definition hex_unit :: "char \<Rightarrow> char \<Rightarrow> char \<Rightarrow> char \<Rightarrow> char option" where
  "hex_unit a b c d =
     (case (hex_value a, hex_value b, hex_value c, hex_value d) of
        (Some 0, Some 0, Some h, Some l) \<Rightarrow> Some (char_of (16 * h + l))
      | _ \<Rightarrow> None)"

definition simple_escape :: "char \<Rightarrow> char option" where
  "simple_escape c =
     map_of [(CHR 0x22, CHR 0x22), (CHR 0x5C, CHR 0x5C), (CHR 0x2F, CHR 0x2F), (CHR ''b'', CHR 0x08),
       (CHR ''f'', CHR 0x0C), (CHR ''n'', CHR 0x0A), (CHR ''r'', CHR 0x0D), (CHR ''t'', CHR 0x09)] c"

fun escape_step :: "string \<Rightarrow> (char \<times> string) option" where
  "escape_step (c # cs) =
     (if c = CHR ''u'' then
        (case cs of h1 # h2 # h3 # h4 # r \<Rightarrow> map_option (\<lambda>u. (u, r)) (hex_unit h1 h2 h3 h4) | _ \<Rightarrow> None)
      else map_option (\<lambda>u. (u, cs)) (simple_escape c))"
| "escape_step [] = None"

text \<open>
  The text with every escape of a code unit beyond U+00FF written as the one of U+00FF.  It has the
  same shape as the text (a backslash is at home in string literals only) and the same ASCII.
\<close>

fun narrow_escapes :: "string \<Rightarrow> string" where
  "narrow_escapes [] = []"
| "narrow_escapes [c] = [c]"
| "narrow_escapes (c # e # cs) =
     (if c \<noteq> CHR 0x5C then c # narrow_escapes (e # cs)
      else if e = CHR ''u'' \<and> 4 \<le> length cs \<and> list_all (\<lambda>h. hex_value h \<noteq> None) (take 4 cs) \<and>
              list_ex (\<lambda>h. hex_value h \<noteq> Some 0) (take 2 cs) then
        c # e # ''00ff'' @ narrow_escapes (drop 4 cs)
      else c # e # narrow_escapes cs)"

lemma narrow_escapes_plain: "CHR 0x5C \<notin> set s \<Longrightarrow> narrow_escapes s = s"
  by (induction s rule: narrow_escapes.induct) auto

text \<open>The rest of a string literal after its opening quote.\<close>

function parse_string :: "string \<Rightarrow> (string \<times> string) option" where
  "parse_string [] = None"
| "parse_string (c # cs) =
     (if c = CHR 0x22 then Some ([], cs)
      else if code_unit c < 32 then None
      else if c = CHR 0x5C then
        (case escape_step cs of
           None \<Rightarrow> None
         | Some (u, r) \<Rightarrow> map_option (\<lambda>(s, r'). (u # s, r')) (parse_string r))
      else map_option (\<lambda>(s, r'). (c # s, r')) (parse_string cs))"
  by pat_completeness auto

lemma escape_step_length: "escape_step cs = Some (u, r) \<Longrightarrow> length r < length cs"
  by (cases cs rule: escape_step.cases) (auto split: if_splits list.splits)

termination parse_string
  by (relation "measure length") (auto dest: escape_step_length)

section \<open>Values\<close>

definition is_ws :: "char \<Rightarrow> bool" where
  "is_ws c \<longleftrightarrow> c = CHR '' '' \<or> c = CHR 0x0A \<or> c = CHR 0x0D \<or> c = CHR 0x09"

definition skip_ws :: "string \<Rightarrow> string" where
  "skip_ws s = dropWhile is_ws s"

definition expect :: "string \<Rightarrow> json \<Rightarrow> string \<Rightarrow> (json \<times> string) option" where
  "expect word v s = (if take (length word) s = word then Some (v, drop (length word) s) else None)"

text \<open>What the members of an object literal amount to.\<close>

definition object_of :: "(string \<times> json) list \<Rightarrow> json" where
  "object_of kvs = JObj (object_order (foldl (\<lambda>m kv. AList.update (fst kv) (snd kv) m) [] kvs))"

text \<open>
  The fuel bounds the recursion: every nested call has consumed a character, so the length of
  the text is enough.
\<close>

fun parse_value :: "nat \<Rightarrow> string \<Rightarrow> (json \<times> string) option"
  and parse_elems :: "nat \<Rightarrow> string \<Rightarrow> (json list \<times> string) option"
  and parse_members :: "nat \<Rightarrow> string \<Rightarrow> ((string \<times> json) list \<times> string) option" where
  "parse_value 0 s = None"
| "parse_value (Suc n) s =
     (case skip_ws s of
        [] \<Rightarrow> None
      | c # cs \<Rightarrow>
          if c = CHR ''{'' then
            (case skip_ws cs of
               d # r \<Rightarrow> if d = CHR ''}'' then Some (JObj [], r)
                 else map_option (\<lambda>(kvs, r'). (object_of kvs, r')) (parse_members n cs)
             | [] \<Rightarrow> None)
          else if c = CHR ''['' then
            (case skip_ws cs of
               d # r \<Rightarrow> if d = CHR '']'' then Some (JArr [], r)
                 else map_option (\<lambda>(vs, r'). (JArr vs, r')) (parse_elems n cs)
             | [] \<Rightarrow> None)
          else if c = CHR 0x22 then map_option (\<lambda>(t, r). (JStr t, r)) (parse_string cs)
          else if c = CHR ''t'' then expect ''true'' (JBool True) (c # cs)
          else if c = CHR ''f'' then expect ''false'' (JBool False) (c # cs)
          else if c = CHR ''n'' then expect ''null'' JNull (c # cs)
          else parse_number (c # cs))"
| "parse_elems 0 s = None"
| "parse_elems (Suc n) s =
     (case parse_value n s of
        None \<Rightarrow> None
      | Some (v, r) \<Rightarrow>
          (case skip_ws r of
             [] \<Rightarrow> None
           | c # r' \<Rightarrow>
               if c = CHR '','' then map_option (\<lambda>(vs, r2). (v # vs, r2)) (parse_elems n r')
               else if c = CHR '']'' then Some ([v], r')
               else None))"
| "parse_members 0 s = None"
| "parse_members (Suc n) s =
     (case skip_ws s of
        [] \<Rightarrow> None
      | q # cs \<Rightarrow>
          if q \<noteq> CHR 0x22 then None
          else
            (case parse_string cs of
               None \<Rightarrow> None
             | Some (k, r) \<Rightarrow>
                 (case skip_ws r of
                    [] \<Rightarrow> None
                  | c # r1 \<Rightarrow>
                      if c \<noteq> CHR '':'' then None
                      else
                        (case parse_value n r1 of
                           None \<Rightarrow> None
                         | Some (v, r2) \<Rightarrow>
                             (case skip_ws r2 of
                                [] \<Rightarrow> None
                              | e # r3 \<Rightarrow>
                                  if e = CHR '','' then
                                    map_option (\<lambda>(kvs, r4). ((k, v) # kvs, r4)) (parse_members n r3)
                                  else if e = CHR ''}'' then Some ([(k, v)], r3)
                                  else None)))))"

definition json_parse :: "string \<Rightarrow> json option" where
  "json_parse s =
     (case parse_value (length s) s of
        Some (v, r) \<Rightarrow> if skip_ws r = [] then Some v else None
      | None \<Rightarrow> None)"

section \<open>Printing with whitespace\<close>

fun json_fmt :: "(nat \<Rightarrow> string) \<Rightarrow> string \<Rightarrow> nat \<Rightarrow> json \<Rightarrow> string" where
  "json_fmt ws sp d JNull = ''null''"
| "json_fmt ws sp d (JBool b) = (if b then ''true'' else ''false'')"
| "json_fmt ws sp d (JNum n) = num_text n"
| "json_fmt ws sp d (JStr s) = json_string_text s"
| "json_fmt ws sp d (JArr xs) =
     (if xs = [] then ''[]''
      else CHR ''['' # ws (Suc d) @ join_with (CHR '','' # ws (Suc d)) (map (json_fmt ws sp (Suc d)) xs) @
             ws d @ '']'')"
| "json_fmt ws sp d (JObj kvs) =
     (if kvs = [] then ''{}''
      else CHR ''{'' # ws (Suc d) @
             join_with (CHR '','' # ws (Suc d))
               (map (\<lambda>p. json_string_text (fst p) @ CHR '':'' # sp @ json_fmt ws sp (Suc d) (snd p)) kvs) @
             ws d @ ''}'')"

text \<open>\<open>JSON.stringify(value, null, 2)\<close>\<close>

definition json_pretty :: "json \<Rightarrow> string" where
  "json_pretty v = json_fmt (\<lambda>d. CHR 0x0A # replicate (2 * d) CHR '' '') '' '' 0 v"

section \<open>Reading back what was printed\<close>

lemma code_unit_less: "code_unit c < 256"
  by (metis code_unit_def of_char_mod_256 mod_less_divisor zero_less_numeral)

lemma char_of_code_unit [simp]: "char_of (code_unit c) = c"
  by (simp add: code_unit_def)

lemma code_unit_char_of [simp]: "n < 256 \<Longrightarrow> code_unit (char_of n) = n"
  by (simp add: code_unit_def of_char_mod_256)

lemma hex_value_hex_char: "d < 16 \<Longrightarrow> hex_value (hex_char d) = Some d"
  by (simp add: hex_value_def hex_char_def is_digit_def Let_def)

lemma hex_unit_escape: "hex_unit (CHR ''0'') (CHR ''0'') (hex_char (code_unit c div 16)) (hex_char (code_unit c mod 16)) = Some c"
proof -
  have "hex_value (CHR ''0'') = Some 0" by (simp add: hex_value_def is_digit_def code_unit_def)
  moreover have "code_unit c div 16 < 16" using code_unit_less[of c] by simp
  ultimately show ?thesis
    by (simp add: hex_unit_def hex_value_hex_char)
qed

lemma char_eqI: "code_unit c = code_unit d \<Longrightarrow> c = d"
  by (metis char_of_code_unit)

lemma plain_escapes:
  assumes "code_unit c \<in> {34, 92, 8, 9, 10, 12, 13}"
  shows "\<exists>d. escape_char c = [CHR 0x5C, d] \<and> d \<noteq> CHR ''u'' \<and> simple_escape d = Some c"
proof -
  have units: "code_unit (CHR 0x22) = 34" "code_unit (CHR 0x5C) = 92" "code_unit (CHR 0x08) = 8"
    "code_unit (CHR 0x09) = 9" "code_unit (CHR 0x0A) = 10" "code_unit (CHR 0x0C) = 12"
    "code_unit (CHR 0x0D) = 13" by (simp_all add: code_unit_def)
  have "c = CHR 0x22 \<or> c = CHR 0x5C \<or> c = CHR 0x08 \<or> c = CHR 0x09 \<or> c = CHR 0x0A \<or>
      c = CHR 0x0C \<or> c = CHR 0x0D"
    using assms units char_eqI by (metis insertE empty_iff)
  then show ?thesis
    by (elim disjE) (simp_all only: escape_char_def Let_def units, simp_all add: simple_escape_def)
qed

lemma parse_escaped_char:
  "parse_string (escape_char c @ r) = map_option (\<lambda>(s, r'). (c # s, r')) (parse_string r)"
proof -
  have bs: "code_unit (CHR 0x5C) = 92" by (simp add: code_unit_def)
  consider "code_unit c \<in> {34, 92, 8, 9, 10, 12, 13}"
    | "code_unit c < 32" "code_unit c \<notin> {34, 92, 8, 9, 10, 12, 13}"
    | "\<not> code_unit c < 32" "code_unit c \<notin> {34, 92}" by auto
  then show ?thesis
  proof cases
    case 1
    from plain_escapes[OF this] bs show ?thesis by auto
  next
    case 2
    with hex_unit_escape[of c] bs show ?thesis by (simp add: escape_char_def Let_def)
  next
    case 3
    then have "c \<noteq> CHR 0x22" "c \<noteq> CHR 0x5C" by (auto simp: code_unit_def)
    with 3 show ?thesis by (simp add: escape_char_def Let_def)
  qed
qed

lemma parse_escaped: "parse_string (concat (map escape_char s) @ CHR 0x22 # r) = Some (s, r)"
proof (induction s)
  case (Cons c s)
  then show ?case by (simp add: parse_escaped_char)
qed simp

subsection \<open>Integers\<close>

lemma is_digit_digit_char [simp]: "d < 10 \<Longrightarrow> is_digit (digit_char d)"
  by (simp add: digit_char_def is_digit_def)

lemma show_nat_digits: "list_all is_digit (show_nat n)"
proof (induction n rule: show_nat.induct)
  case (1 n)
  then show ?case
    by (subst show_nat.simps) auto
qed

lemma show_nat_value: "digits_value (show_nat n) = n"
proof (induction n rule: show_nat.induct)
  case (1 n)
  have step: "digits_value (s @ [digit_char d]) = 10 * digits_value s + d" if "d < 10" for s d
    using that by (simp add: digits_value_def digit_char_def)
  from 1 step[of "n mod 10" "show_nat (n div 10)"] step[of n "[]"] show ?case
    by (subst show_nat.simps) (auto simp: digits_value_def)
qed

lemma show_nat_head: "show_nat n \<noteq> [] \<and> (hd (show_nat n) = CHR ''0'' \<longrightarrow> length (show_nat n) = 1)"
proof (induction n rule: show_nat.induct)
  case (1 n)
  show ?case
  proof (cases "n < 10")
    case True
    then show ?thesis by (subst (1 2 3) show_nat.simps) simp
  next
    case False
    have "hd (show_nat (n div 10)) = CHR ''0'' \<Longrightarrow> n div 10 = 0"
    proof -
      assume h: "hd (show_nat (n div 10)) = CHR ''0''"
      with 1 False have "length (show_nat (n div 10)) = 1" "show_nat (n div 10) \<noteq> []" by auto
      with h have "show_nat (n div 10) = ''0''" by (cases "show_nat (n div 10)") auto
      then show "n div 10 = 0"
        using show_nat_value[of "n div 10"] by (simp add: digits_value_def code_unit_def)
    qed
    with 1 False show ?thesis by (subst (1 2 3) show_nat.simps) auto
  qed
qed

lemma bit_length_le: "n < 2 ^ k \<Longrightarrow> bit_length n \<le> k"
proof (induction k arbitrary: n)
  case 0
  then show ?case by (simp add: bit_length.simps)
next
  case (Suc k)
  then have "bit_length (n div 2) \<le> k" by simp
  then show ?case by (subst bit_length.simps) simp
qed

lemma nearest_double_whole:
  assumes "n < 2 ^ 53"
  shows "nearest_double n 1 = Whole n"
proof (cases "n = 0")
  case False
  define e where "e = double_exponent n (Suc 0)"
  have one: "bit_length (Suc 0) = 1" by (simp add: bit_length.simps)
  have e: "e \<le> 0" using bit_length_le[OF assms]
    by (auto simp: e_def double_exponent_def one Let_def split: prod.split)
  have "(2::nat) ^ 53 \<le> 2 ^ 1024" by (rule power_increasing) auto
  with assms have big: "n < 2 ^ 1024" by linarith
  show ?thesis
  proof (cases "e = 0")
    case True
    with False big show ?thesis
      by (simp add: nearest_double_def e_def[symmetric] scaled_def round_half_even_def)
  next
    case neg: False
    with e have "\<not> 0 \<le> e" by simp
    with False show ?thesis
      by (simp add: nearest_double_def e_def[symmetric] scaled_def round_half_even_def)
  qed
qed (simp add: nearest_double_def)

text \<open>Where a number literal ends.\<close>

definition number_stops :: "string \<Rightarrow> bool" where
  "number_stops r \<longleftrightarrow> (case r of [] \<Rightarrow> True
     | c # _ \<Rightarrow> \<not> is_digit c \<and> c \<noteq> CHR ''.'' \<and> c \<noteq> CHR ''e'' \<and> c \<noteq> CHR ''E'')"

lemma span_show_nat: "number_stops r \<Longrightarrow> span_digits (show_nat n @ r) = (show_nat n, r)"
  using show_nat_digits[of n]
  by (cases r) (auto simp: span_digits_def number_stops_def list_all_iff takeWhile_append2 dropWhile_append2)

lemma number_stops_fraction: "number_stops r \<Longrightarrow> parse_fraction r = Some ([], r)"
  by (cases r) (auto simp: number_stops_def)

lemma number_stops_exponent: "number_stops r \<Longrightarrow> parse_exponent r = Some (0, r)"
  by (cases r) (auto simp: number_stops_def)

lemma parse_show_int:
  assumes "is_safe_int i" and "number_stops r"
  shows "parse_number (show_int i @ r) = Some (JNum (NInt i), r)"
proof -
  have pos: "\<not> is_digit (CHR ''-'')" by (simp add: is_digit_def code_unit_def)
  have hd: "hd (show_nat n) \<noteq> CHR ''-''" for n
    using show_nat_digits[of n] show_nat_head[of n] pos by (cases "show_nat n") auto
  have sign: "drop_sign (show_nat n @ r) = (False, show_nat n @ r)" for n
    using hd[of n] show_nat_head[of n] by (cases "show_nat n") auto
  have small: "nat i < 2 ^ 53" "nat (- i) < 2 ^ 53"
    using assms(1) by (auto simp: is_safe_int_def MAX_SAFE_INTEGER_def)
  have lit: "literal_value neg (show_nat n) [] 0 = NInt (if neg then - int n else int n)"
    if "n < 2 ^ 53" for n neg
    using nearest_double_whole[OF that] by (simp add: literal_value_def show_nat_value Let_def)
  show ?thesis
    using assms(2) show_nat_head small
    by (auto simp: parse_number_def show_int_def sign span_show_nat number_stops_fraction
        number_stops_exponent lit Let_def)
qed

subsection \<open>Numbers that read back\<close>

text \<open>What the program prints: safe integers, and fractions whose text reads as themselves.\<close>

fun num_ok :: "js_num \<Rightarrow> bool" where
  "num_ok (NInt i) = is_safe_int i"
| "num_ok (NFrac t) = (parse_number t = Some (JNum (NFrac t), []))"
| "num_ok NNonFinite = False"

lemma safe_num_ok: "safe_integer n \<noteq> None \<Longrightarrow> num_ok n"
  by (cases n) (auto split: if_splits)

lemma span_digits_append:
  assumes "span_digits s = (ip, s2)" and "number_stops r"
  shows "span_digits (s @ r) = (ip, s2 @ r)"
proof (cases "list_all is_digit s")
  case True
  then have all: "\<forall>x\<in>set s. is_digit x" by (simp add: list_all_iff)
  then have "takeWhile is_digit s = s" "dropWhile is_digit s = []" by auto
  moreover have "takeWhile is_digit r = []" "dropWhile is_digit r = r"
    using assms(2) by (cases r; simp add: number_stops_def)+
  ultimately show ?thesis
    using assms(1) all by (metis span_digits_def prod.inject takeWhile_append2 dropWhile_append2 append_Nil append_Nil2)
next
  case False
  then obtain x where "x \<in> set s" "\<not> is_digit x" by (auto simp: list_all_iff)
  with assms(1) show ?thesis by (auto simp: span_digits_def takeWhile_append1 dropWhile_append1)
qed

lemma parse_fraction_append:
  assumes "parse_fraction s = Some (fp, s3)" and "number_stops r"
  shows "parse_fraction (s @ r) = Some (fp, s3 @ r)"
proof (cases s)
  case Nil
  with assms show ?thesis by (auto simp: number_stops_fraction)
next
  case (Cons c cs)
  obtain ds rest where "span_digits cs = (ds, rest)" by fastforce
  with assms Cons span_digits_append[OF this assms(2)] show ?thesis by (auto split: if_splits list.splits)
qed

lemma parse_exponent_append:
  assumes "parse_exponent s = Some (ex, s4)" and "number_stops r"
  shows "parse_exponent (s @ r) = Some (ex, s4 @ r)"
proof (cases s)
  case Nil
  with assms show ?thesis by (auto simp: number_stops_exponent)
next
  case (Cons c cs)
  obtain ds rest where span: "span_digits (snd (exponent_sign cs)) = (ds, rest)" by fastforce
  show ?thesis
  proof (cases "c = CHR ''e'' \<or> c = CHR ''E''")
    case True
    with assms(1) Cons span have ds: "ds \<noteq> []" "cs \<noteq> []" by (auto simp: span_digits_def)
    have "exponent_sign (cs @ r) = (fst (exponent_sign cs), snd (exponent_sign cs) @ r)"
      using ds(2) by (cases cs) auto
    with assms(1) Cons ds span span_digits_append[OF span assms(2)] True show ?thesis
      by (auto split: list.splits)
  next
    case False
    with assms Cons show ?thesis by auto
  qed
qed

lemma parse_number_append:
  assumes "parse_number s = Some (v, [])" and "number_stops r"
  shows "parse_number (s @ r) = Some (v, r)"
proof -
  obtain neg s1 where d: "drop_sign s = (neg, s1)" by fastforce
  obtain ip s2 where i: "span_digits s1 = (ip, s2)" by fastforce
  from assms(1) d i obtain fp s3 ex where f: "parse_fraction s2 = Some (fp, s3)" "parse_exponent s3 = Some (ex, [])"
    by (auto simp: parse_number_def split: if_splits option.splits)
  have "s \<noteq> []" using assms(1) by (auto simp: parse_number_def span_digits_def)
  then have "drop_sign (s @ r) = (neg, s1 @ r)" using d by (cases s) (auto split: if_splits)
  with assms d i f span_digits_append[OF i assms(2)] parse_fraction_append[OF f(1) assms(2)]
    parse_exponent_append[OF f(2) assms(2)] show ?thesis
    by (auto simp: parse_number_def split: if_splits)
qed

lemma num_reads:
  assumes "num_ok n" and "number_stops r"
  shows "parse_number (num_text n @ r) = Some (JNum n, r)"
  using assms parse_show_int parse_number_append by (cases n) auto

subsection \<open>Whole values\<close>

text \<open>What the program stores: such numbers, and objects in enumeration order without repeated keys.\<close>

fun json_ok :: "json \<Rightarrow> bool" where
  "json_ok (JNum n) = num_ok n"
| "json_ok (JArr xs) = list_all json_ok xs"
| "json_ok (JObj kvs) =
     (distinct (map_keys kvs) \<and> object_order kvs = kvs \<and> list_all (\<lambda>p. json_ok (snd p)) kvs)"
| "json_ok _ = True"

fun need :: "json \<Rightarrow> nat" where
  "need (JArr xs) = Suc (sum_list (map (\<lambda>x. Suc (need x)) xs))"
| "need (JObj kvs) = Suc (sum_list (map (\<lambda>p. Suc (need (snd p))) kvs))"
| "need _ = 1"

lemma skip_ws_simps [simp]:
  "list_all is_ws p \<Longrightarrow> skip_ws (p @ s) = skip_ws s"
  "\<not> is_ws c \<Longrightarrow> skip_ws (c # s) = c # s"
  "skip_ws [] = []"
  by (auto simp: skip_ws_def list_all_iff)

lemma ws_units [simp]:
  "\<not> is_ws (CHR ''{'')" "\<not> is_ws (CHR ''}'')" "\<not> is_ws (CHR ''['')" "\<not> is_ws (CHR '']'')"
  "\<not> is_ws (CHR '','')" "\<not> is_ws (CHR '':'')" "\<not> is_ws (CHR 0x22)" "\<not> is_ws (CHR ''t'')"
  "\<not> is_ws (CHR ''f'')" "\<not> is_ws (CHR ''n'')" "\<not> is_ws (CHR ''-'')"
  by (simp_all add: is_ws_def)

lemma number_stops_simps [simp]:
  "number_stops []"
  "number_stops (CHR '','' # r)" "number_stops (CHR '']'' # r)" "number_stops (CHR ''}'' # r)"
  by (simp_all add: number_stops_def is_digit_def code_unit_def)

lemma number_stops_ws: "list_all is_ws w \<Longrightarrow> number_stops r \<Longrightarrow> number_stops (w @ r)"
  by (cases w) (auto simp: number_stops_def is_ws_def is_digit_def code_unit_def)

lemma digit_heads: "is_digit c \<Longrightarrow> \<not> is_ws c \<and> c \<notin> {CHR ''{'', CHR ''['', CHR 0x22, CHR ''t'', CHR ''f'', CHR ''n''}"
  by (auto simp: is_digit_def is_ws_def code_unit_def)

lemma number_head:
  assumes "parse_number s = Some v"
  shows "\<exists>c cs. s = c # cs \<and> \<not> is_ws c \<and> c \<notin> {CHR ''{'', CHR ''['', CHR 0x22, CHR ''t'', CHR ''f'', CHR ''n''}"
proof -
  obtain c cs where s: "s = c # cs" using assms by (cases s) (auto simp: parse_number_def span_digits_def)
  have "c = CHR ''-'' \<or> is_digit c"
    using assms by (auto simp: s parse_number_def span_digits_def split: if_splits)
  then show ?thesis using s digit_heads[of c] by auto
qed

lemma num_text_head:
  "num_ok n \<Longrightarrow> \<exists>c cs. num_text n = c # cs \<and> \<not> is_ws c \<and> c \<notin> {CHR ''{'', CHR ''['', CHR 0x22, CHR ''t'', CHR ''f'', CHR ''n''}"
  using num_reads[of n "[]"] number_head[of "num_text n"] by simp

lemma parse_value_other:
  assumes "skip_ws s = c # cs" "c \<notin> {CHR ''{'', CHR ''['', CHR 0x22, CHR ''t'', CHR ''f'', CHR ''n''}"
  shows "parse_value (Suc n) s = parse_number (c # cs)"
  using assms by simp

lemma parse_value_number:
  assumes "num_ok v" "number_stops r" "list_all is_ws p"
  shows "parse_value (Suc n) (p @ num_text v @ r) = Some (JNum v, r)"
proof -
  obtain c cs where c: "num_text v = c # cs" "\<not> is_ws c" "c \<notin> {CHR ''{'', CHR ''['', CHR 0x22, CHR ''t'', CHR ''f'', CHR ''n''}"
    using num_text_head[OF assms(1)] by (elim exE conjE) (rule that)
  then have "skip_ws (p @ num_text v @ r) = c # cs @ r" using assms(3) by (simp del: insert_iff)
  from parse_value_other[OF this c(3)] num_reads[OF assms(1,2)] c(1) show ?thesis by simp
qed

lemma parse_value_array:
  assumes "skip_ws s = CHR ''['' # cs" "parse_elems n cs = Some (vs, r)"
  shows "parse_value (Suc n) s = Some (JArr vs, r)"
proof -
  have "parse_value m (CHR '']'' # t) = None" for m t
    by (cases m) (simp_all add: parse_value_other parse_number_def span_digits_def is_digit_def code_unit_def)
  moreover have "skip_ws cs = t \<Longrightarrow> parse_value m cs = parse_value m t" for m t
    by (cases m) (auto simp: skip_ws_def)
  ultimately have none: "skip_ws cs = CHR '']'' # t \<Longrightarrow> parse_value m cs = None" for m t by metis
  obtain m where m: "n = Suc m" using assms(2) by (cases n) auto
  have "skip_ws cs \<noteq> CHR '']'' # t" for t
    using none[of t m] assms(2) m by auto
  moreover have "skip_ws cs \<noteq> []"
    using assms(2) m by (cases m) auto
  ultimately show ?thesis using assms by (cases "skip_ws cs") auto
qed

lemma parse_value_object:
  assumes "skip_ws s = CHR ''{'' # cs" "parse_members n cs = Some (kvs, r)"
  shows "parse_value (Suc n) s = Some (object_of kvs, r)"
proof -
  obtain m where m: "n = Suc m" using assms(2) by (cases n) auto
  have "skip_ws cs \<noteq> CHR ''}'' # t" for t using assms(2) m by auto
  moreover have "skip_ws cs \<noteq> []" using assms(2) m by auto
  ultimately show ?thesis using assms by (cases "skip_ws cs") auto
qed

text \<open>What a value's printed text must satisfy for the text around it to be read.\<close>

definition reads_back :: "string \<Rightarrow> json \<Rightarrow> bool" where
  "reads_back t v \<longleftrightarrow> (\<forall>n p r. need v \<le> n \<longrightarrow> list_all is_ws p \<longrightarrow> number_stops r \<longrightarrow>
     parse_value n (p @ t @ r) = Some (v, r))"

lemma reads_backD:
  "reads_back t v \<Longrightarrow> need v \<le> n \<Longrightarrow> list_all is_ws p \<Longrightarrow> number_stops r \<Longrightarrow>
     parse_value n (p @ t @ r) = Some (v, r)"
  by (simp add: reads_back_def)

lemma parse_elems_printed:
  assumes "xs \<noteq> []" "\<forall>x\<in>set xs. reads_back (f x) x" "list_all is_ws p" "list_all is_ws w" "list_all is_ws w'"
    and "sum_list (map (\<lambda>x. Suc (need x)) xs) \<le> n"
  shows "parse_elems n (p @ join_with (CHR '','' # w) (map f xs) @ w' @ CHR '']'' # r) = Some (xs, r)"
  using assms
proof (induction xs arbitrary: n p)
  case (Cons x xs)
  then obtain m where n: "n = Suc m" "need x \<le> m" "sum_list (map (\<lambda>x. Suc (need x)) xs) \<le> m"
    by (cases n) auto
  show ?case
  proof (cases xs)
    case Nil
    with Cons.prems n show ?thesis
      using reads_backD[of "f x" x m p "w' @ CHR '']'' # r"] by (simp add: number_stops_ws)
  next
    case (Cons y ys)
    let ?rest = "join_with (CHR '','' # w) (map f xs) @ w' @ CHR '']'' # r"
    have "parse_value m (p @ f x @ CHR '','' # w @ ?rest) = Some (x, CHR '','' # w @ ?rest)"
      using Cons.prems n by (intro reads_backD) auto
    moreover have "parse_elems m (w @ ?rest) = Some (xs, r)"
      using Cons.prems n local.Cons by (intro Cons.IH) auto
    ultimately show ?thesis using n local.Cons by simp
  qed
qed simp

lemma parse_members_printed:
  assumes "kvs \<noteq> []" "\<forall>q\<in>set kvs. reads_back (f (snd q)) (snd q)" "list_all is_ws p" "list_all is_ws w"
    "list_all is_ws w'" "list_all is_ws sp"
    and "sum_list (map (\<lambda>q. Suc (need (snd q))) kvs) \<le> n"
  shows "parse_members n (p @ join_with (CHR '','' # w)
      (map (\<lambda>q. json_string_text (fst q) @ CHR '':'' # sp @ f (snd q)) kvs) @ w' @ CHR ''}'' # r) = Some (kvs, r)"
  using assms
proof (induction kvs arbitrary: n p)
  case (Cons q kvs)
  then obtain m where n: "n = Suc m" "need (snd q) \<le> m" "sum_list (map (\<lambda>q. Suc (need (snd q))) kvs) \<le> m"
    by (cases n) auto
  have key: "json_string_text k @ t = CHR 0x22 # concat (map escape_char k) @ CHR 0x22 # t" for k t
    by (simp add: json_string_text_def quoted_def)
  let ?g = "\<lambda>q. json_string_text (fst q) @ CHR '':'' # sp @ f (snd q)"
  show ?case
  proof (cases kvs)
    case Nil
    have "parse_value m (sp @ f (snd q) @ w' @ CHR ''}'' # r) = Some (snd q, w' @ CHR ''}'' # r)"
      using Cons.prems n by (intro reads_backD) (auto simp: number_stops_ws)
    with Nil Cons.prems n show ?thesis by (simp add: key parse_escaped)
  next
    case (Cons y ys)
    let ?rest = "join_with (CHR '','' # w) (map ?g kvs) @ w' @ CHR ''}'' # r"
    have "parse_value m (sp @ f (snd q) @ CHR '','' # w @ ?rest) = Some (snd q, CHR '','' # w @ ?rest)"
      using Cons.prems n by (intro reads_backD) auto
    moreover have "parse_members m (w @ ?rest) = Some (kvs, r)"
      using Cons.prems n local.Cons by (intro Cons.IH) auto
    ultimately show ?thesis using n local.Cons Cons.prems by (simp add: key parse_escaped)
  qed
qed simp

lemma object_of_ordered:
  "distinct (map_keys kvs) \<Longrightarrow> object_order kvs = kvs \<Longrightarrow> object_of kvs = JObj kvs"
  using foldl_update_distinct[of "[]" kvs] by (simp add: object_of_def)

lemma printed_reads_back:
  assumes "json_ok j" "\<forall>d. list_all is_ws (ws d)" "list_all is_ws sp"
  shows "reads_back (json_fmt ws sp d j) j"
  using assms(1)
proof (induction j arbitrary: d)
  case (JNum x)
  then show ?case unfolding reads_back_def
    using parse_value_number[of x] by (auto simp: Suc_le_eq gr0_conv_Suc simp del: parse_value.simps)
next
  case (JArr xs)
  then have sub: "\<forall>x\<in>set xs. reads_back (json_fmt ws sp (Suc d) x) x" by (auto simp: list_all_iff)
  show ?case unfolding reads_back_def
  proof (intro allI impI)
    fix n p r assume a: "need (JArr xs) \<le> n" "list_all is_ws p" "number_stops r"
    then obtain m where n: "n = Suc m" "sum_list (map (\<lambda>x. Suc (need x)) xs) \<le> m" by (cases n) auto
    show "parse_value n (p @ json_fmt ws sp d (JArr xs) @ r) = Some (JArr xs, r)"
    proof (cases "xs = []")
      case False
      from parse_elems_printed[OF this sub _ _ _ n(2)] assms(2) n(1) a(2) False show ?thesis
        by (simp add: parse_value_array del: parse_value.simps)
    qed (use a n in simp)
  qed
next
  case (JObj kvs)
  then have sub: "\<forall>q\<in>set kvs. reads_back (json_fmt ws sp (Suc d) (snd q)) (snd q)"
    by (auto simp: list_all_iff snds.simps)
  show ?case unfolding reads_back_def
  proof (intro allI impI)
    fix n p r assume a: "need (JObj kvs) \<le> n" "list_all is_ws p" "number_stops r"
    then obtain m where n: "n = Suc m" "sum_list (map (\<lambda>q. Suc (need (snd q))) kvs) \<le> m" by (cases n) auto
    show "parse_value n (p @ json_fmt ws sp d (JObj kvs) @ r) = Some (JObj kvs, r)"
    proof (cases "kvs = []")
      case False
      from parse_members_printed[OF this sub _ _ _ _ n(2)] assms(2,3) n(1) a(2) False JObj.prems show ?thesis
        by (simp add: parse_value_object object_of_ordered del: parse_value.simps)
    qed (use a n in simp)
  qed
qed (auto simp: reads_back_def Suc_le_eq gr0_conv_Suc expect_def json_string_text_def quoted_def parse_escaped)

lemma sum_le_joined:
  "\<forall>x\<in>set xs. g x \<le> length (f x) \<Longrightarrow>
     sum_list (map (\<lambda>x. Suc (g x)) xs) \<le> Suc (length (join_with (c # w) (map f xs)))"
proof (induction xs)
  case (Cons x xs)
  then show ?case by (cases xs) auto
qed simp

lemma num_text_length: "num_ok n \<Longrightarrow> 1 \<le> length (num_text n)"
  using num_text_head[of n] by auto

lemma need_le_printed: "json_ok j \<Longrightarrow> need j \<le> length (json_fmt ws sp d j)"
proof (induction j arbitrary: d)
  case (JNum n)
  then show ?case using num_text_length[of n] by simp
next
  case (JArr xs)
  then have "\<forall>x\<in>set xs. need x \<le> length (json_fmt ws sp (Suc d) x)" by (auto simp: list_all_iff)
  from sum_le_joined[OF this, of "CHR '',''" "ws (Suc d)"] show ?case by auto
next
  case (JObj kvs)
  then have "\<forall>q\<in>set kvs. need (snd q) \<le>
      length (json_string_text (fst q) @ CHR '':'' # sp @ json_fmt ws sp (Suc d) (snd q))"
    by (force simp: list_all_iff snds.simps intro: le_SucI trans_le_add2)
  from sum_le_joined[OF this, of "CHR '',''" "ws (Suc d)"] show ?case by auto
qed (auto simp: json_string_text_def quoted_def)

lemma json_parse_fmt:
  assumes "json_ok j" "\<forall>d. list_all is_ws (ws d)" "list_all is_ws sp" "list_all is_ws w"
  shows "json_parse (json_fmt ws sp d j @ w) = Some j"
proof -
  have "number_stops w" using number_stops_ws[OF assms(4), of "[]"] by simp
  moreover have "need j \<le> length (json_fmt ws sp d j @ w)"
    using need_le_printed[OF assms(1), of ws sp d] by simp
  ultimately have "parse_value (length (json_fmt ws sp d j @ w)) ([] @ json_fmt ws sp d j @ w) = Some (j, w)"
    by (intro reads_backD printed_reads_back assms) auto
  moreover have "skip_ws w = []" using skip_ws_simps(1)[OF assms(4), of "[]"] by simp
  ultimately show ?thesis by (simp add: json_parse_def)
qed

lemma json_parse_pretty: "json_ok j \<Longrightarrow> list_all is_ws w \<Longrightarrow> json_parse (json_pretty j @ w) = Some j"
  by (simp add: json_pretty_def json_parse_fmt is_ws_def list_all_iff)

lemma json_text_fmt: "json_fmt (\<lambda>d. []) [] d j = json_text j"
proof (induction j arbitrary: d)
  case (JArr xs)
  then have "map (json_fmt (\<lambda>d. []) [] (Suc d)) xs = map json_text xs" by simp
  then show ?case by (simp del: map_eq_conv)
next
  case (JObj kvs)
  then have "map (\<lambda>p. json_string_text (fst p) @ CHR '':'' # json_fmt (\<lambda>d. []) [] (Suc d) (snd p)) kvs =
      map (\<lambda>p. json_string_text (fst p) @ '':'' @ json_text (snd p)) kvs" by (auto simp: snds.simps)
  then show ?case by (simp del: map_eq_conv)
qed auto

lemma json_parse_text: "json_ok j \<Longrightarrow> json_parse (json_text j) = Some j"
  using json_parse_fmt[of j "\<lambda>d. []" "[]" "[]" 0] by (simp add: json_text_fmt)

section \<open>The shape of what is parsed\<close>

text \<open>Keys are distinct and in the order of an object at every depth.\<close>

fun keys_ok :: "json \<Rightarrow> bool" where
  "keys_ok (JArr xs) = list_all keys_ok xs"
| "keys_ok (JObj kvs) = (distinct (map_keys kvs) \<and> object_order kvs = kvs \<and> list_all (\<lambda>p. keys_ok (snd p)) kvs)"
| "keys_ok _ = True"

lemma foldl_update_keys:
  "distinct (map_keys m) \<Longrightarrow> distinct (map_keys (foldl (\<lambda>m kv. AList.update (fst kv) (snd kv) m) m kvs))"
  by (induction kvs arbitrary: m) (simp_all add: distinct_keys_update)

lemma foldl_update_values:
  "set (foldl (\<lambda>m kv. AList.update (fst kv) (snd kv) m) m kvs) \<subseteq> set m \<union> set kvs"
proof (induction kvs arbitrary: m)
  case (Cons kv kvs)
  have "set (AList.update k v m) \<subseteq> insert (k, v) (set m)" for k :: 'a and v :: 'b
    by (induction m) auto
  with Cons[of "AList.update (fst kv) (snd kv) m"] show ?case by fastforce
qed simp

lemma keys_ok_object_of: "list_all (\<lambda>p. keys_ok (snd p)) kvs \<Longrightarrow> keys_ok (object_of kvs)"
  using foldl_update_values[of "[]" kvs] foldl_update_keys[of "[]" kvs]
  by (auto simp: object_of_def object_order_idem list_all_iff map_keys_def[of "[]"])

lemma parse_number_JNum: "parse_number s = Some (v, r) \<Longrightarrow> \<exists>n. v = JNum n"
  unfolding parse_number_def Let_def by (auto split: option.split_asm if_split_asm prod.split_asm list.split_asm)

lemma parsed_keys_ok:
  "parse_value n s = Some (v, r) \<Longrightarrow> keys_ok v"
  "parse_elems n s = Some (vs, r) \<Longrightarrow> list_all keys_ok vs"
  "parse_members n s = Some (kvs, r) \<Longrightarrow> list_all (\<lambda>p. keys_ok (snd p)) kvs"
proof (induction n s and n s and n s arbitrary: v r and vs r and kvs r rule: parse_value_parse_elems_parse_members.induct)
  case (2 n s)
  show ?case
    using 2(3)
    by (auto simp: expect_def keys_ok_object_of map_keys_def split: list.split_asm if_split_asm dest: 2(1,2) parse_number_JNum)
next
  case (4 n s)
  from 4(3) obtain v r1 c r2 where p: "parse_value n s = Some (v, r1)" "skip_ws r1 = c # r2"
      "c = CHR '','' \<and> (\<exists>vs1. parse_elems n r2 = Some (vs1, r) \<and> vs = v # vs1) \<or> vs = [v]"
    by (auto split: option.split_asm list.split_asm if_split_asm)
  from 4(1)[OF p(1)] 4(2)[OF p(1) refl p(2)] p(3) show ?case by auto
next
  case (6 n s)
  from 6(3) obtain q cs k r1 c r2 v r3 e r4 where p: "skip_ws s = q # cs" "\<not> q \<noteq> CHR 0x22" "parse_string cs = Some (k, r1)"
      "skip_ws r1 = c # r2" "\<not> c \<noteq> CHR '':''" "parse_value n r2 = Some (v, r3)" "skip_ws r3 = e # r4"
      "e = CHR '','' \<and> (\<exists>kvs1. parse_members n r4 = Some (kvs1, r) \<and> kvs = (k, v) # kvs1) \<or> kvs = [(k, v)]"
    by (auto split: option.split_asm list.split_asm if_split_asm)
  from 6(1)[OF p(1,2,3) refl p(4,5,6)] 6(2)[OF p(1,2,3) refl p(4,5,6) refl p(7)] p(8) show ?case by auto
qed simp_all

lemma json_parse_keys_ok: "json_parse s = Some v \<Longrightarrow> keys_ok v"
  by (auto simp: json_parse_def split: option.split_asm if_split_asm dest: parsed_keys_ok)

end
