(* ===== verification/StatusClient.thy ===== *)
theory StatusClient
  imports PolicyEngine Json
begin

text \<open>
  The gateway's client for \<open>GET /status\<close>, \<open>packages/gateway/src/client.ts\<close>:
  \<open>fetchKillState\<close>, which reads any doubt about the answer as killed, and
  \<open>evaluateRemote\<close>, which decides a call on the fetched state.

  The HTTP exchange is the argument: \<open>NoAnswer\<close> when the request or the body read
  failed, otherwise whether the status was 2xx and the text of the body.
\<close>

datatype status_answer = NoAnswer | Answer bool string

definition MAX_STATUS_BODY_UNITS :: nat where
  "MAX_STATUS_BODY_UNITS = 256 * 1024"

definition failClosed :: kill_state where
  "failClosed = \<lparr>ks_killed = True,
     ks_reason = Some ''control plane unreachable - fail closed'',
     ks_killedAgents = [], ks_durable = Some False, ks_epoch = None\<rparr>"

fun valid_id_entries :: "json list \<Rightarrow> string list option" where
  "valid_id_entries [] = Some []"
| "valid_id_entries (JStr s # es) =
     (if isValidAgentId s then map_option (Cons s) (valid_id_entries es) else None)"
| "valid_id_entries (_ # es) = None"

fun parseKilledAgents :: "json option \<Rightarrow> string list option" where
  "parseKilledAgents (Some (JArr es)) =
     (if length es > MAX_KILLED_AGENTS then None else valid_id_entries es)"
| "parseKilledAgents _ = None"

text \<open>\<open>typeof body === "object" && body !== null\<close>: an array passes this test.\<close>

fun is_object_value :: "json \<Rightarrow> bool" where
  "is_object_value (JObj _) = True"
| "is_object_value (JArr _) = True"
| "is_object_value _ = False"

definition status_of_body :: "json \<Rightarrow> kill_state" where
  "status_of_body body =
     (if \<not> is_object_value body then failClosed
      else case own_field ''killed'' body of
        Some (JBool kl) \<Rightarrow>
          (case own_field ''epoch'' body of
            Some (JNum n) \<Rightarrow>
              (case safe_integer n of
                None \<Rightarrow> failClosed
              | Some ep \<Rightarrow>
                  if ep < 0 then failClosed
                  else (case parseKilledAgents (own_field ''killedAgents'' body) of
                    None \<Rightarrow> failClosed
                  | Some scoped \<Rightarrow>
                      (let dur = (own_field ''persistenceDegraded'' body = None \<and>
                                  own_field ''unhealthy'' body = None);
                           st = \<lparr>ks_killed = kl, ks_reason = None, ks_killedAgents = scoped,
                                 ks_durable = Some dur, ks_epoch = Some ep\<rparr>
                       in if \<not> kl then st
                          else (case own_field ''reason'' body of
                                  Some (JStr r) \<Rightarrow> st\<lparr>ks_reason := Some r\<rparr>
                                | _ \<Rightarrow> st))))
          | _ \<Rightarrow> failClosed)
      | _ \<Rightarrow> failClosed)"

fun fetchKillState :: "status_answer \<Rightarrow> kill_state" where
  "fetchKillState NoAnswer = failClosed"
| "fetchKillState (Answer ok body_text) =
     (if \<not> ok then failClosed
      else if length body_text > MAX_STATUS_BODY_UNITS then failClosed
      else case json_parse body_text of None \<Rightarrow> failClosed | Some body \<Rightarrow> status_of_body body)"

definition evaluateRemote ::
  "(string \<Rightarrow> string \<Rightarrow> bool) \<Rightarrow> tool_call \<Rightarrow> policy \<Rightarrow> ('a \<Rightarrow> kill_state) \<Rightarrow> 'a \<Rightarrow> verdict" where
  "evaluateRemote re_test call pol fetch answer = evaluate re_test call pol (fetch answer)"

section \<open>The wire contract\<close>

text \<open>
  An answer a control plane could have given that reports a running system: the one
  shape that \<open>fetchKillState\<close> may read as not killed.
\<close>

definition running_answer :: "status_answer \<Rightarrow> int \<Rightarrow> string list \<Rightarrow> bool" where
  "running_answer a ep ids \<longleftrightarrow>
     (case a of
        Answer True body_text \<Rightarrow>
          length body_text \<le> MAX_STATUS_BODY_UNITS \<and>
          (case json_parse body_text of None \<Rightarrow> False | Some body \<Rightarrow>
          own_field ''killed'' body = Some (JBool False) \<and>
          own_field ''epoch'' body = Some (JNum (NInt ep)) \<and> 0 \<le> ep \<and> ep \<le> MAX_SAFE_INTEGER \<and>
          own_field ''killedAgents'' body = Some (JArr (map JStr ids)) \<and>
          length ids \<le> MAX_KILLED_AGENTS \<and> list_all isValidAgentId ids)
      | _ \<Rightarrow> False)"

lemma valid_id_entries_Some:
  "valid_id_entries es = Some ids \<longleftrightarrow> es = map JStr ids \<and> list_all isValidAgentId ids"
proof (induction es arbitrary: ids rule: valid_id_entries.induct)
  case (2 s es)
  then show ?case by (cases ids) auto
qed auto

lemma parseKilledAgents_Some:
  "parseKilledAgents v = Some ids \<longleftrightarrow>
     v = Some (JArr (map JStr ids)) \<and> length ids \<le> MAX_KILLED_AGENTS \<and> list_all isValidAgentId ids"
proof (cases v rule: parseKilledAgents.cases)
  case (1 es)
  then show ?thesis by (auto simp: valid_id_entries_Some)
qed auto

lemma failClosed_killed [simp]: "ks_killed failClosed"
  by (simp add: failClosed_def)

lemma own_field_object: "own_field k body = Some v \<Longrightarrow> is_object_value body"
  by (cases body) auto

lemma status_of_body_running:
  assumes "\<not> ks_killed (status_of_body body)"
  shows "\<exists>ep ids. own_field ''killed'' body = Some (JBool False) \<and>
     own_field ''epoch'' body = Some (JNum (NInt ep)) \<and> 0 \<le> ep \<and> ep \<le> MAX_SAFE_INTEGER \<and>
     parseKilledAgents (own_field ''killedAgents'' body) = Some ids \<and>
     ks_epoch (status_of_body body) = Some ep \<and> ks_killedAgents (status_of_body body) = ids"
  using assms
  by (auto simp: status_of_body_def Let_def is_safe_int_def split: option.splits json.splits if_splits)

lemma status_of_body_complete:
  assumes "own_field ''killed'' body = Some (JBool False)"
    and "own_field ''epoch'' body = Some (JNum (NInt ep))" and "0 \<le> ep" and "ep \<le> MAX_SAFE_INTEGER"
    and "parseKilledAgents (own_field ''killedAgents'' body) = Some ids"
  shows "\<not> ks_killed (status_of_body body)" "ks_epoch (status_of_body body) = Some ep"
    "ks_killedAgents (status_of_body body) = ids"
  using assms own_field_object[OF assms(1)]
  by (simp_all add: status_of_body_def is_safe_int_def)

lemma fetch_running_iff:
  "\<not> ks_killed (fetchKillState a) \<and> ks_epoch (fetchKillState a) = Some ep \<and>
     ks_killedAgents (fetchKillState a) = ids \<longleftrightarrow> running_answer a ep ids"
proof (cases a)
  case (Answer ok body_text)
  show ?thesis
  proof (cases "ok \<and> length body_text \<le> MAX_STATUS_BODY_UNITS \<and> json_parse body_text \<noteq> None")
    case True
    then obtain body where body: "json_parse body_text = Some body" by blast
    show ?thesis
      using True body Answer status_of_body_running[of body]
        status_of_body_complete[of body ep ids]
      by (auto simp: running_answer_def parseKilledAgents_Some)
  next
    case False
    then show ?thesis
      using Answer by (auto simp: running_answer_def split: option.splits bool.splits)
  qed
qed (simp add: running_answer_def)

section \<open>The interface of a kill-state source\<close>

text \<open>
  What \<open>evaluateRemote\<close> relies on: an answer outside the contract reads as killed,
  and a running one reports the scoped kills it carries.
\<close>

locale status_source =
  fixes fetch :: "'a \<Rightarrow> kill_state"
    and trusted :: "'a \<Rightarrow> int \<Rightarrow> string list \<Rightarrow> bool"
  assumes running_trusted:
    "\<not> ks_killed (fetch a) \<Longrightarrow> \<exists>ep. trusted a ep (ks_killedAgents (fetch a))"
begin

lemma verdict_needs_trust:
  assumes "v_decision (evaluateRemote re_test call pol fetch a) \<noteq> Deny"
  shows "\<exists>ep ids. trusted a ep ids \<and> call_agentId call \<notin> set ids"
proof -
  have "\<not> ks_killed (fetch a)" "call_agentId call \<notin> set (ks_killedAgents (fetch a))"
    using assms by (auto simp: evaluateRemote_def evaluate_killed evaluate_scope_killed)
  then show ?thesis using running_trusted by blast
qed

end

interpretation status_client: status_source fetchKillState running_answer
proof
  fix a
  assume run: "\<not> ks_killed (fetchKillState a)"
  then obtain body where "fetchKillState a = status_of_body body"
    by (cases a) (auto split: if_splits option.splits)
  with run obtain ep where "ks_epoch (fetchKillState a) = Some ep"
    using status_of_body_running by metis
  with run show "\<exists>ep. running_answer a ep (ks_killedAgents (fetchKillState a))"
    by (auto simp: fetch_running_iff[symmetric])
qed

section \<open>Properties\<close>

text \<open>
  \<open>fetchKillState\<close> reports a running system with epoch \<open>ep\<close> and scoped kills
  \<open>ids\<close> for exactly the answers of the wire contract: 2xx, a body within the cap that
  parses to an object with \<open>killed\<close> false, a safe non-negative integer \<open>epoch\<close> and a list of at
  most 64 valid agent ids.  Every other answer reads as killed.
\<close>
theorem fetchKillState_fail_closed:
  "\<not> ks_killed (fetchKillState a) \<and> ks_epoch (fetchKillState a) = Some ep \<and>
     ks_killedAgents (fetchKillState a) = ids \<longleftrightarrow> running_answer a ep ids"
  by (rule fetch_running_iff)

text \<open>
  C11: no doubt becomes permission.  Whenever \<open>evaluateRemote\<close> returns a verdict other than
  a denial, the control plane's answer was a well-formed running one and the calling
  agent was not in its list of scoped kills.
\<close>
theorem evaluateRemote_needs_live_answer:
  assumes "v_decision (evaluateRemote re_test call pol fetchKillState a) \<noteq> Deny"
  shows "\<exists>ep ids. running_answer a ep ids \<and> call_agentId call \<notin> set ids"
  by (rule status_client.verdict_needs_trust[OF assms])

definition demo_body :: json where
  "demo_body = JObj [(''killed'', JBool False), (''epoch'', JNum (NInt 3)), (''killedAgents'', JArr [JStr ''other''])]"

lemma demo_body_parses: "json_parse (json_text demo_body) = Some demo_body"
  by (rule json_parse_text)
     (simp add: demo_body_def map_keys_def object_order_plain array_index_key_def is_digit_def code_unit_def
        is_safe_int_def MAX_SAFE_INTEGER_def)

lemma evaluateRemote_needs_live_answer_witness:
  "\<exists>ep ids. running_answer (Answer True (json_text demo_body)) ep ids \<and> ''bot'' \<notin> set ids"
proof -
  let ?a = "Answer True (json_text demo_body)"
  let ?call = "\<lparr>call_agentId = ''bot'', call_tool = ''bash'', call_args = None,
     call_timestamp = None\<rparr>"
  let ?pol = "\<lparr>pol_rules = [], pol_defaultDecision = Approve\<rparr>"
  have "length (json_text demo_body) \<le> 200"
    by (simp add: is_safe_int_def MAX_SAFE_INTEGER_def demo_body_def json_string_text_def quoted_def escape_char_def code_unit_def show_int_def
        show_nat.simps digit_char_def)
  then have "length (json_text demo_body) \<le> MAX_STATUS_BODY_UNITS" by (simp add: is_safe_int_def MAX_SAFE_INTEGER_def MAX_STATUS_BODY_UNITS_def)
  then have "fetchKillState ?a = status_of_body demo_body" by (simp add: is_safe_int_def MAX_SAFE_INTEGER_def demo_body_parses)
  moreover have "status_of_body demo_body = \<lparr>ks_killed = False, ks_reason = None, ks_killedAgents = [''other''],
      ks_durable = Some True, ks_epoch = Some 3\<rparr>"
    by (simp add: demo_body_def status_of_body_def MAX_KILLED_AGENTS_def valid_id_simps is_safe_int_def
        MAX_SAFE_INTEGER_def)
  ultimately have "v_decision (evaluateRemote (\<lambda>_ _. False) ?call ?pol fetchKillState ?a) \<noteq> Deny"
    by (simp add: evaluateRemote_def evaluate_def rulesMatchingTool_def)
  from evaluateRemote_needs_live_answer[OF this] show ?thesis by simp
qed

end
