(* ===== verification/LimitTracker.thy ===== *)
theory LimitTracker
  imports PolicyEngine
begin

text \<open>
  Cumulative limit rules: the rule type of \<open>packages/shared/src/limit-rule.ts\<close> and
  the class \<open>LimitTracker\<close> of \<open>packages/gateway/src/limits.ts\<close>.

  The tracker's fields are the record \<open>tracker\<close>; \<open>observe\<close>, \<open>observeKillState\<close> and
  \<open>confirmKillDelivered\<close> are its methods with the state passed explicitly.  Readings
  of the injected clock are arguments: \<open>obsAt\<close> is the one \<open>observe\<close> takes, \<open>tripAt\<close>
  the later one a latching trip takes.  Instants are integers; the code only adds,
  subtracts and compares them.  Kill epochs on the observation paths are the
  validated integers of the status client.
\<close>

section \<open>Rules, trips and the latch\<close>

datatype limit_metric = Calls | Errors | Amount

datatype limit_action = KillAction | AlertAction

record limit_rule =
  lr_id :: string
  lr_description :: "string option"
  lr_tool :: string
  lr_argsPattern :: "string option"
  lr_metric :: limit_metric
  lr_amountPath :: "string option"
  lr_max :: int
  lr_windowMs :: "int option"
  lr_action :: limit_action

datatype trip_cause = ThresholdCrossed | AmountUnreadable | TrackingOverflow | TotalOverflow

record limit_trip =
  trip_rule :: limit_rule
  trip_total :: int
  trip_cause :: trip_cause
  trip_latchGeneration :: "nat option"

definition isLatchingTrip :: "limit_trip \<Rightarrow> bool" where
  "isLatchingTrip trip \<longleftrightarrow> trip_latchGeneration trip \<noteq> None"

record latched_trip =
  lt_ruleId :: string
  lt_agentId :: string
  lt_reason :: string
  lt_at :: millis
  lt_confirmed :: bool
  lt_generation :: nat
  lt_epochFloor :: "int option"

definition MAX_WINDOW_EVENTS :: nat where
  "MAX_WINDOW_EVENTS = 16384"

definition MAX_LIMIT_MAX :: int where
  "MAX_LIMIT_MAX = 2 ^ 50"

record rule_state =
  rs_rule :: limit_rule
  rs_lifetimeTotal :: int
  rs_events :: "(millis \<times> int) list"
  rs_saturatedUntil :: "millis option"

datatype latch_state = Armed | Unconfirmed latched_trip | Confirmed latched_trip

record tracker =
  tk_states :: "rule_state list"
  tk_maxWindowEvents :: nat
  tk_latch :: latch_state
  tk_latchGenerations :: nat
  tk_lastObservedEpoch :: "int option"

definition fresh_state :: "limit_rule \<Rightarrow> rule_state" where
  "fresh_state rule =
     \<lparr>rs_rule = rule, rs_lifetimeTotal = 0, rs_events = [], rs_saturatedUntil = None\<rparr>"

definition new_tracker :: "limit_rule list \<Rightarrow> nat option \<Rightarrow> tracker" where
  "new_tracker rs maxEvents =
     \<lparr>tk_states = map fresh_state rs,
      tk_maxWindowEvents = (case maxEvents of None \<Rightarrow> MAX_WINDOW_EVENTS | Some n \<Rightarrow> n),
      tk_latch = Armed, tk_latchGenerations = 0, tk_lastObservedEpoch = None\<rparr>"

section \<open>Amounts and totals\<close>

text \<open>The dot-path walk: \<open>None\<close> where the code returns null, own properties only.\<close>

fun walk_path :: "json option \<Rightarrow> string list \<Rightarrow> json option" where
  "walk_path node [] = node"
| "walk_path (Some (JObj kvs)) (key # keys) =
     (case map_of kvs key of None \<Rightarrow> None | Some v \<Rightarrow> walk_path (Some v) keys)"
| "walk_path _ (key # keys) = None"

definition amountAt :: "json option \<Rightarrow> string \<Rightarrow> int option" where
  "amountAt as path =
     (case walk_path as (split_on CHR ''.'' path) of
        Some (JNum n) \<Rightarrow>
          (case safe_integer n of Some i \<Rightarrow> if i \<ge> 0 then Some i else None | None \<Rightarrow> None)
      | _ \<Rightarrow> None)"

definition checkedAdd :: "int \<Rightarrow> int \<Rightarrow> int" where
  "checkedAdd a b = (let sum = a + b in if is_safe_int sum then sum else MAX_SAFE_INTEGER)"

definition prune :: "rule_state \<Rightarrow> millis \<Rightarrow> rule_state" where
  "prune st obsAt =
     (case lr_windowMs (rs_rule st) of
        None \<Rightarrow> st
      | Some w \<Rightarrow> st\<lparr>rs_events := dropWhile (\<lambda>e. fst e \<le> obsAt - w) (rs_events st)\<rparr>)"

definition currentTotal :: "rule_state \<Rightarrow> int" where
  "currentTotal st =
     (case lr_windowMs (rs_rule st) of
        None \<Rightarrow> rs_lifetimeTotal st
      | Some _ \<Rightarrow> foldl checkedAdd 0 (map snd (rs_events st)))"

definition saturate :: "rule_state \<Rightarrow> millis \<Rightarrow> rule_state" where
  "saturate st obsAt =
     st\<lparr>rs_events := [],
        rs_saturatedUntil :=
          Some (obsAt + (case lr_windowMs (rs_rule st) of None \<Rightarrow> 0 | Some w \<Rightarrow> w))\<rparr>"

section \<open>The audit reason\<close>

fun metric_text :: "limit_metric \<Rightarrow> string" where
  "metric_text Calls = ''calls''"
| "metric_text Errors = ''errors''"
| "metric_text Amount = ''amount''"

definition limitTripReason :: "limit_trip \<Rightarrow> string \<Rightarrow> string" where
  "limitTripReason trip agent =
     (let rule = trip_rule trip;
          why = (case trip_cause trip of
             ThresholdCrossed \<Rightarrow>
               ''total '' @ show_int (trip_total trip) @ '' exceeded max '' @ show_int (lr_max rule)
           | AmountUnreadable \<Rightarrow>
               ''a counted call's amount at '' @
               quoted (case lr_amountPath rule of None \<Rightarrow> ''undefined'' | Some p \<Rightarrow> p) @
               '' was not a non-negative integer - failing closed''
           | TotalOverflow \<Rightarrow>
               ''the running total left safe-integer range - failing closed rather than rounding''
           | TrackingOverflow \<Rightarrow>
               ''event tracking overflowed the window buffer - failing closed'')
      in ''limit '' @ quoted (lr_id rule) @ '' tripped for agent '' @ quoted agent @ '': '' @ why @
         '' (metric '' @ metric_text (lr_metric rule) @ '', tool '' @ lr_tool rule @ '')'')"

section \<open>Observing a call\<close>

text \<open>Does the rule count this call on this lane?\<close>

definition rule_counts ::
  "(string \<Rightarrow> string \<Rightarrow> bool) \<Rightarrow> limit_metric list \<Rightarrow> tool_call \<Rightarrow> limit_rule \<Rightarrow> bool" where
  "rule_counts re_test metrics call rule \<longleftrightarrow>
     lr_metric rule \<in> set metrics \<and>
     toolGlobMatches (lr_tool rule) (call_tool call) \<and>
     (case lr_argsPattern rule of None \<Rightarrow> True | Some p \<Rightarrow> re_test p (args_text call))"

text \<open>The value one counted call adds; \<open>None\<close> is an unreadable amount.\<close>

definition metered_value :: "tool_call \<Rightarrow> limit_rule \<Rightarrow> int option" where
  "metered_value call rule =
     (if lr_metric rule = Amount
      then amountAt (call_args call) (case lr_amountPath rule of None \<Rightarrow> [] | Some p \<Rightarrow> p)
      else Some 1)"

definition bare_trip :: "limit_rule \<Rightarrow> int \<Rightarrow> trip_cause \<Rightarrow> limit_trip" where
  "bare_trip rule tot cause =
     \<lparr>trip_rule = rule, trip_total = tot, trip_cause = cause, trip_latchGeneration = None\<rparr>"

text \<open>
  The loop body of \<open>observe\<close> for a rule that counts the call: the rule's new state
  and the trip it hands to \<open>trip\<close>, if any.
\<close>

definition observe_counted ::
  "nat \<Rightarrow> tool_call \<Rightarrow> millis \<Rightarrow> rule_state \<Rightarrow> rule_state \<times> limit_trip option" where
  "observe_counted maxEvents call obsAt st0 =
     (let rule = rs_rule st0; st1 = prune (st0\<lparr>rs_saturatedUntil := None\<rparr>) obsAt;
          before = currentTotal st1
      in case metered_value call rule of
           None \<Rightarrow> (st1, Some (bare_trip rule before AmountUnreadable))
         | Some v \<Rightarrow>
             let tot = checkedAdd before v in
             if tot = MAX_SAFE_INTEGER \<and> before \<noteq> MAX_SAFE_INTEGER then
               (if lr_windowMs rule = None then st1\<lparr>rs_lifetimeTotal := MAX_SAFE_INTEGER\<rparr>
                else saturate st1 obsAt,
                Some (bare_trip rule tot TotalOverflow))
             else
               let st2 = (if lr_windowMs rule = None then st1\<lparr>rs_lifetimeTotal := tot\<rparr>
                          else st1\<lparr>rs_events := rs_events st1 @ [(obsAt, v)]\<rparr>)
               in if lr_windowMs rule \<noteq> None \<and> length (rs_events st2) > maxEvents
                  then (saturate st2 obsAt, Some (bare_trip rule tot TrackingOverflow))
                  else (st2, if before \<le> lr_max rule \<and> tot > lr_max rule
                             then Some (bare_trip rule tot ThresholdCrossed) else None))"

text \<open>The whole body: a rule that does not count, or is still saturated, is skipped.\<close>

definition observe_rule ::
  "(string \<Rightarrow> string \<Rightarrow> bool) \<Rightarrow> limit_metric list \<Rightarrow> nat \<Rightarrow> tool_call \<Rightarrow> millis \<Rightarrow>
     rule_state \<Rightarrow> rule_state \<times> limit_trip option" where
  "observe_rule re_test metrics maxEvents call obsAt st =
     (if \<not> rule_counts re_test metrics call (rs_rule st) then (st, None)
      else case rs_saturatedUntil st of
             Some u \<Rightarrow> if obsAt < u then (st, None) else observe_counted maxEvents call obsAt st
           | None \<Rightarrow> observe_counted maxEvents call obsAt st)"

definition rememberEpoch :: "tracker \<Rightarrow> int option \<Rightarrow> tracker" where
  "rememberEpoch tk ep =
     (case ep of
        None \<Rightarrow> tk
      | Some e \<Rightarrow>
          (case tk_lastObservedEpoch tk of
             None \<Rightarrow> tk\<lparr>tk_lastObservedEpoch := Some e\<rparr>
           | Some l \<Rightarrow> if e > l then tk\<lparr>tk_lastObservedEpoch := Some e\<rparr> else tk))"

text \<open>Record a trip; the first kill-action trip while armed latches and is stamped.\<close>

definition trip ::
  "tool_call \<Rightarrow> int option \<Rightarrow> millis \<Rightarrow> limit_trip \<Rightarrow> tracker \<times> limit_trip list \<Rightarrow>
     tracker \<times> limit_trip list" where
  "trip call epochAtCall tripAt t acc =
     (let tk = fst acc; trips = snd acc in
      if lr_action (trip_rule t) \<noteq> KillAction \<or> tk_latch tk \<noteq> Armed then (tk, trips @ [t])
      else
        let gen = tk_latchGenerations tk + 1;
            baseline = (case epochAtCall of Some e \<Rightarrow> Some e | None \<Rightarrow> tk_lastObservedEpoch tk);
            record = \<lparr>lt_ruleId = lr_id (trip_rule t), lt_agentId = call_agentId call,
                      lt_reason = limitTripReason t (call_agentId call), lt_at = tripAt,
                      lt_confirmed = False, lt_generation = gen,
                      lt_epochFloor = map_option (\<lambda>b. b + 1) baseline\<rparr>
        in (tk\<lparr>tk_latchGenerations := gen, tk_latch := Unconfirmed record\<rparr>,
            trips @ [t\<lparr>trip_latchGeneration := Some gen\<rparr>]))"

fun observe_states ::
  "(string \<Rightarrow> string \<Rightarrow> bool) \<Rightarrow> limit_metric list \<Rightarrow> tool_call \<Rightarrow> int option \<Rightarrow> millis \<Rightarrow> millis \<Rightarrow>
     nat \<Rightarrow> rule_state list \<Rightarrow> tracker \<times> limit_trip list \<Rightarrow>
     rule_state list \<times> (tracker \<times> limit_trip list)" where
  "observe_states re_test metrics call ep obsAt tripAt n [] acc = ([], acc)"
| "observe_states re_test metrics call ep obsAt tripAt n (st # sts) acc =
     (let r = observe_rule re_test metrics n call obsAt st;
          acc' = (case snd r of None \<Rightarrow> acc | Some t \<Rightarrow> trip call ep tripAt t acc);
          rest = observe_states re_test metrics call ep obsAt tripAt n sts acc'
      in (fst r # fst rest, snd rest))"

definition observe ::
  "(string \<Rightarrow> string \<Rightarrow> bool) \<Rightarrow> limit_metric list \<Rightarrow> tool_call \<Rightarrow> int option \<Rightarrow> millis \<Rightarrow> millis \<Rightarrow>
     tracker \<Rightarrow> tracker \<times> limit_trip list" where
  "observe re_test metrics call ep obsAt tripAt tk =
     (let r = observe_states re_test metrics call ep obsAt tripAt (tk_maxWindowEvents tk)
                (tk_states tk) (rememberEpoch tk ep, [])
      in ((fst (snd r))\<lparr>tk_states := fst r\<rparr>, snd (snd r)))"

definition observeCall ::
  "(string \<Rightarrow> string \<Rightarrow> bool) \<Rightarrow> tool_call \<Rightarrow> int option \<Rightarrow> millis \<Rightarrow> millis \<Rightarrow> tracker \<Rightarrow>
     tracker \<times> limit_trip list" where
  "observeCall re_test call ep obsAt tripAt tk = observe re_test [Calls, Amount] call ep obsAt tripAt tk"

definition observeError ::
  "(string \<Rightarrow> string \<Rightarrow> bool) \<Rightarrow> tool_call \<Rightarrow> int option \<Rightarrow> millis \<Rightarrow> millis \<Rightarrow> tracker \<Rightarrow>
     tracker \<times> limit_trip list" where
  "observeError re_test call ep obsAt tripAt tk = observe re_test [Errors] call ep obsAt tripAt tk"

section \<open>The latch lifecycle\<close>

fun latch_record :: "latch_state \<Rightarrow> latched_trip option" where
  "latch_record Armed = None"
| "latch_record (Unconfirmed r) = Some r"
| "latch_record (Confirmed r) = Some r"

definition killTripped :: "tracker \<Rightarrow> latched_trip option" where
  "killTripped tk = latch_record (tk_latch tk)"

text \<open>Floors only go up; the record is the one the latch holds.\<close>

definition raise_floor :: "latched_trip \<Rightarrow> int option \<Rightarrow> latched_trip" where
  "raise_floor r ep =
     (case ep of
        None \<Rightarrow> r
      | Some e \<Rightarrow>
          (case lt_epochFloor r of
             None \<Rightarrow> r\<lparr>lt_epochFloor := Some e\<rparr>
           | Some c \<Rightarrow> if e > c then r\<lparr>lt_epochFloor := Some e\<rparr> else r))"

definition rearm_state :: "rule_state \<Rightarrow> rule_state" where
  "rearm_state st = st\<lparr>rs_lifetimeTotal := 0, rs_events := [], rs_saturatedUntil := None\<rparr>"

definition observeKillState :: "string list \<Rightarrow> int option \<Rightarrow> bool \<Rightarrow> tracker \<Rightarrow> tracker" where
  "observeKillState ids ep dur tk0 =
     (let tk = rememberEpoch tk0 ep in
      if \<not> dur then tk
      else case tk_latch tk of
             Confirmed r \<Rightarrow>
               (let floor = lt_epochFloor r;
                    listed = (lt_agentId r \<in> set ids);
                    admissible = (case floor of None \<Rightarrow> True
                      | Some f \<Rightarrow> (case ep of None \<Rightarrow> False | Some e \<Rightarrow> e \<ge> f))
                in if \<not> admissible then tk
                   else if listed then tk\<lparr>tk_latch := Confirmed (raise_floor r ep)\<rparr>
                   else if floor = None \<or> ep = None then tk
                   else tk\<lparr>tk_latch := Armed, tk_states := map rearm_state (tk_states tk)\<rparr>)
           | _ \<Rightarrow> tk)"

definition confirmKillDelivered :: "js_num \<Rightarrow> nat \<Rightarrow> tracker \<Rightarrow> tracker" where
  "confirmKillDelivered ep gen tk =
     (case tk_latch tk of
        Unconfirmed r \<Rightarrow>
          if gen \<noteq> lt_generation r then tk
          else (case safe_integer ep of
                  None \<Rightarrow> tk
                | Some e \<Rightarrow>
                    if e < 1 then tk
                    else if (case lt_epochFloor r of None \<Rightarrow> False | Some f \<Rightarrow> e < f) then tk
                    else rememberEpoch
                      (tk\<lparr>tk_latch := Confirmed (r\<lparr>lt_confirmed := True, lt_epochFloor := Some e\<rparr>)\<rparr>)
                      (Some e))
      | _ \<Rightarrow> tk)"

section \<open>The tracker as a machine\<close>

datatype tracker_event =
    CallSeen tool_call "int option" millis millis
  | ErrorSeen tool_call "int option" millis millis
  | KillStatus "string list" "int option" bool
  | KillDelivered js_num nat

fun tracker_step :: "(string \<Rightarrow> string \<Rightarrow> bool) \<Rightarrow> tracker \<Rightarrow> tracker_event \<Rightarrow> tracker" where
  "tracker_step re_test tk (CallSeen call ep obsAt tripAt) = fst (observeCall re_test call ep obsAt tripAt tk)"
| "tracker_step re_test tk (ErrorSeen call ep obsAt tripAt) = fst (observeError re_test call ep obsAt tripAt tk)"
| "tracker_step re_test tk (KillStatus ids ep dur) = observeKillState ids ep dur tk"
| "tracker_step re_test tk (KillDelivered ep gen) = confirmKillDelivered ep gen tk"

section \<open>Rule states and bounds\<close>

lemma observe_counted_rule [simp]: "rs_rule (fst (observe_counted n call obsAt st)) = rs_rule st"
  by (simp add: observe_counted_def Let_def prune_def saturate_def split: option.split)

lemma observe_rule_rule [simp]:
  "rs_rule (fst (observe_rule re_test metrics n call obsAt st)) = rs_rule st"
  by (simp add: observe_rule_def split: option.split)

lemma observe_counted_trip_rule:
  "snd (observe_counted n call obsAt st) = Some t \<Longrightarrow>
     trip_rule t = rs_rule st \<and> trip_latchGeneration t = None"
  by (auto simp: observe_counted_def Let_def bare_trip_def split: option.splits if_splits)

lemma observe_rule_trip_rule:
  "snd (observe_rule re_test metrics n call obsAt st) = Some t \<Longrightarrow>
     trip_rule t = rs_rule st \<and> trip_latchGeneration t = None"
  by (auto simp: observe_rule_def split: option.splits if_splits dest: observe_counted_trip_rule)

lemma observe_states_fst:
  "fst (observe_states re_test metrics call ep obsAt tripAt n sts acc) =
     map (\<lambda>st. fst (observe_rule re_test metrics n call obsAt st)) sts"
  by (induction sts arbitrary: acc) (simp_all add: Let_def)

text \<open>The trips of an observation in rule order, before any of them is stamped.\<close>

definition raw_trips ::
  "(string \<Rightarrow> string \<Rightarrow> bool) \<Rightarrow> limit_metric list \<Rightarrow> nat \<Rightarrow> tool_call \<Rightarrow> millis \<Rightarrow>
     rule_state list \<Rightarrow> limit_trip list" where
  "raw_trips re_test metrics n call obsAt sts =
     List.map_filter (\<lambda>st. snd (observe_rule re_test metrics n call obsAt st)) sts"

lemma observe_states_snd:
  "snd (observe_states re_test metrics call ep obsAt tripAt n sts acc) =
     foldl (\<lambda>a t. trip call ep tripAt t a) acc (raw_trips re_test metrics n call obsAt sts)"
  by (induction sts arbitrary: acc)
     (auto simp: Let_def raw_trips_def List.map_filter_simps split: option.split)

lemma raw_trips_unstamped:
  "t \<in> set (raw_trips re_test metrics n call obsAt sts) \<Longrightarrow> trip_latchGeneration t = None"
  by (auto simp: raw_trips_def List.map_filter_def dest: observe_rule_trip_rule)

section \<open>One latch per observation\<close>

lemma trip_latched:
  "tk_latch tk \<noteq> Armed \<Longrightarrow> trip call ep tripAt t (tk, ts) = (tk, ts @ [t])"
  by (simp add: trip_def Let_def)

lemma trips_latched:
  "tk_latch tk \<noteq> Armed \<Longrightarrow> foldl (\<lambda>a t. trip call ep tripAt t a) (tk, ts) raws = (tk, ts @ raws)"
  by (induction raws arbitrary: ts) (simp_all add: trip_latched)

lemma trip_harmless:
  "lr_action (trip_rule t) \<noteq> KillAction \<Longrightarrow> trip call ep tripAt t (tk, ts) = (tk, ts @ [t])"
  by (simp add: trip_def Let_def)

text \<open>
  An observation either leaves the latch as it was and stamps nothing, or finds it
  armed, latches it for this call and stamps exactly one trip with the new
  generation.
\<close>

definition observation_outcome :: "tool_call \<Rightarrow> tracker \<Rightarrow> tracker \<Rightarrow> limit_trip list \<Rightarrow> bool" where
  "observation_outcome call tk tk' trips \<longleftrightarrow>
     (tk_latch tk' = tk_latch tk \<and> tk_latchGenerations tk' = tk_latchGenerations tk \<and>
        filter isLatchingTrip trips = [] \<or>
      tk_latch tk = Armed \<and>
        (\<exists>t r. filter isLatchingTrip trips = [t] \<and> tk_latch tk' = Unconfirmed r \<and>
           lr_action (trip_rule t) = KillAction \<and>
           trip_latchGeneration t = Some (lt_generation r) \<and>
           lt_generation r = tk_latchGenerations tk + 1 \<and>
           tk_latchGenerations tk' = tk_latchGenerations tk + 1 \<and>
           lt_agentId r = call_agentId call \<and> lt_ruleId r = lr_id (trip_rule t)))"

lemma trips_outcome:
  assumes "\<forall>t \<in> set raws. trip_latchGeneration t = None" and "\<forall>t \<in> set ts. trip_latchGeneration t = None"
  shows "observation_outcome call tk (fst (foldl (\<lambda>a t. trip call ep tripAt t a) (tk, ts) raws))
     (snd (foldl (\<lambda>a t. trip call ep tripAt t a) (tk, ts) raws))"
  using assms
proof (induction raws arbitrary: ts)
  case Nil
  then show ?case by (auto simp: observation_outcome_def isLatchingTrip_def filter_empty_conv)
next
  case (Cons t raws)
  consider "lr_action (trip_rule t) \<noteq> KillAction \<or> tk_latch tk \<noteq> Armed"
    | "lr_action (trip_rule t) = KillAction" "tk_latch tk = Armed" by blast
  then show ?case
  proof cases
    case 1
    then have "trip call ep tripAt t (tk, ts) = (tk, ts @ [t])"
      by (auto simp: trip_harmless trip_latched)
    with Cons show ?thesis by simp
  next
    case 2
    obtain tk' r where a: "trip call ep tripAt t (tk, ts) =
        (tk', ts @ [t\<lparr>trip_latchGeneration := Some (tk_latchGenerations tk + 1)\<rparr>])"
      "tk_latch tk' = Unconfirmed r" "lt_generation r = tk_latchGenerations tk + 1"
      "tk_latchGenerations tk' = tk_latchGenerations tk + 1"
      "lt_agentId r = call_agentId call" "lt_ruleId r = lr_id (trip_rule t)"
      using 2 by (simp add: trip_def Let_def)
    then have run: "foldl (\<lambda>a t. trip call ep tripAt t a) (tk, ts) (t # raws) =
        (tk', ts @ t\<lparr>trip_latchGeneration := Some (tk_latchGenerations tk + 1)\<rparr> # raws)"
      by (simp add: trips_latched)
    have none: "filter isLatchingTrip ts = []" "filter isLatchingTrip raws = []"
      using Cons.prems by (auto simp: isLatchingTrip_def filter_empty_conv)
    show ?thesis
      unfolding run using 2 none a by (simp add: observation_outcome_def isLatchingTrip_def)
  qed
qed

lemma rememberEpoch_keeps [simp]:
  "tk_latch (rememberEpoch tk ep) = tk_latch tk"
  "tk_latchGenerations (rememberEpoch tk ep) = tk_latchGenerations tk"
  "tk_states (rememberEpoch tk ep) = tk_states tk"
  "tk_maxWindowEvents (rememberEpoch tk ep) = tk_maxWindowEvents tk"
  by (simp_all add: rememberEpoch_def split: option.split)

lemma observe_outcome:
  "observation_outcome call tk (fst (observe re_test metrics call ep obsAt tripAt tk))
     (snd (observe re_test metrics call ep obsAt tripAt tk))"
  using trips_outcome[of "raw_trips re_test metrics (tk_maxWindowEvents tk) call obsAt (tk_states tk)" "[]"
      call "rememberEpoch tk ep" ep tripAt] raw_trips_unstamped
  by (fastforce simp: observe_def Let_def observe_states_snd observation_outcome_def)

section \<open>Life of a latch\<close>

definition latch_generation :: "latch_state \<Rightarrow> nat option" where
  "latch_generation l = map_option lt_generation (latch_record l)"

lemma observe_keeps_latch:
  "tk_latch tk \<noteq> Armed \<Longrightarrow> tk_latch (fst (observe re_test metrics call ep obsAt tripAt tk)) = tk_latch tk"
  using observe_outcome[of call tk re_test metrics ep obsAt tripAt] by (auto simp: observation_outcome_def)

text \<open>An answer that may release a confirmed latch: durable, recent enough, the agent absent.\<close>

definition releasing_answer :: "latched_trip \<Rightarrow> int \<Rightarrow> tracker_event \<Rightarrow> bool" where
  "releasing_answer r e0 ev \<longleftrightarrow>
     (\<exists>ids e. ev = KillStatus ids (Some e) True \<and> e0 \<le> e \<and> lt_agentId r \<notin> set ids)"

lemma confirmed_step:
  assumes "tk_latch tk = Confirmed r" and "lt_epochFloor r = Some f"
  shows "(\<exists>r' f'. tk_latch (tracker_step re_test tk ev) = Confirmed r' \<and> lt_epochFloor r' = Some f' \<and>
            f \<le> f' \<and> lt_agentId r' = lt_agentId r \<and> lt_generation r' = lt_generation r) \<or>
         releasing_answer r f ev"
proof (cases ev)
  case (KillStatus ids ep dur)
  then show ?thesis
    using assms
    by (auto simp: observeKillState_def Let_def raise_floor_def releasing_answer_def
        split: option.splits if_splits)
qed (use assms in \<open>auto simp: observeCall_def observeError_def observe_keeps_latch confirmKillDelivered_def\<close>)

lemma confirmed_run:
  assumes "tk_latch tk = Confirmed r" and "lt_epochFloor r = Some f"
    and "latch_generation (tk_latch (foldl (tracker_step re_test) tk es)) \<noteq> Some (lt_generation r)"
  shows "\<exists>es1 ev es2. es = es1 @ ev # es2 \<and> releasing_answer r f ev"
  using assms
proof (induction es arbitrary: tk r f)
  case Nil
  then show ?case by (simp add: latch_generation_def)
next
  case (Cons ev es)
  from confirmed_step[OF Cons.prems(1,2), of re_test ev] show ?case
  proof (elim disjE exE conjE)
    fix r' f'
    assume s: "tk_latch (tracker_step re_test tk ev) = Confirmed r'" "lt_epochFloor r' = Some f'"
      "f \<le> f'" "lt_agentId r' = lt_agentId r" "lt_generation r' = lt_generation r"
    then obtain es1 ev' es2 where "es = es1 @ ev' # es2" "releasing_answer r' f' ev'"
      using Cons.IH[of "tracker_step re_test tk ev" r' f'] Cons.prems(3) by auto
    with s show ?thesis
      by (intro exI[of _ "ev # es1"] exI[of _ ev'] exI[of _ es2])
         (auto simp: releasing_answer_def)
  next
    assume "releasing_answer r f ev"
    then show ?thesis by (intro exI[of _ "[]"] exI[of _ ev] exI[of _ es]) simp
  qed
qed

text \<open>The delivery answer that may confirm a latch: its own generation, a real commit epoch.\<close>

definition confirming_answer :: "latched_trip \<Rightarrow> int \<Rightarrow> tracker_event \<Rightarrow> bool" where
  "confirming_answer r e ev \<longleftrightarrow>
     ev = KillDelivered (NInt e) (lt_generation r) \<and> 1 \<le> e \<and>
     (\<forall>f. lt_epochFloor r = Some f \<longrightarrow> f \<le> e)"

lemma unconfirmed_step:
  assumes "tk_latch tk = Unconfirmed r"
  shows "tk_latch (tracker_step re_test tk ev) = Unconfirmed r \<or>
     (\<exists>e. confirming_answer r e ev \<and>
        tk_latch (tracker_step re_test tk ev) = Confirmed (r\<lparr>lt_confirmed := True, lt_epochFloor := Some e\<rparr>))"
proof (cases ev)
  case (KillDelivered ep gen)
  then show ?thesis
    using assms by (auto simp: confirmKillDelivered_def confirming_answer_def split: option.splits if_splits)
qed (use assms in \<open>auto simp: observeCall_def observeError_def observe_keeps_latch observeKillState_def Let_def\<close>)

lemma unconfirmed_run:
  assumes "tk_latch tk = Unconfirmed r"
    and "latch_generation (tk_latch (foldl (tracker_step re_test) tk es)) \<noteq> Some (lt_generation r)"
  shows "\<exists>es1 c es2 ev es3 e. es = es1 @ c # es2 @ ev # es3 \<and>
     confirming_answer r e c \<and> releasing_answer r e ev"
  using assms
proof (induction es arbitrary: tk)
  case Nil
  then show ?case by (simp add: latch_generation_def)
next
  case (Cons c es)
  from unconfirmed_step[OF Cons.prems(1), of re_test c] show ?case
  proof (elim disjE exE conjE)
    assume "tk_latch (tracker_step re_test tk c) = Unconfirmed r"
    then obtain es1 c' es2 ev es3 e where "es = es1 @ c' # es2 @ ev # es3"
      "confirming_answer r e c'" "releasing_answer r e ev"
      using Cons.IH[of "tracker_step re_test tk c"] Cons.prems(2) by auto
    then show ?thesis by (metis append_Cons)
  next
    fix e
    let ?r = "r\<lparr>lt_confirmed := True, lt_epochFloor := Some e\<rparr>"
    assume c: "confirming_answer r e c" "tk_latch (tracker_step re_test tk c) = Confirmed ?r"
    then obtain es1 ev es2 where "es = es1 @ ev # es2" "releasing_answer ?r e ev"
      using confirmed_run[of "tracker_step re_test tk c" ?r e re_test es] Cons.prems(2) by auto
    with c show ?thesis
      by (intro exI[of _ "[]"] exI[of _ c] exI[of _ es1] exI[of _ ev] exI[of _ es2] exI[of _ e])
         (simp add: releasing_answer_def)
  qed
qed

section \<open>What an untripped budget has let through\<close>

lemma metered_value_nonneg: "metered_value call rule = Some v \<Longrightarrow> 0 \<le> v"
  by (auto simp: metered_value_def amountAt_def split: if_splits option.splits json.splits)

lemma MAX_safe: "is_safe_int MAX_SAFE_INTEGER" "0 < MAX_SAFE_INTEGER"
  by (simp_all add: is_safe_int_def MAX_SAFE_INTEGER_def)

lemma checkedAdd_exact: "0 \<le> a \<Longrightarrow> 0 \<le> b \<Longrightarrow> a + b \<le> MAX_SAFE_INTEGER \<Longrightarrow> checkedAdd a b = a + b"
  by (simp add: checkedAdd_def Let_def is_safe_int_def)

lemma checkedAdd_bounds:
  "0 \<le> a \<Longrightarrow> 0 \<le> b \<Longrightarrow> 0 \<le> checkedAdd a b \<and> checkedAdd a b \<le> MAX_SAFE_INTEGER"
  using MAX_safe by (auto simp: checkedAdd_def Let_def is_safe_int_def)

lemma checkedAdd_below:
  "0 \<le> a \<Longrightarrow> 0 \<le> b \<Longrightarrow> checkedAdd a b < MAX_SAFE_INTEGER \<Longrightarrow> checkedAdd a b = a + b"
  by (auto simp: checkedAdd_def Let_def split: if_splits)

lemma foldl_checkedAdd_exact:
  assumes "\<forall>v \<in> set vs. 0 \<le> v" and "0 \<le> a" and "a + sum_list vs \<le> MAX_SAFE_INTEGER"
  shows "foldl checkedAdd a vs = a + sum_list vs"
  using assms
proof (induction vs arbitrary: a)
  case (Cons v vs)
  have "0 \<le> sum_list vs" using Cons.prems by (auto intro: sum_list_nonneg)
  then have "checkedAdd a v = a + v" using Cons.prems by (intro checkedAdd_exact) auto
  with Cons show ?case by (simp add: add.assoc)
qed simp

lemma dropWhile_sorted:
  "sorted (map fst xs) \<Longrightarrow> dropWhile (\<lambda>e. fst e \<le> (c::int)) xs = filter (\<lambda>e. c < fst e) xs"
proof (induction xs)
  case (Cons x xs)
  then show ?case
  proof (cases "fst x \<le> c")
    case False
    with Cons.prems have "filter (\<lambda>e. c < fst e) xs = xs" by (force simp: filter_id_conv)
    with False show ?thesis by simp
  qed auto
qed simp

lemma sum_filter_mono:
  assumes "\<forall>e \<in> set xs. (0::int) \<le> snd e" and "\<And>e. P e \<Longrightarrow> Q e"
  shows "sum_list (map snd (filter P xs)) \<le> sum_list (map snd (filter Q xs))"
  using assms by (induction xs) (auto simp: add_increasing)

text \<open>The value metered by a rule at each observation it counted, and its total over a window.\<close>

definition rule_history ::
  "(string \<Rightarrow> string \<Rightarrow> bool) \<Rightarrow> limit_rule \<Rightarrow> (tool_call \<times> millis) list \<Rightarrow> (millis \<times> int) list" where
  "rule_history re_test rule obs =
     List.map_filter (\<lambda>(call, obsAt). if rule_counts re_test [Calls, Amount] call rule
        then map_option (Pair obsAt) (metered_value call rule) else None) obs"

definition window_total :: "int option \<Rightarrow> millis \<Rightarrow> (millis \<times> int) list \<Rightarrow> int" where
  "window_total window now hist =
     sum_list (map snd (filter (\<lambda>e. case window of None \<Rightarrow> True | Some w \<Rightarrow> now - w < fst e) hist))"

definition sane_rule :: "limit_rule \<Rightarrow> bool" where
  "sane_rule rule \<longleftrightarrow> 0 \<le> lr_max rule \<and> lr_max rule \<le> MAX_LIMIT_MAX \<and>
     (case lr_windowMs rule of None \<Rightarrow> True | Some w \<Rightarrow> 0 < w)"

text \<open>A rule state agrees with the history it has metered, and has stayed within budget.\<close>

definition in_budget :: "limit_rule \<Rightarrow> rule_state \<Rightarrow> (millis \<times> int) list \<Rightarrow> millis \<Rightarrow> bool" where
  "in_budget rule st hist seen \<longleftrightarrow>
     rs_rule st = rule \<and> rs_saturatedUntil st = None \<and> sorted (map fst hist) \<and>
     (\<forall>e \<in> set hist. fst e \<le> seen \<and> 0 \<le> snd e) \<and>
     (case lr_windowMs rule of
        None \<Rightarrow> rs_lifetimeTotal st = sum_list (map snd hist) \<and> sum_list (map snd hist) \<le> lr_max rule
      | Some w \<Rightarrow> (\<exists>cut. cut \<le> seen - w \<and> rs_events st = filter (\<lambda>e. cut < fst e) hist \<and>
           sum_list (map snd (rs_events st)) \<le> lr_max rule))"

lemma in_budget_total:
  assumes "in_budget rule st hist seen" and "seen \<le> now"
  shows "window_total (lr_windowMs rule) now hist \<le> lr_max rule"
proof (cases "lr_windowMs rule")
  case None
  then show ?thesis using assms(1) by (simp add: in_budget_def window_total_def)
next
  case (Some w)
  then obtain cut where cut: "cut \<le> seen - w" "sum_list (map snd (filter (\<lambda>e. cut < fst e) hist)) \<le> lr_max rule"
    using assms(1) by (auto simp: in_budget_def)
  have "window_total (lr_windowMs rule) now hist \<le> sum_list (map snd (filter (\<lambda>e. cut < fst e) hist))"
    unfolding window_total_def using assms Some cut(1)
    by (intro sum_filter_mono) (auto simp: in_budget_def)
  with cut show ?thesis by simp
qed

lemma in_budget_later: "in_budget rule st hist seen \<Longrightarrow> seen \<le> now \<Longrightarrow> in_budget rule st hist now"
proof (cases "lr_windowMs rule")
  case (Some w)
  assume b: "in_budget rule st hist seen" and le: "seen \<le> now"
  then obtain cut where "cut \<le> seen - w" "rs_events st = filter (\<lambda>e. cut < fst e) hist"
    "sum_list (map snd (rs_events st)) \<le> lr_max rule"
    using Some by (auto simp: in_budget_def)
  with b le Some show ?thesis by (auto simp: in_budget_def intro!: exI[of _ cut])
qed (auto simp: in_budget_def)

lemma in_budget_counted:
  assumes ok: "in_budget rule st hist seen" and sane: "sane_rule rule" and time: "seen \<le> obsAt"
    and quiet: "snd (observe_counted n call obsAt st) = None"
  shows "\<exists>v. metered_value call rule = Some v \<and>
     in_budget rule (fst (observe_counted n call obsAt st)) (hist @ [(obsAt, v)]) obsAt"
proof -
  have rule: "rs_rule st = rule" and nosat: "st\<lparr>rs_saturatedUntil := None\<rparr> = st"
    using ok by (auto simp: in_budget_def)
  obtain v where v: "metered_value call rule = Some v"
    using quiet rule by (cases "metered_value call rule") (auto simp: observe_counted_def Let_def)
  have maxlt: "lr_max rule < MAX_SAFE_INTEGER"
    using sane by (simp add: sane_rule_def MAX_LIMIT_MAX_def MAX_SAFE_INTEGER_def)
  let ?before = "window_total (lr_windowMs rule) obsAt hist"
  have le: "?before \<le> lr_max rule" by (rule in_budget_total[OF ok time])
  have hist: "sorted (map fst (hist @ [(obsAt, v)]))" "\<forall>e \<in> set (hist @ [(obsAt, v)]). fst e \<le> obsAt \<and> 0 \<le> snd e"
    using ok time v metered_value_nonneg by (auto simp: in_budget_def sorted_append)
  have nonneg: "0 \<le> ?before"
    using hist(2) by (auto simp: window_total_def intro!: sum_list_nonneg)
  have ev: "rs_events (prune st obsAt) = filter (\<lambda>e. obsAt - w < fst e) hist" if win: "lr_windowMs rule = Some w" for w
  proof -
    obtain cut where "cut \<le> seen - w" "rs_events st = filter (\<lambda>e. cut < fst e) hist"
      using ok win by (simp add: in_budget_def) blast
    moreover have "sorted (map fst (filter (\<lambda>e. cut < fst e) hist))"
      using ok by (intro sorted_filter) (simp add: in_budget_def)
    ultimately show ?thesis
      using time win rule by (auto simp: prune_def dropWhile_sorted intro!: filter_cong)
  qed
  have before: "currentTotal (prune st obsAt) = ?before"
  proof (cases "lr_windowMs rule")
    case None
    then show ?thesis
      using ok rule by (simp add: in_budget_def prune_def currentTotal_def window_total_def)
  next
    case (Some w)
    have r: "rs_rule (prune st obsAt) = rule" using rule by (simp add: prune_def split: option.split)
    have "foldl checkedAdd 0 (map snd (filter (\<lambda>e. obsAt - w < fst e) hist)) = ?before"
      using hist(2) le maxlt Some
      by (subst foldl_checkedAdd_exact) (auto simp: window_total_def)
    then show ?thesis using Some r ev by (simp add: currentTotal_def)
  qed
  have "checkedAdd ?before v \<noteq> MAX_SAFE_INTEGER \<and> checkedAdd ?before v \<le> lr_max rule"
    using quiet v le maxlt before rule nosat
    by (auto simp: observe_counted_def Let_def split: if_splits)
  then have tot: "checkedAdd ?before v = ?before + v" "?before + v \<le> lr_max rule"
    using nonneg v metered_value_nonneg maxlt checkedAdd_below[of ?before v] by force+
  have "in_budget rule (fst (observe_counted n call obsAt st)) (hist @ [(obsAt, v)]) obsAt"
  proof (cases "lr_windowMs rule")
    case None
    then have "fst (observe_counted n call obsAt st) = st\<lparr>rs_lifetimeTotal := ?before + v\<rparr>"
      using quiet v le maxlt before rule nosat tot
      by (auto simp: observe_counted_def Let_def prune_def split: if_splits)
    then show ?thesis
      using None ok hist tot by (simp add: in_budget_def window_total_def)
  next
    case (Some w)
    then have st': "fst (observe_counted n call obsAt st) =
        (prune st obsAt)\<lparr>rs_events := rs_events (prune st obsAt) @ [(obsAt, v)]\<rparr>"
      using quiet v le maxlt before rule nosat tot
      by (auto simp: observe_counted_def Let_def split: if_splits)
    have w: "0 < w" using sane Some by (simp add: sane_rule_def)
    have "rs_events (fst (observe_counted n call obsAt st)) =
        filter (\<lambda>e. obsAt - w < fst e) (hist @ [(obsAt, v)])"
      using st' ev[OF Some] w by simp
    then show ?thesis
      using Some ok hist tot st' rule
      by (auto simp: in_budget_def window_total_def prune_def intro!: exI[of _ "obsAt - w"])
  qed
  with v show ?thesis by blast
qed

lemma in_budget_observe:
  assumes "in_budget rule st (rule_history re_test rule obs) seen" and "sane_rule rule" and "seen \<le> obsAt"
    and "snd (observe_rule re_test [Calls, Amount] n call obsAt st) = None"
  shows "in_budget rule (fst (observe_rule re_test [Calls, Amount] n call obsAt st))
     (rule_history re_test rule (obs @ [(call, obsAt)])) obsAt"
proof (cases "rule_counts re_test [Calls, Amount] call rule")
  case False
  then show ?thesis
    using assms in_budget_later[OF assms(1,3)]
    by (auto simp: observe_rule_def rule_history_def List.map_filter_def in_budget_def)
next
  case True
  then have r: "observe_rule re_test [Calls, Amount] n call obsAt st = observe_counted n call obsAt st"
    using assms(1) by (simp add: observe_rule_def in_budget_def)
  with in_budget_counted[OF assms(1,2,3)] assms(4) obtain v where
    "metered_value call rule = Some v"
    "in_budget rule (fst (observe_counted n call obsAt st)) (rule_history re_test rule obs @ [(obsAt, v)]) obsAt"
    by metis
  with True r show ?thesis by (simp add: rule_history_def List.map_filter_def)
qed

lemma fresh_in_budget:
  assumes "sane_rule rule"
  shows "in_budget rule (fresh_state rule) (rule_history re_test rule []) t"
proof (cases "lr_windowMs rule")
  case None
  then show ?thesis
    using assms by (simp add: in_budget_def fresh_state_def rule_history_def sane_rule_def List.map_filter_def)
next
  case (Some w)
  then show ?thesis
    using assms
    by (auto simp: in_budget_def fresh_state_def rule_history_def sane_rule_def List.map_filter_def
        intro!: exI[of _ "t - w"])
qed

text \<open>A run of \<open>observeCall\<close>s with the trips each of them returned.\<close>

fun observe_calls ::
  "(string \<Rightarrow> string \<Rightarrow> bool) \<Rightarrow> int option \<Rightarrow> tracker \<Rightarrow> (tool_call \<times> millis) list \<Rightarrow>
     tracker \<times> limit_trip list list" where
  "observe_calls re_test ep tk [] = (tk, [])"
| "observe_calls re_test ep tk ((call, obsAt) # obs) =
     (let r = observeCall re_test call ep obsAt obsAt tk;
          rest = observe_calls re_test ep (fst r) obs
      in (fst rest, snd r # snd rest))"

lemma observe_states_of [simp]:
  "tk_states (fst (observe re_test metrics call ep obsAt tripAt tk)) =
     map (\<lambda>st. fst (observe_rule re_test metrics (tk_maxWindowEvents tk) call obsAt st)) (tk_states tk)"
  by (simp add: observe_def Let_def observe_states_fst)

lemma trip_keeps_rule:
  "trip_rule ` set (snd (trip call ep tripAt t a)) = insert (trip_rule t) (trip_rule ` set (snd a))"
  by (simp add: trip_def Let_def)

lemma trip_keeps_max [simp]: "tk_maxWindowEvents (fst (trip call ep tripAt t a)) = tk_maxWindowEvents (fst a)"
  by (simp add: trip_def Let_def)

lemma trips_rules:
  "trip_rule ` set (snd (foldl (\<lambda>a t. trip call ep tripAt t a) a raws)) =
     trip_rule ` set (snd a) \<union> trip_rule ` set raws"
  by (induction raws arbitrary: a) (auto simp: trip_keeps_rule)

lemma trips_max:
  "tk_maxWindowEvents (fst (foldl (\<lambda>a t. trip call ep tripAt t a) a raws)) = tk_maxWindowEvents (fst a)"
  by (induction raws arbitrary: a) simp_all

lemma observe_max [simp]:
  "tk_maxWindowEvents (fst (observe re_test metrics call ep obsAt tripAt tk)) = tk_maxWindowEvents tk"
  by (simp add: observe_def Let_def observe_states_snd trips_max)

lemma observe_quiet_rule:
  assumes "st \<in> set (tk_states tk)"
    and "\<forall>t \<in> set (snd (observe re_test metrics call ep obsAt tripAt tk)). trip_rule t \<noteq> rs_rule st"
  shows "snd (observe_rule re_test metrics (tk_maxWindowEvents tk) call obsAt st) = None"
proof (rule ccontr)
  assume "snd (observe_rule re_test metrics (tk_maxWindowEvents tk) call obsAt st) \<noteq> None"
  then obtain t where t: "snd (observe_rule re_test metrics (tk_maxWindowEvents tk) call obsAt st) = Some t" by blast
  then have "t \<in> set (raw_trips re_test metrics (tk_maxWindowEvents tk) call obsAt (tk_states tk))"
    using assms(1) by (force simp: raw_trips_def List.map_filter_def)
  then have "trip_rule t \<in> trip_rule ` set (snd (observe re_test metrics call ep obsAt tripAt tk))"
    by (auto simp: observe_def Let_def observe_states_snd trips_rules)
  with assms(2) observe_rule_trip_rule[OF t] show False by auto
qed

lemma observe_calls_in_budget:
  assumes "st \<in> set (tk_states tk)" and "in_budget rule st (rule_history re_test rule past) seen"
    and "sane_rule rule" and "sorted (seen # map snd obs)"
    and "\<forall>trips \<in> set (snd (observe_calls re_test ep tk obs)). \<forall>t \<in> set trips. trip_rule t \<noteq> rule"
  shows "\<exists>st' seen'. in_budget rule st' (rule_history re_test rule (past @ obs)) seen' \<and>
     (\<forall>now. seen \<le> now \<and> (\<forall>o' \<in> set obs. snd o' \<le> now) \<longrightarrow> seen' \<le> now)"
  using assms
proof (induction obs arbitrary: tk st past seen)
  case Nil
  then show ?case by auto
next
  case (Cons o' obs)
  obtain call obsAt where o': "o' = (call, obsAt)" by fastforce
  let ?r = "observeCall re_test call ep obsAt obsAt tk"
  let ?st = "fst (observe_rule re_test [Calls, Amount] (tk_maxWindowEvents tk) call obsAt st)"
  have rule: "rs_rule st = rule" using Cons.prems(2) by (simp add: in_budget_def)
  have quiet: "snd (observe_rule re_test [Calls, Amount] (tk_maxWindowEvents tk) call obsAt st) = None"
    using Cons.prems(1,5) rule o'
    by (intro observe_quiet_rule) (auto simp: Let_def observeCall_def)
  have in': "in_budget rule ?st (rule_history re_test rule (past @ [(call, obsAt)])) obsAt"
    using Cons.prems(2-4) o' quiet by (intro in_budget_observe) auto
  have mem: "?st \<in> set (tk_states (fst ?r))"
    using Cons.prems(1) by (simp add: observeCall_def)
  obtain st' seen' where "in_budget rule st' (rule_history re_test rule ((past @ [(call, obsAt)]) @ obs)) seen'"
    "\<forall>now. obsAt \<le> now \<and> (\<forall>o' \<in> set obs. snd o' \<le> now) \<longrightarrow> seen' \<le> now"
    using Cons.IH[OF mem in' Cons.prems(3)] Cons.prems(4,5) o' by (auto simp: Let_def)
  then show ?case using o' by (intro exI[of _ st'] exI[of _ seen']) auto
qed

section \<open>Bounded memory\<close>

definition state_bounded :: "nat \<Rightarrow> rule_state \<Rightarrow> bool" where
  "state_bounded n st \<longleftrightarrow> 0 \<le> rs_lifetimeTotal st \<and> rs_lifetimeTotal st \<le> MAX_SAFE_INTEGER \<and>
     length (rs_events st) \<le> n \<and> (\<forall>e \<in> set (rs_events st). 0 \<le> snd e)"

definition tracker_bounded :: "nat \<Rightarrow> tracker \<Rightarrow> bool" where
  "tracker_bounded n tk \<longleftrightarrow> tk_maxWindowEvents tk = n \<and> (\<forall>st \<in> set (tk_states tk). state_bounded n st)"

lemma prune_bounded: "state_bounded n st \<Longrightarrow> state_bounded n (prune st obsAt)"
  by (auto simp: state_bounded_def prune_def split: option.split
      intro: le_trans[OF length_dropWhile_le] dest: set_dropWhileD)

lemma saturate_bounded: "state_bounded m st \<Longrightarrow> state_bounded n (saturate st obsAt)"
  by (simp add: state_bounded_def saturate_def)

lemma foldl_checkedAdd_nonneg: "\<forall>v \<in> set vs. 0 \<le> v \<Longrightarrow> 0 \<le> a \<Longrightarrow> 0 \<le> foldl checkedAdd a vs"
  by (induction vs arbitrary: a) (auto simp: checkedAdd_bounds)

lemma currentTotal_nonneg: "state_bounded n st \<Longrightarrow> 0 \<le> currentTotal st"
  by (auto simp: currentTotal_def state_bounded_def split: option.split intro!: foldl_checkedAdd_nonneg)

lemma observe_counted_bounded:
  assumes "state_bounded n st"
  shows "state_bounded n (fst (observe_counted n call obsAt st))"
proof -
  let ?st = "prune (st\<lparr>rs_saturatedUntil := None\<rparr>) obsAt"
  have st: "state_bounded n ?st"
    using assms by (intro prune_bounded) (simp add: state_bounded_def)
  have tot: "0 \<le> checkedAdd (currentTotal ?st) v \<and> checkedAdd (currentTotal ?st) v \<le> MAX_SAFE_INTEGER"
    if "metered_value call (rs_rule st) = Some v" for v
    using st that by (intro checkedAdd_bounds currentTotal_nonneg metered_value_nonneg)
  have app: "state_bounded (Suc n) (?st\<lparr>rs_events := rs_events ?st @ [(obsAt, v)]\<rparr>)"
    if "metered_value call (rs_rule st) = Some v" for v
    using st metered_value_nonneg[OF that] by (auto simp: state_bounded_def)
  show ?thesis
  proof (cases "metered_value call (rs_rule st)")
    case None
    then show ?thesis using st by (simp add: observe_counted_def Let_def)
  next
    case (Some v)
    show ?thesis
    proof (cases "lr_windowMs (rs_rule st)")
      case None
      then show ?thesis
        using st tot[OF Some] Some MAX_safe by (auto simp: observe_counted_def Let_def state_bounded_def)
    next
      case (Some w)
      then show ?thesis
        using st \<open>metered_value call (rs_rule st) = Some v\<close> app saturate_bounded[OF st] saturate_bounded[OF app]
        by (auto simp: observe_counted_def Let_def) (auto simp: state_bounded_def)
    qed
  qed
qed

lemma observe_rule_bounded:
  "state_bounded n st \<Longrightarrow> state_bounded n (fst (observe_rule re_test metrics n call obsAt st))"
  by (simp add: observe_rule_def observe_counted_bounded split: option.split)

lemma observe_bounded:
  "tracker_bounded n tk \<Longrightarrow> tracker_bounded n (fst (observe re_test metrics call ep obsAt tripAt tk))"
  by (auto simp: tracker_bounded_def observe_rule_bounded)

lemma rearm_bounded: "state_bounded n (rearm_state st)"
  using MAX_safe by (simp add: state_bounded_def rearm_state_def)

lemma observeKillState_bounded:
  "tracker_bounded n tk \<Longrightarrow> tracker_bounded n (observeKillState ids ep dur tk)"
  by (auto simp: tracker_bounded_def observeKillState_def Let_def rearm_bounded
      split: latch_state.split option.split)

lemma confirmKillDelivered_bounded:
  "tracker_bounded n tk \<Longrightarrow> tracker_bounded n (confirmKillDelivered ep gen tk)"
  by (auto simp: tracker_bounded_def confirmKillDelivered_def split: latch_state.split option.split)

interpretation bounded_tracker: machine "tracker_step re_test" "tracker_bounded n" for re_test n
proof
  fix tk ev
  assume "tracker_bounded n tk"
  then show "tracker_bounded n (tracker_step re_test tk ev)"
    by (cases ev) (auto simp: observeCall_def observeError_def observe_bounded observeKillState_bounded
        confirmKillDelivered_bounded)
qed

section \<open>Properties\<close>

text \<open>
  one kill per observation.  However many kill rules one observed call crosses, at
  most one of the returned trips carries a latch generation.  One does exactly when
  the tracker was armed and has latched for this call, and then its generation is the
  new latch's and the latch names its rule and the calling agent.
\<close>
theorem one_latch_per_observation:
  "observation_outcome call tk (fst (observeCall re_test call ep obsAt tripAt tk))
     (snd (observeCall re_test call ep obsAt tripAt tk)) \<and>
   observation_outcome call tk (fst (observeError re_test call ep obsAt tripAt tk))
     (snd (observeError re_test call ep obsAt tripAt tk))"
  unfolding observeCall_def observeError_def by (intro conjI observe_outcome)

text \<open>
  C3: a latched kill is released only by the owner.  If a latch is open and later is no longer
  there, the run holds a delivery answer for its own generation with a commit epoch
  not below its floor, and after it a durable \<open>/status\<close> answer at or after that
  epoch in which the agent is no longer killed.  No listing, stale answer or degraded answer
  does it.
\<close>
theorem latch_released_only_by_restore:
  assumes "tk_latch tk = Unconfirmed r"
    and "latch_generation (tk_latch (foldl (tracker_step re_test) tk es)) \<noteq> Some (lt_generation r)"
  shows "\<exists>es1 es2 es3 e e' ids.
     es = es1 @ KillDelivered (NInt e) (lt_generation r) # es2 @ KillStatus ids (Some e') True # es3 \<and>
     1 \<le> e \<and> (\<forall>f. lt_epochFloor r = Some f \<longrightarrow> f \<le> e) \<and> e \<le> e' \<and> lt_agentId r \<notin> set ids"
proof -
  obtain es1 c es2 ev es3 e where run: "es = es1 @ c # es2 @ ev # es3"
    and c: "confirming_answer r e c" and ev: "releasing_answer r e ev"
    using unconfirmed_run[OF assms] by blast
  obtain ids e' where "ev = KillStatus ids (Some e') True" "e \<le> e'" "lt_agentId r \<notin> set ids"
    using ev by (auto simp: releasing_answer_def)
  with run c show ?thesis
    by (intro exI[of _ es1] exI[of _ es2] exI[of _ es3] exI[of _ e] exI[of _ e'] exI[of _ ids])
       (simp add: confirming_answer_def)
qed

theorem latch_released_only_by_restore_witness:
  "\<exists>es1 es2 es3 e e' ids.
     [KillDelivered (NInt 5) 1, KillStatus [] (Some 5) True] =
       es1 @ KillDelivered (NInt e) 1 # es2 @ KillStatus ids (Some e') True # es3 \<and>
     1 \<le> e \<and> 4 \<le> e \<and> e \<le> e' \<and> ''bot'' \<notin> set ids"
proof -
  let ?r = "\<lparr>lt_ruleId = ''spend'', lt_agentId = ''bot'', lt_reason = [], lt_at = 0,
     lt_confirmed = False, lt_generation = 1, lt_epochFloor = Some 4\<rparr>"
  let ?tk = "\<lparr>tk_states = [], tk_maxWindowEvents = 8, tk_latch = Unconfirmed ?r,
     tk_latchGenerations = 1, tk_lastObservedEpoch = Some 3\<rparr>"
  have "latch_generation (tk_latch (foldl (tracker_step (\<lambda>_ _. True)) ?tk
      [KillDelivered (NInt 5) 1, KillStatus [] (Some 5) True])) \<noteq> Some (lt_generation ?r)"
    by (simp add: confirmKillDelivered_def observeKillState_def rememberEpoch_def is_safe_int_def
        MAX_SAFE_INTEGER_def latch_generation_def Let_def)
  from latch_released_only_by_restore[OF _ this] show ?thesis by simp
qed

text \<open>
  C17: an untripped budget bounds what ran.  If none of a run of observed calls, at
  non-decreasing instants, tripped a rule, then the values of the calls the rule counts in its window
  (over the whole run for a lifetime rule) sum to at most its \<open>max\<close>.
\<close>
theorem untripped_budget_bounds_calls:
  assumes "rule \<in> set rs" and "sane_rule rule" and "sorted (map snd obs)"
    and "\<forall>trips \<in> set (snd (observe_calls re_test ep (new_tracker rs mx) obs)).
           \<forall>t \<in> set trips. trip_rule t \<noteq> rule"
    and "\<forall>o' \<in> set obs. snd o' \<le> now"
  shows "window_total (lr_windowMs rule) now (rule_history re_test rule obs) \<le> lr_max rule"
proof -
  define start where "start = Min (insert now (snd ` set obs))"
  have st: "fresh_state rule \<in> set (tk_states (new_tracker rs mx))"
    using assms(1) by (simp add: new_tracker_def)
  have init: "in_budget rule (fresh_state rule) (rule_history re_test rule []) start"
    by (rule fresh_in_budget[OF assms(2)])
  have sorted: "sorted (start # map snd obs)" and le: "start \<le> now"
    using assms(3) by (auto simp: start_def)
  obtain st' seen' where "in_budget rule st' (rule_history re_test rule obs) seen'" "seen' \<le> now"
    using observe_calls_in_budget[OF st init assms(2) sorted assms(4)] le assms(5) by auto
  then show ?thesis by (rule in_budget_total)
qed

theorem untripped_budget_bounds_calls_witness:
  "window_total (Some 10) 5 (rule_history (\<lambda>_ _. True)
     \<lparr>lr_id = ''rate'', lr_description = None, lr_tool = ''b*'', lr_argsPattern = None,
      lr_metric = Calls, lr_amountPath = None, lr_max = 2, lr_windowMs = Some 10, lr_action = KillAction\<rparr>
     [(\<lparr>call_agentId = ''bot'', call_tool = ''bash'', call_args = None, call_timestamp = None\<rparr>, 3),
      (\<lparr>call_agentId = ''bot'', call_tool = ''bash'', call_args = None, call_timestamp = None\<rparr>, 5)])
     \<le> (2::int)"
proof -
  let ?rule = "\<lparr>lr_id = ''rate'', lr_description = None, lr_tool = ''b*'', lr_argsPattern = None,
      lr_metric = Calls, lr_amountPath = None, lr_max = 2, lr_windowMs = Some 10, lr_action = KillAction\<rparr>"
  let ?call = "\<lparr>call_agentId = ''bot'', call_tool = ''bash'', call_args = None, call_timestamp = None\<rparr>"
  let ?re = "\<lambda>_ _. True"
  have quiet: "\<forall>trips \<in> set (snd (observe_calls ?re None (new_tracker [?rule] None) [(?call, 3), (?call, 5)])).
      \<forall>t \<in> set trips. trip_rule t \<noteq> ?rule"
    by (simp add: observeCall_def observe_def new_tracker_def fresh_state_def Let_def rememberEpoch_def
        observe_rule_def rule_counts_def toolGlobMatches_glob line_terminator_def code_unit_def
        observe_counted_def metered_value_def currentTotal_def prune_def checkedAdd_def is_safe_int_def
        MAX_SAFE_INTEGER_def MAX_WINDOW_EVENTS_def)
  have "sane_rule ?rule" by (simp add: sane_rule_def MAX_LIMIT_MAX_def)
  from untripped_budget_bounds_calls[OF _ this _ quiet, of 5] show ?thesis by simp
qed

text \<open>
  counting stays in bounds.  Whatever calls, failures, kill states and delivery answers a
  tracker sees, in any order, every lifetime total is a non-negative safe integer and no window
  buffer holds more than the configured number of events.
\<close>
theorem tracker_memory_bounded:
  "tracker_bounded (case mx of None \<Rightarrow> MAX_WINDOW_EVENTS | Some n \<Rightarrow> n)
     (foldl (tracker_step re_test) (new_tracker rs mx) es)"
  by (rule bounded_tracker.inv_run)
     (use MAX_safe in \<open>auto simp: tracker_bounded_def new_tracker_def state_bounded_def fresh_state_def\<close>)

end
