(* ===== verification/TwoGo.thy ===== *)
theory TwoGo
  imports Prelude
begin

text \<open>
  The restore ceremony of \<open>packages/control-plane/src/twogo.ts\<close>: two confirmations
  separated by a mandatory pause.  The class \<open>RestoreCeremony\<close> is the record
  \<open>ceremony\<close>; every method takes the clock readings it makes.
\<close>

record restore_authorization =
  ra_ceremonyId :: string
  ra_ownerId :: string
  ra_completedAt :: millis

datatype ceremony_state = Go1 | Ready | Completed | Expired

record ceremony =
  ce_status :: ceremony_state
  ce_startedAt :: millis
  ce_cooldownMs :: millis
  ce_ttlMs :: millis
  ce_ceremonyId :: string
  ce_ownerId :: string

definition new_ceremony ::
  "string \<Rightarrow> string \<Rightarrow> millis option \<Rightarrow> millis option \<Rightarrow> millis \<Rightarrow> ceremony" where
  "new_ceremony cid owner cooldown ttl now =
     \<lparr>ce_status = Go1, ce_startedAt = now,
      ce_cooldownMs = (case cooldown of None \<Rightarrow> 30000 | Some c \<Rightarrow> c),
      ce_ttlMs = (case ttl of None \<Rightarrow> 5 * 60000 | Some t \<Rightarrow> t),
      ce_ceremonyId = cid, ce_ownerId = owner\<rparr>"

definition tick :: "millis \<Rightarrow> ceremony \<Rightarrow> ceremony" where
  "tick now c =
     (if ce_status c = Completed \<or> ce_status c = Expired then c
      else let elapsed = now - ce_startedAt c in
        if elapsed \<ge> ce_ttlMs c then c\<lparr>ce_status := Expired\<rparr>
        else if elapsed \<ge> ce_cooldownMs c then c\<lparr>ce_status := Ready\<rparr>
        else c)"

definition cooldownRemainingMs :: "millis \<Rightarrow> ceremony \<Rightarrow> millis" where
  "cooldownRemainingMs now c = max 0 (ce_startedAt c + ce_cooldownMs c - now)"

definition expiresAt :: "ceremony \<Rightarrow> millis" where
  "expiresAt c = ce_startedAt c + ce_ttlMs c"

text \<open>\<open>confirm\<close> reads the clock in \<open>tick\<close> and again for the authorization; \<open>Inl\<close> is the throw.\<close>

definition confirm ::
  "millis \<Rightarrow> millis \<Rightarrow> ceremony \<Rightarrow> ceremony \<times> (ceremony_state + restore_authorization)" where
  "confirm now now' c0 =
     (let c = tick now c0 in
      if ce_status c \<noteq> Ready then (c, Inl (ce_status c))
      else (c\<lparr>ce_status := Completed\<rparr>,
            Inr \<lparr>ra_ceremonyId = ce_ceremonyId c, ra_ownerId = ce_ownerId c, ra_completedAt = now'\<rparr>))"

datatype ceremony_event = Tick millis | Confirm millis millis

fun ceremony_step :: "ceremony \<Rightarrow> ceremony_event \<Rightarrow> ceremony \<times> bool" where
  "ceremony_step c (Tick now) = (tick now c, False)"
| "ceremony_step c (Confirm now now') =
     (case confirm now now' c of (c', Inr _) \<Rightarrow> (c', True) | (c', Inl _) \<Rightarrow> (c', False))"

definition event_time :: "ceremony_event \<Rightarrow> millis" where
  "event_time ev = (case ev of Tick now \<Rightarrow> now | Confirm now _ \<Rightarrow> now)"

text \<open>
  The ready state records that the cooldown had passed at some earlier reading; what the
  fields say never changes.
\<close>

definition ceremony_sound :: "ceremony \<Rightarrow> millis \<Rightarrow> bool" where
  "ceremony_sound c seen \<longleftrightarrow>
     (ce_status c = Ready \<longrightarrow> ce_startedAt c + ce_cooldownMs c \<le> seen)"

lemma tick_fields [simp]:
  "ce_startedAt (tick now c) = ce_startedAt c" "ce_cooldownMs (tick now c) = ce_cooldownMs c"
  "ce_ttlMs (tick now c) = ce_ttlMs c" "ce_ceremonyId (tick now c) = ce_ceremonyId c"
  "ce_ownerId (tick now c) = ce_ownerId c"
  by (simp_all add: tick_def Let_def)

lemma ceremony_step_fields [simp]:
  "ce_startedAt (fst (ceremony_step c ev)) = ce_startedAt c"
  "ce_cooldownMs (fst (ceremony_step c ev)) = ce_cooldownMs c"
  "ce_ttlMs (fst (ceremony_step c ev)) = ce_ttlMs c"
  by (cases ev; simp add: confirm_def Let_def split: sum.split)+

lemma tick_sound: "ceremony_sound c seen \<Longrightarrow> seen \<le> now \<Longrightarrow> ceremony_sound (tick now c) now"
  by (auto simp: ceremony_sound_def tick_def Let_def)

lemma confirm_time:
  assumes "ceremony_sound c seen" and "seen \<le> now" and "snd (confirm now now' c) = Inr auth"
  shows "ce_startedAt c + ce_cooldownMs c \<le> now" and "now < expiresAt c"
proof -
  have ready: "ce_status (tick now c) = Ready"
    using assms(3) by (auto simp: confirm_def Let_def split: if_splits)
  show "ce_startedAt c + ce_cooldownMs c \<le> now"
    using tick_sound[OF assms(1,2)] ready by (simp add: ceremony_sound_def)
  show "now < expiresAt c"
    using ready by (auto simp: tick_def Let_def expiresAt_def split: if_splits)
qed

lemma step_sound:
  assumes "ceremony_sound c seen" and "seen \<le> event_time ev"
  shows "ceremony_sound (fst (ceremony_step c ev)) (event_time ev)"
  using assms tick_sound[of c seen "event_time ev"]
  by (cases ev) (auto simp: event_time_def confirm_def Let_def ceremony_sound_def split: sum.split)

section \<open>A ceremony completes at most once\<close>

interpretation ceremony_use: single_use ceremony_step "\<lambda>_. ()" "\<lambda>c _. ce_status c = Completed"
proof
  fix c ev and k :: unit
  show "ce_status c = Completed \<Longrightarrow> ce_status (fst (ceremony_step c ev)) = Completed"
    by (cases ev) (auto simp: tick_def confirm_def Let_def)
  show "ce_status c = Completed \<Longrightarrow> \<not> snd (ceremony_step c ev)"
    by (cases ev) (auto simp: tick_def confirm_def Let_def)
  show "snd (ceremony_step c ev) \<Longrightarrow> ce_status (fst (ceremony_step c ev)) = Completed"
    by (cases ev) (auto simp: confirm_def Let_def split: sum.splits if_splits)
qed

lemma completion_time:
  assumes "ceremony_sound c seen" and "sorted (seen # map event_time es)"
    and "snd (ceremony_step (foldl (\<lambda>c ev. fst (ceremony_step c ev)) c es) (Confirm now now'))"
    and "\<forall>ev \<in> set es. event_time ev \<le> now" and "seen \<le> now"
  shows "ce_startedAt c + ce_cooldownMs c \<le> now \<and> now < expiresAt c"
  using assms
proof (induction es arbitrary: c seen)
  case Nil
  then obtain auth where "snd (confirm now now' c) = Inr auth"
    by (auto split: prod.splits sum.splits)
  then show ?case using confirm_time[OF Nil.prems(1,5)] by blast
next
  case (Cons ev es)
  have "ceremony_sound (fst (ceremony_step c ev)) (event_time ev)"
    using Cons.prems by (intro step_sound) auto
  then show ?case using Cons.IH Cons.prems by (fastforce simp: expiresAt_def)
qed

section \<open>Properties\<close>

text \<open>
  C31: two GOs with a pause.  Over any run of ticks and confirmations of a ceremony, at
  non-decreasing instants, a confirmation succeeds only at or after the cooldown and before the
  time to live has elapsed, and at most one confirmation of the run succeeds.
\<close>
theorem ceremony_cooldown_and_once:
  assumes "sorted (start # map event_time es)" and "\<forall>ev \<in> set es. event_time ev \<le> now" and "start \<le> now"
    and "snd (ceremony_step (foldl (\<lambda>c ev. fst (ceremony_step c ev))
           (new_ceremony cid owner cooldown ttl start) es) (Confirm now now'))"
  shows "start + (case cooldown of None \<Rightarrow> 30000 | Some c \<Rightarrow> c) \<le> now \<and>
     now < start + (case ttl of None \<Rightarrow> 300000 | Some t \<Rightarrow> t) \<and>
     wins ceremony_step (\<lambda>_. ()) () (new_ceremony cid owner cooldown ttl start)
       (es @ Confirm now now' # later) \<le> 1"
proof -
  have "ceremony_sound (new_ceremony cid owner cooldown ttl start) start"
    by (simp add: ceremony_sound_def new_ceremony_def)
  from completion_time[OF this assms(1,4,2,3)]
  have "start + (case cooldown of None \<Rightarrow> 30000 | Some c \<Rightarrow> c) \<le> now \<and>
     now < start + (case ttl of None \<Rightarrow> 300000 | Some t \<Rightarrow> t)"
    by (cases ttl) (simp_all add: new_ceremony_def expiresAt_def)
  with ceremony_use.at_most_one_win show ?thesis by blast
qed

theorem ceremony_cooldown_and_once_witness:
  "(0::int) + 30000 \<le> 30000 \<and>
     wins ceremony_step (\<lambda>_. ()) () (new_ceremony ''c1'' ''owner'' None None 0)
       ([Tick 10] @ Confirm 30000 30001 # [Confirm 30002 30002]) \<le> 1"
proof -
  have "snd (ceremony_step (foldl (\<lambda>c ev. fst (ceremony_step c ev))
      (new_ceremony ''c1'' ''owner'' None None 0) [Tick 10]) (Confirm 30000 30001))"
    by (simp add: new_ceremony_def tick_def confirm_def Let_def)
  from ceremony_cooldown_and_once[OF _ _ _ this, of "[Confirm 30002 30002]"]
  show ?thesis by (simp add: event_time_def)
qed

end
