(* ===== verification/KillSwitch.thy ===== *)
theory KillSwitch
  imports AgentId TwoGo
begin

text \<open>
  The kill switch of \<open>packages/control-plane/src/kill.ts\<close>: the class \<open>KillSwitch\<close>
  as the record \<open>kill_switch\<close>, its constructor \<open>boot\<close> and its methods, over the
  interface \<open>KillStateStore\<close> of \<open>kill-state.ts\<close>.

  The store is a record of the three operations over a type \<open>'f\<close> of worlds (what the
  disk holds); the switch carries the current world.  A throw is a value of the result.
  A method that reads the clock takes the pair of readings: the event's and \<open>persist\<close>'s.
  Log output to the console is left out.
\<close>

section \<open>Events, state and the store interface\<close>

datatype kill_source = SrcButton | SrcHoneytoken | SrcApp | SrcVoice | SrcApi | SrcLimit

record kill_event =
  ke_source :: kill_source
  ke_reason :: "string option"
  ke_at :: js_num
  ke_unauthenticated :: bool

datatype audit_entry =
    AuditKill kill_event
  | AuditRestore restore_authorization js_num
  | AuditAlert kill_event
  | AuditAgentKill string kill_event
  | AuditAgentRestore string restore_authorization js_num

record persisted_kill_state =
  ps_killed :: bool
  ps_epoch :: int
  ps_lastKill :: "kill_event option"
  ps_agentKills :: "(string \<times> kill_event) list option"

datatype load_outcome = Absent | Loaded persisted_kill_state | Corrupt string

datatype save_outcome = SaveDurable | SaveNotDurable string | SaveThrew string

record 'f kill_store =
  st_load :: "'f \<Rightarrow> 'f \<times> load_outcome"
  st_save :: "'f \<Rightarrow> persisted_kill_state \<Rightarrow> 'f \<times> save_outcome"
  st_degrade :: "'f \<Rightarrow> 'f \<times> bool option"

record 'f kill_switch =
  sw_killed :: bool
  sw_epoch :: int
  sw_log :: "audit_entry list"
  sw_consumed :: "string list"
  sw_lastKill :: "kill_event option"
  sw_degradedSince :: "(js_num \<times> string) option"
  sw_quarantineFailed :: bool
  sw_agentKills :: "(string \<times> kill_event) list"
  sw_world :: 'f

type_synonym clock = "js_num \<times> js_num"

definition MAX_SCOPED_KILL_REASON_CHARS :: nat where
  "MAX_SCOPED_KILL_REASON_CHARS = 128"

definition is_control :: "char \<Rightarrow> bool" where
  "is_control c \<longleftrightarrow> code_unit c \<le> 0x1f \<or> code_unit c = 0x7f"

definition sanitizeScopedKillReason :: "string \<Rightarrow> string" where
  "sanitizeScopedKillReason reason =
     take MAX_SCOPED_KILL_REASON_CHARS (map (\<lambda>c. if is_control c then CHR '' '' else c) reason)"

section \<open>Persisting\<close>

definition snapshot :: "('f, 'z) kill_switch_scheme \<Rightarrow> persisted_kill_state" where
  "snapshot sw =
     \<lparr>ps_killed = sw_killed sw, ps_epoch = sw_epoch sw,
      ps_lastKill = (if sw_killed sw then sw_lastKill sw else None),
      ps_agentKills = (if length (sw_agentKills sw) > 0 then Some (object_order (sw_agentKills sw)) else None)\<rparr>"

definition persist :: "'f kill_store option \<Rightarrow> js_num \<Rightarrow> 'f kill_switch \<Rightarrow> 'f kill_switch" where
  "persist store now sw =
     (case store of
        None \<Rightarrow> sw
      | Some st \<Rightarrow>
          (case st_save st (sw_world sw) (snapshot sw) of
             (w, SaveThrew reason) \<Rightarrow>
               (let sw1 = sw\<lparr>sw_world := w, sw_degradedSince := Some (now, reason)\<rparr>;
                    (w', q) = st_degrade st w;
                    quarantined = (case q of Some b \<Rightarrow> b | None \<Rightarrow> False)
                in sw1\<lparr>sw_world := w', sw_quarantineFailed := \<not> quarantined\<rparr>)
           | (w, SaveDurable) \<Rightarrow>
               sw\<lparr>sw_world := w, sw_degradedSince := None, sw_quarantineFailed := False\<rparr>
           | (w, SaveNotDurable detail) \<Rightarrow>
               sw\<lparr>sw_world := w, sw_degradedSince := Some (now, detail), sw_quarantineFailed := False\<rparr>))"

section \<open>Stopping\<close>

definition engage ::
  "'f kill_store option \<Rightarrow> kill_source \<Rightarrow> string option \<Rightarrow> bool \<Rightarrow> clock \<Rightarrow> 'f kill_switch \<Rightarrow> 'f kill_switch" where
  "engage store src reason unauth clk sw =
     (let event = \<lparr>ke_source = src, ke_reason = reason, ke_at = fst clk, ke_unauthenticated = unauth\<rparr>
      in persist store (snd clk)
           (sw\<lparr>sw_epoch := sw_epoch sw + 1, sw_log := sw_log sw @ [AuditKill event],
               sw_lastKill := Some event, sw_killed := True\<rparr>))"

definition original_reason :: "string option \<Rightarrow> string" where
  "original_reason sanitized = (case sanitized of None \<Rightarrow> [] | Some s \<Rightarrow> ''; original reason: '' @ s)"

definition engageAgent ::
  "'f kill_store option \<Rightarrow> string \<Rightarrow> kill_source \<Rightarrow> string option \<Rightarrow> bool \<Rightarrow> clock \<Rightarrow>
     'f kill_switch \<Rightarrow> 'f kill_switch \<times> bool" where
  "engageAgent store agent src reason unauth clk sw =
     (let sanitized = map_option sanitizeScopedKillReason reason in
      if \<not> isValidAgentId agent then
        (engage store src (Some (''scoped kill requested for an id outside the agentId contract ('' @
             sanitizeScopedKillReason agent @ '') - escalated to a global kill'' @
             original_reason sanitized)) unauth clk sw, True)
      else if agent \<notin> set (map_keys (sw_agentKills sw)) \<and> length (sw_agentKills sw) \<ge> MAX_KILLED_AGENTS then
        (engage store src (Some (''scoped-kill capacity ('' @ show_nat MAX_KILLED_AGENTS @
             '' agents) exceeded at agent '' @ quoted agent @ '' - escalated to a global kill'' @
             original_reason sanitized)) unauth clk sw, True)
      else
        let event = \<lparr>ke_source = src, ke_reason = sanitized, ke_at = fst clk, ke_unauthenticated = unauth\<rparr>
        in (persist store (snd clk)
              (sw\<lparr>sw_epoch := sw_epoch sw + 1, sw_log := sw_log sw @ [AuditAgentKill agent event],
                  sw_agentKills := AList.update agent event (sw_agentKills sw)\<rparr>), False))"

definition alert ::
  "kill_source \<Rightarrow> string option \<Rightarrow> bool \<Rightarrow> js_num \<Rightarrow> 'f kill_switch \<Rightarrow> 'f kill_switch" where
  "alert src reason unauth now sw =
     sw\<lparr>sw_log := sw_log sw @
        [AuditAlert \<lparr>ke_source = src, ke_reason = reason, ke_at = now, ke_unauthenticated = unauth\<rparr>]\<rparr>"

section \<open>Reading\<close>

definition agentKilled :: "('f, 'z) kill_switch_scheme \<Rightarrow> string \<Rightarrow> bool" where
  "agentKilled sw agent \<longleftrightarrow> agent \<in> set (map_keys (sw_agentKills sw))"

definition killedAgents :: "('f, 'z) kill_switch_scheme \<Rightarrow> string list" where
  "killedAgents sw = map_keys (sw_agentKills sw)"

definition agentKillEvent :: "('f, 'z) kill_switch_scheme \<Rightarrow> string \<Rightarrow> kill_event option" where
  "agentKillEvent sw agent = map_of (sw_agentKills sw) agent"

definition persistenceDegraded :: "('f, 'z) kill_switch_scheme \<Rightarrow> bool" where
  "persistenceDegraded sw \<longleftrightarrow> sw_degradedSince sw \<noteq> None"

text \<open>No call of this agent runs: the global switch, or its own scoped kill.\<close>

definition stopped :: "('f, 'z) kill_switch_scheme \<Rightarrow> string \<Rightarrow> bool" where
  "stopped sw agent \<longleftrightarrow> sw_killed sw \<or> agentKilled sw agent"

section \<open>Restoring\<close>

datatype restore_error = NotKilled | NotScopeKilled | NeedsCeremony | CeremonyConsumed

definition restoreAgent ::
  "'f kill_store option \<Rightarrow> string \<Rightarrow> restore_authorization \<Rightarrow> clock \<Rightarrow> 'f kill_switch \<Rightarrow>
     restore_error + 'f kill_switch" where
  "restoreAgent store agent auth clk sw =
     (if agent \<notin> set (map_keys (sw_agentKills sw)) then Inl NotScopeKilled
      else if ra_ceremonyId auth = [] \<or> ra_ownerId auth = [] then Inl NeedsCeremony
      else if ra_ceremonyId auth \<in> set (sw_consumed sw) then Inl CeremonyConsumed
      else Inr (persist store (snd clk)
        (sw\<lparr>sw_consumed := ra_ceremonyId auth # sw_consumed sw,
            sw_log := sw_log sw @ [AuditAgentRestore agent auth (fst clk)],
            sw_agentKills := AList.delete agent (sw_agentKills sw)\<rparr>)))"

definition restore ::
  "'f kill_store option \<Rightarrow> restore_authorization \<Rightarrow> clock \<Rightarrow> 'f kill_switch \<Rightarrow>
     restore_error + 'f kill_switch" where
  "restore store auth clk sw =
     (if \<not> sw_killed sw then Inl NotKilled
      else if ra_ceremonyId auth = [] \<or> ra_ownerId auth = [] then Inl NeedsCeremony
      else if ra_ceremonyId auth \<in> set (sw_consumed sw) then Inl CeremonyConsumed
      else Inr (persist store (snd clk)
        (sw\<lparr>sw_consumed := ra_ceremonyId auth # sw_consumed sw,
            sw_log := sw_log sw @ [AuditRestore auth (fst clk)],
            sw_killed := False\<rparr>)))"

section \<open>The constructor\<close>

definition unarmed :: "'f \<Rightarrow> 'f kill_switch" where
  "unarmed w =
     \<lparr>sw_killed = False, sw_epoch = 0, sw_log = [], sw_consumed = [], sw_lastKill = None,
      sw_degradedSince = None, sw_quarantineFailed = False, sw_agentKills = [], sw_world = w\<rparr>"

definition boot :: "'f kill_store option \<Rightarrow> clock \<Rightarrow> 'f \<Rightarrow> 'f kill_switch" where
  "boot store clk w =
     (case store of
        None \<Rightarrow> unarmed w
      | Some st \<Rightarrow>
          (case st_load st w of
             (w', Absent) \<Rightarrow> unarmed w'
           | (w', Corrupt detail) \<Rightarrow>
               engage store SrcApi
                 (Some (''kill state cannot be trusted at boot - failed closed ('' @ detail @ '')''))
                 False clk (unarmed w')
           | (w', Loaded ps) \<Rightarrow>
               (let agents = (case ps_agentKills ps of None \<Rightarrow> [] | Some kvs \<Rightarrow> kvs) in
                (unarmed w')\<lparr>sw_killed := ps_killed ps, sw_epoch := ps_epoch ps,
                   sw_lastKill := ps_lastKill ps,
                   sw_agentKills := foldl (\<lambda>m kv. AList.update (fst kv) (snd kv) m) [] agents,
                   sw_log :=
                     (case ps_lastKill ps of None \<Rightarrow> [] | Some ev \<Rightarrow> [AuditKill ev]) @
                     map (\<lambda>kv. AuditAgentKill (fst kv) (snd kv)) agents\<rparr>)))"

section \<open>The switch as a machine\<close>

datatype switch_event =
    Engage kill_source "string option" bool clock
  | EngageAgent string kill_source "string option" bool clock
  | Alert kill_source "string option" bool js_num
  | RestoreAgent string restore_authorization clock
  | Restore restore_authorization clock

text \<open>One call and whether it was a restore that went through; a refused restore changes nothing.\<close>

fun switch_attempt ::
  "'f kill_store option \<Rightarrow> 'f kill_switch \<Rightarrow> switch_event \<Rightarrow> 'f kill_switch \<times> bool" where
  "switch_attempt store sw (Engage src reason unauth clk) = (engage store src reason unauth clk sw, False)"
| "switch_attempt store sw (EngageAgent agent src reason unauth clk) =
     (fst (engageAgent store agent src reason unauth clk sw), False)"
| "switch_attempt store sw (Alert src reason unauth now) = (alert src reason unauth now sw, False)"
| "switch_attempt store sw (RestoreAgent agent auth clk) =
     (case restoreAgent store agent auth clk sw of Inl _ \<Rightarrow> (sw, False) | Inr sw' \<Rightarrow> (sw', True))"
| "switch_attempt store sw (Restore auth clk) =
     (case restore store auth clk sw of Inl _ \<Rightarrow> (sw, False) | Inr sw' \<Rightarrow> (sw', True))"

definition switch_step :: "'f kill_store option \<Rightarrow> 'f kill_switch \<Rightarrow> switch_event \<Rightarrow> 'f kill_switch" where
  "switch_step store sw ev = fst (switch_attempt store sw ev)"

fun ceremony_key :: "switch_event \<Rightarrow> string option" where
  "ceremony_key (RestoreAgent _ auth _) = Some (ra_ceremonyId auth)"
| "ceremony_key (Restore auth _) = Some (ra_ceremonyId auth)"
| "ceremony_key _ = None"

section \<open>What persisting leaves alone\<close>

lemma persist_keeps [simp]:
  "sw_killed (persist store now sw) = sw_killed sw"
  "sw_epoch (persist store now sw) = sw_epoch sw"
  "sw_log (persist store now sw) = sw_log sw"
  "sw_consumed (persist store now sw) = sw_consumed sw"
  "sw_lastKill (persist store now sw) = sw_lastKill sw"
  "sw_agentKills (persist store now sw) = sw_agentKills sw"
  by (simp_all add: persist_def Let_def split: option.split prod.split save_outcome.split)

lemma engage_effect [simp]:
  "sw_killed (engage store src reason unauth clk sw)"
  "sw_epoch (engage store src reason unauth clk sw) = sw_epoch sw + 1"
  "sw_consumed (engage store src reason unauth clk sw) = sw_consumed sw"
  "sw_agentKills (engage store src reason unauth clk sw) = sw_agentKills sw"
  "sw_lastKill (engage store src reason unauth clk sw) =
     Some \<lparr>ke_source = src, ke_reason = reason, ke_at = fst clk, ke_unauthenticated = unauth\<rparr>"
  by (simp_all add: engage_def Let_def)

lemma alert_keeps [simp]:
  "sw_killed (alert src reason unauth now sw) = sw_killed sw"
  "sw_epoch (alert src reason unauth now sw) = sw_epoch sw"
  "sw_consumed (alert src reason unauth now sw) = sw_consumed sw"
  "sw_agentKills (alert src reason unauth now sw) = sw_agentKills sw"
  "sw_lastKill (alert src reason unauth now sw) = sw_lastKill sw"
  "sw_world (alert src reason unauth now sw) = sw_world sw"
  "sw_quarantineFailed (alert src reason unauth now sw) = sw_quarantineFailed sw"
  by (simp_all add: alert_def)

lemma engageAgent_effect [simp]:
  "sw_epoch (fst (engageAgent store agent src reason unauth clk sw)) = sw_epoch sw + 1"
  "sw_consumed (fst (engageAgent store agent src reason unauth clk sw)) = sw_consumed sw"
  by (simp_all add: engageAgent_def Let_def)

lemma restore_effect:
  assumes "restore store auth clk sw = Inr sw'"
  shows "sw_epoch sw' = sw_epoch sw" "sw_agentKills sw' = sw_agentKills sw" "\<not> sw_killed sw'"
    "sw_consumed sw' = ra_ceremonyId auth # sw_consumed sw" "sw_lastKill sw' = sw_lastKill sw"
    "ra_ceremonyId auth \<noteq> []" "ra_ceremonyId auth \<notin> set (sw_consumed sw)"
  using assms by (auto simp: restore_def split: if_splits)

lemma restoreAgent_effect:
  assumes "restoreAgent store agent auth clk sw = Inr sw'"
  shows "sw_epoch sw' = sw_epoch sw" "sw_killed sw' = sw_killed sw" "sw_lastKill sw' = sw_lastKill sw"
    "sw_agentKills sw' = AList.delete agent (sw_agentKills sw)"
    "sw_consumed sw' = ra_ceremonyId auth # sw_consumed sw"
    "ra_ceremonyId auth \<noteq> []" "ra_ceremonyId auth \<notin> set (sw_consumed sw)"
  using assms by (auto simp: restoreAgent_def split: if_splits)

section \<open>The invariant\<close>

definition sanitized_reason :: "string \<Rightarrow> bool" where
  "sanitized_reason s \<longleftrightarrow> length s \<le> MAX_SCOPED_KILL_REASON_CHARS \<and> list_all (\<lambda>c. \<not> is_control c) s"

definition scoped_event_ok :: "kill_event \<Rightarrow> bool" where
  "scoped_event_ok ev \<longleftrightarrow> (case ke_reason ev of None \<Rightarrow> True | Some s \<Rightarrow> sanitized_reason s)"

definition agents_ok :: "(string \<times> kill_event) list \<Rightarrow> bool" where
  "agents_ok m \<longleftrightarrow> distinct (map_keys m) \<and> length m \<le> MAX_KILLED_AGENTS \<and>
     (\<forall>(agent, ev) \<in> set m. isValidAgentId agent \<and> scoped_event_ok ev)"

definition switch_ok :: "'f kill_switch \<Rightarrow> bool" where
  "switch_ok sw \<longleftrightarrow> 0 \<le> sw_epoch sw \<and> (sw_killed sw \<longrightarrow> sw_lastKill sw \<noteq> None) \<and>
     agents_ok (sw_agentKills sw)"

lemma sanitize_sanitized: "sanitized_reason (sanitizeScopedKillReason s)"
proof -
  have "\<not> is_control (CHR '' '')" by (simp add: is_control_def code_unit_def)
  then show ?thesis
    by (auto simp: sanitized_reason_def sanitizeScopedKillReason_def list_all_iff dest!: in_set_takeD)
qed

lemma sanitize_id: "sanitized_reason s \<Longrightarrow> sanitizeScopedKillReason s = s"
  by (simp add: sanitized_reason_def sanitizeScopedKillReason_def list_all_iff map_idI)

lemma agents_ok_update:
  assumes "agents_ok m" and "isValidAgentId agent" and "scoped_event_ok ev"
    and "agent \<in> set (map_keys m) \<or> length m < MAX_KILLED_AGENTS"
  shows "agents_ok (AList.update agent ev m)"
proof -
  have "set (AList.update agent ev m) \<subseteq> insert (agent, ev) (set m)"
    by (induction m) auto
  moreover have "length (AList.update agent ev m) \<le> MAX_KILLED_AGENTS"
    using assms(1,4) length_update_present[of agent m ev] length_update_absent[of agent m ev]
    by (cases "agent \<in> set (map_keys m)") (auto simp: agents_ok_def)
  ultimately show ?thesis
    using assms by (auto simp: agents_ok_def distinct_keys_update)
qed

lemma set_delete_subset: "set (AList.delete k m) \<subseteq> set m"
  by (auto simp: AList.delete_eq)

lemma agents_ok_delete: "agents_ok m \<Longrightarrow> agents_ok (AList.delete agent m)"
  using length_delete_le[of agent m] distinct_keys_delete[of m agent] set_delete_subset[of agent m]
  by (auto simp: agents_ok_def)

lemma engage_ok: "switch_ok sw \<Longrightarrow> switch_ok (engage store src reason unauth clk sw)"
  by (simp add: switch_ok_def)

lemma engageAgent_ok:
  assumes "switch_ok sw"
  shows "switch_ok (fst (engageAgent store agent src reason unauth clk sw))"
proof -
  have "scoped_event_ok \<lparr>ke_source = src, ke_reason = map_option sanitizeScopedKillReason reason,
      ke_at = fst clk, ke_unauthenticated = unauth\<rparr>"
    by (simp add: scoped_event_ok_def sanitize_sanitized split: option.split)
  then show ?thesis
    using assms engage_ok[OF assms]
    by (auto simp: engageAgent_def Let_def switch_ok_def intro!: agents_ok_update)
qed

lemma restoreAgent_ok: "switch_ok sw \<Longrightarrow> restoreAgent store agent auth clk sw = Inr sw' \<Longrightarrow> switch_ok sw'"
  by (auto simp: restoreAgent_effect switch_ok_def agents_ok_delete)

lemma restore_ok: "switch_ok sw \<Longrightarrow> restore store auth clk sw = Inr sw' \<Longrightarrow> switch_ok sw'"
  by (auto simp: restore_effect switch_ok_def)

lemma alert_ok: "switch_ok sw \<Longrightarrow> switch_ok (alert src reason unauth now sw)"
  by (simp add: switch_ok_def)

lemma switch_step_ok: "switch_ok sw \<Longrightarrow> switch_ok (switch_step store sw ev)"
  by (cases ev) (auto simp: switch_step_def split: sum.split
      intro: engage_ok engageAgent_ok alert_ok restore_ok restoreAgent_ok)

interpretation switch_machine: machine "switch_step store" switch_ok for store
  by unfold_locales (rule switch_step_ok)

section \<open>Epochs and ceremonies along a run\<close>

fun is_kill :: "switch_event \<Rightarrow> bool" where
  "is_kill (Engage _ _ _ _) = True"
| "is_kill (EngageAgent _ _ _ _ _) = True"
| "is_kill _ = False"

lemma switch_step_epoch: "sw_epoch (switch_step store sw ev) = sw_epoch sw + (if is_kill ev then 1 else 0)"
  by (cases ev) (auto simp: switch_step_def split: sum.split dest: restore_effect(1) restoreAgent_effect(1))

interpretation switch_epoch: monotone_machine "switch_step store" sw_epoch for store
  by unfold_locales (simp add: switch_step_epoch)

lemma run_epoch:
  "sw_epoch (foldl (switch_step store) sw es) = sw_epoch sw + int (length (filter is_kill es))"
  by (induction es arbitrary: sw) (auto simp: switch_step_epoch)

interpretation ceremony_spend: single_use "switch_attempt store" ceremony_key
    "\<lambda>sw k. \<exists>c. k = Some c \<and> c \<in> set (sw_consumed sw)" for store
proof (unfold_locales, goal_cases)
  case (1 sw k ev)
  then show ?case by (cases ev) (auto simp: restore_effect restoreAgent_effect split: sum.split)
next
  case (2 sw ev)
  then show ?case by (cases ev) (auto simp: restore_effect restoreAgent_effect split: sum.split)
next
  case (3 sw ev)
  then show ?case by (cases ev) (auto simp: restore_effect restoreAgent_effect split: sum.splits)
qed

section \<open>Only a ceremony un-stops an agent\<close>

text \<open>
  The restore that ends this agent's stop in this state: a global restore the global stop, and only
  for an agent without a stop of its own; a scoped restore the agent's own stop, and only while the
  global switch is off.
\<close>

fun ends_stop :: "string \<Rightarrow> ('f, 'z) kill_switch_scheme \<Rightarrow> switch_event \<Rightarrow> bool" where
  "ends_stop agent sw (Restore _ _) = (sw_killed sw \<and> \<not> agentKilled sw agent)"
| "ends_stop agent sw (RestoreAgent a _ _) = (a = agent \<and> agentKilled sw agent \<and> \<not> sw_killed sw)"
| "ends_stop agent sw _ = False"

lemma agent_keys_simps:
  "set (map_keys (AList.update k v m)) = insert k (set (map_keys m))"
  "set (map_keys (AList.delete k m)) = set (map_keys m) - {k}"
  by (simp_all add: set_keys_update set_keys_delete)

lemma stopped_step:
  assumes "stopped sw agent" and "\<not> stopped (switch_step store sw ev) agent"
  shows "snd (switch_attempt store sw ev) \<and> ends_stop agent sw ev"
  using assms
  by (cases ev)
     (auto simp: stopped_def agentKilled_def switch_step_def engageAgent_def Let_def restore_effect
        restoreAgent_effect agent_keys_simps split: if_splits sum.splits)

lemma stopped_run:
  assumes "stopped sw agent" and "\<not> stopped (foldl (switch_step store) sw es) agent"
  shows "\<exists>es1 ev es2. es = es1 @ ev # es2 \<and> ends_stop agent (foldl (switch_step store) sw es1) ev \<and>
     snd (switch_attempt store (foldl (switch_step store) sw es1) ev)"
proof -
  from run_gains[of "\<lambda>sw. \<not> stopped sw agent" sw "switch_step store" es] assms
  obtain es1 ev es2 where "es = es1 @ ev # es2" "stopped (foldl (switch_step store) sw es1) agent"
    "\<not> stopped (switch_step store (foldl (switch_step store) sw es1) ev) agent" by auto
  with stopped_step show ?thesis by blast
qed

lemma restore_success_ceremony:
  "snd (switch_attempt store sw ev) \<Longrightarrow>
     \<exists>c. ceremony_key ev = Some c \<and> c \<noteq> [] \<and> c \<notin> set (sw_consumed sw)"
  by (cases ev) (auto simp: restore_effect restoreAgent_effect split: sum.splits)

section \<open>What a store promises\<close>

text \<open>The state a switch writes: distinct agents in enumeration order, and clock readings that are safe integers.\<close>

definition good_clock :: "js_num \<Rightarrow> bool" where
  "good_clock t \<longleftrightarrow> (case t of NInt i \<Rightarrow> is_safe_int i | _ \<Rightarrow> False)"

definition agents_storable :: "(string \<times> kill_event) list \<Rightarrow> bool" where
  "agents_storable kvs \<longleftrightarrow> distinct (map_keys kvs) \<and> length kvs \<le> MAX_KILLED_AGENTS \<and>
     list_all (\<lambda>kv. isValidAgentId (fst kv) \<and> good_clock (ke_at (snd kv))) kvs"

definition storable :: "persisted_kill_state \<Rightarrow> bool" where
  "storable ps \<longleftrightarrow>
     0 \<le> ps_epoch ps \<and> ps_epoch ps \<le> MAX_SAFE_INTEGER \<and> (ps_killed ps \<longleftrightarrow> ps_lastKill ps \<noteq> None) \<and>
     (case ps_lastKill ps of None \<Rightarrow> True | Some ev \<Rightarrow> good_clock (ke_at ev)) \<and>
     (case ps_agentKills ps of None \<Rightarrow> True
      | Some kvs \<Rightarrow> kvs \<noteq> [] \<and> object_order kvs = kvs \<and> agents_storable kvs)"

text \<open>The states of a switch whose snapshot is storable while the epoch is a safe integer.\<close>

definition recordable :: "('f, 'z) kill_switch_scheme \<Rightarrow> bool" where
  "recordable sw \<longleftrightarrow> 0 \<le> sw_epoch sw \<and> (sw_killed sw \<longrightarrow> sw_lastKill sw \<noteq> None) \<and>
     (case sw_lastKill sw of None \<Rightarrow> True | Some ev \<Rightarrow> good_clock (ke_at ev)) \<and>
     agents_storable (sw_agentKills sw)"

lemma agents_storable_order: "agents_storable kvs \<Longrightarrow> agents_storable (object_order kvs)"
  by (simp add: agents_storable_def list_all_iff)

lemma storable_snapshot: "recordable sw \<Longrightarrow> sw_epoch sw \<le> MAX_SAFE_INTEGER \<Longrightarrow> storable (snapshot sw)"
  by (auto simp: recordable_def storable_def snapshot_def object_order_idem agents_storable_order
      split: option.splits)

lemma agents_storable_update:
  assumes "agents_storable m" "isValidAgentId agent" "good_clock (ke_at ev)"
    and "agent \<in> set (map_keys m) \<or> length m < MAX_KILLED_AGENTS"
  shows "agents_storable (AList.update agent ev m)"
proof -
  have "set (AList.update agent ev m) \<subseteq> insert (agent, ev) (set m)" by (induction m) auto
  moreover have "length (AList.update agent ev m) \<le> MAX_KILLED_AGENTS"
    using assms(1,4) length_update_present[of agent m ev] length_update_absent[of agent m ev]
    by (cases "agent \<in> set (map_keys m)") (auto simp: agents_storable_def)
  ultimately show ?thesis
    using assms by (auto simp: agents_storable_def distinct_keys_update list_all_iff)
qed

lemma agents_storable_delete: "agents_storable m \<Longrightarrow> agents_storable (AList.delete agent m)"
  using length_delete_le[of agent m] distinct_keys_delete[of m agent] set_delete_subset[of agent m]
  by (auto simp: agents_storable_def list_all_iff)

lemma recordable_updates:
  "recordable sw \<Longrightarrow> isValidAgentId agent \<Longrightarrow> good_clock (ke_at ev) \<Longrightarrow>
     agent \<in> set (map_keys (sw_agentKills sw)) \<or> length (sw_agentKills sw) < MAX_KILLED_AGENTS \<Longrightarrow>
     recordable (sw\<lparr>sw_epoch := sw_epoch sw + 1, sw_log := l, sw_agentKills := AList.update agent ev (sw_agentKills sw)\<rparr>)"
  "recordable sw \<Longrightarrow> recordable (sw\<lparr>sw_consumed := c, sw_log := l, sw_agentKills := AList.delete agent (sw_agentKills sw)\<rparr>)"
  "recordable sw \<Longrightarrow> recordable (sw\<lparr>sw_consumed := c, sw_log := l, sw_killed := False\<rparr>)"
  by (auto simp: recordable_def agents_storable_update agents_storable_delete)

lemma recordable_persist [simp]: "recordable (persist store now sw) = recordable sw"
  by (simp add: recordable_def)

lemma engage_recordable:
  "recordable sw \<Longrightarrow> good_clock (fst clk) \<Longrightarrow> recordable (engage store src reason unauth clk sw)"
  by (simp add: recordable_def)

lemma engageAgent_recordable:
  assumes "recordable sw" "good_clock (fst clk)"
  shows "recordable (fst (engageAgent store agent src reason unauth clk sw))"
  using assms by (auto simp: engageAgent_def Let_def engage_recordable intro!: recordable_updates)

fun timed :: "switch_event \<Rightarrow> bool" where
  "timed (Engage _ _ _ clk) = good_clock (fst clk)"
| "timed (EngageAgent _ _ _ _ clk) = good_clock (fst clk)"
| "timed _ = True"

lemma alert_recordable [simp]: "recordable (alert src reason unauth now sw) = recordable sw"
  by (simp add: recordable_def)

lemma step_recordable: "recordable sw \<Longrightarrow> timed ev \<Longrightarrow> recordable (switch_step store sw ev)"
  by (cases ev)
     (auto simp: switch_step_def engage_recordable engageAgent_recordable restore_def restoreAgent_def
        intro: recordable_updates split: sum.split)

text \<open>What a load says agrees with the switch; the disk of a switch whose quarantine did not fail.\<close>

definition agrees :: "load_outcome \<Rightarrow> ('f, 'z) kill_switch_scheme \<Rightarrow> bool" where
  "agrees out sw \<longleftrightarrow>
     (case out of
        Corrupt _ \<Rightarrow> True
      | Absent \<Rightarrow> \<not> sw_killed sw \<and> sw_agentKills sw = [] \<and> sw_epoch sw = 0
      | Loaded ps \<Rightarrow> ps_killed ps = sw_killed sw \<and> ps_epoch ps = sw_epoch sw \<and>
          set (map_keys (case ps_agentKills ps of None \<Rightarrow> [] | Some kvs \<Rightarrow> kvs)) = set (map_keys (sw_agentKills sw)))"

definition on_disk :: "'f kill_store \<Rightarrow> 'f kill_switch \<Rightarrow> bool" where
  "on_disk st sw \<longleftrightarrow> sw_quarantineFailed sw \<or> agrees (snd (st_load st (sw_world sw))) sw"

lemma on_disk_alert: "on_disk st (alert src reason unauth now sw) = on_disk st sw"
  by (simp add: on_disk_def agrees_def split: load_outcome.split)

lemma recordable_unarmed [simp]: "recordable (unarmed w)"
  by (simp add: recordable_def unarmed_def agents_storable_def map_keys_def)

lemma keys_foldl_update:
  "set (map_keys (foldl (\<lambda>m kv. AList.update (fst kv) (snd kv) m) m0 kvs)) = set (map_keys m0) \<union> set (map_keys kvs)"
proof (induction kvs arbitrary: m0)
  case (Cons kv kvs)
  then show ?case by (simp add: set_keys_update) (simp add: map_keys_def)
qed (simp add: map_keys_def)

lemma keys_seated:
  "set (map_keys (foldl (\<lambda>m kv. AList.update (fst kv) (snd kv) m) [] kvs)) = set (map_keys kvs)"
  using keys_foldl_update[of "[]" kvs] by (simp add: map_keys_def)

lemma boot_absent: "st_load st w = (w', Absent) \<Longrightarrow> boot (Some st) clk w = unarmed w'"
  by (simp add: boot_def)

lemma boot_loaded:
  assumes "st_load st w = (w', Loaded ps)"
  shows "sw_killed (boot (Some st) clk w) = ps_killed ps" "sw_epoch (boot (Some st) clk w) = ps_epoch ps"
    "sw_lastKill (boot (Some st) clk w) = ps_lastKill ps" "sw_world (boot (Some st) clk w) = w'"
    "sw_agentKills (boot (Some st) clk w) =
       foldl (\<lambda>m kv. AList.update (fst kv) (snd kv) m) [] (case ps_agentKills ps of None \<Rightarrow> [] | Some kvs \<Rightarrow> kvs)"
  using assms by (simp_all add: boot_def Let_def) (simp add: unarmed_def)

lemma boot_corrupt: "st_load st w = (w', Corrupt d) \<Longrightarrow> \<exists>r. boot (Some st) clk w = engage (Some st) SrcApi r False clk (unarmed w')"
  by (auto simp: boot_def)

lemma recordable_boot_loaded:
  assumes "st_load st w = (w', Loaded ps)" "storable ps"
  shows "recordable (boot (Some st) clk w)"
  using assms foldl_update_distinct[of "[]" "case ps_agentKills ps of None \<Rightarrow> [] | Some kvs \<Rightarrow> kvs"]
  by (auto simp: recordable_def boot_loaded storable_def agents_storable_def map_keys_def split: option.splits)

text \<open>
  The promises of the interface's documentation: a load that did not fail is stable, a
  published save is what later loads read unless they fail, and a \<open>degrade\<close> that returned
  true makes later loads fail closed.
\<close>

locale kill_store_contract =
  fixes st :: "'f kill_store"
  assumes load_stable:
      "st_load st w = (w', out) \<Longrightarrow> (\<forall>d. out \<noteq> Corrupt d) \<Longrightarrow>
         snd (st_load st w') = out \<or> (\<exists>d. snd (st_load st w') = Corrupt d)"
    and save_published:
      "storable ps \<Longrightarrow> st_save st w ps = (w', res) \<Longrightarrow> (\<forall>e. res \<noteq> SaveThrew e) \<Longrightarrow>
         snd (st_load st w') = Loaded ps \<or> (\<exists>d. snd (st_load st w') = Corrupt d)"
    and degrade_honest: "st_degrade st w = (w', Some True) \<Longrightarrow> \<exists>d. snd (st_load st w') = Corrupt d"
begin

lemma persist_on_disk:
  assumes "recordable sw" "sw_epoch sw \<le> MAX_SAFE_INTEGER"
  shows "on_disk st (persist (Some st) now sw)"
proof (cases "st_save st (sw_world sw) (snapshot sw)")
  case (Pair w res)
  show ?thesis
  proof (cases res)
    case SaveDurable
    with Pair save_published[OF storable_snapshot[OF assms] Pair] show ?thesis
      by (auto simp: persist_def on_disk_def agrees_def snapshot_def)
  next
    case (SaveNotDurable d)
    with Pair save_published[OF storable_snapshot[OF assms] Pair] show ?thesis
      by (auto simp: persist_def on_disk_def agrees_def snapshot_def)
  next
    case (SaveThrew e)
    with Pair degrade_honest[of w] show ?thesis
      by (cases "st_degrade st w")
         (auto simp: persist_def on_disk_def Let_def agrees_def split: option.splits)
  qed
qed

lemma engage_on_disk:
  "recordable sw \<Longrightarrow> good_clock (fst clk) \<Longrightarrow> sw_epoch sw < MAX_SAFE_INTEGER \<Longrightarrow>
     on_disk st (engage (Some st) src reason unauth clk sw)"
  by (simp add: engage_def Let_def persist_on_disk recordable_def)

lemma step_on_disk:
  assumes "recordable sw" "on_disk st sw" "timed ev"
    and "sw_epoch (switch_step (Some st) sw ev) \<le> MAX_SAFE_INTEGER"
  shows "on_disk st (switch_step (Some st) sw ev)"
proof (cases ev)
  case (EngageAgent agent src reason unauth clk)
  then have "sw_epoch sw < MAX_SAFE_INTEGER" using assms(4) by (simp add: switch_step_epoch)
  with assms EngageAgent
  have "on_disk st (fst (engageAgent (Some st) agent src reason unauth clk sw))"
    by (auto simp: engageAgent_def Let_def engage_on_disk intro!: persist_on_disk recordable_updates)
  with EngageAgent show ?thesis by (simp add: switch_step_def)
next
  case (Engage src reason unauth clk)
  then have "sw_epoch sw < MAX_SAFE_INTEGER" using assms(4) by (simp add: switch_step_epoch)
  with assms Engage show ?thesis by (simp add: switch_step_def engage_on_disk)
next
  case (RestoreAgent agent auth clk)
  then have "sw_epoch sw \<le> MAX_SAFE_INTEGER" using assms(4) by (simp add: switch_step_epoch)
  with RestoreAgent assms show ?thesis
    by (auto simp: switch_step_def restoreAgent_def intro!: persist_on_disk recordable_updates
        split: sum.split if_splits)
next
  case (Restore auth clk)
  then have "sw_epoch sw \<le> MAX_SAFE_INTEGER" using assms(4) by (simp add: switch_step_epoch)
  with Restore assms show ?thesis
    by (auto simp: switch_step_def restore_def intro!: persist_on_disk recordable_updates
        split: sum.split if_splits)
qed (use assms in \<open>simp add: switch_step_def on_disk_alert\<close>)

lemma run_on_disk:
  "recordable sw \<Longrightarrow> on_disk st sw \<Longrightarrow> list_all timed es \<Longrightarrow>
     sw_epoch (foldl (switch_step (Some st)) sw es) \<le> MAX_SAFE_INTEGER \<Longrightarrow>
     on_disk st (foldl (switch_step (Some st)) sw es)"
proof (induction es arbitrary: sw)
  case (Cons ev es)
  have "sw_epoch (switch_step (Some st) sw ev) \<le> MAX_SAFE_INTEGER"
    using Cons.prems(4) switch_epoch.reading_run[of "switch_step (Some st) sw ev" "Some st" es] by simp
  with Cons show ?case by (simp add: step_on_disk step_recordable)
qed simp

lemma boot_on_disk:
  assumes "\<forall>ps. snd (st_load st w) = Loaded ps \<longrightarrow> storable ps" "good_clock (fst clk)"
  shows "recordable (boot (Some st) clk w) \<and> on_disk st (boot (Some st) clk w)"
proof (cases "st_load st w")
  case (Pair w' out)
  show ?thesis
  proof (cases out)
    case Absent
    with Pair load_stable[OF Pair] show ?thesis
      by (auto simp: boot_absent on_disk_def agrees_def) (simp_all add: unarmed_def map_keys_def)
  next
    case (Loaded ps)
    with Pair assms load_stable[OF Pair] have "recordable (boot (Some st) clk w)"
      by (auto intro: recordable_boot_loaded)
    with Loaded Pair load_stable[OF Pair] show ?thesis
      by (auto simp: on_disk_def agrees_def boot_loaded keys_seated)
  next
    case (Corrupt d)
    have "sw_epoch (unarmed w') < MAX_SAFE_INTEGER" by (simp add: unarmed_def MAX_SAFE_INTEGER_def)
    with Corrupt Pair boot_corrupt[of st w w' d clk] assms(2) show ?thesis
      by (auto simp: engage_recordable engage_on_disk)
  qed
qed

text \<open>A restart of a switch whose quarantine did not fail forgets no stop.\<close>

lemma restart_keeps_stops:
  assumes "on_disk st sw" "\<not> sw_quarantineFailed sw"
  shows "(stopped sw agent \<longrightarrow> stopped (boot (Some st) clk (sw_world sw)) agent) \<and>
    (sw_killed (boot (Some st) clk (sw_world sw)) \<or>
     sw_epoch (boot (Some st) clk (sw_world sw)) = sw_epoch sw)"
proof (cases "st_load st (sw_world sw)")
  case (Pair w' out)
  show ?thesis
  proof (cases out)
    case (Corrupt d)
    with Pair boot_corrupt[of st "sw_world sw" w' d clk] show ?thesis by (auto simp: stopped_def)
  next
    case (Loaded ps)
    with Pair assms show ?thesis
      by (simp add: boot_loaded on_disk_def agrees_def stopped_def agentKilled_def keys_seated)
  next
    case Absent
    with Pair assms show ?thesis
      by (simp add: boot_absent on_disk_def agrees_def stopped_def agentKilled_def unarmed_def map_keys_def)
  qed
qed

end

section \<open>Properties\<close>

text \<open>
  C1: A stop is undone by nothing but the restore of that very stop: whatever calls arrive after
  an agent is stopped, if it is no longer stopped at the end, then the run has a restore that ends
  its stop (the restore of the global kill while the agent has no stop of its own, or the restore of
  this agent's own stop while the global switch is off), and it carries a ceremony id that is neither
  empty nor used before.
\<close>

theorem only_a_ceremony_unstops:
  assumes "stopped sw agent" and "\<not> stopped (foldl (switch_step store) sw es) agent"
  shows "\<exists>es1 ev es2 c. es = es1 @ ev # es2 \<and> ends_stop agent (foldl (switch_step store) sw es1) ev \<and> ceremony_key ev = Some c \<and>
    c \<noteq> [] \<and> c \<notin> set (sw_consumed (foldl (switch_step store) sw es1))"
proof -
  from stopped_run[OF assms] obtain es1 ev es2 where run: "es = es1 @ ev # es2" "ends_stop agent (foldl (switch_step store) sw es1) ev"
    and win: "snd (switch_attempt store (foldl (switch_step store) sw es1) ev)" by blast
  from restore_success_ceremony[OF win] run show ?thesis by blast
qed

definition demo_auth :: restore_authorization where
  "demo_auth = \<lparr>ra_ceremonyId = ''c1'', ra_ownerId = ''o'', ra_completedAt = 4\<rparr>"

definition demo_clock :: clock where "demo_clock = (NInt 5, NInt 5)"

lemmas demo_switch_simps = switch_step_def engageAgent_def restoreAgent_def restore_def engage_def persist_def
  unarmed_def Let_def demo_auth_def demo_clock_def stopped_def agentKilled_def map_keys_def

lemma only_a_ceremony_unstops_witness:
  "\<exists>es1 ev es2 c. [Restore demo_auth demo_clock] = es1 @ ev # es2 \<and>
     ends_stop ''a'' (foldl (switch_step None) (engage None SrcButton None False demo_clock (unarmed ())) es1) ev \<and>
     ceremony_key ev = Some c \<and> c \<noteq> [] \<and>
     c \<notin> set (sw_consumed (foldl (switch_step None) (engage None SrcButton None False demo_clock (unarmed ())) es1))"
proof -
  have "stopped (engage None SrcButton None False demo_clock (unarmed ())) ''a''"
    by (simp add: demo_switch_simps)
  moreover have "\<not> stopped (foldl (switch_step None) (engage None SrcButton None False demo_clock (unarmed ()))
      [Restore demo_auth demo_clock]) ''a''"
    by (simp add: demo_switch_simps)
  ultimately show ?thesis by (rule only_a_ceremony_unstops)
qed

text \<open>
  C16: A ceremony id authorizes at most one restore, global or scoped, along any sequence of
  calls.
\<close>

theorem ceremony_restores_once: "wins (switch_attempt store) ceremony_key (Some c) sw es \<le> 1"
  by (rule ceremony_spend.at_most_one_win)

text \<open>
  C15: Asking to stop an agent always leaves it stopped: with a valid id below the capacity by
  its own scoped kill, leaving the global switch as it was, otherwise by the global kill, which
  the answer reports.  No other scoped kill is lost, and the epoch moves on by one.
\<close>

theorem engageAgent_always_stops:
  "let r = engageAgent store agent src reason unauth clk sw in
   stopped (fst r) agent \<and> sw_epoch (fst r) = sw_epoch sw + 1 \<and>
   snd r = (if isValidAgentId agent then \<not> agentKilled sw agent \<and> MAX_KILLED_AGENTS \<le> length (killedAgents sw)
            else True) \<and>
   sw_killed (fst r) = (if snd r then True else sw_killed sw) \<and>
   set (killedAgents (fst r)) =
     (if snd r then set (killedAgents sw) else insert agent (set (killedAgents sw)))"
  by (auto simp: engageAgent_def Let_def stopped_def agentKilled_def killedAgents_def set_keys_update)
     (auto simp: map_keys_def)

text \<open>
  The two tiers are independent and restores are exact: a global restore that goes through
  lifts the global kill and keeps every scoped one, a scoped restore that goes through lifts
  that agent's kill and keeps the global state and every other agent's kill; both spend the
  ceremony and keep the epoch, and a refusal names its first failing guard.
\<close>

theorem restores_are_exact:
  "(case restore store auth clk sw of
      Inl e \<Rightarrow> e = (if \<not> sw_killed sw then NotKilled
                    else if ra_ceremonyId auth = [] \<or> ra_ownerId auth = [] then NeedsCeremony
                    else CeremonyConsumed)
    | Inr sw' \<Rightarrow> sw_killed sw \<and> \<not> sw_killed sw' \<and> killedAgents sw' = killedAgents sw \<and>
        sw_epoch sw' = sw_epoch sw \<and> ra_ceremonyId auth \<in> set (sw_consumed sw')) \<and>
   (case restoreAgent store agent auth clk sw of
      Inl e \<Rightarrow> e = (if \<not> agentKilled sw agent then NotScopeKilled
                    else if ra_ceremonyId auth = [] \<or> ra_ownerId auth = [] then NeedsCeremony
                    else CeremonyConsumed)
    | Inr sw' \<Rightarrow> agentKilled sw agent \<and> sw_killed sw' = sw_killed sw \<and>
        set (killedAgents sw') = set (killedAgents sw) - {agent} \<and>
        sw_epoch sw' = sw_epoch sw \<and> ra_ceremonyId auth \<in> set (sw_consumed sw'))"
  by (auto simp: restore_def restoreAgent_def killedAgents_def agentKilled_def set_keys_delete)

text \<open>
  C28: From a first boot on, whatever is called, the switch stays well formed (a kill in force
  has its event, scoped kills are distinct valid ids within the capacity with sanitized reasons)
  and the epoch counts the kills engaged, so it never falls and never repeats across a kill.
\<close>

theorem switch_stays_well_formed:
  "switch_ok (foldl (switch_step store) (unarmed w) es) \<and>
   sw_epoch (foldl (switch_step store) (unarmed w) es) = int (length (filter is_kill es))"
proof -
  have "switch_ok (unarmed w)" by (simp add: switch_ok_def unarmed_def agents_ok_def map_keys_def)
  then have "switch_ok (foldl (switch_step store) (unarmed w) es)" by (rule switch_machine.inv_run)
  then show ?thesis by (simp add: run_epoch) (simp add: unarmed_def)
qed

end
