(* ===== verification/Crypto.thy ===== *)
theory Crypto
  imports Json
begin

text \<open>
  What the program takes from \<open>node:crypto\<close>: a keyed digest is a parameter \<open>mac\<close> from key and
  message to bytes, a plain digest a parameter from text to text.  The facts used of them are
  hypotheses: \<open>mac_ok\<close> says that HMAC-SHA-256 gives 32 bytes.  That signatures pin what they sign is
  stated as a reduction: what else passes shows two different messages that \<open>clash\<close>, that is have the
  same digest under the key.  Hexadecimal is written and read as \<open>Buffer\<close> does: reading stops at the first pair
  that is not hexadecimal, and an odd last digit is dropped.
\<close>

type_synonym byte_list = "nat list"

type_synonym mac = "string \<Rightarrow> string \<Rightarrow> byte_list"

definition mac_ok :: "mac \<Rightarrow> bool" where
  "mac_ok mac \<longleftrightarrow> (\<forall>key msg. length (mac key msg) = 32 \<and> list_all (\<lambda>b. b < 256) (mac key msg))"

definition clash :: "mac \<Rightarrow> string \<Rightarrow> string \<Rightarrow> string \<Rightarrow> bool" where
  "clash mac key a b \<longleftrightarrow> a \<noteq> b \<and> mac key a = mac key b"

definition hex_encode :: "byte_list \<Rightarrow> string" where
  "hex_encode bs = concat (map (\<lambda>b. [hex_char (b div 16), hex_char (b mod 16)]) bs)"

fun hex_decode :: "string \<Rightarrow> byte_list" where
  "hex_decode (h # l # rest) =
     (case (hex_value h, hex_value l) of (Some x, Some y) \<Rightarrow> (16 * x + y) # hex_decode rest | _ \<Rightarrow> [])"
| "hex_decode _ = []"

lemma hex_decode_encode: "list_all (\<lambda>b. b < 256) bs \<Longrightarrow> hex_decode (hex_encode bs) = bs"
proof (induction bs)
  case (Cons b bs)
  then have "b div 16 < 16" by (simp add: div_less_iff_less_mult)
  with Cons show ?case by (simp add: hex_encode_def hex_value_hex_char)
qed (simp add: hex_encode_def)

lemma hex_encode_eq_Nil [simp]: "hex_encode bs = [] \<longleftrightarrow> bs = []"
  by (simp add: hex_encode_def)

text \<open>A digest to try the theorems on: the first 32 code units of the message, padded with zeros.\<close>

definition plain_mac :: mac where
  "plain_mac key msg = take 32 (map code_unit msg @ replicate 32 0)"

lemma plain_mac_ok: "mac_ok plain_mac"
  by (auto simp: mac_ok_def plain_mac_def list_all_iff code_unit_less dest!: in_set_takeD)

lemma plain_mac_bytes: "list_all (\<lambda>b. b < 256) (plain_mac key msg)"
  using plain_mac_ok by (simp add: mac_ok_def)

lemma plain_mac_nonempty [simp]: "plain_mac key msg \<noteq> []"
  using plain_mac_ok unfolding mac_ok_def by (metis length_0_conv numeral_neq_zero)

section \<open>The text of integers is theirs alone\<close>

lemma show_nat_inj: "show_nat m = show_nat n \<Longrightarrow> m = n"
  by (metis show_nat_value)

lemma show_int_marks: "c \<in> set (show_int i) \<Longrightarrow> is_digit c \<or> c = CHR ''-''"
  using show_nat_digits by (auto simp: show_int_def list_all_iff split: if_splits)

lemma show_int_inj: "show_int i = show_int j \<Longrightarrow> i = j"
proof -
  have "hd (show_nat n) \<noteq> CHR ''-''" for n
    using show_nat_digits[of n] show_nat_head[of n] by (cases "show_nat n") (auto simp: is_digit_def code_unit_def)
  then have neg: "show_nat n \<noteq> CHR ''-'' # w" for n w by (metis list.sel(1))
  assume eq: "show_int i = show_int j"
  show ?thesis
  proof (cases "i < 0"; cases "j < 0")
    assume "i < 0" "\<not> j < 0"
    with eq neg[of "nat j" "show_nat (nat (- i))"] show ?thesis by (simp add: show_int_def)
  next
    assume "\<not> i < 0" "j < 0"
    with eq neg[of "nat i" "show_nat (nat (- j))"] show ?thesis by (simp add: show_int_def)
  qed (use eq in \<open>auto simp: show_int_def dest!: show_nat_inj\<close>)
qed

lemma safe_text_inj: "is_safe_int i \<Longrightarrow> is_safe_int j \<Longrightarrow> num_text (NInt i) = num_text (NInt j) \<Longrightarrow> i = j"
  using show_int_inj by simp

end
