(* ===== verification/Encoding.thy ===== *)
theory Encoding
  imports Crypto
begin

text \<open>
  The byte encodings the program uses of \<open>Buffer\<close>: base64url written without padding and read
  leniently (the decoder takes both alphabets, skips every other character and stops at padding),
  the canonical reading several files build from it, UTF-8, and big-endian 32-bit numbers.
  A text whose UTF-8 holds a code point beyond U+00FF, or is not UTF-8, is outside the modelled
  strings: \<open>utf8_text\<close> is \<open>None\<close>.  Where such a text is only compared with ASCII, \<open>lenient_text\<close>
  reads it as \<open>Buffer.toString\<close> does, with one character standing for all it has beyond U+00FF.
\<close>

section \<open>Base64url\<close>

definition b64_char :: "nat \<Rightarrow> char" where
  "b64_char n =
     (if n < 26 then char_of (65 + n)
      else if n < 52 then char_of (71 + n)
      else if n < 62 then char_of (n - 4)
      else if n = 62 then CHR ''-'' else CHR ''_'')"

definition b64url_value :: "char \<Rightarrow> nat option" where
  "b64url_value c =
     (let n = code_unit c in
      if 65 \<le> n \<and> n \<le> 90 then Some (n - 65)
      else if 97 \<le> n \<and> n \<le> 122 then Some (n - 71)
      else if 48 \<le> n \<and> n \<le> 57 then Some (n + 4)
      else if n = 45 then Some 62
      else if n = 95 then Some 63
      else None)"

definition b64_value :: "char \<Rightarrow> nat option" where
  "b64_value c =
     (if c = CHR ''+'' then Some 62 else if c = CHR ''/'' then Some 63 else b64url_value c)"

fun b64_sextets :: "byte_list \<Rightarrow> nat list" where
  "b64_sextets (a # b # c # bs) =
     a div 4 # (16 * (a mod 4) + b div 16) # (4 * (b mod 16) + c div 64) # c mod 64 # b64_sextets bs"
| "b64_sextets [a, b] = [a div 4, 16 * (a mod 4) + b div 16, 4 * (b mod 16)]"
| "b64_sextets [a] = [a div 4, 16 * (a mod 4)]"
| "b64_sextets [] = []"

fun b64_bytes :: "nat list \<Rightarrow> byte_list" where
  "b64_bytes (w # x # y # z # ss) =
     (4 * w + x div 16) # (16 * (x mod 16) + y div 4) # (64 * (y mod 4) + z) # b64_bytes ss"
| "b64_bytes [w, x, y] = [4 * w + x div 16, 16 * (x mod 16) + y div 4]"
| "b64_bytes [w, x] = [4 * w + x div 16]"
| "b64_bytes _ = []"

definition b64url_encode :: "byte_list \<Rightarrow> string" where
  "b64url_encode bs = map b64_char (b64_sextets bs)"

definition b64_decode :: "string \<Rightarrow> byte_list" where
  "b64_decode s = b64_bytes (List.map_filter b64_value (takeWhile (\<lambda>c. c \<noteq> CHR ''='') s))"

text \<open>The reading that refuses what the decoder would repair.\<close>

definition canonicalB64url :: "string \<Rightarrow> byte_list option" where
  "canonicalB64url s =
     (if list_all (\<lambda>c. b64url_value c \<noteq> None) s \<and> b64url_encode (b64_decode s) = s then Some (b64_decode s) else None)"

definition is_bytes :: "byte_list \<Rightarrow> bool" where
  "is_bytes bs \<longleftrightarrow> list_all (\<lambda>b. b < 256) bs"

lemma b64_char_value: "n < 64 \<Longrightarrow> b64url_value (b64_char n) = Some n"
  by (auto simp: b64_char_def b64url_value_def Let_def code_unit_def)

lemma b64_char_lenient: "n < 64 \<Longrightarrow> b64_value (b64_char n) = Some n"
proof -
  assume "n < 64"
  then have v: "b64url_value (b64_char n) = Some n" by (rule b64_char_value)
  have "b64url_value (CHR ''+'') = None" "b64url_value (CHR ''/'') = None"
    by (simp_all add: b64url_value_def code_unit_def)
  with v show ?thesis by (auto simp: b64_value_def)
qed

lemma b64_char_no_pad: "n < 64 \<Longrightarrow> b64_char n \<noteq> CHR ''=''"
proof
  assume "n < 64" and e: "b64_char n = CHR ''=''"
  then have "b64url_value (CHR ''='') = Some n" using b64_char_value by metis
  then show False by (simp add: b64url_value_def code_unit_def)
qed

lemma b64_sextets_small: "is_bytes bs \<Longrightarrow> list_all (\<lambda>n. n < 64) (b64_sextets bs)"
  by (induction bs rule: b64_sextets.induct) (auto simp: is_bytes_def less_mult_imp_div_less)

lemma sextet_parts:
  "4 * (a div 4) + (16 * (a mod 4) + b div 16) div 16 = a" if "b < 256" for a b :: nat
  using that div_less_iff_less_mult[of 16 b 16] by simp

lemma sextet_parts_mid:
  "16 * ((16 * (a mod 4) + b div 16) mod 16) + (4 * (b mod 16) + c div 64) div 4 = b" if "b < 256" "c < 256"
  for a b c :: nat
proof -
  have "b div 16 < 16" "c div 64 < 4" using that by (simp_all add: div_less_iff_less_mult)
  then show ?thesis by simp
qed

lemma sextet_parts_low: "64 * ((4 * (b mod 16) + c div 64) mod 4) + c mod 64 = c" if "c < 256" for b c :: nat
proof -
  have "c div 64 < 4" using that by (simp add: div_less_iff_less_mult)
  then show ?thesis by simp
qed

lemma b64_bytes_sextets: "is_bytes bs \<Longrightarrow> b64_bytes (b64_sextets bs) = bs"
proof (induction bs rule: b64_sextets.induct)
  case (1 a b c bs)
  then show ?case
    by (simp only: b64_sextets.simps b64_bytes.simps is_bytes_def list.pred_inject sextet_parts sextet_parts_mid
        sextet_parts_low)
next
  case (2 a b)
  then show ?case
    using sextet_parts[of b a] sextet_parts_mid[of b 0 a] by (simp add: is_bytes_def)
next
  case (3 a)
  then show ?case using sextet_parts[of 0 a] by (simp add: is_bytes_def)
qed simp

lemma b64_decode_encode: "is_bytes bs \<Longrightarrow> b64_decode (b64url_encode bs) = bs"
proof -
  assume bs: "is_bytes bs"
  note small = b64_sextets_small[OF bs]
  then have t: "takeWhile (\<lambda>c. c \<noteq> CHR ''='') (b64url_encode bs) = b64url_encode bs"
    unfolding takeWhile_eq_all_conv by (auto simp: b64url_encode_def list_all_iff b64_char_no_pad)
  have "List.map_filter b64_value (map b64_char ns) = ns" if "list_all (\<lambda>n. n < 64) ns" for ns
    using that by (induction ns) (auto simp: map_filter_simps b64_char_lenient)
  from this[OF small] have "List.map_filter b64_value (b64url_encode bs) = b64_sextets bs"
    by (simp only: b64url_encode_def)
  then show ?thesis unfolding b64_decode_def t using b64_bytes_sextets[OF bs] by simp
qed

lemma canonical_encode: "is_bytes bs \<Longrightarrow> canonicalB64url (b64url_encode bs) = Some bs"
proof -
  assume bs: "is_bytes bs"
  have "list_all (\<lambda>c. b64url_value c \<noteq> None) (b64url_encode bs)"
    using b64_sextets_small[OF bs] b64_char_value by (fastforce simp: b64url_encode_def list_all_iff)
  with b64_decode_encode[OF bs] show ?thesis by (simp add: canonicalB64url_def)
qed

text \<open>One text per sequence of bytes.\<close>

lemma canonical_unique: "canonicalB64url s = Some bs \<Longrightarrow> s = b64url_encode bs"
  by (auto simp: canonicalB64url_def split: if_splits)

section \<open>UTF-8\<close>

definition utf8_unit :: "char \<Rightarrow> byte_list" where
  "utf8_unit c = (let n = code_unit c in if n < 128 then [n] else [192 + n div 64, 128 + n mod 64])"

definition utf8 :: "string \<Rightarrow> byte_list" where
  "utf8 s = concat (map utf8_unit s)"

fun utf8_text :: "byte_list \<Rightarrow> string option" where
  "utf8_text [] = Some []"
| "utf8_text [a] = (if a < 128 then Some [char_of a] else None)"
| "utf8_text (a # b # bs) =
     (if a < 128 then map_option ((#) (char_of a)) (utf8_text (b # bs))
      else if (a = 194 \<or> a = 195) \<and> 128 \<le> b \<and> b < 192 then
        map_option ((#) (char_of (64 * (a - 192) + (b - 128)))) (utf8_text bs)
      else None)"

lemma utf8_bytes: "is_bytes (utf8 s)"
proof -
  have "list_all (\<lambda>b. b < 256) (utf8_unit c)" for c
    using code_unit_less[of c] by (auto simp: utf8_unit_def Let_def)
  then show ?thesis by (induction s) (auto simp: utf8_def is_bytes_def)
qed

lemma byte_length_utf8: "byte_length s = length (utf8 s)"
  by (induction s) (auto simp: byte_length_def utf8_def utf8_unit_def Let_def)

lemma utf8_text_low: "a < 128 \<Longrightarrow> utf8_text (a # bs) = map_option ((#) (char_of a)) (utf8_text bs)"
  by (cases bs) auto

lemma utf8_text_pair:
  "h = 2 \<or> h = 3 \<Longrightarrow> m < 64 \<Longrightarrow>
     utf8_text ((192 + h) # (128 + m) # bs) = map_option ((#) (char_of (64 * h + m))) (utf8_text bs)"
  by auto

lemma utf8_round_trip: "utf8_text (utf8 s) = Some s"
proof (induction s)
  case (Cons c s)
  show ?case
  proof (cases "code_unit c < 128")
    case True
    then show ?thesis using Cons by (simp add: utf8_def utf8_unit_def Let_def utf8_text_low)
  next
    case False
    define n where "n = code_unit c"
    have n: "n < 256" "128 \<le> n" using code_unit_less[of c] False by (simp_all add: n_def)
    then have "2 \<le> n div 64" "n div 64 < 4" by (simp_all add: div_less_iff_less_mult less_eq_div_iff_mult_less_eq)
    then have "(n div 64 = 2 \<or> n div 64 = 3) \<and> n mod 64 < 64" by auto
    from utf8_text_pair[OF this[THEN conjunct1] this[THEN conjunct2], of "utf8 s"]
    have "utf8_text ((192 + n div 64) # (128 + n mod 64) # utf8 s) = Some (c # s)"
      using Cons by (simp add: n_def)
    with False show ?thesis by (simp add: utf8_def utf8_unit_def Let_def n_def)
  qed
qed (simp add: utf8_def)

lemma utf8_inj: "utf8 s = utf8 t \<Longrightarrow> s = t"
  by (metis utf8_round_trip option.inject)

lemma utf8_eq [simp]: "utf8 s = utf8 t \<longleftrightarrow> s = t"
  by (auto dest: utf8_inj)

text \<open>
  Reading as \<open>Buffer.toString("utf8")\<close> does, which refuses nothing: a maximal part of a sequence that is
  not UTF-8 becomes the replacement character.  That character and every code point beyond U+00FF are
  written U+00FF here, so the reading is exact in its ASCII characters and no other becomes one.
\<close>

definition utf8_need :: "nat \<Rightarrow> nat" where
  "utf8_need a =
     (if 194 \<le> a \<and> a < 224 then 1 else if 224 \<le> a \<and> a < 240 then 2 else if 240 \<le> a \<and> a < 245 then 3 else 0)"

definition utf8_second :: "nat \<Rightarrow> nat \<Rightarrow> bool" where
  "utf8_second a b \<longleftrightarrow>
     (if a = 224 then 160 else if a = 240 then 144 else 128) \<le> b \<and>
     b < (if a = 237 then 160 else if a = 244 then 144 else 192)"

definition utf8_rest :: "nat \<Rightarrow> byte_list \<Rightarrow> nat" where
  "utf8_rest a bs =
     (case bs of
        [] \<Rightarrow> 0
      | b # bs' \<Rightarrow>
          if utf8_need a = 0 \<or> \<not> utf8_second a b then 0
          else Suc (length (takeWhile (\<lambda>c. 128 \<le> c \<and> c < 192) (take (utf8_need a - 1) bs'))))"

function lenient_text :: "byte_list \<Rightarrow> string" where
  "lenient_text [] = []"
| "lenient_text (a # bs) =
     (if a < 128 then char_of a
      else if a = 194 \<or> a = 195 then
        (case bs of b # _ \<Rightarrow> if 128 \<le> b \<and> b < 192 then char_of (64 * (a - 192) + (b - 128)) else CHR 0xFF | [] \<Rightarrow> CHR 0xFF)
      else CHR 0xFF) # lenient_text (drop (utf8_rest a bs) bs)"
  by pat_completeness auto

termination lenient_text
  by (relation "measure length") auto

lemma lenient_text_low: "a < 128 \<Longrightarrow> lenient_text (a # bs) = char_of a # lenient_text bs"
  by (simp add: utf8_rest_def utf8_need_def split: list.split)

lemma lenient_text_utf8_text: "utf8_text bs = Some s \<Longrightarrow> lenient_text bs = s"
proof (induction bs arbitrary: s rule: utf8_text.induct)
  case (3 a b bs)
  show ?case
  proof (cases "a < 128")
    case True
    with 3 show ?thesis by (auto simp: lenient_text_low simp del: lenient_text.simps)
  next
    case False
    with 3(3) obtain s' where b: "a = 194 \<or> a = 195" "128 \<le> b" "b < 192" "utf8_text bs = Some s'"
      "s = char_of (64 * (a - 192) + (b - 128)) # s'" by (auto split: if_splits)
    then have "utf8_rest a (b # bs) = 1" by (auto simp: utf8_rest_def utf8_need_def utf8_second_def)
    then have "lenient_text (a # b # bs) = char_of (64 * (a - 192) + (b - 128)) # lenient_text bs"
      using b(1,2,3) by (subst lenient_text.simps) auto
    with 3(2)[OF False _ b(4)] b show ?thesis by auto
  qed
qed (auto simp: lenient_text_low simp del: lenient_text.simps(2) split: if_splits)

lemma lenient_round_trip [simp]: "lenient_text (utf8 s) = s"
  by (rule lenient_text_utf8_text[OF utf8_round_trip])

section \<open>Big-endian numbers\<close>

definition be32 :: "nat \<Rightarrow> byte_list" where
  "be32 n = [n div 16777216 mod 256, n div 65536 mod 256, n div 256 mod 256, n mod 256]"

fun read_be32 :: "byte_list \<Rightarrow> nat" where
  "read_be32 (a # b # c # d # _) = 16777216 * a + 65536 * b + 256 * c + d"
| "read_be32 _ = 0"

lemma read_be32: "n < 4294967296 \<Longrightarrow> read_be32 (be32 n @ bs) = n"
proof -
  assume n: "n < 4294967296"
  define p q r where "p = n div 256" and "q = p div 256" and "r = q div 256"
  have "n div 65536 = q" "n div 16777216 = r" by (simp_all add: p_def q_def r_def div_mult2_eq[symmetric])
  moreover have "r < 256" using n by (simp add: p_def q_def r_def div_mult2_eq[symmetric] div_less_iff_less_mult)
  moreover have "256 * p + n mod 256 = n" "256 * q + p mod 256 = p" "256 * r + q mod 256 = q"
    by (simp_all add: p_def q_def r_def)
  ultimately show ?thesis unfolding be32_def by (simp add: p_def[symmetric])
qed

lemma be32_bytes [simp]: "length (be32 n) = 4" "is_bytes (be32 n)"
  by (simp_all add: be32_def is_bytes_def)

text \<open>Decoded bytes are bytes, and four of them a 32-bit count.\<close>

lemma b64_value_less: "b64_value c = Some n \<Longrightarrow> n < 64"
  by (auto simp: b64_value_def b64url_value_def Let_def split: if_split_asm)

lemma b64_bytes_are_bytes: "list_all (\<lambda>n. n < 64) ss \<Longrightarrow> is_bytes (b64_bytes ss)"
proof (induction ss rule: b64_bytes.induct)
  case (1 w x y z ss)
  then have "w < 64" "x < 64" "y < 64" "z < 64" "is_bytes (b64_bytes ss)" by auto
  moreover have "4 * w + x div 16 < 256" "16 * (x mod 16) + y div 4 < 256" "64 * (y mod 4) + z < 256"
    using calculation(1-4) by linarith+
  ultimately show ?case by (simp add: is_bytes_def)
next
  case (2 w x y)
  then have "4 * w + x div 16 < 256" "16 * (x mod 16) + y div 4 < 256" by auto
  then show ?case by (simp add: is_bytes_def)
next
  case (3 w x)
  then have "4 * w + x div 16 < 256" by auto
  then show ?case by (simp add: is_bytes_def)
qed (simp_all add: is_bytes_def)

lemma b64_decode_bytes: "is_bytes (b64_decode s)"
proof -
  have "list_all (\<lambda>n. n < 64) (List.map_filter b64_value cs)" for cs
    by (induction cs) (auto simp: map_filter_simps split: option.split dest: b64_value_less)
  then show ?thesis unfolding b64_decode_def by (intro b64_bytes_are_bytes)
qed

lemma read_be32_less: "is_bytes bs \<Longrightarrow> read_be32 bs < 4294967296"
  by (induction bs rule: read_be32.induct) (auto simp: is_bytes_def)

end
