(* ===== verification/KillStore.thy ===== *)
theory KillStore
  imports Json Encoding KillSwitch
begin

text \<open>
  The kill-state file of \<open>packages/control-plane/src/kill-state.ts\<close>: the strict reading of its
  JSON (\<open>asKillEvent\<close>, \<open>asPersistedKillState\<close>) and the class \<open>KillStateFileStore\<close> with
  \<open>load\<close>, \<open>save\<close>, \<open>degrade\<close>, \<open>ensureMarker\<close> and \<open>fsyncDir\<close>.

  The disk is what lies at the state path and whether the marker exists, with a script that says
  of each coming system call whether it fails and how much a read or write transfers (after the
  script every call completes).  A crash is a script that fails every call from some point on.
  \<open>existsSync\<close> answers truthfully, a descriptor closes, and the random name of a temporary file is
  new, so a leftover one is inert.  The text of a platform error is a parameter of the model.
\<close>

section \<open>The JSON of the state\<close>

definition KILL_SOURCES :: "(string \<times> kill_source) list" where
  "KILL_SOURCES = [(''button'', SrcButton), (''honeytoken'', SrcHoneytoken), (''app'', SrcApp),
     (''voice'', SrcVoice), (''api'', SrcApi), (''limit'', SrcLimit)]"

fun source_text :: "kill_source \<Rightarrow> string" where
  "source_text SrcButton = ''button''"
| "source_text SrcHoneytoken = ''honeytoken''"
| "source_text SrcApp = ''app''"
| "source_text SrcVoice = ''voice''"
| "source_text SrcApi = ''api''"
| "source_text SrcLimit = ''limit''"

text \<open>\<open>Object.keys(rest).length > 0\<close> after taking the named properties out\<close>

definition only_keys :: "string list \<Rightarrow> json \<Rightarrow> bool" where
  "only_keys ks v \<longleftrightarrow> list_all (\<lambda>kv. fst kv \<in> set ks) (object_entries v)"

definition asKillEvent :: "json \<Rightarrow> kill_event option" where
  "asKillEvent v =
     (if \<not> is_plain_object v then None
      else if \<not> only_keys [''source'', ''reason'', ''at'', ''unauthenticated''] v then None
      else
        case (case own_field ''source'' v of Some (JStr s) \<Rightarrow> map_of KILL_SOURCES s | _ \<Rightarrow> None) of
          None \<Rightarrow> None
        | Some src \<Rightarrow>
            (case (case own_field ''reason'' v of
                     None \<Rightarrow> Some None | Some (JStr r) \<Rightarrow> Some (Some r) | Some _ \<Rightarrow> None) of
               None \<Rightarrow> None
             | Some reason \<Rightarrow>
                 (case own_field ''at'' v of
                    Some (JNum n) \<Rightarrow>
                      if \<not> is_finite_num n then None
                      else
                        (case own_field ''unauthenticated'' v of
                           None \<Rightarrow>
                             Some \<lparr>ke_source = src, ke_reason = reason, ke_at = n, ke_unauthenticated = False\<rparr>
                         | Some (JBool True) \<Rightarrow>
                             Some \<lparr>ke_source = src, ke_reason = reason, ke_at = n, ke_unauthenticated = True\<rparr>
                         | Some _ \<Rightarrow> None)
                  | _ \<Rightarrow> None)))"

fun scoped_events :: "(string \<times> json) list \<Rightarrow> (string \<times> kill_event) list option" where
  "scoped_events [] = Some []"
| "scoped_events ((agent, raw) # rest) =
     (if \<not> isValidAgentId agent then None
      else
        case asKillEvent raw of
          None \<Rightarrow> None
        | Some ev \<Rightarrow> map_option (\<lambda>kvs. (agent, ev) # kvs) (scoped_events rest))"

definition asAgentKills :: "json option \<Rightarrow> (string \<times> kill_event) list option option" where
  "asAgentKills raw =
     (case raw of
        None \<Rightarrow> Some None
      | Some v \<Rightarrow>
          if \<not> is_plain_object v then None
          else if object_entries v = [] \<or> length (object_entries v) > MAX_KILLED_AGENTS then None
          else map_option Some (scoped_events (object_entries v)))"

definition asPersistedKillState :: "json \<Rightarrow> persisted_kill_state option" where
  "asPersistedKillState v =
     (if \<not> is_plain_object v then None
      else if \<not> only_keys [''version'', ''killed'', ''epoch'', ''lastKill'', ''agentKills''] v then None
      else if own_field ''version'' v \<noteq> Some (JNum (NInt 1)) then None
      else
        case own_field ''killed'' v of
          Some (JBool killed) \<Rightarrow>
            (case (case own_field ''epoch'' v of Some (JNum n) \<Rightarrow> safe_integer n | _ \<Rightarrow> None) of
               None \<Rightarrow> None
             | Some epoch \<Rightarrow>
                 if epoch < 0 then None
                 else if killed \<noteq> (own_field ''lastKill'' v \<noteq> None) then None
                 else
                   (case asAgentKills (own_field ''agentKills'' v) of
                      None \<Rightarrow> None
                    | Some scoped \<Rightarrow>
                        (case own_field ''lastKill'' v of
                           None \<Rightarrow>
                             Some \<lparr>ps_killed = killed, ps_epoch = epoch, ps_lastKill = None, ps_agentKills = scoped\<rparr>
                         | Some raw \<Rightarrow>
                             map_option (\<lambda>ev. \<lparr>ps_killed = killed, ps_epoch = epoch, ps_lastKill = Some ev,
                                               ps_agentKills = scoped\<rparr>) (asKillEvent raw))))
        | _ \<Rightarrow> None)"

text \<open>The object literals \<open>JSON.stringify\<close> is given; an undefined property is left out.\<close>

definition event_json :: "kill_event \<Rightarrow> json" where
  "event_json ev =
     JObj ([(''source'', JStr (source_text (ke_source ev)))] @
           (case ke_reason ev of None \<Rightarrow> [] | Some r \<Rightarrow> [(''reason'', JStr r)]) @
           [(''at'', JNum (ke_at ev))] @
           (if ke_unauthenticated ev then [(''unauthenticated'', JBool True)] else []))"

definition state_json :: "persisted_kill_state \<Rightarrow> json" where
  "state_json ps =
     JObj ([(''version'', JNum (NInt 1)), (''killed'', JBool (ps_killed ps)), (''epoch'', JNum (NInt (ps_epoch ps)))] @
           (case ps_lastKill ps of None \<Rightarrow> [] | Some ev \<Rightarrow> [(''lastKill'', event_json ev)]) @
           (case ps_agentKills ps of None \<Rightarrow> []
            | Some kvs \<Rightarrow> [(''agentKills'', JObj (map (\<lambda>kv. (fst kv, event_json (snd kv))) kvs))]))"

section \<open>The disk\<close>

datatype node = RegularFile byte_list | Symlink bool | Directory

record disk =
  dk_state :: "node option"
  dk_marker :: bool
  dk_calls :: "syscall list"

definition next_call :: "disk \<Rightarrow> syscall \<times> disk" where
  "next_call dk = (case dk_calls dk of [] \<Rightarrow> (Completes, dk) | c # cs \<Rightarrow> (c, dk\<lparr>dk_calls := cs\<rparr>))"

fun exists_node :: "node option \<Rightarrow> bool" where
  "exists_node None = False"
| "exists_node (Some (Symlink target_exists)) = target_exists"
| "exists_node (Some _) = True"

definition MAX_KILL_STATE_FILE_BYTES :: nat where
  "MAX_KILL_STATE_FILE_BYTES = 64 * 1024"

section \<open>Marker and directory\<close>

definition fsyncDir :: "disk \<Rightarrow> disk \<times> bool" where
  "fsyncDir dk =
     (case next_call dk of
        (Fails, dk1) \<Rightarrow> (dk1, False)
      | (_, dk1) \<Rightarrow> (case next_call dk1 of (Fails, dk2) \<Rightarrow> (dk2, False) | (_, dk2) \<Rightarrow> (dk2, True)))"

text \<open>\<open>None\<close> where the code throws.\<close>

definition ensureMarker :: "disk \<Rightarrow> disk \<times> bool option" where
  "ensureMarker dk =
     (case next_call dk of
        (Fails, dk1) \<Rightarrow> (dk1, None)
      | (_, dk1) \<Rightarrow>
          if dk_marker dk1 then (dk1, Some True)
          else
            (case next_call (dk1\<lparr>dk_marker := True\<rparr>) of
               (Fails, dk2) \<Rightarrow> (dk2, None)
             | (_, dk2) \<Rightarrow>
                 (case next_call dk2 of
                    (Fails, dk3) \<Rightarrow> (dk3, None)
                  | (_, dk3) \<Rightarrow> (let (dk4, ok) = fsyncDir dk3 in (dk4, Some ok)))))"

section \<open>Loading\<close>

datatype read_result = ReadFailed | TooLarge nat | ReadAll byte_list

text \<open>What a call moves of the bytes that are left, into room for \<open>m\<close>.\<close>

definition moved :: "syscall \<Rightarrow> nat \<Rightarrow> byte_list \<Rightarrow> byte_list" where
  "moved c m left = take (transferred c (min m (length left))) left"

lemma moved_length: "left \<noteq> [] \<Longrightarrow> 0 < m \<Longrightarrow> 0 < length (moved c m left) \<and> length (moved c m left) \<le> length left"
  using transferred_pos[of "min m (length left)" c] by (simp add: moved_def)

lemma moved_Nil [simp]: "moved c m [] = []"
  by (simp add: moved_def)

text \<open>The bounded read loop over the bytes \<open>raw\<close> of the file, \<open>buf\<close> what the buffer has of them.\<close>

function read_loop :: "byte_list \<Rightarrow> byte_list \<Rightarrow> disk \<Rightarrow> disk \<times> read_result" where
  "read_loop raw buf dk =
     (let (c, dk1) = next_call dk;
          left = drop (length buf) raw;
          buf' = buf @ moved c (MAX_KILL_STATE_FILE_BYTES + 1 - length buf) left
      in if c = Fails then (dk1, ReadFailed)
         else if left = [] then (dk1, ReadAll buf)
         else if length buf' > MAX_KILL_STATE_FILE_BYTES then (dk1, TooLarge (length buf'))
         else read_loop raw buf' dk1)"
  by pat_completeness auto

lemma moved_decreases: "drop (length buf) raw \<noteq> [] \<Longrightarrow> 0 < m \<Longrightarrow>
    length raw - length (buf @ moved c m (drop (length buf) raw)) < length raw - length buf"
  using moved_length[of "drop (length buf) raw" m c] by (simp del: length_greater_0_conv, linarith)

lemma read_loop_decreases: "drop (length buf) raw \<noteq> [] \<Longrightarrow>
    \<not> MAX_KILL_STATE_FILE_BYTES < length (buf @ moved c (MAX_KILL_STATE_FILE_BYTES + 1 - length buf) (drop (length buf) raw)) \<Longrightarrow>
    length raw - length (buf @ moved c (MAX_KILL_STATE_FILE_BYTES + 1 - length buf) (drop (length buf) raw)) < length raw - length buf"
  by (rule moved_decreases) simp_all

termination read_loop
  by (relation "measure (\<lambda>(raw, buf, dk). length raw - length buf)")
     (simp, simp only: in_measure prod.case, rule read_loop_decreases, assumption+)

definition load :: "string \<Rightarrow> string \<Rightarrow> disk \<Rightarrow> disk \<times> load_outcome" where
  "load path err dk =
     (case next_call dk of
        (Fails, dk1) \<Rightarrow> (dk1, Corrupt (''cannot read '' @ path @ '': '' @ err))
      | (_, dk1) \<Rightarrow>
          (case dk_state dk1 of
             None \<Rightarrow>
               if dk_marker dk1 then
                 (dk1, Corrupt (path @ '' is missing but the store is initialised ('' @ path @
                    ''.initialized exists) - the state file was deleted or the path moved''))
               else (dk1, Absent)
           | Some (Symlink _) \<Rightarrow> (dk1, Corrupt (path @ '' is a symlink - refusing to follow it''))
           | Some nd \<Rightarrow>
               (case next_call dk1 of
                  (Fails, dk2) \<Rightarrow> (dk2, Corrupt (''cannot read '' @ path @ '': '' @ err))
                | (_, dk2) \<Rightarrow>
                    (case nd of
                       RegularFile raw \<Rightarrow>
                         (case read_loop raw [] dk2 of
                            (dk3, ReadFailed) \<Rightarrow> (dk3, Corrupt (''cannot read '' @ path @ '': '' @ err))
                          | (dk3, TooLarge n) \<Rightarrow>
                              (dk3, Corrupt (path @ '' is at least '' @ show_nat n @ '' bytes, over the '' @
                                 show_nat MAX_KILL_STATE_FILE_BYTES @
                                 ''-byte kill-state limit - refusing to read it into memory''))
                          | (dk3, ReadAll buf) \<Rightarrow>
                              (case json_parse (lenient_text buf) of
                                 None \<Rightarrow> (dk3, Corrupt (''cannot parse '' @ path @ '': '' @ err))
                               | Some parsed \<Rightarrow>
                                   (case asPersistedKillState parsed of
                                      None \<Rightarrow> (dk3, Corrupt (''unexpected shape in '' @ path))
                                    | Some ps \<Rightarrow> (fst (ensureMarker dk3), Loaded ps))))
                     | _ \<Rightarrow> (dk2, Corrupt (path @ '' is not a regular file''))))))"

section \<open>Saving\<close>

text \<open>
  The write loop: the bytes the temporary file has when it ends, and whether it ended without a
  throw.  A write appends as much of the rest as the call transfers.
\<close>

function write_loop :: "byte_list \<Rightarrow> byte_list \<Rightarrow> disk \<Rightarrow> disk \<times> byte_list \<times> bool" where
  "write_loop data tmp dk =
     (let left = drop (length tmp) data in
      if left = [] then (dk, tmp, True)
      else
        let (c, dk1) = next_call dk
        in if c = Fails then (dk1, tmp, False)
           else write_loop data (tmp @ moved c (length left) left) dk1)"
  by pat_completeness auto

lemma write_loop_decreases: "drop (length tmp) data \<noteq> [] \<Longrightarrow>
    length data - length (tmp @ moved c (length (drop (length tmp) data)) (drop (length tmp) data)) < length data - length tmp"
  by (rule moved_decreases) simp_all

termination write_loop
  by (relation "measure (\<lambda>(data, tmp, dk). length data - length tmp)")
     (simp, simp only: in_measure prod.case, rule write_loop_decreases, assumption)

text \<open>\<open>renameSync\<close> of the temporary file onto the state path: a directory in the way makes it fail.\<close>

definition rename_over :: "byte_list \<Rightarrow> disk \<Rightarrow> disk \<times> bool" where
  "rename_over tmp dk =
     (case next_call dk of
        (Fails, dk1) \<Rightarrow> (dk1, False)
      | (_, dk1) \<Rightarrow>
          if dk_state dk1 = Some Directory then (dk1, False)
          else (dk1\<lparr>dk_state := Some (RegularFile tmp)\<rparr>, True))"

text \<open>The try block of \<open>save\<close>, up to the rename, and whether the temporary is still open when it throws.\<close>

definition publish :: "byte_list \<Rightarrow> disk \<Rightarrow> disk \<times> (bool + unit)" where
  "publish data dk =
     (case next_call dk of
        (Fails, dk1) \<Rightarrow> (dk1, Inl False)
      | (_, dk1) \<Rightarrow>
          (case write_loop data [] dk1 of
             (dk2, _, False) \<Rightarrow> (dk2, Inl True)
           | (dk2, tmp, True) \<Rightarrow>
               (case next_call dk2 of
                  (Fails, dk3) \<Rightarrow> (dk3, Inl True)
                | (_, dk3) \<Rightarrow>
                    (case next_call dk3 of
                       (Fails, dk4) \<Rightarrow> (dk4, Inl True)
                     | (_, dk4) \<Rightarrow>
                         (case rename_over tmp dk4 of
                            (dk5, False) \<Rightarrow> (dk5, Inl False)
                          | (dk5, True) \<Rightarrow> (dk5, Inr ()))))))"

text \<open>The catch block: close the temporary if it is open, unlink it; failures are ignored.\<close>

definition discard_temp :: "bool \<Rightarrow> disk \<Rightarrow> disk" where
  "discard_temp was_open dk =
     (let dk1 = (if was_open then snd (next_call dk) else dk) in snd (next_call dk1))"

definition state_text :: "persisted_kill_state \<Rightarrow> string" where
  "state_text ps = json_pretty (state_json ps) @ [CHR 0x0A]"

definition save :: "string \<Rightarrow> string \<Rightarrow> disk \<Rightarrow> persisted_kill_state \<Rightarrow> disk \<times> save_outcome" where
  "save path err dk ps =
     (case next_call dk of
        (Fails, dk1) \<Rightarrow> (dk1, SaveThrew err)
      | (_, dk1) \<Rightarrow>
          (case ensureMarker dk1 of
             (dk2, None) \<Rightarrow> (dk2, SaveThrew err)
           | (dk2, Some markerDurable) \<Rightarrow>
               (case publish (utf8 (state_text ps)) dk2 of
                  (dk3, Inl was_open) \<Rightarrow> (discard_temp was_open dk3, SaveThrew err)
                | (dk3, Inr _) \<Rightarrow>
                    (let (dk4, dirDurable) = fsyncDir dk3 in
                     (dk4,
                      if markerDurable \<and> dirDurable then SaveDurable
                      else SaveNotDurable (''the directory entry for '' @ path @ '' could not be fsynced - '' @
                        ''the new state is visible but a power cut may resurface the previous one''))))))"

section \<open>Degrading\<close>

definition unlink_state :: "disk \<Rightarrow> disk \<times> bool" where
  "unlink_state dk =
     (case next_call dk of
        (Fails, dk1) \<Rightarrow> (dk1, \<not> exists_node (dk_state dk1))
      | (_, dk1) \<Rightarrow>
          (case dk_state dk1 of
             None \<Rightarrow> (dk1, True)
           | Some Directory \<Rightarrow> (dk1, \<not> exists_node (dk_state dk1))
           | Some _ \<Rightarrow> (dk1\<lparr>dk_state := None\<rparr>, True)))"

definition degrade :: "disk \<Rightarrow> disk \<times> bool" where
  "degrade dk =
     (let (dk1, m) = ensureMarker dk;
          markerOk = (case m of Some _ \<Rightarrow> True | None \<Rightarrow> dk_marker dk1);
          (dk2, stateGone) = unlink_state dk1
      in (dk2, markerOk \<and> stateGone))"

text \<open>The store a \<open>KillSwitch\<close> is given.\<close>

definition file_store :: "string \<Rightarrow> string \<Rightarrow> disk kill_store" where
  "file_store path err =
     \<lparr>st_load = load path err, st_save = save path err,
      st_degrade = (\<lambda>dk. let (dk', ok) = degrade dk in (dk', Some ok))\<rparr>"

section \<open>What calls leave alone\<close>

lemma next_call_keeps:
  assumes "next_call dk = (c, dk1)"
  shows "dk_state dk1 = dk_state dk" "dk_marker dk1 = dk_marker dk"
  using assms by (auto simp: next_call_def split: list.splits)

declare read_loop.simps [simp del] write_loop.simps [simp del]

text \<open>What a loop has moved is the beginning of what it moves.\<close>

definition begins :: "byte_list \<Rightarrow> byte_list \<Rightarrow> bool" where
  "begins xs ys \<longleftrightarrow> take (length xs) ys = xs"

lemma begins_more [simp]: "begins xs ys \<Longrightarrow> begins (xs @ moved c n (drop (length xs) ys)) ys"
proof -
  assume b: "begins xs ys"
  define zs where "zs = drop (length xs) ys"
  have ys: "ys = xs @ zs" using b append_take_drop_id[of "length xs" ys] by (simp add: begins_def zs_def)
  have "take (length (take k zs)) zs = take k zs" for k by simp (metis take_take min.commute take_all_iff nat_le_linear min.absorb_iff2)
  with ys have "take (length (xs @ moved c n zs)) ys = xs @ moved c n zs" by (simp only: moved_def length_append take_append) simp
  then show ?thesis unfolding begins_def zs_def[symmetric] .
qed

lemma begins_all: "begins xs ys \<Longrightarrow> drop (length xs) ys = [] \<Longrightarrow> xs = ys"
  by (simp add: begins_def)

lemma begins_Nil [simp]: "begins [] ys"
  by (simp add: begins_def)

lemma read_loop_rule:
  "read_loop raw buf dk = (dk', r) \<Longrightarrow> begins buf raw \<Longrightarrow> length buf \<le> MAX_KILL_STATE_FILE_BYTES \<Longrightarrow>
     dk_state dk' = dk_state dk \<and> dk_marker dk' = dk_marker dk \<and>
     (\<forall>got. r = ReadAll got \<longrightarrow> got = raw \<and> length raw \<le> MAX_KILL_STATE_FILE_BYTES)"
proof (induction raw buf dk rule: read_loop.induct)
  case (1 raw buf dk)
  obtain c dk1 where c: "next_call dk = (c, dk1)" by fastforce
  let ?left = "drop (length buf) raw"
  let ?buf = "buf @ moved c (MAX_KILL_STATE_FILE_BYTES + 1 - length buf) ?left"
  have unfolded: "read_loop raw buf dk =
      (if c = Fails then (dk1, ReadFailed) else if ?left = [] then (dk1, ReadAll buf)
       else if length ?buf > MAX_KILL_STATE_FILE_BYTES then (dk1, TooLarge (length ?buf)) else read_loop raw ?buf dk1)"
    by (subst read_loop.simps) (simp add: c Let_def)
  show ?case
  proof (cases "c = Fails \<or> ?left = [] \<or> length ?buf > MAX_KILL_STATE_FILE_BYTES")
    case True
    with 1(2-4) next_call_keeps[OF c] begins_all[of buf raw] show ?thesis
      unfolding unfolded by (auto split: if_split_asm)
  next
    case False
    then have "read_loop raw ?buf dk1 = (dk', r)" using 1(2) unfolding unfolded by simp
    from 1(1)[OF refl c[symmetric] refl refl _ _ _ this] False 1(3) next_call_keeps[OF c] show ?thesis by auto
  qed
qed

lemma fsyncDir_keeps:
  "fsyncDir dk = (dk', r) \<Longrightarrow> dk_state dk' = dk_state dk \<and> dk_marker dk' = dk_marker dk"
proof -
  assume r: "fsyncDir dk = (dk', r)"
  obtain c dk1 where c: "next_call dk = (c, dk1)" by fastforce
  obtain c2 dk2 where c2: "next_call dk1 = (c2, dk2)" by fastforce
  from r c c2 next_call_keeps[OF c] next_call_keeps[OF c2] show ?thesis
    by (auto simp: fsyncDir_def split: syscall.splits)
qed

lemma ensureMarker_effect:
  assumes "ensureMarker dk = (dk', r)"
  shows "dk_state dk' = dk_state dk" "dk_marker dk \<Longrightarrow> dk_marker dk'" "r \<noteq> None \<Longrightarrow> dk_marker dk'"
proof -
  obtain c dk1 where c: "next_call dk = (c, dk1)" by fastforce
  obtain c2 dk2 where c2: "next_call (dk1\<lparr>dk_marker := True\<rparr>) = (c2, dk2)" by fastforce
  obtain c3 dk3 where c3: "next_call dk2 = (c3, dk3)" by fastforce
  obtain dk4 ok where f: "fsyncDir dk3 = (dk4, ok)" by fastforce
  note keeps = next_call_keeps[OF c] next_call_keeps[OF c2] next_call_keeps[OF c3] fsyncDir_keeps[OF f]
  show "dk_state dk' = dk_state dk" "dk_marker dk \<Longrightarrow> dk_marker dk'" "r \<noteq> None \<Longrightarrow> dk_marker dk'"
    using assms c c2 c3 f keeps
    by (auto simp: ensureMarker_def Let_def split: syscall.splits if_splits)
qed

lemma write_loop_rule:
  "write_loop data tmp dk = (dk', tmp', ok) \<Longrightarrow> begins tmp data \<Longrightarrow>
     dk_state dk' = dk_state dk \<and> dk_marker dk' = dk_marker dk \<and> (ok \<longrightarrow> tmp' = data)"
proof (induction data tmp dk rule: write_loop.induct)
  case (1 data tmp dk)
  obtain c dk1 where c: "next_call dk = (c, dk1)" by fastforce
  let ?left = "drop (length tmp) data"
  let ?tmp = "tmp @ moved c (length ?left) ?left"
  have unfolded: "write_loop data tmp dk =
      (if ?left = [] then (dk, tmp, True) else if c = Fails then (dk1, tmp, False) else write_loop data ?tmp dk1)"
    by (subst write_loop.simps) (simp add: c Let_def)
  show ?case
  proof (cases "?left = [] \<or> c = Fails")
    case True
    with 1(2,3) next_call_keeps[OF c] begins_all[of tmp data] show ?thesis
      unfolding unfolded by (auto split: if_split_asm)
  next
    case False
    then have "write_loop data ?tmp dk1 = (dk', tmp', ok)" using 1(2) unfolding unfolded by simp
    from 1(1)[OF refl _ c[symmetric] refl _ this] False 1(3) next_call_keeps[OF c] show ?thesis by simp
  qed
qed

lemma rename_effect:
  assumes "rename_over tmp dk = (dk', ok)"
  shows "dk_marker dk' = dk_marker dk"
    "dk_state dk' = (if ok then Some (RegularFile tmp) else dk_state dk)"
proof -
  obtain c dk1 where c: "next_call dk = (c, dk1)" by fastforce
  with assms next_call_keeps[OF c]
  show "dk_marker dk' = dk_marker dk" "dk_state dk' = (if ok then Some (RegularFile tmp) else dk_state dk)"
    by (auto simp: rename_over_def split: syscall.splits if_splits)
qed

lemma publish_effect:
  assumes "publish data dk = (dk', r)"
  shows "dk_marker dk' = dk_marker dk"
    "dk_state dk' = (case r of Inr _ \<Rightarrow> Some (RegularFile data) | Inl _ \<Rightarrow> dk_state dk)"
proof -
  obtain c1 dk1 where c1: "next_call dk = (c1, dk1)" by fastforce
  obtain w tmp dk2 where w: "write_loop data [] dk1 = (dk2, tmp, w)" by (metis prod_cases3)
  obtain c3 dk3 where c3: "next_call dk2 = (c3, dk3)" by fastforce
  obtain c4 dk4 where c4: "next_call dk3 = (c4, dk4)" by fastforce
  obtain n dk5 where n: "rename_over tmp dk4 = (dk5, n)" by fastforce
  note keeps = next_call_keeps[OF c1] write_loop_rule[OF w begins_Nil] next_call_keeps[OF c3] next_call_keeps[OF c4]
    rename_effect[OF n]
  show "dk_marker dk' = dk_marker dk"
    "dk_state dk' = (case r of Inr _ \<Rightarrow> Some (RegularFile data) | Inl _ \<Rightarrow> dk_state dk)"
    using assms c1 w c3 c4 n keeps
    by (auto simp: publish_def split: syscall.splits bool.splits)
qed

lemma discard_keeps [simp]:
  "dk_state (discard_temp o' dk) = dk_state dk" "dk_marker (discard_temp o' dk) = dk_marker dk"
  using next_call_keeps[of dk] next_call_keeps[of "snd (next_call dk)"]
  by (auto simp: discard_temp_def Let_def) (metis prod.collapse)+

section \<open>Reading back a written state\<close>

lemma plain_keys [simp]:
  "\<not> array_index_key ''version''" "\<not> array_index_key ''killed''" "\<not> array_index_key ''epoch''"
  "\<not> array_index_key ''lastKill''" "\<not> array_index_key ''agentKills''" "\<not> array_index_key ''source''"
  "\<not> array_index_key ''reason''" "\<not> array_index_key ''at''" "\<not> array_index_key ''unauthenticated''"
  by (simp_all add: array_index_key_def is_digit_def code_unit_def)

lemma good_clock_json: "good_clock t \<Longrightarrow> safe_integer t \<noteq> None \<and> is_finite_num t"
  by (auto simp: good_clock_def split: js_num.splits)

lemma event_json_ok: "good_clock (ke_at ev) \<Longrightarrow> json_ok (event_json ev)"
  using good_clock_json[of "ke_at ev"]
  by (auto simp: event_json_def map_keys_def object_order_plain split: option.split)

lemma source_roundtrip: "map_of KILL_SOURCES (source_text src) = Some src"
  by (cases src) (simp_all add: KILL_SOURCES_def)

lemma event_roundtrip: "good_clock (ke_at ev) \<Longrightarrow> asKillEvent (event_json ev) = Some ev"
  using good_clock_json[of "ke_at ev"]
  by (cases ev) (auto simp: asKillEvent_def event_json_def only_keys_def source_roundtrip split: option.split)

lemma agents_json_ok:
  assumes "agents_storable kvs" "object_order kvs = kvs"
  shows "json_ok (JObj (map (\<lambda>kv. (fst kv, event_json (snd kv))) kvs))"
proof -
  have "map_keys (map (\<lambda>kv. (fst kv, event_json (snd kv))) kvs) = map_keys kvs"
    by (simp add: map_keys_def comp_def)
  with assms show ?thesis
    by (auto simp: agents_storable_def object_order_map list_all_iff event_json_ok)
qed

lemma agents_roundtrip:
  "list_all (\<lambda>kv. isValidAgentId (fst kv) \<and> good_clock (ke_at (snd kv))) kvs \<Longrightarrow>
     scoped_events (map (\<lambda>kv. (fst kv, event_json (snd kv))) kvs) = Some kvs"
  by (induction kvs) (auto simp: event_roundtrip)

lemma small_safe: "1 \<le> MAX_SAFE_INTEGER"
  by (simp add: MAX_SAFE_INTEGER_def)

lemma state_json_ok: "storable ps \<Longrightarrow> json_ok (state_json ps)"
  using agents_json_ok[of "the (ps_agentKills ps)"] event_json_ok[of "the (ps_lastKill ps)"]
  by (auto simp: storable_def state_json_def map_keys_def object_order_plain is_safe_int_def small_safe
      simp del: json_ok.simps(2) split: option.splits)

lemma state_fields:
  "own_field ''version'' (state_json ps) = Some (JNum (NInt 1))"
  "own_field ''killed'' (state_json ps) = Some (JBool (ps_killed ps))"
  "own_field ''epoch'' (state_json ps) = Some (JNum (NInt (ps_epoch ps)))"
  "own_field ''lastKill'' (state_json ps) = map_option event_json (ps_lastKill ps)"
  "own_field ''agentKills'' (state_json ps) =
     map_option (\<lambda>kvs. JObj (map (\<lambda>kv. (fst kv, event_json (snd kv))) kvs)) (ps_agentKills ps)"
  "is_plain_object (state_json ps)"
  "only_keys [''version'', ''killed'', ''epoch'', ''lastKill'', ''agentKills''] (state_json ps)"
  by (simp_all add: state_json_def only_keys_def split: option.split)

lemma asAgentKills_roundtrip:
  assumes "storable ps"
  shows "asAgentKills (own_field ''agentKills'' (state_json ps)) = Some (ps_agentKills ps)"
  using assms
  by (cases "ps_agentKills ps")
     (auto simp: state_fields asAgentKills_def storable_def agents_storable_def agents_roundtrip)

lemma state_roundtrip: "storable ps \<Longrightarrow> asPersistedKillState (state_json ps) = Some ps"
  using asAgentKills_roundtrip[of ps]
  by (cases ps; cases "ps_lastKill ps")
     (auto simp: asPersistedKillState_def state_fields storable_def is_safe_int_def event_roundtrip)

lemma state_text_roundtrip:
  "storable ps \<Longrightarrow> json_parse (lenient_text (utf8 (state_text ps))) = Some (state_json ps) \<and> asPersistedKillState (state_json ps) = Some ps"
  by (simp add: state_text_def json_parse_pretty state_json_ok state_roundtrip is_ws_def)

section \<open>What the disk says\<close>

text \<open>The answer of a load whose calls do not fail, \<open>None\<close> for a corrupt one.\<close>

definition disk_says :: "disk \<Rightarrow> load_outcome option" where
  "disk_says dk =
     (case dk_state dk of
        None \<Rightarrow> if dk_marker dk then None else Some Absent
      | Some (RegularFile raw) \<Rightarrow>
          if length raw \<le> MAX_KILL_STATE_FILE_BYTES then
            (case json_parse (lenient_text raw) of None \<Rightarrow> None | Some v \<Rightarrow> map_option Loaded (asPersistedKillState v))
          else None
      | Some _ \<Rightarrow> None)"

definition corrupt :: "load_outcome \<Rightarrow> bool" where
  "corrupt out \<longleftrightarrow> (case out of Corrupt _ \<Rightarrow> True | _ \<Rightarrow> False)"

lemma not_corrupt: "(\<forall>d. out \<noteq> Corrupt d) \<longleftrightarrow> \<not> corrupt out"
  by (cases out) (auto simp: corrupt_def)

lemma corrupt_simps [simp]: "corrupt (Corrupt d)" "\<not> corrupt Absent" "\<not> corrupt (Loaded ps)"
  by (simp_all add: corrupt_def)

lemma load_effect:
  assumes "load path err dk = (dk', out)"
  shows "dk_state dk' = dk_state dk" "dk_marker dk \<Longrightarrow> dk_marker dk'"
    "corrupt out \<or> disk_says dk = Some out" "out = Absent \<Longrightarrow> dk_marker dk' = dk_marker dk"
proof -
  obtain c1 dk1 where c1: "next_call dk = (c1, dk1)" by fastforce
  obtain c2 dk2 where c2: "next_call dk1 = (c2, dk2)" by fastforce
  note keeps = next_call_keeps[OF c1] next_call_keeps[OF c2]
  have goal: "dk_state dk' = dk_state dk \<and> (dk_marker dk \<longrightarrow> dk_marker dk') \<and>
    (corrupt out \<or> disk_says dk = Some out) \<and> (out = Absent \<longrightarrow> dk_marker dk' = dk_marker dk)"
  proof (cases "dk_state dk")
    case None
    with assms c1 keeps show ?thesis
      by (auto simp: load_def disk_says_def split: syscall.splits if_splits)
  next
    case (Some nd)
    show ?thesis
    proof (cases nd)
      case (RegularFile raw)
      obtain dk3 rr where r: "read_loop raw [] dk2 = (dk3, rr)" by fastforce
      obtain dk4 m where m: "ensureMarker dk3 = (dk4, m)" by fastforce
      note whole = read_loop_rule[OF r begins_Nil, simplified]
      show ?thesis
        using assms c1 c2 keeps r whole m ensureMarker_effect[OF m] Some RegularFile
        by (auto simp: load_def disk_says_def split: syscall.splits read_result.splits option.splits)
    qed (use assms c1 c2 keeps Some in \<open>auto simp: load_def split: syscall.splits\<close>)
  qed
  then show "dk_state dk' = dk_state dk" "dk_marker dk \<Longrightarrow> dk_marker dk'"
    "corrupt out \<or> disk_says dk = Some out" "out = Absent \<Longrightarrow> dk_marker dk' = dk_marker dk" by auto
qed

lemma load_follows_disk: "disk_says dk = Some out \<Longrightarrow>
    snd (load path err dk) = out \<or> (\<exists>d. snd (load path err dk) = Corrupt d)"
  using load_effect(3)[of path err dk "fst (load path err dk)" "snd (load path err dk)"] not_corrupt
  by fastforce

lemma load_corrupt_disk: "disk_says dk = None \<Longrightarrow> \<exists>d. snd (load path err dk) = Corrupt d"
  using load_effect(3)[of path err dk "fst (load path err dk)" "snd (load path err dk)"] not_corrupt
  by fastforce

lemma save_effect:
  assumes "save path err dk ps = (dk', res)"
  shows "dk_state dk' = (case res of SaveThrew _ \<Rightarrow> dk_state dk | _ \<Rightarrow> Some (RegularFile (utf8 (state_text ps))))"
    "dk_marker dk \<Longrightarrow> dk_marker dk'" "(\<forall>e. res \<noteq> SaveThrew e) \<Longrightarrow> dk_marker dk'"
proof -
  obtain c1 dk1 where c1: "next_call dk = (c1, dk1)" by fastforce
  obtain dk2 m where m: "ensureMarker dk1 = (dk2, m)" by fastforce
  obtain dk3 r where p: "publish (utf8 (state_text ps)) dk2 = (dk3, r)" by fastforce
  obtain dk4 ok where f: "fsyncDir dk3 = (dk4, ok)" by fastforce
  note keeps = next_call_keeps[OF c1] ensureMarker_effect[OF m] publish_effect[OF p] fsyncDir_keeps[OF f]
  show "dk_state dk' = (case res of SaveThrew _ \<Rightarrow> dk_state dk | _ \<Rightarrow> Some (RegularFile (utf8 (state_text ps))))"
    "dk_marker dk \<Longrightarrow> dk_marker dk'" "(\<forall>e. res \<noteq> SaveThrew e) \<Longrightarrow> dk_marker dk'"
    using assms c1 m p f keeps
    by (auto simp: save_def Let_def split: syscall.splits option.splits sum.splits if_splits)
qed

lemma unlink_effect:
  assumes "unlink_state dk = (dk', ok)"
  shows "dk_marker dk' = dk_marker dk" "ok \<Longrightarrow> dk_state dk' = None \<or> dk_state dk' = Some (Symlink False)"
proof -
  obtain c dk1 where c: "next_call dk = (c, dk1)" by fastforce
  note keeps = next_call_keeps[OF c]
  show "dk_marker dk' = dk_marker dk" "ok \<Longrightarrow> dk_state dk' = None \<or> dk_state dk' = Some (Symlink False)"
    using assms c keeps
    by (auto simp: unlink_state_def split: syscall.splits option.splits node.splits elim: exists_node.elims)
qed

lemma degrade_effect:
  assumes "degrade dk = (dk', True)"
  shows "disk_says (dk'\<lparr>dk_calls := cs\<rparr>) = None"
proof -
  obtain dk1 m where m: "ensureMarker dk = (dk1, m)" by fastforce
  obtain dk2 gone where u: "unlink_state dk1 = (dk2, gone)" by fastforce
  show ?thesis
    using assms m u ensureMarker_effect[OF m] unlink_effect[OF u]
    by (auto simp: degrade_def disk_says_def split: option.splits)
qed

interpretation file_contract: kill_store_contract "file_store path err" for path err
proof (unfold_locales, goal_cases)
  case (1 w w' out)
  then have l: "load path err w = (w', out)" and "\<not> corrupt out"
    by (auto simp: file_store_def not_corrupt)
  note e = load_effect[OF l]
  have "disk_says w' = Some out"
    using e \<open>\<not> corrupt out\<close> by (cases out) (auto simp: disk_says_def split: option.splits if_splits)
  from load_follows_disk[OF this] show ?case by (simp add: file_store_def)
next
  case (2 ps w w' res)
  then have "save path err w ps = (w', res)" by (simp add: file_store_def)
  from save_effect(1)[OF this] 2(3) have st: "dk_state w' = Some (RegularFile (utf8 (state_text ps)))"
    by (cases res) auto
  show ?case
  proof (cases "length (utf8 (state_text ps)) \<le> MAX_KILL_STATE_FILE_BYTES")
    case True
    then have "disk_says w' = Some (Loaded ps)"
      using st state_text_roundtrip[OF 2(1)] by (simp add: disk_says_def)
    from load_follows_disk[OF this] show ?thesis by (simp add: file_store_def)
  next
    case False
    then have "disk_says w' = None" using st by (simp add: disk_says_def)
    from load_corrupt_disk[OF this] show ?thesis by (simp add: file_store_def)
  qed
next
  case (3 w w')
  then have "degrade w = (w', True)" by (auto simp: file_store_def split: prod.splits)
  from load_corrupt_disk[OF degrade_effect[OF this, of "dk_calls w'"]] show ?case
    by (simp add: file_store_def)
qed

section \<open>When no call fails\<close>

definition reliable :: "disk \<Rightarrow> bool" where
  "reliable dk \<longleftrightarrow> Fails \<notin> set (dk_calls dk)"

lemma reliable_next:
  assumes "reliable dk" "next_call dk = (c, dk1)"
  shows "c \<noteq> Fails" "reliable dk1"
  using assms by (auto simp: reliable_def next_call_def split: list.splits)

lemma reliable_fields [simp]:
  "reliable (dk\<lparr>dk_marker := m\<rparr>) = reliable dk" "reliable (dk\<lparr>dk_state := st\<rparr>) = reliable dk"
  by (simp_all add: reliable_def)

lemma reliable_read:
  "reliable dk \<Longrightarrow> length buf \<le> length raw \<Longrightarrow> length raw \<le> MAX_KILL_STATE_FILE_BYTES \<Longrightarrow>
     \<exists>dk' got. read_loop raw buf dk = (dk', ReadAll got) \<and> reliable dk'"
proof (induction raw buf dk rule: read_loop.induct)
  case (1 raw buf dk)
  obtain c dk1 where c: "next_call dk = (c, dk1)" by fastforce
  note rel = reliable_next[OF 1(2) c]
  let ?left = "drop (length buf) raw"
  let ?buf = "buf @ moved c (MAX_KILL_STATE_FILE_BYTES + 1 - length buf) ?left"
  have "length ?buf \<le> length raw" using 1(3) by (simp add: moved_def)
  moreover from this have "\<not> MAX_KILL_STATE_FILE_BYTES < length ?buf" using 1(4) by linarith
  moreover have "read_loop raw buf dk = (if ?left = [] then (dk1, ReadAll buf) else read_loop raw ?buf dk1)"
    using rel(1) calculation(2) by (subst read_loop.simps) (simp add: c Let_def)
  ultimately show ?case
    using 1(1)[OF refl c[symmetric] refl refl rel(1) _ _ rel(2) _ 1(4)] rel(2) by (cases "?left = []") simp_all
qed

lemma reliable_write:
  "reliable dk \<Longrightarrow> \<exists>dk' tmp'. write_loop data tmp dk = (dk', tmp', True) \<and> reliable dk'"
proof (induction data tmp dk rule: write_loop.induct)
  case (1 data tmp dk)
  obtain c dk1 where c: "next_call dk = (c, dk1)" by fastforce
  note rel = reliable_next[OF 1(2) c]
  show ?case
  proof (cases "drop (length tmp) data = []")
    case True
    with 1(2) show ?thesis by (subst write_loop.simps) simp
  next
    case False
    from 1(1)[OF refl False refl c[symmetric] rel] False rel(1) c show ?thesis by (subst write_loop.simps) (simp add: Let_def)
  qed
qed

lemma reliable_fsync:
  assumes "reliable dk"
  shows "\<exists>dk'. fsyncDir dk = (dk', True) \<and> reliable dk'"
proof -
  obtain c dk1 where c: "next_call dk = (c, dk1)" by fastforce
  obtain c2 dk2 where c2: "next_call dk1 = (c2, dk2)" by fastforce
  from c c2 reliable_next[OF assms c] reliable_next(1,2)[OF reliable_next(2)[OF assms c] c2]
  show ?thesis by (cases c; cases c2) (auto simp: fsyncDir_def)
qed

lemma reliable_marker:
  assumes "reliable dk"
  shows "\<exists>dk'. ensureMarker dk = (dk', Some True) \<and> reliable dk'"
proof -
  obtain c dk1 where c: "next_call dk = (c, dk1)" by fastforce
  obtain c2 dk2 where c2: "next_call (dk1\<lparr>dk_marker := True\<rparr>) = (c2, dk2)" by fastforce
  obtain c3 dk3 where c3: "next_call dk2 = (c3, dk3)" by fastforce
  note r1 = reliable_next[OF assms c]
  have "reliable (dk1\<lparr>dk_marker := True\<rparr>)" using r1 by simp
  note r2 = reliable_next[OF this c2]
  note r3 = reliable_next[OF r2(2) c3]
  from reliable_fsync[OF r3(2)] c c2 c3 r1 r2 r3 show ?thesis
    by (cases c; cases c2; cases c3) (auto simp: ensureMarker_def Let_def)
qed

lemma reliable_publish:
  assumes "reliable dk" "dk_state dk \<noteq> Some Directory"
  shows "\<exists>dk'. publish data dk = (dk', Inr ()) \<and> reliable dk'"
proof -
  obtain c1 dk1 where c1: "next_call dk = (c1, dk1)" by fastforce
  note r1 = reliable_next[OF assms(1) c1]
  obtain dk2 tmp where w: "write_loop data [] dk1 = (dk2, tmp, True)" "reliable dk2"
    using reliable_write[OF r1(2)] by blast
  obtain c3 dk3 where c3: "next_call dk2 = (c3, dk3)" by fastforce
  note r3 = reliable_next[OF w(2) c3]
  obtain c4 dk4 where c4: "next_call dk3 = (c4, dk4)" by fastforce
  note r4 = reliable_next[OF r3(2) c4]
  obtain c5 dk5 where c5: "next_call dk4 = (c5, dk5)" by fastforce
  note r5 = reliable_next[OF r4(2) c5]
  have "dk_state dk5 \<noteq> Some Directory"
    using assms(2) next_call_keeps[OF c1] write_loop_rule[OF w(1) begins_Nil] next_call_keeps[OF c3]
      next_call_keeps[OF c4] next_call_keeps[OF c5] by simp
  then have "rename_over tmp dk4 = (dk5\<lparr>dk_state := Some (RegularFile tmp)\<rparr>, True)"
    using c5 r5 by (cases c5) (auto simp: rename_over_def)
  with c1 w c3 c4 r1 r3 r4 r5 show ?thesis
    by (cases c1; cases c3; cases c4) (auto simp: publish_def)
qed

lemma reliable_save:
  assumes "reliable dk" "dk_state dk \<noteq> Some Directory"
  shows "\<exists>dk'. save path err dk ps = (dk', SaveDurable) \<and> reliable dk'"
proof -
  obtain c1 dk1 where c1: "next_call dk = (c1, dk1)" by fastforce
  note r1 = reliable_next[OF assms(1) c1]
  obtain dk2 where m: "ensureMarker dk1 = (dk2, Some True)" "reliable dk2"
    using reliable_marker[OF r1(2)] by blast
  have "dk_state dk2 \<noteq> Some Directory"
    using assms(2) next_call_keeps[OF c1] ensureMarker_effect[OF m(1)] by simp
  then obtain dk3 where p: "publish (utf8 (state_text ps)) dk2 = (dk3, Inr ())" "reliable dk3"
    using reliable_publish m(2) by blast
  from reliable_fsync[OF p(2)] c1 r1 m p show ?thesis
    by (cases c1) (auto simp: save_def Let_def)
qed

lemma reliable_load:
  assumes "reliable dk" "disk_says dk = Some (Loaded ps)"
  shows "\<exists>dk'. load path err dk = (dk', Loaded ps)"
proof -
  obtain c1 dk1 where c1: "next_call dk = (c1, dk1)" by fastforce
  note r1 = reliable_next[OF assms(1) c1]
  obtain c2 dk2 where c2: "next_call dk1 = (c2, dk2)" by fastforce
  note r2 = reliable_next[OF r1(2) c2]
  from assms(2) obtain raw v where raw: "dk_state dk = Some (RegularFile raw)"
    "length raw \<le> MAX_KILL_STATE_FILE_BYTES" "json_parse (lenient_text raw) = Some v" "asPersistedKillState v = Some ps"
    by (auto simp: disk_says_def split: option.splits node.splits if_splits)
  obtain dk3 got where l: "read_loop raw [] dk2 = (dk3, ReadAll got)"
    using reliable_read[OF r2(2), of "[]" raw] raw(2) by auto
  from read_loop_rule[OF l begins_Nil] have "got = raw" by simp
  with l c1 c2 r1 r2 raw next_call_keeps[OF c1] show ?thesis
    by (cases c1; cases c2) (auto simp: load_def)
qed

section \<open>Properties\<close>

text \<open>
  C2: A restart forgets no stop.  Whatever calls a control plane served since its boot, and
  whatever system calls failed on the way, if its last quarantine did not fail then a new
  process on the same disk has every agent stopped that was stopped, and, stopped agents or none,
  it boots killed or goes on with the same epoch.  (The file found at the first boot, if any, is one the program
  could have written; the clock gives safe integers; the epoch stays a safe integer.)
\<close>

theorem restart_forgets_no_stop:
  assumes "\<forall>ps. disk_says w = Some (Loaded ps) \<longrightarrow> storable ps" and "good_clock (fst clk)"
    and "list_all timed es"
    and "sw = foldl (switch_step (Some (file_store path err))) (boot (Some (file_store path err)) clk w) es"
    and "sw_epoch sw \<le> MAX_SAFE_INTEGER" and "\<not> sw_quarantineFailed sw"
  shows "(stopped sw agent \<longrightarrow> stopped (boot (Some (file_store path err)) clk' (sw_world sw)) agent) \<and>
    (sw_killed (boot (Some (file_store path err)) clk' (sw_world sw)) \<or>
     sw_epoch (boot (Some (file_store path err)) clk' (sw_world sw)) = sw_epoch sw)"
proof -
  have "snd (st_load (file_store path err) w) = Loaded ps \<Longrightarrow> storable ps" for ps
    using assms(1) load_effect(3)[OF prod.collapse[symmetric], of path err w]
    by (auto simp: file_store_def)
  then have "recordable (boot (Some (file_store path err)) clk w) \<and>
      on_disk (file_store path err) (boot (Some (file_store path err)) clk w)"
    using assms(2) by (intro file_contract.boot_on_disk) auto
  then have "on_disk (file_store path err) sw"
    using assms(3,4,5) file_contract.run_on_disk by blast
  from file_contract.restart_keeps_stops[OF this assms(6), of agent clk'] show ?thesis by blast
qed

definition demo_disk :: disk where
  "demo_disk = \<lparr>dk_state = None, dk_marker = False, dk_calls = []\<rparr>"

lemma restart_forgets_no_stop_witness:
  "stopped (boot (Some (file_store ''k'' ''e'')) demo_clock
      (sw_world (foldl (switch_step (Some (file_store ''k'' ''e'')))
        (boot (Some (file_store ''k'' ''e'')) demo_clock demo_disk) [Engage SrcButton None False demo_clock]))) ''a''"
proof -
  let ?st = "file_store ''k'' ''e''"
  let ?b = "boot (Some ?st) demo_clock demo_disk"
  let ?sw = "foldl (switch_step (Some ?st)) ?b [Engage SrcButton None False demo_clock]"
  have "load ''k'' ''e'' demo_disk = (demo_disk, Absent)"
    by (simp add: load_def demo_disk_def next_call_def)
  then have b: "?b = unarmed demo_disk" by (simp add: boot_def file_store_def)
  have sw: "?sw = engage (Some ?st) SrcButton None False demo_clock (unarmed demo_disk)"
    by (simp add: b switch_step_def)
  have "\<exists>dk'. save ''k'' ''e'' demo_disk ps = (dk', SaveDurable)" for ps
    using reliable_save[of demo_disk "''k''" "''e''" ps] by (auto simp: reliable_def demo_disk_def)
  then have "save ''k'' ''e'' demo_disk ps \<noteq> (dk, SaveThrew e)" for ps dk e
    by (metis prod.inject save_outcome.distinct(3))
  then have "\<not> sw_quarantineFailed ?sw"
    unfolding sw engage_def persist_def Let_def
    by (auto simp: file_store_def unarmed_def split: prod.split save_outcome.split)
  moreover have "\<forall>ps. disk_says demo_disk = Some (Loaded ps) \<longrightarrow> storable ps"
    by (simp add: disk_says_def demo_disk_def)
  moreover have "good_clock (fst demo_clock)" "list_all timed [Engage SrcButton None False demo_clock]"
    by (simp_all add: demo_clock_def good_clock_def is_safe_int_def MAX_SAFE_INTEGER_def)
  moreover have "sw_epoch ?sw \<le> MAX_SAFE_INTEGER" "stopped ?sw ''a''"
    unfolding sw by (simp_all add: stopped_def) (simp add: unarmed_def MAX_SAFE_INTEGER_def)
  ultimately show ?thesis
    using restart_forgets_no_stop[of demo_disk demo_clock "[Engage SrcButton None False demo_clock]" ?sw
        "''k''" "''e''" "''a''" demo_clock] by blast
qed

text \<open>
  C27: A save is all or nothing at every point where it can fail or be cut off: the state file is
  left as it was exactly when the save throws, and otherwise holds the new state with the
  initialisation marker beside it; the marker is never lost.
\<close>

theorem save_all_or_nothing:
  "let r = save path err dk ps in
   dk_state (fst r) = (case snd r of SaveThrew _ \<Rightarrow> dk_state dk | _ \<Rightarrow> Some (RegularFile (utf8 (state_text ps)))) \<and>
   dk_marker (fst r) = (case snd r of SaveThrew _ \<Rightarrow> if dk_marker dk then True else dk_marker (fst r) | _ \<Rightarrow> True)"
  using save_effect[of path err dk ps "fst (save path err dk ps)" "snd (save path err dk ps)"]
  by (auto simp: Let_def split: save_outcome.split)

text \<open>
  A load never trusts anything less than a whole, strictly shaped state: it answers that
  nothing was ever stored only when neither the file nor the marker is there, and a state only
  when the path is a regular file of bounded size whose text parses to that state.
\<close>

theorem load_trusts_only_whole_state:
  "(case snd (load path err dk) of
      Absent \<Rightarrow> dk_state dk = None \<and> \<not> dk_marker dk
    | Loaded ps \<Rightarrow> \<exists>raw v. dk_state dk = Some (RegularFile raw) \<and> length raw \<le> MAX_KILL_STATE_FILE_BYTES \<and>
        json_parse (lenient_text raw) = Some v \<and> asPersistedKillState v = Some ps
    | Corrupt _ \<Rightarrow> True)"
  using load_effect(3)[of path err dk "fst (load path err dk)" "snd (load path err dk)"]
  by (auto simp: disk_says_def split: load_outcome.split option.splits node.splits if_splits)

text \<open>
  A \<open>degrade\<close> that reports success has made every later load fail closed, whatever calls
  fail then.
\<close>

theorem degrade_fails_closed:
  assumes "degrade dk = (dk', True)"
  shows "\<exists>d. snd (load path err (dk'\<lparr>dk_calls := cs\<rparr>)) = Corrupt d"
  using load_corrupt_disk[OF degrade_effect[OF assms]] .

lemma degrade_fails_closed_witness:
  "\<exists>d. snd (load ''k'' ''e'' \<lparr>dk_state = None, dk_marker = True, dk_calls = [Fails]\<rparr>) = Corrupt d"
proof -
  have "degrade demo_disk = (\<lparr>dk_state = None, dk_marker = True, dk_calls = []\<rparr>, True)"
    by (simp add: degrade_def ensureMarker_def unlink_state_def fsyncDir_def next_call_def demo_disk_def)
  from degrade_fails_closed[OF this, of "''k''" "''e''" "[Fails]"] show ?thesis by simp
qed

text \<open>
  C14: What a save writes a load reads back: when no call fails, however short the single writes
  and reads are, saving any storable state of bounded size is durable and the next load returns
  that state.
\<close>

theorem save_load_roundtrip:
  assumes "reliable dk" and "dk_state dk \<noteq> Some Directory" and "storable ps"
    and "length (utf8 (state_text ps)) \<le> MAX_KILL_STATE_FILE_BYTES"
  shows "\<exists>dk1 dk2. save path err dk ps = (dk1, SaveDurable) \<and> load path err dk1 = (dk2, Loaded ps)"
proof -
  obtain dk1 where s: "save path err dk ps = (dk1, SaveDurable)" "reliable dk1"
    using reliable_save[OF assms(1,2)] by blast
  then have "disk_says dk1 = Some (Loaded ps)"
    using save_effect(1)[OF s(1)] assms(4) state_text_roundtrip[OF assms(3)] by (simp add: disk_says_def)
  from reliable_load[OF s(2) this] s(1) show ?thesis by blast
qed

definition demo_state :: persisted_kill_state where
  "demo_state = \<lparr>ps_killed = False, ps_epoch = 6, ps_lastKill = None,
     ps_agentKills = Some [(''a'', \<lparr>ke_source = SrcApp, ke_reason = Some ''loop'', ke_at = NInt 500, ke_unauthenticated = False\<rparr>)]\<rparr>"

lemma save_load_roundtrip_witness:
  "\<exists>dk1 dk2. save ''k'' ''e'' (demo_disk\<lparr>dk_calls := [Completes, Transfers 3, Transfers 2]\<rparr>) demo_state = (dk1, SaveDurable) \<and>
     load ''k'' ''e'' dk1 = (dk2, Loaded demo_state)"
proof -
  have "isValidAgentId ''a''" by (simp add: valid_id_simps)
  then have "storable demo_state"
    by (simp add: demo_state_def storable_def agents_storable_def good_clock_def is_safe_int_def
        MAX_SAFE_INTEGER_def MAX_KILLED_AGENTS_def object_order_def map_keys_def array_index_key_def
        is_digit_def code_unit_def)
  moreover have "byte_length (state_text demo_state) \<le> MAX_KILL_STATE_FILE_BYTES"
    by (simp add: is_safe_int_def MAX_SAFE_INTEGER_def byte_length_def MAX_KILL_STATE_FILE_BYTES_def state_text_def json_pretty_def state_json_def
        event_json_def demo_state_def json_string_text_def quoted_def escape_char_def code_unit_def
        show_int_def show_nat.simps digit_char_def sum_list_replicate)
  then have "length (utf8 (state_text demo_state)) \<le> MAX_KILL_STATE_FILE_BYTES" by (simp add: byte_length_utf8)
  ultimately show ?thesis
    by (intro save_load_roundtrip) (simp_all add: reliable_def demo_disk_def)
qed

end
