(* ===== verification/VetoWindow.thy ===== *)
theory VetoWindow
  imports PolicyEngine
begin

text \<open>
  The veto window of \<open>packages/control-plane/src/veto.ts\<close>: the class \<open>VetoWindow\<close> as the record
  \<open>veto_window\<close> and its methods.  A method that reads the clock takes the reading; \<open>tick\<close> takes
  the release-time witness check as a function of the acking device and its generation
  (\<open>None\<close> for a window built without one).  A throw is an \<open>Inl\<close>.
\<close>

section \<open>State\<close>

datatype veto_status = Pending | Vetoed | Released | Extended | Held

record veto_purpose =
  vp_connector :: string
  vp_operation :: string
  vp_policyVersion :: string

type_synonym witness = "(string option \<Rightarrow> int option \<Rightarrow> bool) option"

record veto_window =
  vw_call :: tool_call
  vw_killEpoch :: int
  vw_status :: veto_status
  vw_delivered :: bool
  vw_deliveredBy :: "string option"
  vw_deliveredByGeneration :: "int option"
  vw_deliveredAt :: "millis option"
  vw_revision :: nat
  vw_deadline :: millis
  vw_releasedAt :: "millis option"
  vw_approvedBy :: "string option"
  vw_approvedAt :: "millis option"
  vw_approvalEpoch :: "int option"
  vw_extensionMs :: millis
  vw_purpose :: "veto_purpose option"
  vw_vetoedBy :: "string option"

definition or_default :: "'a \<Rightarrow> 'a option \<Rightarrow> 'a" where
  "or_default d v = (case v of None \<Rightarrow> d | Some x \<Rightarrow> x)"

definition new_window ::
  "tool_call \<Rightarrow> int \<Rightarrow> millis option \<Rightarrow> millis option \<Rightarrow> veto_purpose option \<Rightarrow> millis \<Rightarrow> veto_window" where
  "new_window call epoch windowMs extensionMs purpose now =
     \<lparr>vw_call = call, vw_killEpoch = epoch, vw_status = Pending, vw_delivered = False,
      vw_deliveredBy = None, vw_deliveredByGeneration = None, vw_deliveredAt = None, vw_revision = 1,
      vw_deadline = now + or_default (4 * 60000) windowMs, vw_releasedAt = None, vw_approvedBy = None,
      vw_approvedAt = None, vw_approvalEpoch = None, vw_extensionMs = or_default (6 * 60000) extensionMs,
      vw_purpose = purpose, vw_vetoedBy = None\<rparr>"

definition window_open :: "veto_window \<Rightarrow> bool" where
  "window_open w \<longleftrightarrow> vw_status w = Pending \<or> vw_status w = Extended"

section \<open>Operations\<close>

definition markDelivered :: "string option \<Rightarrow> int option \<Rightarrow> millis \<Rightarrow> veto_window \<Rightarrow> veto_window" where
  "markDelivered dev gen now w =
     (if \<not> vw_delivered w then
        w\<lparr>vw_delivered := True, vw_deliveredBy := dev, vw_deliveredByGeneration := gen, vw_deliveredAt := Some now\<rparr>
      else w)"

definition clear_delivery :: "veto_window \<Rightarrow> veto_window" where
  "clear_delivery w =
     w\<lparr>vw_delivered := False, vw_deliveredBy := None, vw_deliveredByGeneration := None, vw_deliveredAt := None\<rparr>"

definition witness_lost :: "witness \<Rightarrow> veto_window \<Rightarrow> bool" where
  "witness_lost wit w \<longleftrightarrow> vw_delivered w \<and>
     (case wit of None \<Rightarrow> False | Some ok \<Rightarrow> \<not> ok (vw_deliveredBy w) (vw_deliveredByGeneration w))"

definition tick_window :: "witness \<Rightarrow> millis \<Rightarrow> veto_window \<Rightarrow> veto_window" where
  "tick_window wit now w =
     (if \<not> window_open w then w
      else if now < vw_deadline w then w
      else
        let w1 = (if witness_lost wit w then clear_delivery w else w) in
        if vw_delivered w1 then w1\<lparr>vw_status := Released, vw_releasedAt := Some (vw_deadline w1)\<rparr>
        else if vw_status w1 = Pending then
          w1\<lparr>vw_status := Extended, vw_deadline := vw_deadline w1 + vw_extensionMs w1, vw_revision := vw_revision w1 + 1\<rparr>
        else w1\<lparr>vw_status := Held\<rparr>)"

definition revokeDeliveryEvidence :: "witness \<Rightarrow> string \<Rightarrow> millis \<Rightarrow> veto_window \<Rightarrow> veto_window \<times> bool" where
  "revokeDeliveryEvidence wit dev now w =
     (let w1 = tick_window wit now w in
      if \<not> window_open w1 then (w1, False)
      else if \<not> vw_delivered w1 \<or> vw_deliveredBy w1 \<noteq> Some dev then (w1, False)
      else (clear_delivery w1, True))"

datatype veto_error = CannotVetoIn veto_status | CannotApproveVetoed | AlreadyApproved

definition veto :: "string \<Rightarrow> veto_window \<Rightarrow> veto_error + veto_window" where
  "veto owner w =
     (if vw_status w = Vetoed then Inl (CannotVetoIn Vetoed)
      else if vw_purpose w = None \<and> \<not> window_open w then Inl (CannotVetoIn (vw_status w))
      else Inr (w\<lparr>vw_status := Vetoed, vw_vetoedBy := Some owner\<rparr>))"

definition approve :: "string \<Rightarrow> int \<Rightarrow> millis \<Rightarrow> veto_window \<Rightarrow> veto_error + veto_window" where
  "approve owner epoch now w =
     (if vw_status w = Vetoed then Inl CannotApproveVetoed
      else if vw_approvedBy w \<noteq> None then Inl AlreadyApproved
      else Inr (w\<lparr>vw_approvedBy := Some owner, vw_approvedAt := Some now, vw_approvalEpoch := Some epoch\<rparr>))"

section \<open>Runs of a window\<close>

datatype veto_event =
    VDelivered "string option" "int option" millis
  | VRevoke witness string millis
  | VVeto string
  | VApprove string int millis
  | VTick witness millis

fun veto_step :: "veto_window \<Rightarrow> veto_event \<Rightarrow> veto_window" where
  "veto_step w (VDelivered dev gen now) = markDelivered dev gen now w"
| "veto_step w (VRevoke wit dev now) = fst (revokeDeliveryEvidence wit dev now w)"
| "veto_step w (VVeto owner) = (case veto owner w of Inl _ \<Rightarrow> w | Inr w' \<Rightarrow> w')"
| "veto_step w (VApprove owner epoch now) = (case approve owner epoch now w of Inl _ \<Rightarrow> w | Inr w' \<Rightarrow> w')"
| "veto_step w (VTick wit now) = tick_window wit now w"

text \<open>The lifecycle the code documents; \<open>purposed\<close> windows take a veto after the decision too.\<close>

inductive lifecycle :: "bool \<Rightarrow> veto_status \<Rightarrow> veto_status \<Rightarrow> bool" where
  stay: "lifecycle purposed s s"
| veto_pending: "lifecycle purposed Pending Vetoed"
| release: "lifecycle purposed Pending Released"
| extend: "lifecycle purposed Pending Extended"
| veto_extended: "lifecycle purposed Extended Vetoed"
| release_extended: "lifecycle purposed Extended Released"
| hold: "lifecycle purposed Extended Held"
| veto_decided: "lifecycle True s Vetoed"

inductive_simps lifecycle_from_Vetoed: "lifecycle p Vetoed s"
inductive_simps lifecycle_from_Released: "lifecycle p Released s"
inductive_simps lifecycle_from_Held: "lifecycle p Held s"

section \<open>One step\<close>

lemmas window_defs = markDelivered_def clear_delivery_def tick_window_def revokeDeliveryEvidence_def
  veto_def approve_def Let_def window_open_def

lemma tick_lifecycle: "lifecycle p (vw_status w) (vw_status (tick_window wit now w))"
  by (auto simp: window_defs intro: lifecycle.intros)

lemma clear_status [simp]: "vw_status (clear_delivery w) = vw_status w"
  by (simp add: clear_delivery_def)

lemma revoke_status [simp]:
  "vw_status (fst (revokeDeliveryEvidence wit dev now w)) = vw_status (tick_window wit now w)"
  by (simp add: revokeDeliveryEvidence_def Let_def)

lemma step_lifecycle: "lifecycle (vw_purpose w \<noteq> None) (vw_status w) (vw_status (veto_step w ev))"
proof (cases ev)
  case (VVeto owner)
  then show ?thesis
    by (auto simp: veto_def window_open_def split: sum.split
        intro: lifecycle.intros lifecycle.veto_decided[of "vw_status w"])
qed (auto simp: tick_lifecycle markDelivered_def approve_def intro: lifecycle.stay split: sum.split)

lemma step_purpose [simp]: "vw_purpose (veto_step w ev) = vw_purpose w"
  by (cases ev) (auto simp: window_defs split: sum.split)

lemma step_extension [simp]: "vw_extensionMs (veto_step w ev) = vw_extensionMs w"
  by (cases ev) (auto simp: window_defs split: sum.split)

section \<open>The invariant\<close>

text \<open>
  \<open>d0\<close> is the first deadline: the deadline moves once, with the revision, on extension; a release
  carries the deadline at which it happened; the evidence fields agree; an approval is whole.
\<close>

definition timing_ok :: "millis \<Rightarrow> veto_window \<Rightarrow> bool" where
  "timing_ok d0 w \<longleftrightarrow>
     (if vw_revision w = 1 then vw_deadline w = d0 \<and> vw_status w \<notin> {Extended, Held}
      else vw_revision w = 2 \<and> vw_deadline w = d0 + vw_extensionMs w \<and> vw_status w \<noteq> Pending)"

definition evidence_ok :: "veto_window \<Rightarrow> bool" where
  "evidence_ok w \<longleftrightarrow>
     (if vw_delivered w then vw_deliveredAt w \<noteq> None
      else vw_deliveredAt w = None \<and> vw_deliveredBy w = None \<and> vw_deliveredByGeneration w = None)"

definition release_ok :: "veto_window \<Rightarrow> bool" where
  "release_ok w \<longleftrightarrow>
     (case vw_status w of
        Released \<Rightarrow> vw_delivered w \<and> vw_releasedAt w = Some (vw_deadline w)
      | Vetoed \<Rightarrow> vw_vetoedBy w \<noteq> None \<and> (vw_releasedAt w = None \<or> vw_purpose w \<noteq> None)
      | _ \<Rightarrow> vw_releasedAt w = None) \<and>
     (vw_status w \<noteq> Vetoed \<longrightarrow> vw_vetoedBy w = None)"

definition approval_ok :: "veto_window \<Rightarrow> bool" where
  "approval_ok w \<longleftrightarrow>
     (if vw_approvedBy w = None then vw_approvalEpoch w = None \<and> vw_approvedAt w = None
      else vw_approvalEpoch w \<noteq> None \<and> vw_approvedAt w \<noteq> None)"

definition window_ok :: "millis \<Rightarrow> veto_window \<Rightarrow> bool" where
  "window_ok d0 w \<longleftrightarrow> timing_ok d0 w \<and> evidence_ok w \<and> release_ok w \<and> approval_ok w"

lemmas window_ok_defs = window_ok_def timing_ok_def evidence_ok_def release_ok_def approval_ok_def

lemma new_window_ok:
  "window_ok (now + or_default (4 * 60000) windowMs) (new_window call epoch windowMs ext purpose now)"
  by (simp add: window_ok_defs new_window_def)

lemma markDelivered_ok: "window_ok d0 w \<Longrightarrow> window_ok d0 (markDelivered dev gen now w)"
proof -
  have "timing_ok d0 (markDelivered dev gen now w) = timing_ok d0 w"
    by (simp add: timing_ok_def markDelivered_def)
  moreover have "evidence_ok w \<Longrightarrow> evidence_ok (markDelivered dev gen now w)"
    by (cases "vw_delivered w") (simp_all add: evidence_ok_def markDelivered_def)
  moreover have "release_ok w \<Longrightarrow> release_ok (markDelivered dev gen now w)"
    by (simp add: release_ok_def markDelivered_def split: veto_status.splits)
  moreover have "approval_ok (markDelivered dev gen now w) = approval_ok w"
    by (cases "vw_delivered w") (simp_all add: approval_ok_def markDelivered_def)
  ultimately show "window_ok d0 w \<Longrightarrow> window_ok d0 (markDelivered dev gen now w)"
    by (simp add: window_ok_def)
qed

lemma clear_timing [simp]: "timing_ok d0 (clear_delivery w) = timing_ok d0 w"
  by (simp add: timing_ok_def clear_delivery_def)

lemma clear_evidence [simp]: "evidence_ok (clear_delivery w)"
  by (simp add: evidence_ok_def clear_delivery_def)

lemma clear_approval [simp]: "approval_ok (clear_delivery w) = approval_ok w"
  by (simp add: approval_ok_def clear_delivery_def)

lemma clear_ok: "window_ok d0 w \<Longrightarrow> window_open w \<Longrightarrow> window_ok d0 (clear_delivery w)"
  by (auto simp: window_ok_def release_ok_def window_open_def) (simp_all add: clear_delivery_def)

text \<open>The three endings of a due tick.\<close>

lemma due_ending_ok:
  assumes "window_ok d0 w" "window_open w"
  shows "vw_delivered w \<Longrightarrow> window_ok d0 (w\<lparr>vw_status := Released, vw_releasedAt := Some (vw_deadline w)\<rparr>)"
    "vw_status w = Pending \<Longrightarrow>
       window_ok d0 (w\<lparr>vw_status := Extended, vw_deadline := vw_deadline w + vw_extensionMs w, vw_revision := vw_revision w + 1\<rparr>)"
    "vw_status w = Extended \<Longrightarrow> window_ok d0 (w\<lparr>vw_status := Held\<rparr>)"
  using assms by (auto simp: window_ok_defs window_open_def split: if_splits)

lemma tick_ok:
  assumes "window_ok d0 w"
  shows "window_ok d0 (tick_window wit now w)"
proof (cases "window_open w \<and> vw_deadline w \<le> now")
  case True
  define w1 where "w1 = (if witness_lost wit w then clear_delivery w else w)"
  have "window_ok d0 w1" "window_open w1"
    using assms True clear_ok by (auto simp: w1_def window_open_def)
  note due = due_ending_ok[OF this]
  have "vw_status w1 = Pending \<or> vw_status w1 = Extended"
    using \<open>window_open w1\<close> by (simp add: window_open_def)
  with True due show ?thesis
    by (simp add: tick_window_def w1_def[symmetric]) (cases "vw_status w1"; simp add: Let_def)
qed (use assms in \<open>auto simp: tick_window_def\<close>)

lemma revoke_ok: "window_ok d0 w \<Longrightarrow> window_ok d0 (fst (revokeDeliveryEvidence wit dev now w))"
  by (simp add: revokeDeliveryEvidence_def Let_def tick_ok clear_ok)

lemma veto_ok:
  assumes "window_ok d0 w" "veto owner w = Inr w'"
  shows "window_ok d0 w'"
proof -
  from assms(2) have w': "w' = w\<lparr>vw_status := Vetoed, vw_vetoedBy := Some owner\<rparr>"
    and guard: "vw_status w \<noteq> Vetoed" "vw_purpose w \<noteq> None \<or> window_open w"
    by (auto simp: veto_def split: if_splits)
  have "timing_ok d0 w \<Longrightarrow> timing_ok d0 w'"
    by (cases "vw_revision w = 1") (simp_all add: timing_ok_def w')
  moreover have "evidence_ok w' = evidence_ok w" "approval_ok w' = approval_ok w"
    by (simp_all add: evidence_ok_def approval_ok_def w')
  moreover have "release_ok w \<Longrightarrow> release_ok w'"
    using guard by (cases "vw_status w") (auto simp: release_ok_def w' window_open_def)
  ultimately show ?thesis using assms(1) by (simp add: window_ok_def)
qed

lemma approve_ok:
  assumes "window_ok d0 w" "approve owner epoch now w = Inr w'"
  shows "window_ok d0 w'"
proof -
  from assms(2) have w': "w' = w\<lparr>vw_approvedBy := Some owner, vw_approvedAt := Some now, vw_approvalEpoch := Some epoch\<rparr>"
    by (auto simp: approve_def split: if_splits)
  have "timing_ok d0 w' = timing_ok d0 w" "evidence_ok w' = evidence_ok w" "approval_ok w'"
    by (simp_all add: timing_ok_def evidence_ok_def approval_ok_def w')
  moreover have "release_ok w' = release_ok w"
    by (cases "vw_status w") (simp_all add: release_ok_def w')
  ultimately show ?thesis using assms(1) by (simp add: window_ok_def)
qed

lemma veto_step_ok: "window_ok d0 w \<Longrightarrow> window_ok d0 (veto_step w ev)"
  by (cases ev) (auto simp: markDelivered_ok tick_ok revoke_ok intro: veto_ok approve_ok split: sum.split)

interpretation window_machine: machine veto_step "window_ok d0" for d0
  by unfold_locales (rule veto_step_ok)

section \<open>How a window comes to be delivered, released, approved\<close>

text \<open>The check and the time of an event that ticks the window.\<close>

fun tick_of :: "veto_event \<Rightarrow> (witness \<times> millis) option" where
  "tick_of (VTick wit now) = Some (wit, now)"
| "tick_of (VRevoke wit dev now) = Some (wit, now)"
| "tick_of _ = None"

text \<open>The event releases this window: it ticks past the deadline and the recorded witness stands.\<close>

definition releases :: "veto_window \<Rightarrow> veto_event \<Rightarrow> bool" where
  "releases w ev \<longleftrightarrow> window_open w \<and> vw_delivered w \<and>
     (case tick_of ev of None \<Rightarrow> False | Some (wit, now) \<Rightarrow> vw_deadline w \<le> now \<and> \<not> witness_lost wit w)"

lemma tick_keeps_evidence:
  "vw_delivered (tick_window wit now w) \<Longrightarrow> vw_delivered w \<and> vw_deliveredBy (tick_window wit now w) = vw_deliveredBy w \<and>
     vw_deliveredByGeneration (tick_window wit now w) = vw_deliveredByGeneration w"
  by (auto simp: tick_window_def Let_def clear_delivery_def split: if_splits)

lemma delivered_step:
  assumes "vw_delivered (veto_step w ev)"
  shows "(\<exists>now. ev = VDelivered (vw_deliveredBy (veto_step w ev)) (vw_deliveredByGeneration (veto_step w ev)) now) \<or>
    vw_delivered w \<and> vw_deliveredBy (veto_step w ev) = vw_deliveredBy w \<and>
    vw_deliveredByGeneration (veto_step w ev) = vw_deliveredByGeneration w"
proof (cases ev)
  case (VRevoke wit dev now)
  with assms show ?thesis
    using tick_keeps_evidence[of wit now w]
    by (auto simp: revokeDeliveryEvidence_def Let_def clear_delivery_def split: if_splits)
next
  case (VTick wit now)
  with assms tick_keeps_evidence[of wit now w] show ?thesis by simp
qed (use assms in \<open>auto simp: markDelivered_def veto_def approve_def split: sum.splits if_splits\<close>)

lemma delivered_run:
  assumes "\<not> vw_delivered w" and "vw_delivered (foldl veto_step w es)"
  shows "\<exists>now. VDelivered (vw_deliveredBy (foldl veto_step w es)) (vw_deliveredByGeneration (foldl veto_step w es)) now \<in> set es"
  using assms(2)
proof (induction es rule: rev_induct)
  case (snoc ev es)
  from snoc.prems have "vw_delivered (veto_step (foldl veto_step w es) ev)" by simp
  from delivered_step[OF this] show ?case
  proof (elim disjE exE conjE)
    fix now assume "ev = VDelivered (vw_deliveredBy (veto_step (foldl veto_step w es) ev))
      (vw_deliveredByGeneration (veto_step (foldl veto_step w es) ev)) now"
    then show ?thesis by (intro exI[of _ now]) (metis foldl_Cons foldl_Nil foldl_append in_set_conv_decomp)
  next
    assume "vw_delivered (foldl veto_step w es)"
      "vw_deliveredBy (veto_step (foldl veto_step w es) ev) = vw_deliveredBy (foldl veto_step w es)"
      "vw_deliveredByGeneration (veto_step (foldl veto_step w es) ev) = vw_deliveredByGeneration (foldl veto_step w es)"
    with snoc.IH show ?thesis by auto
  qed
qed (use assms(1) in simp)

lemma released_step:
  assumes "vw_status w \<noteq> Released" and "vw_status (veto_step w ev) = Released"
  shows "releases w ev"
proof -
  have "vw_status (tick_window wit now w) = Released \<Longrightarrow>
      window_open w \<and> vw_delivered w \<and> vw_deadline w \<le> now \<and> \<not> witness_lost wit w" for wit now
    using assms(1) by (auto simp: tick_window_def Let_def clear_delivery_def split: if_splits)
  with assms show ?thesis
    by (cases ev) (auto simp: releases_def markDelivered_def veto_def approve_def split: sum.splits if_splits)
qed

lemma released_run:
  assumes "vw_status w \<noteq> Released" "\<not> vw_delivered w" and "vw_status (foldl veto_step w es) = Released"
  shows "\<exists>es1 ev es2 now. es = es1 @ ev # es2 \<and> releases (foldl veto_step w es1) ev \<and>
    VDelivered (vw_deliveredBy (foldl veto_step w es1)) (vw_deliveredByGeneration (foldl veto_step w es1)) now \<in> set es1"
proof -
  from run_gains[of "\<lambda>w. vw_status w = Released" w veto_step es] assms(1,3)
  obtain es1 ev es2 where run: "es = es1 @ ev # es2" "vw_status (foldl veto_step w es1) \<noteq> Released"
    "vw_status (veto_step (foldl veto_step w es1) ev) = Released" by auto
  from released_step[OF run(2,3)] have rel: "releases (foldl veto_step w es1) ev" .
  then have "vw_delivered (foldl veto_step w es1)" by (simp add: releases_def)
  from delivered_run[OF assms(2) this] rel run(1) show ?thesis by blast
qed

lemma approved_step:
  assumes "vw_approvedBy (veto_step w ev) = Some owner"
  shows "(\<exists>epoch now. ev = VApprove owner epoch now \<and> vw_approvalEpoch (veto_step w ev) = Some epoch \<and>
       vw_approvedAt (veto_step w ev) = Some now) \<or>
    vw_approvedBy w = Some owner \<and> vw_approvalEpoch (veto_step w ev) = vw_approvalEpoch w \<and>
      vw_approvedAt (veto_step w ev) = vw_approvedAt w"
  using assms by (cases ev) (auto simp: window_defs split: sum.splits if_splits)

lemma decided_stays: "\<not> window_open w \<Longrightarrow> \<not> window_open (foldl veto_step w es)"
proof (induction es arbitrary: w)
  case (Cons ev es)
  have "\<not> window_open (veto_step w ev)"
    using step_lifecycle[of w ev] Cons.prems
    by (cases "vw_status w")
       (auto simp: window_open_def lifecycle_from_Vetoed lifecycle_from_Released lifecycle_from_Held)
  with Cons.IH show ?case by simp
qed simp

section \<open>Properties\<close>

text \<open>
  C4: Silence releases a call only on a standing witness.  If a window ends up released, then at
  some point it was open with its alert confirmed as seen by a device that had acknowledged it,
  the deadline had passed, and the check done at that very decision confirmed that device at the
  generation it acknowledged under.
\<close>

theorem release_needs_standing_witness:
  assumes "vw_status (foldl veto_step (new_window call epoch windowMs ext purpose t0) es) = Released"
  shows "\<exists>es1 ev es2 now. es = es1 @ ev # es2 \<and>
    releases (foldl veto_step (new_window call epoch windowMs ext purpose t0) es1) ev \<and>
    VDelivered (vw_deliveredBy (foldl veto_step (new_window call epoch windowMs ext purpose t0) es1))
      (vw_deliveredByGeneration (foldl veto_step (new_window call epoch windowMs ext purpose t0) es1)) now \<in> set es1"
  using assms by (intro released_run) (simp_all add: new_window_def)

definition demo_call :: tool_call where
  "demo_call = \<lparr>call_agentId = ''a'', call_tool = ''t'', call_args = None, call_timestamp = None\<rparr>"

lemma release_needs_standing_witness_witness:
  "\<exists>es1 ev es2 now. [VDelivered (Some ''d'') (Some 1) 5, VTick (Some (\<lambda>d g. g = Some 1)) 20] = es1 @ ev # es2 \<and>
    releases (foldl veto_step (new_window demo_call 0 (Some 10) None None 0) es1) ev \<and>
    VDelivered (vw_deliveredBy (foldl veto_step (new_window demo_call 0 (Some 10) None None 0) es1))
      (vw_deliveredByGeneration (foldl veto_step (new_window demo_call 0 (Some 10) None None 0) es1)) now \<in> set es1"
  by (rule release_needs_standing_witness)
     (simp add: new_window_def or_default_def window_defs witness_lost_def)

text \<open>
  Silence never approves: a window carries an approval only if the owner's approval was
  given, and then it is that owner with the kill epoch and time of that approval.
\<close>

theorem approval_is_the_owners:
  "case vw_approvedBy (foldl veto_step (new_window call epoch windowMs ext purpose t0) es) of
     None \<Rightarrow> True
   | Some owner \<Rightarrow> \<exists>e now. VApprove owner e now \<in> set es \<and>
       vw_approvalEpoch (foldl veto_step (new_window call epoch windowMs ext purpose t0) es) = Some e \<and>
       vw_approvedAt (foldl veto_step (new_window call epoch windowMs ext purpose t0) es) = Some now"
proof (induction es rule: rev_induct)
  case Nil
  then show ?case by (simp add: new_window_def)
next
  case (snoc ev es)
  then show ?case
    using approved_step[of "foldl veto_step (new_window call epoch windowMs ext purpose t0) es" ev]
    by (auto split: option.splits)
qed

text \<open>
  C29: Along every run a window stays well formed (its deadline moves at most once, by the
  extension, with the revision; a release is anchored at the deadline) and each step follows the
  documented lifecycle.
\<close>

theorem window_follows_lifecycle:
  "let w = foldl veto_step (new_window call epoch windowMs ext purpose t0) es in
   window_ok (t0 + or_default (4 * 60000) windowMs) w \<and>
   lifecycle (vw_purpose w \<noteq> None) (vw_status w) (vw_status (veto_step w ev))"
  using window_machine.inv_run[OF new_window_ok] by (simp add: Let_def step_lifecycle del: not_None_eq)

text \<open>
  C26: Every window gets decided: whatever happens in between, a tick at or after the first
  deadline and one at or after the extended deadline leave it vetoed, released or held.
\<close>

theorem window_gets_decided:
  assumes "window_ok d0 w" and "d0 \<le> now1" and "d0 + vw_extensionMs w \<le> now2" and "0 \<le> vw_extensionMs w"
  shows "\<not> window_open (tick_window wit2 now2 (foldl veto_step (tick_window wit1 now1 w) es))"
proof -
  let ?w1 = "tick_window wit1 now1 w" and ?w2 = "foldl veto_step (tick_window wit1 now1 w) es"
  have not_pending: "vw_status ?w1 \<noteq> Pending"
    using assms(1,2) by (auto simp: tick_window_def Let_def window_ok_def timing_ok_def clear_delivery_def
        window_open_def split: if_splits)
  have stays: "vw_status (foldl veto_step v es) \<noteq> Pending" if "vw_status v \<noteq> Pending" for v es
    using that
  proof (induction es arbitrary: v)
    case (Cons ev es)
    have "vw_status (veto_step v ev) \<noteq> Pending"
      using step_lifecycle[of v ev] Cons.prems by (cases rule: lifecycle.cases) auto
    with Cons.IH show ?case by simp
  qed simp
  have ok: "window_ok d0 ?w2"
    using window_machine.inv_run tick_ok[OF assms(1)] by blast
  have ext: "vw_extensionMs (foldl veto_step v es) = vw_extensionMs v" for v es
    by (induction es arbitrary: v) auto
  have "vw_extensionMs ?w2 = vw_extensionMs w"
    using step_extension[of w "VTick wit1 now1"] by (simp add: ext)
  then have due: "window_open ?w2 \<Longrightarrow> vw_status ?w2 = Extended \<and> vw_deadline ?w2 \<le> now2"
    using ok stays[OF not_pending, of es] assms(3)
    by (auto simp: window_ok_def timing_ok_def window_open_def split: if_splits)
  show ?thesis
  proof (cases "window_open ?w2")
    case True
    with due show ?thesis by (auto simp: tick_window_def Let_def clear_delivery_def window_open_def)
  next
    case False
    with decided_stays[OF this, of "[VTick wit2 now2]"] show ?thesis by simp
  qed
qed

lemma window_gets_decided_witness:
  "\<not> window_open (tick_window None 400000 (foldl veto_step (tick_window None 10 (new_window demo_call 0 (Some 10) None None 0))
     [VDelivered None None 20]))"
proof -
  have "window_ok (0 + or_default (4 * 60000) (Some 10)) (new_window demo_call 0 (Some 10) None None 0)"
    by (rule new_window_ok)
  then have "window_ok 10 (new_window demo_call 0 (Some 10) None None 0)" by (simp add: or_default_def)
  then show ?thesis
    by (rule window_gets_decided) (simp_all add: new_window_def or_default_def)
qed

text \<open>
  C30: The evidence of a revoked device releases nothing.  If an open window rested on the
  acknowledgement of the revoked device and is still open after the pass of the revocation, then
  every later release of it, along any run, rests on an acknowledgement given after the revocation,
  confirmed by the check at the very decision.
\<close>

theorem revoked_evidence_releases_nothing:
  assumes "vw_deliveredBy w = Some dev"
    and "w' = fst (revokeDeliveryEvidence wit dev now w)" and "window_open w'"
    and "vw_status (foldl veto_step w' es) = Released"
  shows "\<exists>es1 ev es2 t. es = es1 @ ev # es2 \<and> releases (foldl veto_step w' es1) ev \<and>
    VDelivered (vw_deliveredBy (foldl veto_step w' es1)) (vw_deliveredByGeneration (foldl veto_step w' es1)) t \<in> set es1"
proof (rule released_run)
  have "window_open (tick_window wit now w)"
    using assms(3) by (simp add: assms(2) window_open_def)
  then show "\<not> vw_delivered w'"
    using assms(1) tick_keeps_evidence[of wit now w]
    by (auto simp: assms(2) revokeDeliveryEvidence_def Let_def clear_delivery_def)
qed (use assms(3,4) in \<open>auto simp: window_open_def\<close>)

lemma revoked_evidence_releases_nothing_witness:
  "let w' = fst (revokeDeliveryEvidence None ''d'' 6 (markDelivered (Some ''d'') (Some 1) 5 (new_window demo_call 0 (Some 10) None None 0)));
       es = [VDelivered (Some ''e'') (Some 2) 7, VTick None 20]
   in \<exists>es1 ev es2 t. es = es1 @ ev # es2 \<and> releases (foldl veto_step w' es1) ev \<and>
    VDelivered (vw_deliveredBy (foldl veto_step w' es1)) (vw_deliveredByGeneration (foldl veto_step w' es1)) t \<in> set es1"
  unfolding Let_def
  by (rule revoked_evidence_releases_nothing[OF _ HOL.refl])
     (simp_all add: window_defs new_window_def or_default_def evidence_ok_def witness_lost_def)

end
