(* ===== verification/Ladder.thy ===== *)
theory Ladder
  imports Json
begin

text \<open>
  The escalation ladder of \<open>packages/escalation/src/ladder.ts\<close> over the types of
  \<open>packages/escalation/src/types.ts\<close>: the class \<open>LadderEngine\<close> as the record \<open>ladder\<close>, its
  constructor, event handlers and \<open>tick\<close>, which returns the actions for the edge to perform.

  Times are whole milliseconds.  Amounts of money and limits are finite doubles, written as the
  rationals they denote; a sum is rounded as a double addition is (\<open>double_add\<close>).
\<close>

section \<open>Types\<close>

datatype channel_kind = Push | Email | Sms | Voice

datatype delivery_evidence =
    ProviderAccepted channel_kind millis "string option"
  | DeviceReceived channel_kind millis "string option"
  | HumanInteracted channel_kind millis "string option" "string option"
  | OwnerAppAck string millis

text \<open>The literal \<open>marksDelivered\<close> of each member.\<close>

fun marksDelivered :: "delivery_evidence \<Rightarrow> bool" where
  "marksDelivered (OwnerAppAck _ _) = True"
| "marksDelivered _ = False"

record escalation_alert =
  ea_windowIds :: "string list"
  ea_headline :: string
  ea_deadlineMs :: millis

datatype channel_event =
    Evidence "string list" delivery_evidence
  | VetoEvent "string list" channel_kind string

record ladder_rung =
  lr_afterMs :: millis
  lr_channel :: channel_kind

record rate_limits =
  rl_voicePer10Min :: rat
  rl_smsPerHour :: rat
  rl_dailySpendUsd :: rat

datatype stand_down_reason = Confirmed | VetoedReason | WindowClosed | CapHit

datatype ladder_action =
    Send channel_kind escalation_alert
  | RelayVeto "string list" channel_kind string
  | StandDown "string list" stand_down_reason

record tracked_window =
  tw_windowId :: string
  tw_headline :: string
  tw_deadlineMs :: millis
  tw_delivered :: bool
  tw_closed :: bool

record ladder_run =
  ru_startedAtMs :: millis
  ru_fired :: "nat set"
  ru_windows :: "(string \<times> tracked_window) list"

record ladder =
  la_rungs :: "ladder_rung list"
  la_limits :: rate_limits
  la_costUsd :: "channel_kind \<Rightarrow> rat"
  la_run :: "ladder_run option"
  la_voiceSends :: "millis list"
  la_smsSends :: "millis list"
  la_spend :: "int \<times> rat"
  la_pending :: "ladder_action list"

section \<open>Defaults and the constructor\<close>

definition DEFAULT_RUNGS :: "ladder_rung list" where
  "DEFAULT_RUNGS =
     [\<lparr>lr_afterMs = 0, lr_channel = Push\<rparr>, \<lparr>lr_afterMs = 0, lr_channel = Email\<rparr>,
      \<lparr>lr_afterMs = 150000, lr_channel = Sms\<rparr>, \<lparr>lr_afterMs = 5 * 60000, lr_channel = Voice\<rparr>]"

definition DEFAULT_LIMITS :: rate_limits where
  "DEFAULT_LIMITS = \<lparr>rl_voicePer10Min = 2, rl_smsPerHour = 6, rl_dailySpendUsd = 5\<rparr>"

fun DEFAULT_COST_USD :: "channel_kind \<Rightarrow> rat" where
  "DEFAULT_COST_USD Push = 0"
| "DEFAULT_COST_USD Email = to_double (1 / 10000)"
| "DEFAULT_COST_USD Sms = to_double (8 / 1000)"
| "DEFAULT_COST_USD Voice = to_double (14 / 1000)"

datatype ladder_error = NegativeRung | BadLimit string

definition new_ladder ::
  "ladder_rung list option \<Rightarrow> rate_limits option \<Rightarrow> (channel_kind \<Rightarrow> rat option) \<Rightarrow> ladder_error + ladder" where
  "new_ladder rungs limits costs =
     (let rs = sort_key lr_afterMs (case rungs of None \<Rightarrow> DEFAULT_RUNGS | Some r \<Rightarrow> r);
          ls = (case limits of None \<Rightarrow> DEFAULT_LIMITS | Some l \<Rightarrow> l)
      in if \<not> list_all (\<lambda>r. 0 \<le> lr_afterMs r) rs then Inl NegativeRung
         else if rl_voicePer10Min ls < 0 then Inl (BadLimit ''maxVoiceCallsPer10Min'')
         else if rl_smsPerHour ls < 0 then Inl (BadLimit ''maxSmsPerHour'')
         else if rl_dailySpendUsd ls < 0 then Inl (BadLimit ''maxDailySpendUsd'')
         else Inr \<lparr>la_rungs = rs, la_limits = ls,
                   la_costUsd = (\<lambda>c. case costs c of None \<Rightarrow> DEFAULT_COST_USD c | Some x \<Rightarrow> x),
                   la_run = None, la_voiceSends = [], la_smsSends = [], la_spend = (-1, 0), la_pending = []\<rparr>)"

section \<open>Event handlers\<close>

definition windowOpened :: "string \<Rightarrow> string \<Rightarrow> millis \<Rightarrow> ladder \<Rightarrow> ladder" where
  "windowOpened wid headline deadline la =
     (let tracked = \<lparr>tw_windowId = wid, tw_headline = headline, tw_deadlineMs = deadline,
                     tw_delivered = False, tw_closed = False\<rparr>
      in case la_run la of
           Some run \<Rightarrow>
             if wid \<notin> set (map_keys (ru_windows run)) then
               la\<lparr>la_run := Some (run\<lparr>ru_windows := AList.update wid tracked (ru_windows run)\<rparr>)\<rparr>
             else la
         | None \<Rightarrow>
             la\<lparr>la_run := Some \<lparr>ru_startedAtMs = -1, ru_fired = {}, ru_windows = [(wid, tracked)]\<rparr>\<rparr>)"

text \<open>\<open>this.run?.windows.get(id)\<close> and a mutation of the tracked window found.\<close>

definition update_window :: "string \<Rightarrow> (tracked_window \<Rightarrow> tracked_window) \<Rightarrow> ladder \<Rightarrow> ladder" where
  "update_window wid f la =
     (case la_run la of
        None \<Rightarrow> la
      | Some run \<Rightarrow>
          (case map_of (ru_windows run) wid of
             None \<Rightarrow> la
           | Some tw \<Rightarrow> la\<lparr>la_run := Some (run\<lparr>ru_windows := AList.update wid (f tw) (ru_windows run)\<rparr>)\<rparr>))"

definition windowDelivered :: "string \<Rightarrow> ladder \<Rightarrow> ladder" where
  "windowDelivered wid = update_window wid (\<lambda>tw. tw\<lparr>tw_delivered := True\<rparr>)"

definition windowClosed :: "string \<Rightarrow> ladder \<Rightarrow> ladder" where
  "windowClosed wid = update_window wid (\<lambda>tw. tw\<lparr>tw_closed := True\<rparr>)"

definition windowDeadline :: "string \<Rightarrow> millis \<Rightarrow> ladder \<Rightarrow> ladder" where
  "windowDeadline wid deadline = update_window wid (\<lambda>tw. tw\<lparr>tw_deadlineMs := deadline\<rparr>)"

definition open_windows :: "ladder_run \<Rightarrow> tracked_window list" where
  "open_windows run = filter (\<lambda>w. \<not> tw_closed w) (map snd (ru_windows run))"

definition openWindowIds :: "ladder \<Rightarrow> string list" where
  "openWindowIds la = (case la_run la of None \<Rightarrow> [] | Some run \<Rightarrow> map tw_windowId (open_windows run))"

fun channelEvent :: "channel_event \<Rightarrow> ladder \<Rightarrow> ladder" where
  "channelEvent (Evidence _ _) la = la"
| "channelEvent (VetoEvent ids channel attribution) la =
     (let openIds = filter (\<lambda>i. ids = [] \<or> i \<in> set ids) (openWindowIds la) in
      if openIds = [] then la
      else la\<lparr>la_pending := la_pending la @ [RelayVeto openIds channel attribution]\<rparr>)"

section \<open>Admission\<close>

definition voice_horizon :: millis where "voice_horizon = 10 * 60000"
definition sms_horizon :: millis where "sms_horizon = 60 * 60000"

text \<open>The state after the attempt and whether the send is admitted.\<close>

definition admit :: "channel_kind \<Rightarrow> millis \<Rightarrow> ladder \<Rightarrow> ladder \<times> bool" where
  "admit channel now la =
     (let cost = la_costUsd la channel;
          day = now div 86400000;
          spend = (if fst (la_spend la) \<noteq> day then (day, 0) else la_spend la);
          la1 = la\<lparr>la_spend := spend\<rparr>;
          total = double_add (snd spend) cost
      in if rl_dailySpendUsd (la_limits la) < total then (la1, False)
         else
           let voice = filter (\<lambda>s. now - s < voice_horizon) (la_voiceSends la);
               la2 = (if channel = Voice then la1\<lparr>la_voiceSends := voice\<rparr> else la1)
           in if channel = Voice \<and> rl_voicePer10Min (la_limits la) \<le> of_nat (length voice) then (la2, False)
              else
                let la3 = (if channel = Voice then la2\<lparr>la_voiceSends := voice @ [now]\<rparr> else la2);
                    sms = filter (\<lambda>s. now - s < sms_horizon) (la_smsSends la);
                    la4 = (if channel = Sms then la3\<lparr>la_smsSends := sms\<rparr> else la3)
                in if channel = Sms \<and> rl_smsPerHour (la_limits la) \<le> of_nat (length sms) then (la4, False)
                   else
                     let la5 = (if channel = Sms then la4\<lparr>la_smsSends := sms @ [now]\<rparr> else la4)
                     in (la5\<lparr>la_spend := (fst spend, total)\<rparr>, True))"

section \<open>The tick\<close>

definition alertFor :: "tracked_window list \<Rightarrow> escalation_alert" where
  "alertFor ws =
     \<lparr>ea_windowIds = map tw_windowId ws,
      ea_headline =
        (case ws of
           [w] \<Rightarrow> ''OwnerSwitch: '' @ tw_headline w @ '' held for your review''
         | _ \<Rightarrow> ''OwnerSwitch: '' @ show_nat (length ws) @ '' actions held for your review''),
      ea_deadlineMs = (case map tw_deadlineMs ws of [] \<Rightarrow> 0 | d # ds \<Rightarrow> fold min ds d)\<rparr>"

definition fire :: "nat \<Rightarrow> ladder \<Rightarrow> ladder" where
  "fire i la = la\<lparr>la_run := map_option (\<lambda>run. run\<lparr>ru_fired := insert i (ru_fired run)\<rparr>) (la_run la)\<rparr>"

text \<open>The loop over the rungs from index \<open>i\<close> on, for the open windows \<open>ws\<close> of a run.\<close>

fun fire_rungs :: "millis \<Rightarrow> millis \<Rightarrow> tracked_window list \<Rightarrow> nat set \<Rightarrow> nat \<Rightarrow> ladder_rung list \<Rightarrow> ladder \<Rightarrow>
    ladder \<times> ladder_action list" where
  "fire_rungs now started ws fired i [] la = (la, [])"
| "fire_rungs now started ws fired i (rung # rungs) la =
     (if i \<in> fired \<or> now - started < lr_afterMs rung then fire_rungs now started ws fired (Suc i) rungs la
      else
        let (la1, admitted) = admit (lr_channel rung) now la;
            action = (if admitted then Send (lr_channel rung) (alertFor ws)
                      else StandDown (map tw_windowId ws) CapHit);
            (la2, actions) = fire_rungs now started ws fired (Suc i) rungs (fire i la1)
        in (la2, action # actions))"

definition dropClosed :: "ladder_run \<Rightarrow> ladder_run option \<times> ladder_action list" where
  "dropClosed run =
     (let closed = filter tw_closed (map snd (ru_windows run));
          windows = fold (\<lambda>w m. AList.delete (tw_windowId w) m) closed (ru_windows run)
      in (if windows = [] then None else Some (run\<lparr>ru_windows := windows\<rparr>),
          if closed \<noteq> [] then [StandDown (map tw_windowId closed) WindowClosed] else []))"

definition tick_ladder :: "millis \<Rightarrow> ladder \<Rightarrow> ladder \<times> ladder_action list" where
  "tick_ladder now la0 =
     (let queued = la_pending la0; la = la0\<lparr>la_pending := []\<rparr> in
      case la_run la of
        None \<Rightarrow> (la, queued)
      | Some run0 \<Rightarrow>
          (let run1 = (if ru_startedAtMs run0 = -1 then run0\<lparr>ru_startedAtMs := now\<rparr> else run0);
               (live, dropped) = dropClosed run1
           in case live of
                None \<Rightarrow> (la\<lparr>la_run := None\<rparr>, queued @ dropped)
              | Some run \<Rightarrow>
                  let ws = open_windows run; n = length (la_rungs la) in
                  if ws \<noteq> [] \<and> list_all tw_delivered ws then
                    (la\<lparr>la_run := Some (run\<lparr>ru_fired := ru_fired run \<union> {..<n}\<rparr>)\<rparr>,
                     queued @ dropped @
                       (if \<exists>i\<in>{..<n}. i \<notin> ru_fired run then [StandDown (map tw_windowId ws) Confirmed] else []))
                  else
                    let (la', fired_actions) =
                          fire_rungs now (ru_startedAtMs run) ws (ru_fired run) 0 (la_rungs la) (la\<lparr>la_run := Some run\<rparr>)
                    in (la', queued @ dropped @ fired_actions)))"

section \<open>Runs with a log\<close>

datatype ladder_event =
    LOpened string string millis
  | LDelivered string
  | LClosed string
  | LDeadline string millis
  | LChannel channel_event
  | LTick millis

type_synonym action_log = "(millis \<times> ladder_action) list"

fun ladder_step :: "ladder \<times> action_log \<Rightarrow> ladder_event \<Rightarrow> ladder \<times> action_log" where
  "ladder_step (la, lg) (LOpened wid headline deadline) = (windowOpened wid headline deadline la, lg)"
| "ladder_step (la, lg) (LDelivered wid) = (windowDelivered wid la, lg)"
| "ladder_step (la, lg) (LClosed wid) = (windowClosed wid la, lg)"
| "ladder_step (la, lg) (LDeadline wid deadline) = (windowDeadline wid deadline la, lg)"
| "ladder_step (la, lg) (LChannel ev) = (channelEvent ev la, lg)"
| "ladder_step (la, lg) (LTick now) =
     (let (la', actions) = tick_ladder now la in (la', lg @ map (Pair now) actions))"

fun tick_times :: "ladder_event list \<Rightarrow> millis list" where
  "tick_times [] = []"
| "tick_times (LTick now # es) = now # tick_times es"
| "tick_times (_ # es) = tick_times es"

fun is_relay :: "ladder_action \<Rightarrow> bool" where
  "is_relay (RelayVeto _ _ _) = True"
| "is_relay _ = False"

fun sent_on :: "ladder_action \<Rightarrow> channel_kind option" where
  "sent_on (Send c _) = Some c"
| "sent_on _ = None"

text \<open>A rung spent: a send, or the stand-down of a rung refused at a cap.\<close>

fun is_firing :: "ladder_action \<Rightarrow> bool" where
  "is_firing (Send _ _) = True"
| "is_firing (StandDown _ CapHit) = True"
| "is_firing _ = False"

definition send_times :: "channel_kind \<Rightarrow> action_log \<Rightarrow> millis list" where
  "send_times c lg = map fst (filter (\<lambda>ta. sent_on (snd ta) = Some c) lg)"

definition spent_on_day :: "(channel_kind \<Rightarrow> rat) \<Rightarrow> int \<Rightarrow> action_log \<Rightarrow> rat" where
  "spent_on_day cost d lg =
     foldl (\<lambda>usd ta. case sent_on (snd ta) of None \<Rightarrow> usd | Some c \<Rightarrow> double_add usd (cost c)) 0
       (filter (\<lambda>ta. fst ta div 86400000 = d) lg)"

section \<open>Admission keeps the caps\<close>

lemma admit_keeps:
  assumes "admit c now la = (la', ok)"
  shows "la_run la' = la_run la" "la_pending la' = la_pending la" "la_limits la' = la_limits la"
    "la_rungs la' = la_rungs la" "la_costUsd la' = la_costUsd la"
  using assms by (auto simp: admit_def Let_def split: if_splits)

lemma admit_voice:
  assumes "admit c now la = (la', ok)"
  shows "(if ok \<and> c = Voice
          then la_voiceSends la' = filter (\<lambda>s. now - s < voice_horizon) (la_voiceSends la) @ [now] \<and>
            of_nat (length (filter (\<lambda>s. now - s < voice_horizon) (la_voiceSends la))) < rl_voicePer10Min (la_limits la)
          else la_voiceSends la' = la_voiceSends la \<or>
            la_voiceSends la' = filter (\<lambda>s. now - s < voice_horizon) (la_voiceSends la))"
  using assms by (auto simp: admit_def Let_def split: if_splits)

lemma admit_sms:
  assumes "admit c now la = (la', ok)"
  shows "(if ok \<and> c = Sms
          then la_smsSends la' = filter (\<lambda>s. now - s < sms_horizon) (la_smsSends la) @ [now] \<and>
            of_nat (length (filter (\<lambda>s. now - s < sms_horizon) (la_smsSends la))) < rl_smsPerHour (la_limits la)
          else la_smsSends la' = la_smsSends la \<or>
            la_smsSends la' = filter (\<lambda>s. now - s < sms_horizon) (la_smsSends la))"
  using assms by (auto simp: admit_def Let_def split: if_splits)

lemma admit_spend:
  assumes "admit c now la = (la', ok)"
  shows "let usd = (if fst (la_spend la) \<noteq> now div 86400000 then 0 else snd (la_spend la)) in
    fst (la_spend la') = now div 86400000 \<and>
    (if ok then snd (la_spend la') = double_add usd (la_costUsd la c) \<and>
       double_add usd (la_costUsd la c) \<le> rl_dailySpendUsd (la_limits la)
     else snd (la_spend la') = usd)"
  using assms by (auto simp: admit_def Let_def split: if_splits)

text \<open>
  A sliding-window counter: \<open>hist\<close> is every send so far, \<open>kept\<close> what the engine remembers, \<open>h\<close> the
  horizon.  From \<open>t0\<close> on both count the same, and no instant has had too many in its window.
\<close>

definition window_capped :: "millis \<Rightarrow> rat \<Rightarrow> millis \<Rightarrow> millis list \<Rightarrow> millis list \<Rightarrow> bool" where
  "window_capped h cap t0 hist kept \<longleftrightarrow>
     list_all (\<lambda>s. s \<le> t0) hist \<and>
     (\<forall>t\<ge>t0. filter (\<lambda>s. t - s < h) kept = filter (\<lambda>s. t - s < h) hist) \<and>
     (\<forall>u. of_nat (length (filter (\<lambda>s. u - h < s \<and> s \<le> u) hist)) < cap + 1)"

lemma window_capped_later:
  "window_capped h cap t0 hist kept \<Longrightarrow> t0 \<le> t \<Longrightarrow> window_capped h cap t hist kept"
  by (auto simp: window_capped_def list_all_iff)

lemma filter_filter_sub:
  "(\<And>x. P x \<Longrightarrow> Q x) \<Longrightarrow> filter P (filter Q xs) = filter P xs"
  by (induction xs) auto

lemma window_capped_prune:
  assumes "window_capped h cap t0 hist kept"
  shows "window_capped h cap t0 hist (filter (\<lambda>s. t0 - s < h) kept)"
proof -
  have "filter (\<lambda>s. t - s < h) (filter (\<lambda>s. t0 - s < h) kept) = filter (\<lambda>s. t - s < h) kept" if "t0 \<le> t" for t
    using that by (intro filter_filter_sub) auto
  with assms show ?thesis by (simp add: window_capped_def)
qed

lemma window_capped_send:
  assumes "window_capped h cap t0 hist kept" "0 < h"
    and "of_nat (length (filter (\<lambda>s. t0 - s < h) kept)) < cap"
  shows "window_capped h cap t0 (hist @ [t0]) (filter (\<lambda>s. t0 - s < h) kept @ [t0])"
proof -
  have same: "filter (\<lambda>s. t0 - s < h) kept = filter (\<lambda>s. t0 - s < h) hist"
    using assms(1) by (simp add: window_capped_def)
  have "of_nat (length (filter (\<lambda>s. u - h < s \<and> s \<le> u) (hist @ [t0]))) < cap + 1" for u
  proof (cases "u < t0")
    case True
    with assms(1) show ?thesis by (simp add: window_capped_def)
  next
    case False
    have "length (filter (\<lambda>s. u - h < s \<and> s \<le> u) hist) \<le> length (filter (\<lambda>s. t0 - s < h) hist)"
      using False by (induction hist) auto
    then have "length (filter (\<lambda>s. u - h < s \<and> s \<le> u) (hist @ [t0])) \<le> Suc (length (filter (\<lambda>s. t0 - s < h) hist))"
      by simp
    then have "(of_nat (length (filter (\<lambda>s. u - h < s \<and> s \<le> u) (hist @ [t0]))) :: rat) \<le>
        of_nat (Suc (length (filter (\<lambda>s. t0 - s < h) hist)))"
      by (rule of_nat_mono)
    also have "\<dots> < cap + 1" using assms(3) same by simp
    finally show ?thesis .
  qed
  with window_capped_prune[OF assms(1)] show ?thesis by (simp add: window_capped_def)
qed

section \<open>The caps along a run\<close>

abbreviation day_of :: "millis \<Rightarrow> int" where "day_of t \<equiv> t div 86400000"

definition spend_ok :: "ladder \<Rightarrow> millis \<Rightarrow> action_log \<Rightarrow> bool" where
  "spend_ok la t0 lg \<longleftrightarrow>
     0 \<le> rl_dailySpendUsd (la_limits la) \<and> fst (la_spend la) \<le> day_of t0 \<and>
     list_all (\<lambda>ta. sent_on (snd ta) = None \<or> day_of (fst ta) \<le> fst (la_spend la)) lg \<and>
     snd (la_spend la) = spent_on_day (la_costUsd la) (fst (la_spend la)) lg \<and>
     (\<forall>d. spent_on_day (la_costUsd la) d lg \<le> rl_dailySpendUsd (la_limits la))"

definition caps_ok :: "ladder \<Rightarrow> millis \<Rightarrow> action_log \<Rightarrow> bool" where
  "caps_ok la t0 lg \<longleftrightarrow>
     window_capped voice_horizon (rl_voicePer10Min (la_limits la)) t0 (send_times Voice lg) (la_voiceSends la) \<and>
     window_capped sms_horizon (rl_smsPerHour (la_limits la)) t0 (send_times Sms lg) (la_smsSends la) \<and>
     spend_ok la t0 lg"

lemma send_times_append [simp]:
  "send_times c (lg @ [(t, a)]) = send_times c lg @ (if sent_on a = Some c then [t] else [])"
  by (simp add: send_times_def)

lemma spent_append [simp]:
  "spent_on_day cost d (lg @ [(t, a)]) =
     (case sent_on a of
        None \<Rightarrow> spent_on_day cost d lg
      | Some c \<Rightarrow> if day_of t = d then double_add (spent_on_day cost d lg) (cost c) else spent_on_day cost d lg)"
  by (auto simp: spent_on_day_def split: option.split)

lemma spent_none: "list_all (\<lambda>ta. sent_on (snd ta) = None \<or> day_of (fst ta) < d) lg \<Longrightarrow> spent_on_day cost d lg = 0"
proof (induction lg rule: rev_induct)
  case (snoc ta lg)
  then show ?case by (cases ta) (auto split: option.split)
qed (simp add: spent_on_day_def)

lemma spend_admit:
  assumes "spend_ok la t0 lg" "admit c t0 la = (la', ok)"
  shows "spend_ok la' t0 (lg @ [(t0, if ok then Send c al else StandDown ws CapHit)])"
proof -
  note keep = admit_keeps[OF assms(2)]
  define usd where "usd = (if fst (la_spend la) \<noteq> day_of t0 then 0 else snd (la_spend la))"
  have day: "fst (la_spend la') = day_of t0"
    and snd: "if ok then snd (la_spend la') = double_add usd (la_costUsd la c) \<and>
        double_add usd (la_costUsd la c) \<le> rl_dailySpendUsd (la_limits la) else snd (la_spend la') = usd"
    using admit_spend[OF assms(2)] by (simp_all add: usd_def Let_def)
  have le: "fst (la_spend la) \<le> day_of t0" using assms(1) by (simp add: spend_ok_def)
  have today: "usd = spent_on_day (la_costUsd la) (day_of t0) lg"
  proof (cases "fst (la_spend la) = day_of t0")
    case True
    with assms(1) show ?thesis by (auto simp: spend_ok_def usd_def)
  next
    case False
    with le have "list_all (\<lambda>ta. sent_on (snd ta) = None \<or> day_of (fst ta) < day_of t0) lg"
      using assms(1) by (auto simp: spend_ok_def list_all_iff)
    from spent_none[OF this] False show ?thesis by (simp add: usd_def)
  qed
  have old: "list_all (\<lambda>ta. sent_on (snd ta) = None \<or> day_of (fst ta) \<le> day_of t0) lg"
    using assms(1) le by (auto simp: spend_ok_def list_all_iff)
  show ?thesis
    using assms(1) keep day snd old by (auto simp: spend_ok_def today split: if_splits)
qed

lemma caps_admit:
  assumes "caps_ok la t0 lg" "admit c t0 la = (la', ok)"
  shows "caps_ok la' t0 (lg @ [(t0, if ok then Send c al else StandDown ws CapHit)])"
proof -
  note keep = admit_keeps[OF assms(2)]
  have v: "window_capped voice_horizon (rl_voicePer10Min (la_limits la)) t0 (send_times Voice lg) (la_voiceSends la)"
    and s: "window_capped sms_horizon (rl_smsPerHour (la_limits la)) t0 (send_times Sms lg) (la_smsSends la)"
    using assms(1) by (simp_all add: caps_ok_def)
  have "0 < voice_horizon" "0 < sms_horizon" by (simp_all add: voice_horizon_def sms_horizon_def)
  then have "window_capped voice_horizon (rl_voicePer10Min (la_limits la')) t0
      (send_times Voice (lg @ [(t0, if ok then Send c al else StandDown ws CapHit)])) (la_voiceSends la')"
    "window_capped sms_horizon (rl_smsPerHour (la_limits la')) t0
      (send_times Sms (lg @ [(t0, if ok then Send c al else StandDown ws CapHit)])) (la_smsSends la')"
    using admit_voice[OF assms(2)] admit_sms[OF assms(2)] v s keep window_capped_send[OF v] window_capped_send[OF s]
      window_capped_prune[OF v] window_capped_prune[OF s]
    by (auto split: if_splits)
  with spend_admit[OF _ assms(2)] assms(1) show ?thesis by (simp add: caps_ok_def)
qed

lemma caps_nonsend: "sent_on a = None \<Longrightarrow> caps_ok la t0 (lg @ [(t, a)]) = caps_ok la t0 lg"
  by (simp add: caps_ok_def spend_ok_def)

lemma caps_nonsends:
  "list_all (\<lambda>a. sent_on a = None) actions \<Longrightarrow> caps_ok la t0 (lg @ map (Pair t) actions) = caps_ok la t0 lg"
proof (induction actions rule: rev_induct)
  case (snoc a actions)
  then show ?case using caps_nonsend[of a la t0 "lg @ map (Pair t) actions" t] by simp
qed simp

text \<open>The fields the caps speak of.\<close>

definition same_counters :: "ladder \<Rightarrow> ladder \<Rightarrow> bool" where
  "same_counters la la' \<longleftrightarrow> la_voiceSends la' = la_voiceSends la \<and> la_smsSends la' = la_smsSends la \<and>
     la_spend la' = la_spend la \<and> la_limits la' = la_limits la \<and> la_costUsd la' = la_costUsd la \<and> la_rungs la' = la_rungs la"

lemma caps_same: "same_counters la la' \<Longrightarrow> caps_ok la' t0 lg = caps_ok la t0 lg"
  by (simp add: same_counters_def caps_ok_def spend_ok_def)

lemma caps_later: "caps_ok la t0 lg \<Longrightarrow> t0 \<le> t \<Longrightarrow> caps_ok la t lg"
  using zdiv_mono1[of t0 t 86400000] by (auto simp: caps_ok_def spend_ok_def intro: window_capped_later)

lemma fire_same [simp]: "same_counters la (fire i la)"
  by (simp add: same_counters_def fire_def)

lemma caps_fire_rungs:
  "caps_ok la t0 lg \<Longrightarrow> fire_rungs t0 started ws fired i rungs la = (la', actions) \<Longrightarrow>
     caps_ok la' t0 (lg @ map (Pair t0) actions)"
proof (induction rungs arbitrary: i la la' lg actions)
  case (Cons rung rungs)
  show ?case
  proof (cases "i \<in> fired \<or> t0 - started < lr_afterMs rung")
    case True
    with Cons show ?thesis by simp
  next
    case False
    obtain la1 ok where a: "admit (lr_channel rung) t0 la = (la1, ok)" by fastforce
    obtain la2 acts where r: "fire_rungs t0 started ws fired (Suc i) rungs (fire i la1) = (la2, acts)" by fastforce
    let ?a = "if ok then Send (lr_channel rung) (alertFor ws) else StandDown (map tw_windowId ws) CapHit"
    from Cons.prems(2) False a r have out: "la' = la2" "actions = ?a # acts" by auto
    have "caps_ok (fire i la1) t0 (lg @ [(t0, ?a)])"
      using caps_admit[OF Cons.prems(1) a, of "alertFor ws" "map tw_windowId ws"]
        caps_same[OF fire_same[of la1 i]] by simp
    from Cons.IH[OF this r] out show ?thesis by simp
  qed
qed simp

lemma tick_cases:
  assumes "tick_ladder now la = (la', actions)"
  obtains (idle) "la_run la = None" "la' = la\<lparr>la_pending := []\<rparr>" "actions = la_pending la"
  | (ended) run0 where "la_run la = Some run0" "la' = la\<lparr>la_pending := [], la_run := None\<rparr>"
      "actions = la_pending la @ snd (dropClosed (run0\<lparr>ru_startedAtMs := (if ru_startedAtMs run0 = -1 then now else ru_startedAtMs run0)\<rparr>))"
      "fst (dropClosed (run0\<lparr>ru_startedAtMs := (if ru_startedAtMs run0 = -1 then now else ru_startedAtMs run0)\<rparr>)) = None"
  | (calm) run0 run dropped where "la_run la = Some run0"
      "dropClosed (run0\<lparr>ru_startedAtMs := (if ru_startedAtMs run0 = -1 then now else ru_startedAtMs run0)\<rparr>) = (Some run, dropped)"
      "open_windows run \<noteq> []" "list_all tw_delivered (open_windows run)"
      "la' = la\<lparr>la_pending := [], la_run := Some (run\<lparr>ru_fired := ru_fired run \<union> {..<length (la_rungs la)}\<rparr>)\<rparr>"
      "actions = la_pending la @ dropped @
         (if \<exists>i\<in>{..<length (la_rungs la)}. i \<notin> ru_fired run then [StandDown (map tw_windowId (open_windows run)) Confirmed] else [])"
  | (climb) run0 run dropped acts where "la_run la = Some run0"
      "dropClosed (run0\<lparr>ru_startedAtMs := (if ru_startedAtMs run0 = -1 then now else ru_startedAtMs run0)\<rparr>) = (Some run, dropped)"
      "open_windows run = [] \<or> \<not> list_all tw_delivered (open_windows run)"
      "fire_rungs now (ru_startedAtMs run) (open_windows run) (ru_fired run) 0 (la_rungs la)
         (la\<lparr>la_pending := [], la_run := Some run\<rparr>) = (la', acts)"
      "actions = la_pending la @ dropped @ acts"
proof (cases "la_run la")
  case None
  with assms show ?thesis by (intro idle) (auto simp: tick_ladder_def Let_def)
next
  case (Some run0)
  let ?run1 = "run0\<lparr>ru_startedAtMs := (if ru_startedAtMs run0 = -1 then now else ru_startedAtMs run0)\<rparr>"
  have run1: "(if ru_startedAtMs run0 = -1 then run0\<lparr>ru_startedAtMs := now\<rparr> else run0) = ?run1" by simp
  obtain live dropped where d: "dropClosed ?run1 = (live, dropped)" by fastforce
  show ?thesis
  proof (cases live)
    case None
    with assms Some d run1 show ?thesis by (intro ended) (auto simp: tick_ladder_def Let_def)
  next
    case live: (Some run)
    show ?thesis
    proof (cases "open_windows run \<noteq> [] \<and> list_all tw_delivered (open_windows run)")
      case True
      with assms Some d run1 live show ?thesis by (intro calm) (auto simp: tick_ladder_def Let_def)
    next
      case False
      obtain la2 acts where f: "fire_rungs now (ru_startedAtMs run) (open_windows run) (ru_fired run) 0 (la_rungs la)
          (la\<lparr>la_pending := [], la_run := Some run\<rparr>) = (la2, acts)" by fastforce
      have "la' = la2 \<and> actions = la_pending la @ dropped @ acts"
        using assms Some d run1 live False f by (auto simp: tick_ladder_def Let_def)
      with Some d run1 live False f show ?thesis by (intro climb[of run0 run dropped acts]) auto
    qed
  qed
qed

section \<open>Well-formed engines\<close>

definition run_ok :: "ladder_run \<Rightarrow> bool" where
  "run_ok run \<longleftrightarrow> distinct (map_keys (ru_windows run)) \<and> list_all (\<lambda>kw. fst kw = tw_windowId (snd kw)) (ru_windows run)"

definition ladder_ok :: "ladder \<Rightarrow> bool" where
  "ladder_ok la \<longleftrightarrow> list_all is_relay (la_pending la) \<and>
     (case la_run la of None \<Rightarrow> True | Some run \<Rightarrow> run_ok run)"

lemma relay_nonsend: "list_all is_relay actions \<Longrightarrow> list_all (\<lambda>a. sent_on a = None) actions"
  by (induction actions) (auto elim: is_relay.elims)

lemma set_update_keyed:
  "set (AList.update k v m) \<subseteq> insert (k, v) (set m)"
  by (induction m) auto

lemma run_ok_update:
  "run_ok run \<Longrightarrow> tw_windowId tw = wid \<Longrightarrow> run_ok (run\<lparr>ru_windows := AList.update wid tw (ru_windows run)\<rparr>)"
  using set_update_keyed[of wid tw "ru_windows run"]
  by (auto simp: run_ok_def distinct_keys_update list_all_iff)

lemma windowOpened_ok: "ladder_ok la \<Longrightarrow> ladder_ok (windowOpened wid headline deadline la)"
  by (auto simp: ladder_ok_def windowOpened_def Let_def run_ok_update run_ok_def[of "\<lparr>ru_startedAtMs = _, ru_fired = _, ru_windows = _\<rparr>"]
      map_keys_def split: option.splits)

lemma update_window_ok:
  "ladder_ok la \<Longrightarrow> (\<And>tw. tw_windowId (f tw) = tw_windowId tw) \<Longrightarrow> ladder_ok (update_window wid f la)"
  by (auto simp: ladder_ok_def update_window_def split: option.splits intro!: run_ok_update)
     (auto simp: run_ok_def list_all_iff dest!: map_of_SomeD)

lemma channelEvent_ok: "ladder_ok la \<Longrightarrow> ladder_ok (channelEvent ev la)"
  by (cases ev) (auto simp: ladder_ok_def Let_def split: option.splits)

lemma fold_delete: "fold (\<lambda>w m. AList.delete (f w) m) ws m = filter (\<lambda>kv. fst kv \<notin> f ` set ws) m"
proof (induction ws arbitrary: m)
  case (Cons w ws)
  have "filter (\<lambda>kv. fst kv \<notin> f ` set ws) (AList.delete (f w) m) = filter (\<lambda>kv. fst kv \<notin> f ` set (w # ws)) m"
    by (auto simp: AList.delete_eq intro: filter_cong)
  with Cons show ?case by simp
qed simp

lemma dropClosed_live:
  assumes "dropClosed run = (Some run', dropped)" "run_ok run"
  shows "run_ok run'" "open_windows run' = map snd (ru_windows run')" "open_windows run' \<noteq> []"
    "open_windows run' = open_windows run"
    "ru_fired run' = ru_fired run" "ru_startedAtMs run' = ru_startedAtMs run"
proof -
  let ?closed = "filter tw_closed (map snd (ru_windows run))"
  let ?kept = "filter (\<lambda>kv. fst kv \<notin> tw_windowId ` set ?closed) (ru_windows run)"
  have run': "run' = run\<lparr>ru_windows := ?kept\<rparr>" "?kept \<noteq> []"
    using assms(1) unfolding dropClosed_def Let_def fold_delete by (cases "?kept = []", simp_all)+
  have key: "fst kv \<notin> tw_windowId ` set ?closed \<longleftrightarrow> \<not> tw_closed (snd kv)" if "kv \<in> set (ru_windows run)" for kv
  proof
    assume "fst kv \<notin> tw_windowId ` set ?closed"
    then show "\<not> tw_closed (snd kv)"
      using that assms(2) by (auto simp: run_ok_def list_all_iff image_iff)
  next
    assume opn: "\<not> tw_closed (snd kv)"
    show "fst kv \<notin> tw_windowId ` set ?closed"
    proof
      assume "fst kv \<in> tw_windowId ` set ?closed"
      then obtain kv' where kv': "kv' \<in> set (ru_windows run)" "tw_closed (snd kv')" "fst kv = tw_windowId (snd kv')"
        by auto
      then have "fst kv' = fst kv" using assms(2) by (auto simp: run_ok_def list_all_iff)
      then have "kv' = kv"
        using kv'(1) that assms(2) by (auto simp: run_ok_def map_keys_def distinct_map inj_on_def)
      with kv'(2) opn show False by simp
    qed
  qed
  then have kept: "?kept = filter (\<lambda>kv. \<not> tw_closed (snd kv)) (ru_windows run)"
    by (intro filter_cong) auto
  show "ru_fired run' = ru_fired run" "ru_startedAtMs run' = ru_startedAtMs run" by (simp_all add: run')
  show "run_ok run'"
    using assms(2) by (auto simp: run_ok_def run' map_keys_def distinct_map list_all_iff inj_on_def)
  have ws: "ru_windows run' = filter (\<lambda>kv. \<not> tw_closed (snd kv)) (ru_windows run)"
    using kept by (simp add: run'(1))
  show "open_windows run' = map snd (ru_windows run')"
    unfolding open_windows_def ws by (simp add: filter_map comp_def)
  then show "open_windows run' \<noteq> []" using run' by (simp add: run'(1))
  show "open_windows run' = open_windows run"
    unfolding open_windows_def ws by (simp add: filter_map comp_def)
qed

lemma dropClosed_nonsends:
  assumes "dropClosed run = (live, dropped)"
  shows "list_all (\<lambda>a. sent_on a = None \<and> \<not> is_firing a \<and> \<not> is_relay a) dropped"
  using assms by (auto simp: dropClosed_def Let_def split: if_splits)

text \<open>What firing rungs does to the engine besides the counters.\<close>

lemma fire_rungs_effect:
  assumes "fire_rungs now started ws fired i rungs la = (la', actions)"
  shows "la_pending la' = la_pending la \<and> la_rungs la' = la_rungs la \<and> la_limits la' = la_limits la \<and>
    la_costUsd la' = la_costUsd la \<and>
    la_run la' = map_option (\<lambda>run. run\<lparr>ru_fired := ru_fired run \<union>
      {j. i \<le> j \<and> j < i + length rungs \<and> j \<notin> fired \<and> lr_afterMs (rungs ! (j - i)) \<le> now - started}\<rparr>) (la_run la) \<and>
    list_all (\<lambda>a. is_firing a \<and> \<not> is_relay a) actions \<and>
    (\<forall>a\<in>set actions. \<forall>c al. a = Send c al \<longrightarrow> al = alertFor ws)"
  using assms
proof (induction rungs arbitrary: i la actions la')
  case Nil
  have none: "{j. i \<le> j \<and> j < i + length [] \<and> j \<notin> fired \<and> lr_afterMs ([] ! (j - i)) \<le> now - started} = {}" by auto
  from Nil show ?case unfolding none by (cases "la_run la") auto
next
  case (Cons rung rungs)
  have split: "{j. i \<le> j \<and> j < i + length (rung # rungs) \<and> j \<notin> fired \<and> lr_afterMs ((rung # rungs) ! (j - i)) \<le> now - started} =
     (if i \<in> fired \<or> now - started < lr_afterMs rung then {} else {i}) \<union>
     {j. Suc i \<le> j \<and> j < Suc i + length rungs \<and> j \<notin> fired \<and> lr_afterMs (rungs ! (j - Suc i)) \<le> now - started}"
    (is "?L = ?I \<union> ?R")
  proof (intro set_eqI)
    fix j
    show "j \<in> ?L \<longleftrightarrow> j \<in> ?I \<union> ?R"
    proof (cases "j = i")
      case False
      then have "i \<le> j \<Longrightarrow> (rung # rungs) ! (j - i) = rungs ! (j - Suc i)"
        using False by (metis Suc_diff_Suc le_neq_implies_less nth_Cons_Suc)
      with False show ?thesis by auto
    qed auto
  qed
  show ?case
  proof (cases "i \<in> fired \<or> now - started < lr_afterMs rung")
    case True
    with Cons.prems have "fire_rungs now started ws fired (Suc i) rungs la = (la', actions)" by simp
    from Cons.IH[OF this] True show ?thesis unfolding split by simp
  next
    case False
    obtain la1 ok where a: "admit (lr_channel rung) now la = (la1, ok)" by fastforce
    obtain la2 acts where r: "fire_rungs now started ws fired (Suc i) rungs (fire i la1) = (la2, acts)" by fastforce
    from Cons.prems False a r have out: "la' = la2"
      "actions = (if ok then Send (lr_channel rung) (alertFor ws) else StandDown (map tw_windowId ws) CapHit) # acts" by auto
    from Cons.IH[OF r] admit_keeps[OF a] False out show ?thesis unfolding split
      by (cases "la_run la") (auto simp: fire_def)
  qed
qed

lemma run_ok_fields [simp]:
  "run_ok (run\<lparr>ru_startedAtMs := t\<rparr>) = run_ok run" "run_ok (run\<lparr>ru_fired := f\<rparr>) = run_ok run"
  by (simp_all add: run_ok_def)

lemma ladder_tick_ok:
  assumes "ladder_ok la" "tick_ladder now la = (la', actions)"
  shows "ladder_ok la'"
  using assms(2)
proof (cases rule: tick_cases)
  case (calm run0 run dropped)
  from dropClosed_live(1)[OF calm(2)] assms(1) calm show ?thesis by (simp add: ladder_ok_def)
next
  case (climb run0 run dropped acts)
  from dropClosed_live(1)[OF climb(2)] assms(1) climb(1) fire_rungs_effect[OF climb(4)] show ?thesis
    by (simp add: ladder_ok_def)
qed (use assms(1) in \<open>simp_all add: ladder_ok_def\<close>)

lemma ladder_step_ok: "ladder_ok (fst st) \<Longrightarrow> ladder_ok (fst (ladder_step st ev))"
  by (cases st; cases ev)
     (auto simp: windowOpened_ok windowDelivered_def windowClosed_def windowDeadline_def channelEvent_ok
        intro: update_window_ok ladder_tick_ok split: prod.split)

interpretation ladder_machine: machine ladder_step "\<lambda>st. ladder_ok (fst st)"
  by unfold_locales (rule ladder_step_ok)

lemma new_ladder_ok: "new_ladder rungs limits costs = Inr la \<Longrightarrow> ladder_ok la"
  by (auto simp: new_ladder_def Let_def ladder_ok_def split: if_splits)

lemma handlers_same:
  "same_counters la (windowOpened wid headline deadline la)" "same_counters la (windowDelivered wid la)"
  "same_counters la (windowClosed wid la)" "same_counters la (windowDeadline wid deadline la)"
  "same_counters la (channelEvent ev la)"
  by (auto simp: same_counters_def windowOpened_def windowDelivered_def windowClosed_def windowDeadline_def
      update_window_def Let_def split: option.splits) (cases ev; simp add: Let_def)+

lemma caps_tick:
  assumes "ladder_ok la" "caps_ok la now lg" "tick_ladder now la = (la', actions)"
  shows "caps_ok la' now (lg @ map (Pair now) actions)"
proof -
  have queued: "caps_ok la now (lg @ map (Pair now) (la_pending la @ xs)) = caps_ok la now (lg @ map (Pair now) xs)"
    if "list_all (\<lambda>a. sent_on a = None) xs" for xs
    using caps_nonsends[of "la_pending la @ xs" la now lg now] caps_nonsends[of xs la now lg now] that assms(1)
    by (simp add: ladder_ok_def relay_nonsend)
  have dropped: "list_all (\<lambda>a. sent_on a = None) d" if "dropClosed run = (live, d)" for run live d
    using dropClosed_nonsends[OF that] by (simp add: list_all_iff)
  show ?thesis
    using assms(3)
  proof (cases rule: tick_cases)
    case idle
    have "same_counters la la'" using idle by (simp add: same_counters_def)
    with caps_same[OF this] queued[of "[]"] idle assms(2) show ?thesis by simp
  next
    case (ended run0)
    let ?d = "snd (dropClosed (run0\<lparr>ru_startedAtMs := (if ru_startedAtMs run0 = -1 then now else ru_startedAtMs run0)\<rparr>))"
    have "same_counters la la'" using ended by (simp add: same_counters_def)
    moreover have "list_all (\<lambda>a. sent_on a = None) ?d"
      using dropped[OF prod.collapse[symmetric]] .
    ultimately show ?thesis
      using caps_same[of la la'] queued[of ?d] caps_nonsends[of ?d la now lg now] ended(3) assms(2) by simp
  next
    case (calm run0 run d)
    have "same_counters la la'" using calm by (simp add: same_counters_def)
    moreover define later where "later = d @
         (if \<exists>i\<in>{..<length (la_rungs la)}. i \<notin> ru_fired run then [StandDown (map tw_windowId (open_windows run)) Confirmed] else [])"
    moreover have "list_all (\<lambda>a. sent_on a = None) later"
      using dropped[OF calm(2)] by (simp add: later_def)
    ultimately show ?thesis
      using caps_same[of la la'] queued[of later] caps_nonsends[of later la now lg now] calm(6) assms(2)
      unfolding later_def by simp
  next
    case (climb run0 run d acts)
    let ?la1 = "la\<lparr>la_pending := [], la_run := Some run\<rparr>"
    have "same_counters la ?la1" by (simp add: same_counters_def)
    then have "caps_ok ?la1 now (lg @ map (Pair now) (la_pending la @ d))"
      using caps_same[of la ?la1] queued[OF dropped[OF climb(2)]]
        caps_nonsends[OF dropped[OF climb(2)], of la now lg now] assms(2) by simp
    from caps_fire_rungs[OF this climb(4)] climb(5) show ?thesis by simp
  qed
qed

lemma caps_run:
  assumes "ladder_ok la" "caps_ok la t0 lg" "sorted (t0 # tick_times es)"
  shows "\<exists>t. caps_ok (fst (foldl ladder_step (la, lg) es)) t (snd (foldl ladder_step (la, lg) es))"
  using assms
proof (induction es arbitrary: la lg t0)
  case (Cons ev es)
  obtain la1 lg1 where st: "ladder_step (la, lg) ev = (la1, lg1)" by fastforce
  have ok: "ladder_ok la1" using ladder_step_ok[of "(la, lg)" ev] Cons.prems(1) st by simp
  show ?case
  proof (cases ev)
    case (LTick now)
    then have "t0 \<le> now" "sorted (now # tick_times es)" using Cons.prems(3) by simp_all
    moreover obtain actions where "tick_ladder now la = (la1, actions)" "lg1 = lg @ map (Pair now) actions"
      using st LTick by (auto split: prod.splits)
    ultimately have "caps_ok la1 now lg1"
      using caps_tick[OF Cons.prems(1) caps_later[OF Cons.prems(2)]] by simp
    from Cons.IH[OF ok this] \<open>sorted (now # tick_times es)\<close> st show ?thesis by simp
  next
    case (LOpened wid headline deadline)
    with st Cons.prems Cons.IH[OF ok, of t0 lg] caps_same[OF handlers_same(1)[of la wid headline deadline], of t0 lg] show ?thesis by simp
  next
    case (LDelivered wid)
    with st Cons.prems Cons.IH[OF ok, of t0 lg] caps_same[OF handlers_same(2)[of la wid], of t0 lg] show ?thesis by simp
  next
    case (LClosed wid)
    with st Cons.prems Cons.IH[OF ok, of t0 lg] caps_same[OF handlers_same(3)[of la wid], of t0 lg] show ?thesis by simp
  next
    case (LDeadline wid deadline)
    with st Cons.prems Cons.IH[OF ok, of t0 lg] caps_same[OF handlers_same(4)[of la wid deadline], of t0 lg] show ?thesis by simp
  next
    case (LChannel e)
    with st Cons.prems Cons.IH[OF ok, of t0 lg] caps_same[OF handlers_same(5)[of la e], of t0 lg] show ?thesis by simp
  qed
qed auto

lemma new_ladder_caps:
  assumes "new_ladder rungs limits costs = Inr la"
  shows "caps_ok la 0 []"
proof -
  from assms have la: "la_voiceSends la = []" "la_smsSends la = []" "la_spend la = (-1, 0)"
    and lim: "0 \<le> rl_voicePer10Min (la_limits la)" "0 \<le> rl_smsPerHour (la_limits la)" "0 \<le> rl_dailySpendUsd (la_limits la)"
    by (auto simp: new_ladder_def Let_def split: if_splits)
  then show ?thesis
    by (simp add: caps_ok_def spend_ok_def window_capped_def send_times_def spent_on_day_def)
qed

section \<open>One storm, one firing per rung\<close>

definition firings :: "action_log \<Rightarrow> nat" where
  "firings lg = length (filter (\<lambda>ta. is_firing (snd ta)) lg)"

text \<open>The rungs a live run has not spent yet.\<close>

definition unspent :: "ladder \<Rightarrow> nat" where
  "unspent la = (case la_run la of None \<Rightarrow> 0 | Some run \<Rightarrow> card ({..<length (la_rungs la)} - ru_fired run))"

text \<open>The run in progress is still in progress after every event.\<close>

fun same_storm :: "ladder \<times> action_log \<Rightarrow> ladder_event list \<Rightarrow> bool" where
  "same_storm st [] = True"
| "same_storm st (ev # es) \<longleftrightarrow> la_run (fst (ladder_step st ev)) \<noteq> None \<and> same_storm (ladder_step st ev) es"

lemma firings_append [simp]:
  "firings (lg @ lg') = firings lg + firings lg'" "firings [] = 0"
  by (simp_all add: firings_def)

lemma firings_pairs: "firings (map (Pair t) actions) = length (filter is_firing actions)"
  by (induction actions) (auto simp: firings_def)

lemma no_firings: "list_all (\<lambda>a. \<not> is_firing a) actions \<Longrightarrow> filter is_firing actions = []"
  by (auto simp: list_all_iff filter_empty_conv)

lemma relays_no_firing: "list_all is_relay actions \<Longrightarrow> filter is_firing actions = []"
  by (induction actions) (auto elim: is_relay.elims)

lemma fire_rungs_count:
  "fire_rungs now started ws fired i rungs la = (la', actions) \<Longrightarrow>
     length actions = card {j. i \<le> j \<and> j < i + length rungs \<and> j \<notin> fired \<and> lr_afterMs (rungs ! (j - i)) \<le> now - started}"
proof (induction rungs arbitrary: i la la' actions)
  case (Cons rung rungs)
  let ?R = "{j. Suc i \<le> j \<and> j < Suc i + length rungs \<and> j \<notin> fired \<and> lr_afterMs (rungs ! (j - Suc i)) \<le> now - started}"
  have fin: "finite ?R" by (rule finite_subset[of _ "{..<Suc i + length rungs}"]) auto
  have split: "{j. i \<le> j \<and> j < i + length (rung # rungs) \<and> j \<notin> fired \<and> lr_afterMs ((rung # rungs) ! (j - i)) \<le> now - started} =
     (if i \<in> fired \<or> now - started < lr_afterMs rung then ?R else insert i ?R)" (is "?L = ?I")
  proof (intro set_eqI)
    fix j
    show "j \<in> ?L \<longleftrightarrow> j \<in> ?I"
    proof (cases "j = i")
      case False
      then have "i \<le> j \<Longrightarrow> (rung # rungs) ! (j - i) = rungs ! (j - Suc i)"
        by (metis Suc_diff_Suc le_neq_implies_less nth_Cons_Suc)
      with False show ?thesis by auto
    qed auto
  qed
  show ?case
  proof (cases "i \<in> fired \<or> now - started < lr_afterMs rung")
    case True
    with Cons.prems Cons.IH[of "Suc i" la la' actions] show ?thesis unfolding split by simp
  next
    case False
    then obtain la1 ok la2 acts where "fire_rungs now started ws fired (Suc i) rungs (fire i la1) = (la2, acts)"
      "length actions = Suc (length acts)"
      using Cons.prems by (auto split: prod.splits)
    with Cons.IH[of "Suc i" "fire i la1" la2 acts] False fin show ?thesis unfolding split by simp
  qed
qed simp

lemma unspent_tick:
  assumes "ladder_ok la" "tick_ladder now la = (la', actions)" "la_run la' \<noteq> None"
  shows "length (filter is_firing actions) + unspent la' \<le> unspent la"
  using assms(2)
proof (cases rule: tick_cases)
  case (calm run0 run dropped)
  have "filter is_firing dropped = []"
    using dropClosed_nonsends[OF calm(2)] by (auto simp: list_all_iff filter_empty_conv)
  moreover have "unspent la' = 0" by (simp add: unspent_def calm(5))
  ultimately show ?thesis using calm(6) assms(1) relays_no_firing[of "la_pending la"]
    by (simp add: ladder_ok_def)
next
  case (climb run0 run dropped acts)
  have ok: "run_ok (run0\<lparr>ru_startedAtMs := (if ru_startedAtMs run0 = -1 then now else ru_startedAtMs run0)\<rparr>)"
    using assms(1) climb(1) by (simp add: ladder_ok_def)
  have "ru_fired run = ru_fired run0" using dropClosed_live(5)[OF climb(2) ok] by simp
  note eff = fire_rungs_effect[OF climb(4)]
  let ?n = "length (la_rungs la)"
  let ?new = "{j. 0 \<le> j \<and> j < 0 + ?n \<and> j \<notin> ru_fired run \<and> lr_afterMs (la_rungs la ! (j - 0)) \<le> now - ru_startedAtMs run}"
  have sub: "?new \<subseteq> {..<?n} - ru_fired run" by auto
  have "filter is_firing dropped = []"
    using dropClosed_nonsends[OF climb(2)] by (auto simp: list_all_iff filter_empty_conv)
  then have "length (filter is_firing actions) = length acts"
    using climb(5) assms(1) relays_no_firing[of "la_pending la"] eff
    by (simp add: ladder_ok_def list_all_iff)
  also have "\<dots> = card ?new" using fire_rungs_count[OF climb(4)] by simp
  finally have count: "length (filter is_firing actions) = card ?new" .
  have "unspent la' = card ({..<?n} - (ru_fired run \<union> ?new))"
    using eff by (simp add: unspent_def)
  also have "{..<?n} - (ru_fired run \<union> ?new) = ({..<?n} - ru_fired run) - ?new" by auto
  also have "card \<dots> = card ({..<?n} - ru_fired run) - card ?new"
    using sub by (intro card_Diff_subset) (auto intro: finite_subset)
  finally have left: "unspent la' = card ({..<?n} - ru_fired run) - card ?new" .
  have "card ?new \<le> card ({..<?n} - ru_fired run)" using sub by (intro card_mono) auto
  with count left climb(1) \<open>ru_fired run = ru_fired run0\<close> show ?thesis by (simp add: unspent_def)
qed (use assms(3) in simp_all)

lemma update_window_unspent [simp]: "unspent (update_window wid f la) = unspent la"
  by (simp add: unspent_def update_window_def split: option.split)

lemma handlers_fired:
  "la_run la \<noteq> None \<Longrightarrow> unspent (windowOpened wid headline deadline la) = unspent la"
  "unspent (windowDelivered wid la) = unspent la" "unspent (windowClosed wid la) = unspent la"
  "unspent (windowDeadline wid deadline la) = unspent la" "unspent (channelEvent ev la) = unspent la"
proof -
  show "la_run la \<noteq> None \<Longrightarrow> unspent (windowOpened wid headline deadline la) = unspent la"
    by (cases "la_run la") (simp_all add: unspent_def windowOpened_def Let_def)
  show "unspent (channelEvent ev la) = unspent la"
    by (cases ev; cases "la_run la") (simp_all add: unspent_def Let_def)
qed (simp_all add: windowDelivered_def windowClosed_def windowDeadline_def)

lemma storm_budget:
  "ladder_ok (fst st) \<Longrightarrow> la_run (fst st) \<noteq> None \<Longrightarrow> same_storm st es \<Longrightarrow>
     firings (snd (foldl ladder_step st es)) \<le> firings (snd st) + unspent (fst st)"
proof (induction es arbitrary: st)
  case (Cons ev es)
  obtain la lg where st: "st = (la, lg)" by fastforce
  have step: "firings (snd (ladder_step st ev)) + unspent (fst (ladder_step st ev)) \<le> firings lg + unspent la"
  proof (cases ev)
    case (LTick now)
    obtain la' actions where t: "tick_ladder now la = (la', actions)" by fastforce
    with Cons.prems LTick st have "la_run la' \<noteq> None" by simp
    from unspent_tick[OF _ t this] Cons.prems(1) st t LTick show ?thesis by (simp add: firings_pairs)
  qed (use st Cons.prems(2) handlers_fired in simp_all)
  have "ladder_ok (fst (ladder_step st ev))" using ladder_step_ok[OF Cons.prems(1)] .
  from Cons.IH[OF this] Cons.prems(3) step st show ?case by simp
qed simp

section \<open>Properties\<close>

text \<open>
  C13: The ceilings hold along every run: with the clock going forward from zero, in no ten
  minutes are more voice calls placed than allowed, in no hour more text messages, and on no day
  do the sends cost more than the daily limit (counted as the engine adds doubles).
\<close>

theorem ladder_stays_within_caps:
  assumes "new_ladder rungs limits costs = Inr la" and "sorted (0 # tick_times es)"
  shows "let lg = snd (foldl ladder_step (la, []) es) in
    (\<forall>u. of_nat (length (filter (\<lambda>s. u - voice_horizon < s \<and> s \<le> u) (send_times Voice lg))) < rl_voicePer10Min (la_limits la) + 1) \<and>
    (\<forall>u. of_nat (length (filter (\<lambda>s. u - sms_horizon < s \<and> s \<le> u) (send_times Sms lg))) < rl_smsPerHour (la_limits la) + 1) \<and>
    (\<forall>d. spent_on_day (la_costUsd la) d lg \<le> rl_dailySpendUsd (la_limits la))"
proof -
  have keeps: "la_limits (fst (foldl ladder_step st es)) = la_limits (fst st) \<and>
      la_costUsd (fst (foldl ladder_step st es)) = la_costUsd (fst st)" for st es
  proof (induction es arbitrary: st)
    case (Cons ev es)
    obtain la lg where st: "st = (la, lg)" by fastforce
    have "la_limits (fst (ladder_step st ev)) = la_limits la \<and> la_costUsd (fst (ladder_step st ev)) = la_costUsd la"
    proof (cases ev)
      case (LTick now)
      obtain la' actions where t: "tick_ladder now la = (la', actions)" by fastforce
      then have "la_limits la' = la_limits la \<and> la_costUsd la' = la_costUsd la"
        by (cases rule: tick_cases) (auto dest: fire_rungs_effect)
      with t LTick st show ?thesis by simp
    qed (use handlers_same[of la] st in \<open>simp_all add: same_counters_def\<close>)
    with Cons.IH[of "ladder_step st ev"] st show ?case by simp
  qed simp
  from caps_run[OF new_ladder_ok[OF assms(1)] new_ladder_caps[OF assms(1)] assms(2)] keeps[of "(la, [])" es]
  show ?thesis by (auto simp: Let_def caps_ok_def window_capped_def spend_ok_def)
qed

lemma ladder_stays_within_caps_witness:
  "\<exists>la. new_ladder None None (\<lambda>c. None) = Inr la \<and>
     (let lg = snd (foldl ladder_step (la, []) [LOpened ''w'' ''t'' 9, LTick 5, LTick 400000]) in
      (\<forall>u. of_nat (length (filter (\<lambda>s. u - voice_horizon < s \<and> s \<le> u) (send_times Voice lg))) < rl_voicePer10Min (la_limits la) + 1) \<and>
      (\<forall>u. of_nat (length (filter (\<lambda>s. u - sms_horizon < s \<and> s \<le> u) (send_times Sms lg))) < rl_smsPerHour (la_limits la) + 1) \<and>
      (\<forall>d. spent_on_day (la_costUsd la) d lg \<le> rl_dailySpendUsd (la_limits la)))"
proof -
  obtain la where la: "new_ladder None None (\<lambda>c. None) = Inr la"
    by (auto simp: new_ladder_def Let_def DEFAULT_RUNGS_def DEFAULT_LIMITS_def)
  have "sorted (0 # tick_times [LOpened ''w'' ''t'' 9, LTick 5, LTick 400000])" by simp
  from ladder_stays_within_caps[OF la this] la show ?thesis by blast
qed

text \<open>
  A storm costs at most one firing per rung: while a run is in progress, however many windows
  join it and whatever is reported, its sends and cap refusals together are no more than the
  rungs it had left.
\<close>

theorem storm_fires_each_rung_once:
  assumes "new_ladder rungs limits costs = Inr la" and "st = foldl ladder_step (la, []) es"
    and "la_run (fst st) \<noteq> None" and "same_storm st es'"
  shows "firings (snd (foldl ladder_step st es')) \<le> firings (snd st) + unspent (fst st) \<and>
    unspent (fst st) \<le> length (la_rungs (fst st))"
proof -
  have "ladder_ok (fst st)"
    using ladder_machine.inv_run[of "(la, [])" es] new_ladder_ok[OF assms(1)] assms(2) by simp
  moreover have "unspent (fst st) \<le> length (la_rungs (fst st))"
    using card_mono[OF finite_lessThan Diff_subset, of "length (la_rungs (fst st))"]
    by (cases "la_run (fst st)") (simp_all add: unspent_def)
  ultimately show ?thesis using storm_budget[OF _ assms(3,4)] by blast
qed

definition demo_ladder :: ladder where
  "demo_ladder = \<lparr>la_rungs = [\<lparr>lr_afterMs = 0, lr_channel = Push\<rparr>], la_limits = DEFAULT_LIMITS,
     la_costUsd = (\<lambda>c. 0), la_run = None, la_voiceSends = [], la_smsSends = [], la_spend = (-1, 0), la_pending = []\<rparr>"

lemma demo_ladder_new:
  "new_ladder (Some [\<lparr>lr_afterMs = 0, lr_channel = Push\<rparr>]) None (\<lambda>c. Some 0) = Inr demo_ladder"
  by (simp add: new_ladder_def Let_def DEFAULT_LIMITS_def demo_ladder_def)

lemmas demo_ladder_simps = demo_ladder_def windowOpened_def tick_ladder_def dropClosed_def open_windows_def
  admit_def fire_def DEFAULT_LIMITS_def double_add_def to_double_def Let_def map_keys_def

lemma storm_fires_each_rung_once_witness:
  "\<exists>st. firings (snd (foldl ladder_step st [LTick 5, LOpened ''w2'' ''t'' 9, LTick 6])) \<le> firings (snd st) + unspent (fst st) \<and>
     unspent (fst st) \<le> length (la_rungs (fst st))"
proof -
  let ?st = "foldl ladder_step (demo_ladder, []) [LOpened ''w'' ''t'' 9]"
  have "la_run (fst ?st) \<noteq> None" by (simp add: demo_ladder_simps)
  moreover have "same_storm ?st [LTick 5, LOpened ''w2'' ''t'' 9, LTick 6]"
    by (simp add: demo_ladder_simps)
  ultimately show ?thesis using storm_fires_each_rung_once[OF demo_ladder_new refl] by blast
qed

text \<open>
  What a tick does is honest and never permissive: the queued veto relays come out first and
  a tick adds none of its own; an alert goes out only in a live run whose open windows are not
  all confirmed seen, and it names exactly those windows.
\<close>

theorem tick_alerts_exactly_the_unconfirmed:
  assumes "ladder_ok la" and "tick_ladder now la = (la', actions)"
  shows "\<exists>rest. actions = la_pending la @ rest \<and> list_all (\<lambda>a. \<not> is_relay a) rest \<and>
    (\<forall>c al. Send c al \<in> set actions \<longrightarrow>
       (\<exists>run. la_run la' = Some run \<and> al = alertFor (open_windows run) \<and> open_windows run \<noteq> [] \<and>
          \<not> list_all tw_delivered (open_windows run)))"
proof -
  have pending: "Send c al \<notin> set (la_pending la)" for c al
    using assms(1) by (auto simp: ladder_ok_def list_all_iff)
  have dropped: "list_all (\<lambda>a. \<not> is_relay a) d" "Send c al \<notin> set d" if "dropClosed run = (live, d)" for run live d c al
    using dropClosed_nonsends[OF that] by (auto simp: list_all_iff)
  show ?thesis
    using assms(2)
  proof (cases rule: tick_cases)
    case idle
    then show ?thesis using pending by simp
  next
    case (ended run0)
    then show ?thesis
      using pending dropped[OF prod.collapse[symmetric]] by simp
  next
    case (calm run0 run d)
    then show ?thesis using pending dropped[OF calm(2)] by auto
  next
    case (climb run0 run d acts)
    have ok: "run_ok (run0\<lparr>ru_startedAtMs := (if ru_startedAtMs run0 = -1 then now else ru_startedAtMs run0)\<rparr>)"
      using assms(1) climb(1) by (simp add: ladder_ok_def)
    note live = dropClosed_live[OF climb(2) ok] and eff = fire_rungs_effect[OF climb(4)]
    from eff obtain run' where run': "la_run la' = Some run'" "ru_windows run' = ru_windows run" by auto
    then have "open_windows run' = open_windows run" by (simp add: open_windows_def)
    with run' live climb(3) eff pending dropped[OF climb(2)] climb(5) show ?thesis
      by (intro exI[of _ "d @ acts"]) (auto simp: list_all_iff)
  qed
qed

lemma tick_alerts_exactly_the_unconfirmed_witness:
  "\<exists>la' actions rest. tick_ladder 5 (windowOpened ''w'' ''t'' 9 demo_ladder) = (la', actions) \<and>
     actions = la_pending (windowOpened ''w'' ''t'' 9 demo_ladder) @ rest \<and> list_all (\<lambda>a. \<not> is_relay a) rest"
proof -
  obtain la' actions where t: "tick_ladder 5 (windowOpened ''w'' ''t'' 9 demo_ladder) = (la', actions)" by fastforce
  have "ladder_ok (windowOpened ''w'' ''t'' 9 demo_ladder)"
    by (intro windowOpened_ok) (rule new_ladder_ok[OF demo_ladder_new])
  from tick_alerts_exactly_the_unconfirmed[OF this t] t show ?thesis by blast
qed

end
