(* ===== verification/CanonicalJson.thy ===== *)
theory CanonicalJson
  imports Json "HOL-Library.Multiset" "HOL-Library.List_Lexorder"
begin

text \<open>
  The canonical JSON of \<open>packages/shared/src/merge-grant.ts\<close> (\<open>canonicalJson\<close>), which
  \<open>packages/executor/src/ticket.ts\<close> repeats as \<open>canonicalizeArgs\<close>: members sorted by key at every
  depth.  The values are parsed JSON, so no member is undefined.  The text follows JavaScript's
  enumeration of the object rebuilt from the sorted entries, where integer-like keys come first.
\<close>

section \<open>Definitions\<close>

fun sortDeep :: "json \<Rightarrow> json" where
  "sortDeep (JArr xs) = JArr (map sortDeep xs)"
| "sortDeep (JObj kvs) =
     JObj (object_order (map (\<lambda>kv. (fst kv, sortDeep (snd kv))) (sort_key fst kvs)))"
| "sortDeep v = v"

definition canonicalJson :: "json \<Rightarrow> string" where
  "canonicalJson v = json_text (sortDeep v)"

definition canonicalizeArgs :: "json \<Rightarrow> string" where
  "canonicalizeArgs args = json_text (sortDeep args)"

text \<open>Values with distinct keys at every depth and printable numbers.\<close>

fun json_wf :: "json \<Rightarrow> bool" where
  "json_wf (JNum n) = num_ok n"
| "json_wf (JArr xs) = list_all json_wf xs"
| "json_wf (JObj kvs) = (distinct (map_keys kvs) \<and> list_all (\<lambda>p. json_wf (snd p)) kvs)"
| "json_wf _ = True"

text \<open>The specification: two values that differ only in the order of members.\<close>

inductive reorders :: "json \<Rightarrow> json \<Rightarrow> bool" where
  refl: "reorders v v"
| elements: "list_all2 reorders xs ys \<Longrightarrow> reorders (JArr xs) (JArr ys)"
| members: "list_all2 (\<lambda>p q. fst p = fst q \<and> reorders (snd p) (snd q)) ps qs \<Longrightarrow> reorders (JObj ps) (JObj qs)"
| permute: "mset ps = mset qs \<Longrightarrow> reorders (JObj ps) (JObj qs)"
| trans: "reorders u v \<Longrightarrow> reorders v w \<Longrightarrow> reorders u w"

section \<open>Sorting\<close>

lemma sortDeep_obj:
  "sortDeep (JObj kvs) = JObj (object_order (sort_key fst (map (\<lambda>kv. (fst kv, sortDeep (snd kv))) kvs)))"
  by (simp add: sort_key_map comp_def)

lemma sort_by_key_unique:
  assumes "mset ps = mset qs" and "distinct (map_keys ps)"
  shows "sort_key fst ps = sort_key fst qs"
proof -
  have "inj_on fst (set ps)" using assms(2) by (simp add: map_keys_def distinct_map)
  moreover have "mset ps = mset (sort_key fst qs)" using assms(1) by simp
  ultimately show ?thesis by (intro sort_key_inj_key_eq) auto
qed

lemma keys_mapped [simp]: "map_keys (map (\<lambda>kv. (fst kv, f (snd kv))) kvs) = map_keys kvs"
  by (simp add: map_keys_def comp_def)

lemma mset_object_order: "mset (object_order kvs) = mset kvs"
  by (simp add: object_order_def)

lemma distinct_keys_mset: "mset ps = mset qs \<Longrightarrow> distinct (map_keys ps) = distinct (map_keys qs)"
  unfolding map_keys_def by (intro mset_eq_imp_distinct_iff) (metis mset_map)

lemma sortDeep_ok: "json_wf v \<Longrightarrow> json_ok (sortDeep v)"
proof (induction v)
  case (JArr xs)
  then show ?case by (auto simp: list_all_iff)
next
  case (JObj kvs)
  let ?m = "map (\<lambda>kv. (fst kv, sortDeep (snd kv))) kvs"
  have "distinct (map_keys ?m)" using JObj.prems by (simp only: keys_mapped json_wf.simps)
  then have "distinct (map_keys (sort_key fst ?m))"
    using distinct_keys_mset[of "sort_key fst ?m" ?m] by simp
  moreover have "\<forall>p\<in>set (sort_key fst ?m). json_ok (snd p)"
    using JObj by (auto simp: list_all_iff snds.simps)
  ultimately show ?case
    unfolding sortDeep_obj json_ok.simps list_all_iff set_object_order
    by (intro conjI distinct_keys_object_order object_order_idem)
qed simp_all

lemma sortDeep_reorders: "reorders v (sortDeep v)"
proof (induction v)
  case (JArr xs)
  then have "list_all2 reorders xs (map sortDeep xs)"
    by (simp add: list_all2_conv_all_nth)
  then show ?case by (simp add: reorders.elements)
next
  case (JObj kvs)
  let ?m = "map (\<lambda>kv. (fst kv, sortDeep (snd kv))) kvs"
  have "list_all2 (\<lambda>p q. fst p = fst q \<and> reorders (snd p) (snd q)) kvs ?m"
    using JObj by (auto simp: list_all2_conv_all_nth snds.simps)
  then have "reorders (JObj kvs) (JObj ?m)" by (rule reorders.members)
  moreover have "reorders (JObj ?m) (sortDeep (JObj kvs))"
    unfolding sortDeep_obj by (intro reorders.permute) (simp add: mset_object_order)
  ultimately show ?case by (rule reorders.trans)
qed (simp_all add: reorders.refl)

lemma reorders_sym: "reorders v w \<Longrightarrow> reorders w v"
proof (induction rule: reorders.induct)
  case (elements xs ys)
  then have "list_all2 reorders ys xs" by (simp add: list_all2_conv_all_nth)
  then show ?case by (rule reorders.elements)
next
  case (members ps qs)
  then have "list_all2 (\<lambda>p q. fst p = fst q \<and> reorders (snd p) (snd q)) qs ps"
    by (simp add: list_all2_conv_all_nth)
  then show ?case by (rule reorders.members)
next
  case (permute ps qs)
  then show ?case by (simp add: reorders.permute)
qed (auto intro: reorders.intros)

lemma sortDeep_canonical: "reorders v w \<Longrightarrow> json_wf v \<Longrightarrow> sortDeep v = sortDeep w \<and> json_wf w"
proof (induction rule: reorders.induct)
  case (elements xs ys)
  then have len: "length xs = length ys" and
    each: "\<forall>i<length xs. sortDeep (xs ! i) = sortDeep (ys ! i) \<and> json_wf (ys ! i)"
    by (auto simp: list_all2_conv_all_nth list_all_length)
  then have "map sortDeep xs = map sortDeep ys" by (intro nth_equalityI) auto
  with len each show ?case by (simp add: list_all_length)
next
  case (members ps qs)
  then have len: "length ps = length qs" and
    each: "\<forall>i<length ps. fst (ps ! i) = fst (qs ! i) \<and> sortDeep (snd (ps ! i)) = sortDeep (snd (qs ! i)) \<and> json_wf (snd (qs ! i))"
    by (auto simp: list_all2_conv_all_nth list_all_length)
  then have "map (\<lambda>kv. (fst kv, sortDeep (snd kv))) ps = map (\<lambda>kv. (fst kv, sortDeep (snd kv))) qs"
    "map_keys ps = map_keys qs"
    unfolding map_keys_def by (intro nth_equalityI; simp)+
  with members.prems len each show ?case unfolding sortDeep_obj by (simp add: list_all_length)
next
  case (permute ps qs)
  let ?m = "map (\<lambda>kv. (fst kv, sortDeep (snd kv)))"
  have "mset (?m ps) = mset (?m qs)" using permute(1) by simp
  moreover have "distinct (map_keys (?m ps))" using permute.prems by (simp only: keys_mapped json_wf.simps)
  ultimately have "sort_key fst (?m ps) = sort_key fst (?m qs)" by (rule sort_by_key_unique)
  moreover have "set ps = set qs" using permute(1) by (rule mset_eq_setD)
  moreover have "distinct (map_keys qs)"
    using permute.prems distinct_keys_mset[OF permute(1)] by simp
  ultimately show ?case using permute.prems unfolding sortDeep_obj by (simp add: list_all_iff)
qed auto

text \<open>Sorting keeps the fields and the keys of an object.\<close>

lemma own_field_sortDeep:
  assumes "json_wf (JObj kvs)"
  shows "own_field k (sortDeep (JObj kvs)) = map_option sortDeep (own_field k (JObj kvs))"
proof -
  let ?m = "map (\<lambda>kv. (fst kv, sortDeep (snd kv))) kvs"
  have d: "distinct (map_keys ?m)" using assms by (simp only: keys_mapped json_wf.simps)
  have "distinct (map_keys (sort_key fst ?m))" using d distinct_keys_mset[of "sort_key fst ?m" ?m] by simp
  then have "map_of (object_order (sort_key fst ?m)) = map_of (sort_key fst ?m)" by (rule map_of_object_order)
  also have "\<dots> = map_of ?m"
    using d \<open>distinct (map_keys (sort_key fst ?m))\<close>
    by (intro iffD2[OF map_of_inject_set]) (simp_all only: map_keys_def set_sort)
  finally have "map_of (object_order (sort_key fst ?m)) k = map_of ?m k" by simp
  moreover have "map_of ?m k = map_option sortDeep (map_of kvs k)" by (induction kvs) auto
  ultimately show ?thesis unfolding sortDeep_obj by simp
qed

lemma keys_sortDeep: "set (map_keys (object_entries (sortDeep v))) = set (map_keys (object_entries v))"
  by (cases v) (simp_all add: map_keys_def image_image)

text \<open>Objects with the same canonical bytes have the same fields, up to the order below them.\<close>

lemma same_bytes_same_fields:
  assumes "json_wf (JObj ks)" and "json_wf (JObj ls)" and "canonicalJson (JObj ks) = canonicalJson (JObj ls)"
  shows "map_option sortDeep (own_field k (JObj ks)) = map_option sortDeep (own_field k (JObj ls))"
proof -
  have "json_parse (canonicalJson (JObj ks)) = Some (sortDeep (JObj ks))"
    "json_parse (canonicalJson (JObj ls)) = Some (sortDeep (JObj ls))"
    unfolding canonicalJson_def by (intro json_parse_text sortDeep_ok assms)+
  then have "sortDeep (JObj ks) = sortDeep (JObj ls)" using assms(3) by simp
  then show ?thesis using own_field_sortDeep[OF assms(1), of k] own_field_sortDeep[OF assms(2), of k] by metis
qed

section \<open>Properties\<close>

text \<open>
  C12: Canonical JSON is canonical: two well-formed values have the same bytes exactly when they
  differ only in the order of their members.  So what was signed pins the arguments, and
  rebuilding the arguments in another key order does not change the signature.
\<close>

theorem canonicalJson_iff_reorders:
  assumes "json_wf v" and "json_wf w"
  shows "canonicalJson v = canonicalJson w \<longleftrightarrow> reorders v w"
proof
  assume "canonicalJson v = canonicalJson w"
  moreover have "json_parse (canonicalJson v) = Some (sortDeep v)" "json_parse (canonicalJson w) = Some (sortDeep w)"
    unfolding canonicalJson_def by (rule json_parse_text, rule sortDeep_ok, rule assms)+
  ultimately have "sortDeep v = sortDeep w" by simp
  then show "reorders v w"
    using sortDeep_reorders[of v] reorders_sym[OF sortDeep_reorders[of w]] by (auto intro: reorders.trans)
next
  assume "reorders v w"
  from sortDeep_canonical[OF this assms(1)] show "canonicalJson v = canonicalJson w"
    by (simp add: canonicalJson_def)
qed

lemma canonicalJson_iff_reorders_witness:
  "canonicalJson (JObj [(''b'', JNull), (''a'', JBool True)]) = canonicalJson (JObj [(''a'', JBool True), (''b'', JNull)])"
proof -
  have "reorders (JObj [(''b'', JNull), (''a'', JBool True)]) (JObj [(''a'', JBool True), (''b'', JNull)])"
    by (rule reorders.permute) simp
  moreover have "json_wf (JObj [(''b'', JNull), (''a'', JBool True)])" "json_wf (JObj [(''a'', JBool True), (''b'', JNull)])"
    by (simp_all add: map_keys_def)
  ultimately show ?thesis using canonicalJson_iff_reorders by blast
qed

text \<open>
  C33: The executor runs what was canonicalized: parsing the canonical bytes of a well-formed value
  gives that value back up to the order of members.
\<close>

theorem canonical_bytes_parse_back:
  assumes "json_wf v"
  shows "\<exists>w. json_parse (canonicalizeArgs v) = Some w \<and> reorders v w"
  using json_parse_text[OF sortDeep_ok[OF assms]] sortDeep_reorders[of v] by (auto simp: canonicalizeArgs_def)

lemma canonical_bytes_parse_back_witness:
  "\<exists>w. json_parse (canonicalizeArgs (JObj [(''n'', JNum (NInt 7))])) = Some w \<and> reorders (JObj [(''n'', JNum (NInt 7))]) w"
  by (rule canonical_bytes_parse_back) (simp add: map_keys_def is_safe_int_def MAX_SAFE_INTEGER_def)

text \<open>
  The keys of the text are not in lexicographic order when integer-like keys occur: JavaScript
  enumerates those first and by value.
\<close>

lemma canonical_integer_keys_by_value:
  "sortDeep (JObj [(''10'', JNull), (''9'', JNull)]) = JObj [(''9'', JNull), (''10'', JNull)] \<and> ''10'' < (''9'' :: string)"
  by (simp add: object_order_def array_index_key_def digits_value_def is_digit_def code_unit_def less_char_def)

end
