(* ===== verification/Executor.thy ===== *)
theory Executor
  imports StatusClient
begin

text \<open>
  The executor's front door, \<open>packages/executor/src/executor.ts\<close>: the pure refusal core
  \<open>refuseTicket\<close> and the class \<open>Executor\<close>, whose \<open>run\<close> awaits a live kill state twice; with the
  ticket of \<open>ticket.ts\<close> and the adapter of \<open>live-kill-state.ts\<close>.

  A run suspends at its two awaits, so many runs of one executor interleave: the state holds the
  consumed nonces and every attempt with where it stands, and an event starts a run or delivers
  the answer an attempt awaits (\<open>None\<close> when the lookup threw) with the clock reading of the code
  that resumes.  The connector's own result is not modelled: an attempt ends refused or dispatched.
\<close>

section \<open>Tickets and live answers\<close>

record action_ticket =
  at_agentId :: string
  at_sourceTool :: string
  at_decision :: decision
  at_ruleId :: "string option"
  at_connector :: string
  at_operation :: string
  at_canonicalArgs :: string
  at_resourceId :: string
  at_policyVersion :: string
  at_killEpoch :: int
  at_expiresAt :: millis
  at_nonce :: string

record live_kill_state =
  lk_killed :: bool
  lk_epoch :: int
  lk_killedAgents :: "string list option"
  lk_grantLive :: "bool option"
  lk_committed :: "bool option"

definition plain_live :: "bool \<Rightarrow> int \<Rightarrow> live_kill_state" where
  "plain_live killed epoch =
     \<lparr>lk_killed = killed, lk_epoch = epoch, lk_killedAgents = None, lk_grantLive = None, lk_committed = None\<rparr>"

definition liveKillState :: "kill_state \<Rightarrow> live_kill_state" where
  "liveKillState st =
     (if ks_killed st then plain_live True (case ks_epoch st of None \<Rightarrow> -1 | Some e \<Rightarrow> e)
      else
        case ks_epoch st of
          None \<Rightarrow> plain_live True (-1)
        | Some e \<Rightarrow> (plain_live False e)\<lparr>lk_killedAgents := Some (ks_killedAgents st)\<rparr>)"

section \<open>The refusal core\<close>

datatype refusal_code = KillEngaged | EpochMismatch | TicketExpired | NonceConsumed

record refusal =
  rf_code :: refusal_code
  rf_reason :: string

definition scope_listed :: "live_kill_state \<Rightarrow> string \<Rightarrow> bool" where
  "scope_listed live agent \<longleftrightarrow> (case lk_killedAgents live of None \<Rightarrow> False | Some ids \<Rightarrow> agent \<in> set ids)"

definition refuseTicket :: "action_ticket \<Rightarrow> live_kill_state \<Rightarrow> millis \<Rightarrow> string set \<Rightarrow> refusal option" where
  "refuseTicket ticket live now consumed =
     (if lk_killed live then
        Some \<lparr>rf_code = KillEngaged, rf_reason = ''kill switch engaged - nothing executes''\<rparr>
      else if scope_listed live (at_agentId ticket) then
        Some \<lparr>rf_code = KillEngaged,
              rf_reason = ''agent '' @ quoted (at_agentId ticket) @ '' is scope-killed - its tickets do not execute''\<rparr>
      else if at_killEpoch ticket \<noteq> lk_epoch live then
        Some \<lparr>rf_code = EpochMismatch,
              rf_reason = ''ticket minted in kill epoch '' @ show_int (at_killEpoch ticket) @ '', current epoch is '' @
                show_int (lk_epoch live) @ '' - a kill happened in between; approvals do not survive it''\<rparr>
      else if at_expiresAt ticket \<le> now then
        Some \<lparr>rf_code = TicketExpired, rf_reason = ''ticket expired - a yes is not a standing grant''\<rparr>
      else if at_nonce ticket \<in> consumed then
        Some \<lparr>rf_code = NonceConsumed, rf_reason = ''ticket already used - tickets are single-use''\<rparr>
      else None)"

section \<open>Runs\<close>

datatype attempt =
    FirstCheck action_ticket
  | SecondCheck action_ticket
  | Refused action_ticket refusal
  | Dispatched action_ticket

record executor =
  ex_consumed :: "string set"
  ex_attempts :: "attempt list"

definition new_executor :: executor where
  "new_executor = \<lparr>ex_consumed = {}, ex_attempts = []\<rparr>"

definition fetchLive :: "live_kill_state option \<Rightarrow> live_kill_state" where
  "fetchLive answer = (case answer of None \<Rightarrow> plain_live True (-1) | Some live \<Rightarrow> live)"

text \<open>What the code after an await does with the attempt that was waiting, and the nonces.\<close>

fun resume :: "live_kill_state \<Rightarrow> millis \<Rightarrow> string set \<Rightarrow> attempt \<Rightarrow> string set \<times> attempt" where
  "resume live now consumed (FirstCheck ticket) =
     (case refuseTicket ticket live now consumed of
        Some r \<Rightarrow> (consumed, Refused ticket r)
      | None \<Rightarrow> (insert (at_nonce ticket) consumed, SecondCheck ticket))"
| "resume live now consumed (SecondCheck ticket) =
     (case refuseTicket ticket live now {} of
        Some r \<Rightarrow> (consumed, Refused ticket r)
      | None \<Rightarrow> (consumed, Dispatched ticket))"
| "resume live now consumed a = (consumed, a)"

datatype executor_event =
    Run action_ticket
  | Answered nat "live_kill_state option" millis

fun executor_step :: "executor \<Rightarrow> executor_event \<Rightarrow> executor" where
  "executor_step ex (Run ticket) = ex\<lparr>ex_attempts := ex_attempts ex @ [FirstCheck ticket]\<rparr>"
| "executor_step ex (Answered i answer now) =
     (if i < length (ex_attempts ex) then
        let (consumed, a) = resume (fetchLive answer) now (ex_consumed ex) (ex_attempts ex ! i)
        in ex\<lparr>ex_consumed := consumed, ex_attempts := (ex_attempts ex)[i := a]\<rparr>
      else ex)"

section \<open>At most one burn per nonce\<close>

text \<open>The attempts past the burn of this nonce that may still dispatch or did.\<close>

fun holds_nonce :: "string \<Rightarrow> attempt \<Rightarrow> bool" where
  "holds_nonce n (SecondCheck t) = (at_nonce t = n)"
| "holds_nonce n (Dispatched t) = (at_nonce t = n)"
| "holds_nonce n _ = False"

definition holders :: "string \<Rightarrow> attempt list \<Rightarrow> nat" where
  "holders n as = length (filter (holds_nonce n) as)"

definition nonces_ok :: "executor \<Rightarrow> bool" where
  "nonces_ok ex \<longleftrightarrow> (\<forall>n. holders n (ex_attempts ex) \<le> (if n \<in> ex_consumed ex then 1 else 0))"

lemma holders_update:
  "i < length as \<Longrightarrow>
     holders n (as[i := a]) + (if holds_nonce n (as ! i) then 1 else 0) =
     holders n as + (if holds_nonce n a then 1 else 0)"
proof (induction as arbitrary: i)
  case (Cons x xs)
  then show ?case by (cases i) (auto simp: holders_def)
qed simp

lemma refuse_None:
  "refuseTicket ticket live now consumed = None \<longleftrightarrow>
     \<not> lk_killed live \<and> \<not> scope_listed live (at_agentId ticket) \<and> at_killEpoch ticket = lk_epoch live \<and>
     now < at_expiresAt ticket \<and> at_nonce ticket \<notin> consumed"
  by (auto simp: refuseTicket_def)

lemma resume_holders:
  assumes "resume live now consumed a = (consumed', a')"
  shows "consumed \<subseteq> consumed'"
    "(if holds_nonce n a' then 1 else 0::nat) \<le> (if holds_nonce n a then 1 else 0) +
       (if n \<in> consumed' \<and> n \<notin> consumed then 1 else 0)"
  using assms by (cases a; auto simp: refuse_None split: option.splits)+

lemma nonces_step: "nonces_ok ex \<Longrightarrow> nonces_ok (executor_step ex ev)"
proof (cases ev)
  case (Run ticket)
  assume "nonces_ok ex"
  with Run show ?thesis by (auto simp: nonces_ok_def holders_def)
next
  case (Answered i answer now)
  assume ok: "nonces_ok ex"
  show ?thesis
  proof (cases "i < length (ex_attempts ex)")
    case True
    obtain consumed' a' where r: "resume (fetchLive answer) now (ex_consumed ex) (ex_attempts ex ! i) = (consumed', a')"
      by fastforce
    have "holders n ((ex_attempts ex)[i := a']) \<le> (if n \<in> consumed' then 1 else 0)" for n
    proof -
      have "holders n (ex_attempts ex) \<le> (if n \<in> ex_consumed ex then 1 else 0)"
        using ok by (simp add: nonces_ok_def)
      with holders_update[OF True, of n a'] resume_holders(2)[OF r, of n] resume_holders(1)[OF r] show ?thesis
        by (auto split: if_splits)
    qed
    with Answered True r show ?thesis by (simp add: nonces_ok_def)
  qed (use ok Answered in simp)
qed

interpretation executor_machine: machine executor_step nonces_ok
  by unfold_locales (rule nonces_step)

section \<open>What lets an attempt through\<close>







section \<open>Properties\<close>

text \<open>
  C8: Tickets are single-use under every interleaving: however many runs with one nonce are in
  flight and in whatever order their lookups answer, at most one of them is ever dispatched.
\<close>

theorem one_dispatch_per_nonce:
  "length (filter (\<lambda>a. case a of Dispatched t \<Rightarrow> at_nonce t = n | _ \<Rightarrow> False)
     (ex_attempts (foldl executor_step new_executor es))) \<le> 1"
proof -
  let ?ex = "foldl executor_step new_executor es"
  have "nonces_ok new_executor" by (simp add: nonces_ok_def new_executor_def holders_def)
  then have "nonces_ok ?ex" by (rule executor_machine.inv_run)
  then have "holders n (ex_attempts ?ex) \<le> 1" by (auto simp: nonces_ok_def split: if_splits)
  moreover have "length (filter (\<lambda>a. case a of Dispatched t \<Rightarrow> at_nonce t = n | _ \<Rightarrow> False) as) \<le> holders n as" for as
    by (induction as) (auto simp: holders_def split: attempt.splits)
  ultimately show ?thesis by (meson order_trans)
qed




text \<open>
  The adapter over \<open>/status\<close> keeps the fail-closed direction: it says not killed only for a
  well-formed running answer, and then carries that answer's epoch and scoped kills.
\<close>

theorem liveKillState_fail_closed:
  "(\<not> lk_killed (liveKillState (fetchKillState a)) \<and> lk_epoch (liveKillState (fetchKillState a)) = ep \<and>
    lk_killedAgents (liveKillState (fetchKillState a)) = Some ids) \<longleftrightarrow> running_answer a ep ids"
proof -
  have "(\<not> lk_killed (liveKillState st) \<and> lk_epoch (liveKillState st) = ep \<and> lk_killedAgents (liveKillState st) = Some ids) \<longleftrightarrow>
      (\<not> ks_killed st \<and> ks_epoch st = Some ep \<and> ks_killedAgents st = ids)" for st
    by (auto simp: liveKillState_def plain_live_def split: option.splits)
  then show ?thesis by (simp add: fetch_running_iff)
qed

end
