(* ===== verification/MergeArgs.thy ===== *)
theory MergeArgs
  imports CanonicalJson
begin

text \<open>
  \<open>packages/shared/src/merge-args.ts\<close>: the closed argument schema of a GitHub merge
  (\<open>parseMergePrArgs\<close>), the display rules for its identifiers and the structure the owner
  approves (\<open>buildRenderableApproval\<close>).

  In the modelled code units, U+0000 to U+00FF, the refused Unicode categories come to the two
  control ranges and the soft hyphen, and every string is in NFC.
\<close>

section \<open>Display rules\<close>

definition GITHUB_CONNECTOR :: string where "GITHUB_CONNECTOR = ''github''"

definition MERGE_PULL_REQUEST :: string where "MERGE_PULL_REQUEST = ''merge_pull_request''"

definition unsafe_display_char :: "char \<Rightarrow> bool" where
  "unsafe_display_char c \<longleftrightarrow>
     code_unit c < 32 \<or> (127 \<le> code_unit c \<and> code_unit c < 160) \<or> code_unit c = 173"

definition isSafeToDisplay :: "string \<Rightarrow> bool" where
  "isSafeToDisplay s \<longleftrightarrow> \<not> list_ex unsafe_display_char s"

definition isAsciiDisplaySafeRef :: "string \<Rightarrow> bool" where
  "isAsciiDisplaySafeRef s \<longleftrightarrow>
     s \<noteq> [] \<and> list_all (\<lambda>c. 33 \<le> code_unit c \<and> code_unit c \<le> 126) s \<and> isSafeToDisplay s"

section \<open>Arguments\<close>

datatype merge_method = MethodMerge | MethodSquash | MethodRebase

record merge_args =
  ma_owner :: string
  ma_repo :: string
  ma_pullNumber :: int
  ma_expectedHeadSha :: string
  ma_expectedBaseRef :: string
  ma_mergeMethod :: "merge_method option"

definition MERGE_PR_CANONICAL_KEYS :: "string list" where
  "MERGE_PR_CANONICAL_KEYS =
     [''owner'', ''repo'', ''pullNumber'', ''mergeMethod'', ''expectedHeadSha'', ''expectedBaseRef'']"

definition MAX_BASE_REF_LENGTH :: nat where "MAX_BASE_REF_LENGTH = 300"

datatype merge_args_error =
    ArgsNotJson
  | ArgsNotObject
  | UnknownArgument string
  | NeedsOwner
  | NeedsRepo
  | NeedsPullNumber
  | UnknownMergeMethod json
  | NeedsHeadSha
  | NeedsBaseRef

definition MERGE_METHODS :: "(string \<times> merge_method) list" where
  "MERGE_METHODS = [(''merge'', MethodMerge), (''squash'', MethodSquash), (''rebase'', MethodRebase)]"

fun method_text :: "merge_method \<Rightarrow> string" where
  "method_text MethodMerge = ''merge''"
| "method_text MethodSquash = ''squash''"
| "method_text MethodRebase = ''rebase''"

fun positive_integer :: "json option \<Rightarrow> int option" where
  "positive_integer (Some (JNum n)) =
     (case safe_integer n of None \<Rightarrow> None | Some i \<Rightarrow> if i \<le> 0 then None else Some i)"
| "positive_integer _ = None"

fun merge_method_of :: "json option \<Rightarrow> json + merge_method option" where
  "merge_method_of None = Inr None"
| "merge_method_of (Some v) =
     (case v of
        JStr s \<Rightarrow> (case map_of MERGE_METHODS s of None \<Rightarrow> Inl v | Some m \<Rightarrow> Inr (Some m))
      | _ \<Rightarrow> Inl v)"

definition full_commit_id :: "string \<Rightarrow> bool" where
  "full_commit_id s \<longleftrightarrow> (length s = 40 \<or> length s = 64) \<and> list_all (\<lambda>c. hex_value c \<noteq> None) s"

definition base_ref_ok :: "string \<Rightarrow> bool" where
  "base_ref_ok s \<longleftrightarrow> s \<noteq> [] \<and> length s \<le> MAX_BASE_REF_LENGTH \<and> isAsciiDisplaySafeRef s"

fun string_such_that :: "(string \<Rightarrow> bool) \<Rightarrow> json option \<Rightarrow> string option" where
  "string_such_that ok (Some (JStr s)) = (if ok s then Some s else None)"
| "string_such_that ok _ = None"

definition merge_fields :: "json \<Rightarrow> merge_args_error + merge_args" where
  "merge_fields v =
     (case string_such_that (\<lambda>s. s \<noteq> []) (own_field ''owner'' v) of None \<Rightarrow> Inl NeedsOwner | Some owner \<Rightarrow>
     (case string_such_that (\<lambda>s. s \<noteq> []) (own_field ''repo'' v) of None \<Rightarrow> Inl NeedsRepo | Some repo \<Rightarrow>
     (case positive_integer (own_field ''pullNumber'' v) of None \<Rightarrow> Inl NeedsPullNumber | Some pull \<Rightarrow>
     (case merge_method_of (own_field ''mergeMethod'' v) of Inl m \<Rightarrow> Inl (UnknownMergeMethod m) | Inr method \<Rightarrow>
     (case string_such_that full_commit_id (own_field ''expectedHeadSha'' v) of None \<Rightarrow> Inl NeedsHeadSha | Some head \<Rightarrow>
     (case string_such_that base_ref_ok (own_field ''expectedBaseRef'' v) of None \<Rightarrow> Inl NeedsBaseRef | Some base \<Rightarrow>
        Inr \<lparr>ma_owner = owner, ma_repo = repo, ma_pullNumber = pull, ma_expectedHeadSha = head,
             ma_expectedBaseRef = base, ma_mergeMethod = method\<rparr>))))))"

definition parseMergePrArgs :: "string \<Rightarrow> merge_args_error + merge_args" where
  "parseMergePrArgs canonicalArgs =
     (case json_parse canonicalArgs of
        None \<Rightarrow> Inl ArgsNotJson
      | Some v \<Rightarrow>
          if \<not> is_plain_object v then Inl ArgsNotObject
          else
            (case find (\<lambda>k. k \<notin> set MERGE_PR_CANONICAL_KEYS) (map_keys (object_entries v)) of
               Some k \<Rightarrow> Inl (UnknownArgument k)
             | None \<Rightarrow> merge_fields v))"

section \<open>What the owner approves\<close>

record renderable_approval =
  ren_action :: string
  ren_owner :: string
  ren_repo :: string
  ren_pullNumber :: int
  ren_expectedHeadSha :: string
  ren_expectedBaseRef :: string
  ren_mergeMethod :: string

text \<open>The error names the first field that is not safe to display.\<close>

definition buildRenderableApproval :: "merge_args \<Rightarrow> string + renderable_approval" where
  "buildRenderableApproval a =
     (case find (\<lambda>fv. \<not> isSafeToDisplay (snd fv))
             [(''owner'', ma_owner a), (''repo'', ma_repo a), (''expectedBaseRef'', ma_expectedBaseRef a),
              (''expectedHeadSha'', ma_expectedHeadSha a)] of
        Some fv \<Rightarrow> Inl (fst fv)
      | None \<Rightarrow>
          Inr \<lparr>ren_action = ''github.merge_pull_request'', ren_owner = ma_owner a, ren_repo = ma_repo a,
               ren_pullNumber = ma_pullNumber a, ren_expectedHeadSha = ma_expectedHeadSha a,
               ren_expectedBaseRef = ma_expectedBaseRef a,
               ren_mergeMethod = (case ma_mergeMethod a of None \<Rightarrow> ''default'' | Some m \<Rightarrow> method_text m)\<rparr>)"

section \<open>Facts\<close>

text \<open>The argument object of a merge as it is written out, and what makes arguments acceptable.\<close>

definition merge_args_json :: "merge_args \<Rightarrow> json" where
  "merge_args_json a =
     JObj ([(''owner'', JStr (ma_owner a)), (''repo'', JStr (ma_repo a)),
            (''pullNumber'', JNum (NInt (ma_pullNumber a))), (''expectedHeadSha'', JStr (ma_expectedHeadSha a)),
            (''expectedBaseRef'', JStr (ma_expectedBaseRef a))] @
           (case ma_mergeMethod a of None \<Rightarrow> [] | Some m \<Rightarrow> [(''mergeMethod'', JStr (method_text m))]))"

definition merge_args_ok :: "merge_args \<Rightarrow> bool" where
  "merge_args_ok a \<longleftrightarrow> ma_owner a \<noteq> [] \<and> ma_repo a \<noteq> [] \<and> 0 < ma_pullNumber a \<and> is_safe_int (ma_pullNumber a) \<and>
     full_commit_id (ma_expectedHeadSha a) \<and> base_ref_ok (ma_expectedBaseRef a)"

lemma string_such_that_Some: "string_such_that ok x = Some s \<longleftrightarrow> x = Some (JStr s) \<and> ok s"
  by (induction ok x rule: string_such_that.induct) auto

lemma positive_integer_Some: "positive_integer x = Some i \<longleftrightarrow> x = Some (JNum (NInt i)) \<and> 0 < i \<and> is_safe_int i"
  by (cases x rule: positive_integer.cases) (auto split: option.splits if_splits)

lemma method_text_inj: "method_text m = method_text m' \<longleftrightarrow> m = m'"
  by (cases m; cases m') auto

lemma merge_methods_lookup: "map_of MERGE_METHODS s = Some m \<longleftrightarrow> s = method_text m"
  by (cases m) (simp_all add: MERGE_METHODS_def)

lemma merge_method_of_Inr:
  "merge_method_of x = Inr m \<longleftrightarrow> x = map_option (\<lambda>m. JStr (method_text m)) m"
proof (cases x)
  case (Some v)
  show ?thesis
  proof (cases "\<exists>s. v = JStr s")
    case True
    then obtain s where v: "v = JStr s" by blast
    show ?thesis
    proof (cases m)
      case (Some k)
      with v \<open>x = Some v\<close> merge_methods_lookup[of s k] show ?thesis
        by (cases "map_of MERGE_METHODS s") auto
    qed (use v Some in \<open>simp split: option.split\<close>)
  next
    case False
    with Some show ?thesis by (cases m) (auto split: json.split)
  qed
qed auto

lemma merge_fields_Inr:
  "merge_fields v = Inr a \<longleftrightarrow> merge_args_ok a \<and>
     own_field ''owner'' v = Some (JStr (ma_owner a)) \<and> own_field ''repo'' v = Some (JStr (ma_repo a)) \<and>
     own_field ''pullNumber'' v = Some (JNum (NInt (ma_pullNumber a))) \<and>
     own_field ''expectedHeadSha'' v = Some (JStr (ma_expectedHeadSha a)) \<and>
     own_field ''expectedBaseRef'' v = Some (JStr (ma_expectedBaseRef a)) \<and>
     own_field ''mergeMethod'' v = map_option (\<lambda>m. JStr (method_text m)) (ma_mergeMethod a)"
  (is "?l \<longleftrightarrow> ?r")
proof
  show "?l \<Longrightarrow> ?r"
    by (clarsimp simp: merge_fields_def split: option.split_asm sum.split_asm)
       (simp add: merge_args_ok_def string_such_that_Some positive_integer_Some merge_method_of_Inr)
  show "?r \<Longrightarrow> ?l"
    using merge_method_of_Inr[of "own_field ''mergeMethod'' v" "ma_mergeMethod a"]
    by (simp add: merge_fields_def merge_args_ok_def)
qed

lemma own_field_args:
  "own_field ''owner'' (merge_args_json a) = Some (JStr (ma_owner a))"
  "own_field ''repo'' (merge_args_json a) = Some (JStr (ma_repo a))"
  "own_field ''pullNumber'' (merge_args_json a) = Some (JNum (NInt (ma_pullNumber a)))"
  "own_field ''expectedHeadSha'' (merge_args_json a) = Some (JStr (ma_expectedHeadSha a))"
  "own_field ''expectedBaseRef'' (merge_args_json a) = Some (JStr (ma_expectedBaseRef a))"
  "own_field ''mergeMethod'' (merge_args_json a) = map_option (\<lambda>m. JStr (method_text m)) (ma_mergeMethod a)"
  by (cases "ma_mergeMethod a"; simp add: merge_args_json_def)+

lemma args_json_wf: "merge_args_ok a \<Longrightarrow> json_wf (merge_args_json a)"
  by (cases "ma_mergeMethod a") (simp_all add: merge_args_json_def merge_args_ok_def map_keys_def)

lemma args_keys: "set (map_keys (object_entries (merge_args_json a))) \<subseteq> set MERGE_PR_CANONICAL_KEYS"
  by (cases "ma_mergeMethod a") (simp_all add: merge_args_json_def map_keys_def MERGE_PR_CANONICAL_KEYS_def)

section \<open>Properties\<close>

text \<open>
  The parser accepts exactly the closed schema: it returns these arguments if and only if the
  text is a JSON object with no key outside the six, whose fields are these values, with
  non-empty owner and repository, a positive safe pull number, a full commit id as head and a
  printable, bounded base ref.
\<close>

theorem parseMergePrArgs_exact:
  "parseMergePrArgs t = Inr a \<longleftrightarrow>
     (\<exists>kvs. json_parse t = Some (JObj kvs) \<and> set (map_keys kvs) \<subseteq> set MERGE_PR_CANONICAL_KEYS \<and> merge_args_ok a \<and>
        map_of kvs ''owner'' = Some (JStr (ma_owner a)) \<and> map_of kvs ''repo'' = Some (JStr (ma_repo a)) \<and>
        map_of kvs ''pullNumber'' = Some (JNum (NInt (ma_pullNumber a))) \<and>
        map_of kvs ''expectedHeadSha'' = Some (JStr (ma_expectedHeadSha a)) \<and>
        map_of kvs ''expectedBaseRef'' = Some (JStr (ma_expectedBaseRef a)) \<and>
        map_of kvs ''mergeMethod'' = map_option (\<lambda>m. JStr (method_text m)) (ma_mergeMethod a))"
proof (cases "json_parse t")
  case (Some v)
  show ?thesis
  proof (cases v)
    case (JObj kvs)
    have "find (\<lambda>k. k \<notin> set MERGE_PR_CANONICAL_KEYS) (map_keys kvs) = None \<longleftrightarrow> set (map_keys kvs) \<subseteq> set MERGE_PR_CANONICAL_KEYS"
      by (auto simp: find_None_iff)
    with Some JObj show ?thesis
      by (auto simp add: parseMergePrArgs_def merge_fields_Inr simp del: not_None_eq split: option.split)
  qed (simp_all add: parseMergePrArgs_def Some)
qed (simp add: parseMergePrArgs_def)

text \<open>
  Canonical merge arguments read back: writing acceptable arguments out as canonical JSON and
  parsing that text gives the same arguments.
\<close>

theorem merge_args_roundtrip:
  assumes "merge_args_ok a"
  shows "parseMergePrArgs (canonicalJson (merge_args_json a)) = Inr a"
proof -
  let ?v = "merge_args_json a"
  obtain kvs where kvs: "?v = JObj kvs" by (simp add: merge_args_json_def)
  have p: "json_parse (canonicalJson ?v) = Some (sortDeep ?v)"
    unfolding canonicalJson_def by (intro json_parse_text sortDeep_ok args_json_wf assms)
  have fields: "own_field k (sortDeep ?v) = map_option sortDeep (own_field k ?v)" for k
    using own_field_sortDeep[of kvs k] args_json_wf[OF assms] kvs by simp
  have "merge_fields (sortDeep ?v) = Inr a"
    using assms unfolding merge_fields_Inr fields own_field_args by (cases "ma_mergeMethod a") simp_all
  moreover have "find (\<lambda>k. k \<notin> set MERGE_PR_CANONICAL_KEYS) (map_keys (object_entries (sortDeep ?v))) = None"
    using args_keys[of a] keys_sortDeep[of ?v] by (auto simp: find_None_iff)
  moreover have "is_plain_object (sortDeep ?v)" by (simp add: kvs)
  ultimately show ?thesis by (simp add: parseMergePrArgs_def p)
qed

definition demo_args :: merge_args where
  "demo_args = \<lparr>ma_owner = ''o'', ma_repo = ''r'', ma_pullNumber = 7, ma_expectedHeadSha = replicate 40 (CHR ''a''),
     ma_expectedBaseRef = ''main'', ma_mergeMethod = Some MethodSquash\<rparr>"

lemma demo_args_ok: "merge_args_ok demo_args"
  by (simp add: merge_args_ok_def demo_args_def is_safe_int_def MAX_SAFE_INTEGER_def full_commit_id_def hex_value_def
      is_digit_def code_unit_def base_ref_ok_def MAX_BASE_REF_LENGTH_def isAsciiDisplaySafeRef_def isSafeToDisplay_def
      unsafe_display_char_def list_all_iff)

lemma merge_args_roundtrip_witness:
  "parseMergePrArgs (canonicalJson (merge_args_json demo_args)) = Inr demo_args"
  by (rule merge_args_roundtrip[OF demo_args_ok])

text \<open>
  The owner approves the merge that runs: two merges are rendered alike only if they are the
  same, and every identifier that is rendered is free of characters that hide or reorder it.
\<close>

theorem renderable_pins_merge:
  assumes "buildRenderableApproval a = Inr r" and "buildRenderableApproval b = Inr r"
  shows "a = b \<and> isSafeToDisplay (ren_owner r) \<and> isSafeToDisplay (ren_repo r) \<and>
     isSafeToDisplay (ren_expectedBaseRef r) \<and> isSafeToDisplay (ren_expectedHeadSha r)"
proof -
  define shown where "shown = (\<lambda>m. case m of None \<Rightarrow> ''default'' | Some m \<Rightarrow> method_text m)"
  have default: "method_text m \<noteq> ''default''" for m by (cases m) simp_all
  have inj: "m = m'" if "shown m = shown m'" for m m'
    using that default default[symmetric] method_text_inj by (cases m; cases m') (simp_all add: shown_def)
  from assms show ?thesis
    by (auto simp: buildRenderableApproval_def shown_def[symmetric] split: if_splits dest: inj)
qed

lemma renderable_pins_merge_witness:
  "buildRenderableApproval demo_args = Inr \<lparr>ren_action = ''github.merge_pull_request'', ren_owner = ''o'', ren_repo = ''r'',
     ren_pullNumber = 7, ren_expectedHeadSha = replicate 40 (CHR ''a''), ren_expectedBaseRef = ''main'',
     ren_mergeMethod = ''squash''\<rparr> \<and> isSafeToDisplay ''main''"
proof -
  have "buildRenderableApproval demo_args = Inr \<lparr>ren_action = ''github.merge_pull_request'', ren_owner = ''o'', ren_repo = ''r'',
     ren_pullNumber = 7, ren_expectedHeadSha = replicate 40 (CHR ''a''), ren_expectedBaseRef = ''main'',
     ren_mergeMethod = ''squash''\<rparr>"
    by (simp add: buildRenderableApproval_def demo_args_def isSafeToDisplay_def list_ex_iff unsafe_display_char_def code_unit_def)
  from renderable_pins_merge[OF this this] this show ?thesis by simp
qed

end
