(* ===== verification/MergeGrant.thy ===== *)
theory MergeGrant
  imports Crypto CanonicalJson
begin

text \<open>
  The merge grant of \<open>packages/shared/src/merge-grant.ts\<close>: what the control plane signs
  (\<open>signMergeGrant\<close>) and the broker's check of what it is presented (\<open>verifyMergeGrant\<close>).
  A presented grant is parsed JSON.  HMAC-SHA-256 is the parameter \<open>mac\<close>, SHA-256 in
  hexadecimal the parameter \<open>sha\<close>.
\<close>

section \<open>The grant\<close>

record merge_grant =
  mg_jti :: string
  mg_agentId :: string
  mg_tool :: string
  mg_connector :: string
  mg_operation :: string
  mg_policyVersion :: string
  mg_canonicalArgs :: string
  mg_callHash :: string
  mg_killEpoch :: int
  mg_expiresAt :: js_num

definition grant_json :: "merge_grant \<Rightarrow> json" where
  "grant_json g =
     JObj [(''v'', JNum (NInt 2)), (''jti'', JStr (mg_jti g)), (''agentId'', JStr (mg_agentId g)),
       (''tool'', JStr (mg_tool g)), (''connector'', JStr (mg_connector g)), (''operation'', JStr (mg_operation g)),
       (''policyVersion'', JStr (mg_policyVersion g)), (''canonicalArgs'', JStr (mg_canonicalArgs g)),
       (''callHash'', JStr (mg_callHash g)), (''killEpoch'', JNum (NInt (mg_killEpoch g))),
       (''expiresAt'', JNum (mg_expiresAt g))]"

definition grantMessage :: "merge_grant \<Rightarrow> string" where
  "grantMessage g = canonicalJson (grant_json g)"

text \<open>The wire form: the grant and its signature; the empty key throws.\<close>

definition signMergeGrant :: "mac \<Rightarrow> merge_grant \<Rightarrow> string \<Rightarrow> string + json" where
  "signMergeGrant mac g key =
     (if key = [] then Inl ''grant key must not be empty''
      else Inr (JObj (object_entries (grant_json g) @ [(''sig'', JStr (hex_encode (mac key (grantMessage g))))])))"

section \<open>Verification\<close>

fun string_field :: "json option \<Rightarrow> string option" where
  "string_field (Some (JStr s)) = Some s"
| "string_field _ = None"

fun number_field :: "json option \<Rightarrow> js_num option" where
  "number_field (Some (JNum n)) = Some n"
| "number_field _ = None"

fun is_object :: "json \<Rightarrow> bool" where
  "is_object (JObj _) = True"
| "is_object (JArr _) = True"
| "is_object _ = False"

text \<open>The field checks: the grant and its signature, \<open>None\<close> where a field is missing or malformed.\<close>

definition grant_of :: "json \<Rightarrow> (merge_grant \<times> string) option" where
  "grant_of s =
     (case (string_field (own_field ''jti'' s), string_field (own_field ''agentId'' s),
            string_field (own_field ''tool'' s), string_field (own_field ''connector'' s),
            string_field (own_field ''operation'' s), string_field (own_field ''policyVersion'' s),
            string_field (own_field ''canonicalArgs'' s), string_field (own_field ''callHash'' s),
            Option.bind (number_field (own_field ''killEpoch'' s)) safe_integer,
            number_field (own_field ''expiresAt'' s), string_field (own_field ''sig'' s)) of
        (Some jti, Some agent, Some tool, Some con, Some opn, Some pol, Some args, Some hash, Some ep, Some ex, Some sg) \<Rightarrow>
          if con = [] \<or> opn = [] \<or> \<not> is_finite_num ex \<or> sg = [] then None
          else Some (\<lparr>mg_jti = jti, mg_agentId = agent, mg_tool = tool, mg_connector = con, mg_operation = opn,
                      mg_policyVersion = pol, mg_canonicalArgs = args, mg_callHash = hash, mg_killEpoch = ep,
                      mg_expiresAt = ex\<rparr>, sg)
      | _ \<Rightarrow> None)"

definition verifyMergeGrant ::
  "mac \<Rightarrow> (string \<Rightarrow> string) \<Rightarrow> json \<Rightarrow> string \<Rightarrow> millis \<Rightarrow> string + merge_grant" where
  "verifyMergeGrant mac sha s key now =
     (if key = [] then Inl ''no grant key configured''
      else if \<not> is_object s then Inl ''grant is not an object''
      else if own_field ''v'' s \<noteq> Some (JNum (NInt 2)) then Inl ''unsupported grant version''
      else
        (case grant_of s of
           None \<Rightarrow> Inl ''grant is missing or malformed fields''
         | Some (g, sg) \<Rightarrow>
             if hex_decode sg \<noteq> mac key (grantMessage g) then Inl ''grant signature does not verify''
             else if sha (mg_canonicalArgs g) \<noteq> mg_callHash g then
               Inl ''grant callHash does not match its canonicalArgs''
             else if \<not> before_num now (mg_expiresAt g) then Inl ''grant has expired''
             else Inr g))"

section \<open>Facts\<close>

text \<open>A grant whose numbers are printed the way they are read.\<close>

definition grant_wf :: "merge_grant \<Rightarrow> bool" where
  "grant_wf g \<longleftrightarrow> is_safe_int (mg_killEpoch g) \<and> num_ok (mg_expiresAt g)"

lemma string_field_Some [simp]: "string_field x = Some s \<longleftrightarrow> x = Some (JStr s)"
  by (cases x rule: string_field.cases) auto

lemma number_field_Some [simp]: "number_field x = Some n \<longleftrightarrow> x = Some (JNum n)"
  by (cases x rule: number_field.cases) auto

lemma small_int_safe: "is_safe_int 2"
  by (simp add: is_safe_int_def MAX_SAFE_INTEGER_def)

lemma grant_json_wf: "grant_wf g \<Longrightarrow> json_wf (grant_json g)"
  by (simp add: grant_json_def grant_wf_def small_int_safe map_keys_def)


text \<open>The wire value holds these fields and this signature.\<close>

definition carries :: "json \<Rightarrow> merge_grant \<Rightarrow> string \<Rightarrow> bool" where
  "carries s g sg \<longleftrightarrow>
     own_field ''jti'' s = Some (JStr (mg_jti g)) \<and> own_field ''agentId'' s = Some (JStr (mg_agentId g)) \<and>
     own_field ''tool'' s = Some (JStr (mg_tool g)) \<and> own_field ''connector'' s = Some (JStr (mg_connector g)) \<and>
     own_field ''operation'' s = Some (JStr (mg_operation g)) \<and>
     own_field ''policyVersion'' s = Some (JStr (mg_policyVersion g)) \<and>
     own_field ''canonicalArgs'' s = Some (JStr (mg_canonicalArgs g)) \<and>
     own_field ''callHash'' s = Some (JStr (mg_callHash g)) \<and>
     own_field ''killEpoch'' s = Some (JNum (NInt (mg_killEpoch g))) \<and>
     own_field ''expiresAt'' s = Some (JNum (mg_expiresAt g)) \<and> own_field ''sig'' s = Some (JStr sg)"

definition grant_fields_ok :: "merge_grant \<Rightarrow> bool" where
  "grant_fields_ok g \<longleftrightarrow>
     mg_connector g \<noteq> [] \<and> mg_operation g \<noteq> [] \<and> is_safe_int (mg_killEpoch g) \<and> is_finite_num (mg_expiresAt g)"

lemma epoch_field: "Option.bind (number_field x) safe_integer = Some i \<longleftrightarrow> x = Some (JNum (NInt i)) \<and> is_safe_int i"
  by (auto simp: bind_eq_Some_conv)

lemma grant_of_Some: "grant_of s = Some (g, sg) \<longleftrightarrow> carries s g sg \<and> grant_fields_ok g \<and> sg \<noteq> []"
proof
  assume "grant_of s = Some (g, sg)"
  then show "carries s g sg \<and> grant_fields_ok g \<and> sg \<noteq> []"
    unfolding grant_of_def
    by (clarsimp split: option.split_asm if_split_asm simp del: not_None_eq)
       (simp add: carries_def grant_fields_ok_def epoch_field)
next
  assume "carries s g sg \<and> grant_fields_ok g \<and> sg \<noteq> []"
  then show "grant_of s = Some (g, sg)" by (simp add: grant_of_def carries_def grant_fields_ok_def)
qed

lemma own_grant_fields:
  "own_field ''jti'' (grant_json g) = Some (JStr (mg_jti g))"
  "own_field ''agentId'' (grant_json g) = Some (JStr (mg_agentId g))"
  "own_field ''tool'' (grant_json g) = Some (JStr (mg_tool g))"
  "own_field ''connector'' (grant_json g) = Some (JStr (mg_connector g))"
  "own_field ''operation'' (grant_json g) = Some (JStr (mg_operation g))"
  "own_field ''policyVersion'' (grant_json g) = Some (JStr (mg_policyVersion g))"
  "own_field ''canonicalArgs'' (grant_json g) = Some (JStr (mg_canonicalArgs g))"
  "own_field ''callHash'' (grant_json g) = Some (JStr (mg_callHash g))"
  "own_field ''killEpoch'' (grant_json g) = Some (JNum (NInt (mg_killEpoch g)))"
  "own_field ''expiresAt'' (grant_json g) = Some (JNum (mg_expiresAt g))"
  by (simp_all add: grant_json_def)

lemma own_signed_fields:
  "k \<noteq> ''sig'' \<Longrightarrow> own_field k (JObj (object_entries (grant_json g) @ [(''sig'', v)])) = own_field k (grant_json g)"
  "own_field ''sig'' (JObj (object_entries (grant_json g) @ [(''sig'', v)])) = Some v"
  by (simp_all add: grant_json_def map_add_def split: option.split)

lemma grantMessage_inj:
  assumes "grant_wf g" "grant_wf h" "grantMessage g = grantMessage h"
  shows "g = h"
proof -
  obtain ks ls where "grant_json g = JObj ks" "grant_json h = JObj ls" by (simp add: grant_json_def)
  then have "map_option sortDeep (own_field k (grant_json g)) = map_option sortDeep (own_field k (grant_json h))" for k
    using same_bytes_same_fields[of ks ls k] assms(3) grant_json_wf[OF assms(1)] grant_json_wf[OF assms(2)]
    by (simp only: grantMessage_def)
  from this[of "''jti''"] this[of "''agentId''"] this[of "''tool''"] this[of "''connector''"] this[of "''operation''"]
    this[of "''policyVersion''"] this[of "''canonicalArgs''"] this[of "''callHash''"] this[of "''killEpoch''"]
    this[of "''expiresAt''"]
  show ?thesis unfolding own_grant_fields by (intro merge_grant.equality) simp_all
qed

lemma own_field_num_ok: "json_wf s \<Longrightarrow> own_field k s = Some (JNum n) \<Longrightarrow> num_ok n"
  by (cases s) (auto dest!: map_of_SomeD simp: list_all_iff)

section \<open>Properties\<close>

text \<open>
  Verification is exact: a presented value is accepted as this grant if and only if there is
  a key, the value is a version 2 object whose fields are the grant's, well typed and with a
  purpose, its signature decodes to the digest of exactly these fields, the content hash is that
  of the arguments, and the grant has not expired.
\<close>

theorem verifyMergeGrant_exact:
  "verifyMergeGrant mac sha s key now = Inr g \<longleftrightarrow>
     key \<noteq> [] \<and> own_field ''v'' s = Some (JNum (NInt 2)) \<and> grant_fields_ok g \<and>
     (\<exists>sg. sg \<noteq> [] \<and> carries s g sg \<and> hex_decode sg = mac key (grantMessage g)) \<and>
     sha (mg_canonicalArgs g) = mg_callHash g \<and> before_num now (mg_expiresAt g)"
proof -
  have obj: "own_field ''v'' s = Some x \<Longrightarrow> is_object s" for x by (cases s) auto
  show ?thesis
  proof (cases "grant_of s")
    case None
    then have "\<not> (carries s g sg \<and> grant_fields_ok g \<and> sg \<noteq> [])" for sg
      using grant_of_Some[of s g sg] by simp
    with None show ?thesis by (auto simp: verifyMergeGrant_def)
  next
    case (Some gs)
    obtain h sg where gs: "gs = (h, sg)" by fastforce
    with Some have "carries s h sg \<and> grant_fields_ok h \<and> sg \<noteq> []" using grant_of_Some by blast
    moreover from Some gs have "carries s g sg' \<Longrightarrow> grant_fields_ok g \<Longrightarrow> sg' \<noteq> [] \<Longrightarrow> g = h \<and> sg' = sg" for sg'
      using grant_of_Some[of s g sg'] by simp
    ultimately show ?thesis using Some gs obj by (auto simp: verifyMergeGrant_def)
  qed
qed

text \<open>
  What the control plane signs the broker accepts: a signed grant verifies to itself under
  the same key until it expires.
\<close>

theorem signed_grant_verifies:
  assumes "mac_ok mac" and "key \<noteq> []" and "grant_fields_ok g" and "sha (mg_canonicalArgs g) = mg_callHash g"
    and "before_num now (mg_expiresAt g)"
  shows "\<exists>s. signMergeGrant mac g key = Inr s \<and> verifyMergeGrant mac sha s key now = Inr g"
proof -
  let ?sg = "hex_encode (mac key (grantMessage g))"
  let ?s = "JObj (object_entries (grant_json g) @ [(''sig'', JStr ?sg)])"
  have "length (mac key (grantMessage g)) = 32" and bytes: "list_all (\<lambda>b. b < 256) (mac key (grantMessage g))"
    using assms(1) by (simp_all add: mac_ok_def)
  then have "?sg \<noteq> []" by auto
  moreover have "carries ?s g ?sg"
    by (simp add: carries_def own_signed_fields own_grant_fields del: own_field.simps)
  moreover have "own_field ''v'' ?s = Some (JNum (NInt 2))" by (simp add: grant_json_def)
  ultimately have "verifyMergeGrant mac sha ?s key now = Inr g"
    unfolding verifyMergeGrant_exact using assms hex_decode_encode[OF bytes] by blast
  with assms(2) show ?thesis by (simp add: signMergeGrant_def)
qed

definition demo_grant :: merge_grant where
  "demo_grant = \<lparr>mg_jti = ''j'', mg_agentId = ''a'', mg_tool = ''t'', mg_connector = ''github'',
     mg_operation = ''merge_pull_request'', mg_policyVersion = [], mg_canonicalArgs = ''{}'', mg_callHash = ''{}'',
     mg_killEpoch = 2, mg_expiresAt = NInt 100\<rparr>"

definition demo_mac :: mac where
  "demo_mac key msg = replicate 31 0 @ [length key mod 256]"

lemma demo_grant_ok: "grant_fields_ok demo_grant" "grant_wf demo_grant"
  by (simp_all add: grant_fields_ok_def grant_wf_def demo_grant_def is_safe_int_def MAX_SAFE_INTEGER_def)

lemma signed_grant_verifies_witness:
  "\<exists>s. signMergeGrant demo_mac demo_grant ''k'' = Inr s \<and> verifyMergeGrant demo_mac (\<lambda>t. t) s ''k'' 5 = Inr demo_grant"
  by (rule signed_grant_verifies)
     (simp_all add: mac_ok_def demo_mac_def demo_grant_ok list_all_iff, simp_all add: demo_grant_def)

text \<open>
  A signature pins the whole grant: a presented value that bears the signature of a grant verifies as
  no other grant, or the two grants' messages clash under the key; so relaying cannot
  change the call, its arguments, its purpose, its epoch or its expiry.
\<close>

theorem signature_pins_grant:
  assumes "grant_wf g" and "json_wf s"
    and "own_field ''sig'' s = Some (JStr sg)" and "hex_decode sg = mac key (grantMessage g)"
    and "verifyMergeGrant mac sha s key now = Inr h"
  shows "h = g \<or> clash mac key (grantMessage h) (grantMessage g)"
proof -
  from assms(5) obtain sg' where v: "carries s h sg'" "hex_decode sg' = mac key (grantMessage h)" "grant_fields_ok h"
    unfolding verifyMergeGrant_exact by blast
  then have "own_field ''sig'' s = Some (JStr sg')" by (simp add: carries_def)
  with assms(3) have "sg' = sg" by simp
  with v assms(4) have "grantMessage h = grantMessage g \<or> clash mac key (grantMessage h) (grantMessage g)"
    by (auto simp: clash_def)
  moreover have "grant_wf h"
    using v own_field_num_ok[OF assms(2), of "''expiresAt''" "mg_expiresAt h"]
    by (simp add: grant_wf_def grant_fields_ok_def carries_def)
  ultimately show ?thesis using grantMessage_inj assms(1) by blast
qed

lemma signature_pins_grant_witness:
  "\<exists>s h. verifyMergeGrant plain_mac (\<lambda>t. t) s ''k'' 5 = Inr h \<and> h = demo_grant"
proof -
  let ?sg = "hex_encode (plain_mac ''k'' (grantMessage demo_grant))"
  let ?s = "JObj (object_entries (grant_json demo_grant) @ [(''sig'', JStr ?sg)])"
  have dec: "hex_decode ?sg = plain_mac ''k'' (grantMessage demo_grant)"
    by (rule hex_decode_encode[OF plain_mac_bytes])
  have "?sg \<noteq> []" by simp
  have "carries ?s demo_grant ?sg"
    by (simp add: carries_def own_signed_fields own_grant_fields del: own_field.simps)
  have "own_field ''v'' ?s = Some (JNum (NInt 2))" by (simp add: grant_json_def)
  then have v: "verifyMergeGrant plain_mac (\<lambda>t. t) ?s ''k'' 5 = Inr demo_grant"
    unfolding verifyMergeGrant_exact
  proof (intro conjI)
    show "\<exists>sg. sg \<noteq> [] \<and> carries ?s demo_grant sg \<and> hex_decode sg = plain_mac ''k'' (grantMessage demo_grant)"
      using dec \<open>?sg \<noteq> []\<close> \<open>carries ?s demo_grant ?sg\<close> by blast
  qed (use demo_grant_ok(1) \<open>own_field ''v'' ?s = Some (JNum (NInt 2))\<close> in \<open>simp_all add: demo_grant_def\<close>)
  have wf: "json_wf ?s"
    using grant_json_wf[OF demo_grant_ok(2)] by (simp add: grant_json_def map_keys_def)
  have "own_field ''sig'' ?s = Some (JStr ?sg)" by (rule own_signed_fields(2))
  from signature_pins_grant[OF demo_grant_ok(2) wf this dec v] v show ?thesis by (auto simp: clash_def)
qed

end
