(* ===== verification/SignedKillState.thy ===== *)
theory SignedKillState
  imports MergeGrant Executor
begin

text \<open>
  The broker's authenticated kill-state reader, \<open>packages/executor/src/signed-kill-state.ts\<close>: the
  requests it sends and its reading of the answer, where every failure reads as killed.  The fresh
  nonce and the clock readings are arguments; the HTTP exchange is the answer it returns: \<open>None\<close>
  when the request failed, was not 2xx or its body did not parse.
\<close>

section \<open>Requests\<close>

text \<open>The reader is not built without a key.\<close>

definition signed_reader_error :: "string \<Rightarrow> string option" where
  "signed_reader_error key =
     (if key = [] then
        Some (''the signed kill-state reader requires a kill-state key (OWNERSWITCH_KILL_STATE_KEY) - '' @
          ''without one it cannot tell the control plane from an impostor'')
      else None)"

datatype probe = NoProbe | LiveProbe string | CommitProbe string

definition kill_state_mac :: "mac \<Rightarrow> string \<Rightarrow> json \<Rightarrow> byte_list" where
  "kill_state_mac mac key payload = mac key (canonicalJson payload)"

definition commit_fields :: "string \<Rightarrow> string \<Rightarrow> js_num \<Rightarrow> (string \<times> json) list" where
  "commit_fields jti nonce ts = [(''jti'', JStr jti), (''nonce'', JStr nonce), (''ts'', JNum ts)]"

definition signed_json :: "mac \<Rightarrow> string \<Rightarrow> (string \<times> json) list \<Rightarrow> (string \<times> json) list" where
  "signed_json mac key kvs = kvs @ [(''sig'', JStr (hex_encode (kill_state_mac mac key (JObj kvs))))]"

datatype kill_request =
    ReadRequest string "string option"
  | CommitRequest json

fun kill_request_of :: "mac \<Rightarrow> string \<Rightarrow> probe \<Rightarrow> string \<Rightarrow> millis \<Rightarrow> kill_request" where
  "kill_request_of mac key NoProbe nonce now = ReadRequest nonce None"
| "kill_request_of mac key (LiveProbe jti) nonce now = ReadRequest nonce (Some jti)"
| "kill_request_of mac key (CommitProbe jti) nonce now =
     CommitRequest (JObj (signed_json mac key (commit_fields jti nonce (NInt now))))"

section \<open>Answers\<close>

text \<open>What is signed: the kill state, the nonce, the expiry and the claim about the grant asked for.\<close>

datatype grant_claim = NoClaim | GrantLive string bool | GrantCommitted string bool

record envelope =
  ev_killed :: bool
  ev_epoch :: int
  ev_nonce :: string
  ev_expiresAt :: js_num
  ev_claim :: grant_claim

fun claim_fields :: "grant_claim \<Rightarrow> (string \<times> json) list" where
  "claim_fields NoClaim = []"
| "claim_fields (GrantLive jti b) = [(''jti'', JStr jti), (''grantLive'', JBool b)]"
| "claim_fields (GrantCommitted jti b) = [(''jti'', JStr jti), (''committed'', JBool b)]"

definition envelope_fields :: "envelope \<Rightarrow> (string \<times> json) list" where
  "envelope_fields e =
     [(''killed'', JBool (ev_killed e)), (''epoch'', JNum (NInt (ev_epoch e))), (''nonce'', JStr (ev_nonce e)),
      (''expiresAt'', JNum (ev_expiresAt e))] @ claim_fields (ev_claim e)"

fun bool_field :: "json option \<Rightarrow> bool option" where
  "bool_field (Some (JBool b)) = Some b"
| "bool_field _ = None"

text \<open>The claim an answer makes to a probe; \<open>None\<close> when it is missing, mistyped or about another grant.\<close>

fun claim_of :: "probe \<Rightarrow> json \<Rightarrow> grant_claim option" where
  "claim_of NoProbe body = Some NoClaim"
| "claim_of (LiveProbe jti) body =
     (if own_field ''jti'' body \<noteq> Some (JStr jti) then None
      else map_option (GrantLive jti) (bool_field (own_field ''grantLive'' body)))"
| "claim_of (CommitProbe jti) body =
     (if own_field ''jti'' body \<noteq> Some (JStr jti) then None
      else map_option (GrantCommitted jti) (bool_field (own_field ''committed'' body)))"

definition envelope_of :: "probe \<Rightarrow> json \<Rightarrow> (envelope \<times> string) option" where
  "envelope_of p body =
     (case (bool_field (own_field ''killed'' body), Option.bind (number_field (own_field ''epoch'' body)) safe_integer,
            number_field (own_field ''expiresAt'' body), string_field (own_field ''nonce'' body),
            string_field (own_field ''sig'' body), claim_of p body) of
        (Some kl, Some ep, Some ex, Some echoed, Some sg, Some cl) \<Rightarrow>
          if ep < 0 \<or> \<not> is_finite_num ex \<or> sg = [] then None
          else Some (\<lparr>ev_killed = kl, ev_epoch = ep, ev_nonce = echoed, ev_expiresAt = ex, ev_claim = cl\<rparr>, sg)
      | _ \<Rightarrow> None)"

definition KILLED :: live_kill_state where
  "KILLED = plain_live True (-1)"

definition live_of_envelope :: "envelope \<Rightarrow> live_kill_state" where
  "live_of_envelope e =
     (let base = plain_live (ev_killed e) (ev_epoch e) in
      case ev_claim e of
        NoClaim \<Rightarrow> base
      | GrantLive _ b \<Rightarrow> base\<lparr>lk_grantLive := Some b\<rparr>
      | GrantCommitted _ b \<Rightarrow> base\<lparr>lk_committed := Some b\<rparr>)"

definition signedLiveKillState ::
  "mac \<Rightarrow> string \<Rightarrow> probe \<Rightarrow> string \<Rightarrow> json option \<Rightarrow> millis \<Rightarrow> live_kill_state" where
  "signedLiveKillState mac key p nonce answer now =
     (case answer of
        None \<Rightarrow> KILLED
      | Some body \<Rightarrow>
          if \<not> is_object body then KILLED
          else
            (case envelope_of p body of
               None \<Rightarrow> KILLED
             | Some (e, sg) \<Rightarrow>
                 if ev_nonce e \<noteq> nonce then KILLED
                 else if \<not> before_num now (ev_expiresAt e) then KILLED
                 else if hex_decode sg \<noteq> kill_state_mac mac key (JObj (envelope_fields e)) then KILLED
                 else live_of_envelope e))"

section \<open>Facts\<close>

text \<open>An envelope whose claim answers this probe.\<close>

fun answers_probe :: "probe \<Rightarrow> grant_claim \<Rightarrow> bool" where
  "answers_probe NoProbe NoClaim = True"
| "answers_probe (LiveProbe jti) (GrantLive jti' _) = (jti' = jti)"
| "answers_probe (CommitProbe jti) (GrantCommitted jti' _) = (jti' = jti)"
| "answers_probe _ _ = False"

definition envelope_ok :: "envelope \<Rightarrow> bool" where
  "envelope_ok e \<longleftrightarrow> 0 \<le> ev_epoch e \<and> is_safe_int (ev_epoch e) \<and> is_finite_num (ev_expiresAt e)"

text \<open>The body holds these fields, among others, and this signature.\<close>

definition bears :: "json \<Rightarrow> envelope \<Rightarrow> string \<Rightarrow> bool" where
  "bears body e sg \<longleftrightarrow>
     (\<forall>(k, v) \<in> set (envelope_fields e). own_field k body = Some v) \<and> own_field ''sig'' body = Some (JStr sg)"

lemma bool_field_Some [simp]: "bool_field x = Some b \<longleftrightarrow> x = Some (JBool b)"
  by (cases x rule: bool_field.cases) auto

lemma claim_of_Some:
  "claim_of p body = Some cl \<longleftrightarrow>
     answers_probe p cl \<and> (\<forall>(k, v) \<in> set (claim_fields cl). own_field k body = Some v)"
  by (cases p; cases cl) auto

lemma envelope_of_Some:
  "envelope_of p body = Some (e, sg) \<longleftrightarrow>
     bears body e sg \<and> answers_probe p (ev_claim e) \<and> envelope_ok e \<and> sg \<noteq> []"
proof
  assume "envelope_of p body = Some (e, sg)"
  then show "bears body e sg \<and> answers_probe p (ev_claim e) \<and> envelope_ok e \<and> sg \<noteq> []"
    unfolding envelope_of_def
    by (clarsimp split: option.split_asm if_split_asm simp del: not_None_eq)
       (simp add: bears_def envelope_ok_def envelope_fields_def epoch_field claim_of_Some)
next
  assume "bears body e sg \<and> answers_probe p (ev_claim e) \<and> envelope_ok e \<and> sg \<noteq> []"
  moreover from this have "claim_of p body = Some (ev_claim e)"
    by (auto simp: claim_of_Some bears_def envelope_fields_def)
  ultimately show "envelope_of p body = Some (e, sg)"
    by (simp add: envelope_of_def bears_def envelope_ok_def envelope_fields_def)
qed


definition envelope_wf :: "envelope \<Rightarrow> bool" where
  "envelope_wf e \<longleftrightarrow> is_safe_int (ev_epoch e) \<and> num_ok (ev_expiresAt e)"

lemma envelope_json_wf: "envelope_wf e \<Longrightarrow> json_wf (JObj (envelope_fields e))"
  by (cases "ev_claim e") (simp_all add: envelope_wf_def envelope_fields_def map_keys_def)

lemma own_envelope_fields:
  "own_field ''killed'' (JObj (envelope_fields e)) = Some (JBool (ev_killed e))"
  "own_field ''epoch'' (JObj (envelope_fields e)) = Some (JNum (NInt (ev_epoch e)))"
  "own_field ''nonce'' (JObj (envelope_fields e)) = Some (JStr (ev_nonce e))"
  "own_field ''expiresAt'' (JObj (envelope_fields e)) = Some (JNum (ev_expiresAt e))"
  "own_field ''jti'' (JObj (envelope_fields e)) =
     (case ev_claim e of NoClaim \<Rightarrow> None | GrantLive j _ \<Rightarrow> Some (JStr j) | GrantCommitted j _ \<Rightarrow> Some (JStr j))"
  "own_field ''grantLive'' (JObj (envelope_fields e)) =
     (case ev_claim e of GrantLive _ b \<Rightarrow> Some (JBool b) | _ \<Rightarrow> None)"
  "own_field ''committed'' (JObj (envelope_fields e)) =
     (case ev_claim e of GrantCommitted _ b \<Rightarrow> Some (JBool b) | _ \<Rightarrow> None)"
  by (simp_all add: envelope_fields_def split: grant_claim.split)

lemma envelope_bytes_inj:
  assumes "envelope_wf e" "envelope_wf e'"
    and "canonicalJson (JObj (envelope_fields e)) = canonicalJson (JObj (envelope_fields e'))"
  shows "e = e'"
proof -
  note same = same_bytes_same_fields[OF envelope_json_wf[OF assms(1)] envelope_json_wf[OF assms(2)] assms(3)]
  have "ev_claim e = ev_claim e'"
    using same[of "''jti''"] same[of "''grantLive''"] same[of "''committed''"] unfolding own_envelope_fields
    by (cases "ev_claim e"; cases "ev_claim e'") simp_all
  moreover note same[of "''killed''"] same[of "''epoch''"] same[of "''nonce''"] same[of "''expiresAt''"]
  ultimately show ?thesis unfolding own_envelope_fields by (intro envelope.equality) simp_all
qed

text \<open>The text the key signs for an envelope.\<close>

definition envelope_text :: "envelope \<Rightarrow> string" where
  "envelope_text e = canonicalJson (JObj (envelope_fields e))"

lemma kill_state_mac_inj:
  assumes "envelope_wf e" "envelope_wf e'"
    and "kill_state_mac mac key (JObj (envelope_fields e)) = kill_state_mac mac key (JObj (envelope_fields e'))"
  shows "e = e' \<or> clash mac key (envelope_text e) (envelope_text e')"
  using assms envelope_bytes_inj[of e e'] by (auto simp: kill_state_mac_def clash_def envelope_text_def)

lemma live_killed [simp]: "lk_killed (live_of_envelope e) = ev_killed e"
  by (simp add: live_of_envelope_def plain_live_def Let_def split: grant_claim.split)

lemma KILLED_killed [simp]: "lk_killed KILLED"
  by (simp add: KILLED_def plain_live_def)

text \<open>The one way to an answer other than \<open>KILLED\<close>.\<close>

definition accepts :: "mac \<Rightarrow> string \<Rightarrow> probe \<Rightarrow> string \<Rightarrow> json option \<Rightarrow> millis \<Rightarrow> envelope \<Rightarrow> bool" where
  "accepts mac key p nonce answer now e \<longleftrightarrow>
     (\<exists>body sg. answer = Some body \<and> bears body e sg \<and> sg \<noteq> [] \<and> answers_probe p (ev_claim e) \<and> envelope_ok e \<and>
        ev_nonce e = nonce \<and> before_num now (ev_expiresAt e) \<and>
        hex_decode sg = kill_state_mac mac key (JObj (envelope_fields e)))"

lemma signed_reader_cases:
  "(\<exists>e. accepts mac key p nonce answer now e \<and> signedLiveKillState mac key p nonce answer now = live_of_envelope e) \<or>
   (\<nexists>e. accepts mac key p nonce answer now e) \<and> signedLiveKillState mac key p nonce answer now = KILLED"
proof (cases answer)
  case (Some body)
  have obj: "bears body e sg \<Longrightarrow> is_object body" for e sg by (cases body) (auto simp: bears_def)
  show ?thesis
  proof (cases "envelope_of p body")
    case None
    then have "\<not> accepts mac key p nonce answer now e" for e
      using Some envelope_of_Some[of p body e] by (auto simp: accepts_def)
    with None Some show ?thesis by (auto simp: signedLiveKillState_def)
  next
    case (Some es)
    obtain e sg where es: "es = (e, sg)" by fastforce
    with Some have e: "bears body e sg" "answers_probe p (ev_claim e)" "envelope_ok e" "sg \<noteq> []"
      using envelope_of_Some by blast+
    have "bears body e' sg' \<Longrightarrow> answers_probe p (ev_claim e') \<Longrightarrow> envelope_ok e' \<Longrightarrow> sg' \<noteq> [] \<Longrightarrow> e' = e \<and> sg' = sg"
      for e' sg' using Some es envelope_of_Some[of p body e' sg'] by simp
    then have "accepts mac key p nonce answer now e' \<longleftrightarrow>
        e' = e \<and> ev_nonce e = nonce \<and> before_num now (ev_expiresAt e) \<and>
        hex_decode sg = kill_state_mac mac key (JObj (envelope_fields e))" for e'
      using \<open>answer = Some body\<close> e unfolding accepts_def by blast
    then show ?thesis
      using Some es obj[OF e(1)] \<open>answer = Some body\<close> by (auto simp: signedLiveKillState_def)
  qed
qed (simp add: signedLiveKillState_def accepts_def)

lemma accepts_unique: "accepts mac key p nonce answer now e \<Longrightarrow> accepts mac key p nonce answer now e' \<Longrightarrow> e' = e"
  using envelope_of_Some[of p] unfolding accepts_def by (metis option.inject prod.inject)

lemma signed_reader_accepts:
  "accepts mac key p nonce answer now e \<Longrightarrow> signedLiveKillState mac key p nonce answer now = live_of_envelope e"
  using signed_reader_cases[of mac key p nonce answer now] accepts_unique by metis

section \<open>Properties\<close>

text \<open>
  The reader fails closed exactly: it answers running if and only if the body is well typed,
  echoes the nonce of this very request, has not expired, answers the probe that was sent, says
  running, and bears the key's digest of exactly these fields; and a live answer carries the
  signed epoch and the signed claim about the grant.
\<close>

theorem signed_reader_fails_closed:
  "\<not> lk_killed (signedLiveKillState mac key p nonce answer now) \<longleftrightarrow>
     (\<exists>e. accepts mac key p nonce answer now e \<and> \<not> ev_killed e \<and>
        signedLiveKillState mac key p nonce answer now = live_of_envelope e)"
  using signed_reader_cases[of mac key p nonce answer now] by (metis live_killed KILLED_killed)

text \<open>
  C39: No replay and no impostor: an answer that bears a signature made for some envelope and is
  believed is read as an envelope that names the nonce and the grant of this very request and has not
  expired, and that is the signed one, unless the two are different and have the same digest under
  the key, so that HMAC itself has been broken.
\<close>

theorem signed_answer_pins_request:
  assumes "json_wf body" and "envelope_wf e"
    and "own_field ''sig'' body = Some (JStr sg)"
    and "hex_decode sg = kill_state_mac mac key (JObj (envelope_fields e))"
    and "\<not> lk_killed (signedLiveKillState mac key p nonce (Some body) now)"
  shows "\<exists>e'. signedLiveKillState mac key p nonce (Some body) now = live_of_envelope e' \<and> ev_nonce e' = nonce \<and>
     \<not> ev_killed e' \<and> answers_probe p (ev_claim e') \<and> before_num now (ev_expiresAt e') \<and>
     (e' = e \<or> clash mac key (envelope_text e') (envelope_text e))"
proof -
  from assms(5) obtain e' where e': "accepts mac key p nonce (Some body) now e'" "\<not> ev_killed e'"
      "signedLiveKillState mac key p nonce (Some body) now = live_of_envelope e'"
    using signed_reader_cases[of mac key p nonce "Some body" now] by auto
  then obtain sg' where sg': "bears body e' sg'" "envelope_ok e'"
      "hex_decode sg' = kill_state_mac mac key (JObj (envelope_fields e'))"
    by (auto simp: accepts_def)
  then have "sg' = sg" using assms(3) by (simp add: bears_def)
  have "own_field ''expiresAt'' body = Some (JNum (ev_expiresAt e'))"
    using sg'(1) by (simp add: bears_def envelope_fields_def)
  then have "envelope_wf e'"
    using sg'(2) own_field_num_ok[OF assms(1)] by (simp add: envelope_wf_def envelope_ok_def)
  then have "e' = e \<or> clash mac key (envelope_text e') (envelope_text e)"
    using kill_state_mac_inj[OF _ assms(2)] sg'(3) assms(4) \<open>sg' = sg\<close> by simp
  with e' show ?thesis by (auto simp: accepts_def)
qed

definition demo_envelope :: envelope where
  "demo_envelope = \<lparr>ev_killed = False, ev_epoch = 2, ev_nonce = ''n'', ev_expiresAt = NInt 100,
     ev_claim = GrantCommitted ''j'' True\<rparr>"

lemma demo_envelope_ok: "envelope_ok demo_envelope" "envelope_wf demo_envelope"
  by (simp_all add: envelope_ok_def envelope_wf_def demo_envelope_def is_safe_int_def MAX_SAFE_INTEGER_def)

text \<open>
  What the control plane signs for a request its broker reads back: an envelope signed with
  the key, whatever unsigned fields come after it, is read as exactly what it says until it
  expires.
\<close>

theorem signed_answer_roundtrip:
  assumes "mac_ok mac" and "envelope_ok e" and "answers_probe p (ev_claim e)" and "before_num now (ev_expiresAt e)"
    and "set (map_keys extra) \<inter> {''killed'', ''epoch'', ''nonce'', ''expiresAt'', ''jti'', ''grantLive'', ''committed'', ''sig''} = {}"
  shows "signedLiveKillState mac key p (ev_nonce e) (Some (JObj (signed_json mac key (envelope_fields e) @ extra))) now =
     live_of_envelope e"
proof -
  let ?m = "kill_state_mac mac key (JObj (envelope_fields e))"
  let ?b = "JObj (signed_json mac key (envelope_fields e) @ extra)"
  have len: "length ?m = 32" and bytes: "list_all (\<lambda>b. b < 256) ?m"
    using assms(1) by (simp_all add: mac_ok_def kill_state_mac_def)
  have "hex_encode ?m \<noteq> []" using len by auto
  have fresh: "map_of extra k = None"
    if "k \<in> {''killed'', ''epoch'', ''nonce'', ''expiresAt'', ''jti'', ''grantLive'', ''committed'', ''sig''}" for k
    using assms(5) that unfolding map_of_eq_None_iff map_keys_def set_map by blast
  have "bears ?b e (hex_encode ?m)"
    by (cases "ev_claim e") (simp_all add: bears_def signed_json_def envelope_fields_def fresh map_add_def)
  then have "envelope_of p ?b = Some (e, hex_encode ?m)"
    unfolding envelope_of_Some using assms \<open>hex_encode ?m \<noteq> []\<close> by simp
  then show ?thesis
    using assms(4) by (simp add: signedLiveKillState_def hex_decode_encode[OF bytes])
qed

lemma signed_answer_roundtrip_witness:
  "signedLiveKillState demo_mac ''k'' (CommitProbe ''j'') ''n''
     (Some (JObj (signed_json demo_mac ''k'' (envelope_fields demo_envelope) @ [(''persistenceDegraded'', JBool True)]))) 5 =
   live_of_envelope demo_envelope"
  using signed_answer_roundtrip[of demo_mac demo_envelope "CommitProbe ''j''" 5 "[(''persistenceDegraded'', JBool True)]" "''k''"]
    demo_envelope_ok
  by (simp add: mac_ok_def demo_mac_def list_all_iff map_keys_def demo_envelope_def)

lemma signed_answer_pins_request_witness:
  "\<exists>body. \<not> lk_killed (signedLiveKillState plain_mac ''k'' (CommitProbe ''j'') ''n'' (Some body) 5) \<and>
     (\<exists>e'. signedLiveKillState plain_mac ''k'' (CommitProbe ''j'') ''n'' (Some body) 5 = live_of_envelope e' \<and> ev_nonce e' = ''n'' \<and>
        (e' = demo_envelope \<or> clash plain_mac ''k'' (envelope_text e') (envelope_text demo_envelope)))"
proof -
  let ?e = demo_envelope
  let ?m = "kill_state_mac plain_mac ''k'' (JObj (envelope_fields ?e))"
  let ?b = "JObj (signed_json plain_mac ''k'' (envelope_fields ?e))"
  have bytes: "list_all (\<lambda>b. b < 256) ?m" unfolding kill_state_mac_def by (rule plain_mac_bytes)
  have "hex_encode ?m \<noteq> []" by (simp add: kill_state_mac_def)
  moreover have b: "bears ?b ?e (hex_encode ?m)"
    by (simp add: bears_def signed_json_def envelope_fields_def demo_envelope_def)
  ultimately have "accepts plain_mac ''k'' (CommitProbe ''j'') ''n'' (Some ?b) 5 ?e"
    using hex_decode_encode[OF bytes] demo_envelope_ok(1) unfolding accepts_def by (fastforce simp: demo_envelope_def)
  then have live: "\<not> lk_killed (signedLiveKillState plain_mac ''k'' (CommitProbe ''j'') ''n'' (Some ?b) 5)"
    by (simp add: signed_reader_accepts demo_envelope_def)
  have wf: "json_wf ?b"
    using envelope_json_wf[OF demo_envelope_ok(2)]
    by (simp add: signed_json_def envelope_fields_def demo_envelope_def map_keys_def)
  have "own_field ''sig'' ?b = Some (JStr (hex_encode ?m))" using b by (simp add: bears_def)
  from signed_answer_pins_request[OF wf demo_envelope_ok(2) this hex_decode_encode[OF bytes] live] live
  show ?thesis by blast
qed

end
