(* ===== verification/BurnStore.thy ===== *)
theory BurnStore
  imports Json "HOL-Library.Sublist"
begin

text \<open>
  The broker's durable single-use ledger, \<open>packages/executor/src/burn-store.ts\<close>: the placement
  checks of \<open>createJtiBurnStore\<close> and the operations of the store it returns.

  The disk holds directories by identity (the code compares device and inode), what the store's
  path denotes now, and a script of what the coming system calls do.  A file has its text, whether
  that text is synced and its modification time; a directory knows which of its entries are
  committed.  A power loss keeps committed entries and synced texts; any other entry survives or
  not, and any other text is whatever the disk kept.  Between the pin check and the calls that
  follow it the path does not move (the code trusts the ancestors for that), a descriptor closes,
  and a short write ends at a whole character.  SHA-256 in hexadecimal is the parameter \<open>sha\<close>.
\<close>

unbundle bit_operations_syntax

section \<open>The disk\<close>

record burn_file =
  bf_text :: string
  bf_synced :: bool
  bf_mtime :: millis

record directory =
  dr_files :: "(string \<times> burn_file) list"
  dr_committed :: "string list"

record burn_disk =
  bd_dirs :: "nat \<Rightarrow> directory"
  bd_path :: "nat option"
  bd_calls :: "syscall list"

definition burn_call :: "burn_disk \<Rightarrow> syscall \<times> burn_disk" where
  "burn_call dk = (case bd_calls dk of [] \<Rightarrow> (Completes, dk) | c # cs \<Rightarrow> (c, dk\<lparr>bd_calls := cs\<rparr>))"

definition file_at :: "nat \<Rightarrow> string \<Rightarrow> burn_disk \<Rightarrow> burn_file option" where
  "file_at ino name dk = map_of (dr_files (bd_dirs dk ino)) name"

definition put_file :: "nat \<Rightarrow> string \<Rightarrow> burn_file \<Rightarrow> burn_disk \<Rightarrow> burn_disk" where
  "put_file ino name f dk =
     dk\<lparr>bd_dirs := (bd_dirs dk)(ino := (bd_dirs dk ino)\<lparr>dr_files := AList.update name f (dr_files (bd_dirs dk ino))\<rparr>)\<rparr>"

definition unlink_file :: "nat \<Rightarrow> string \<Rightarrow> burn_disk \<Rightarrow> burn_disk" where
  "unlink_file ino name dk =
     dk\<lparr>bd_dirs := (bd_dirs dk)(ino :=
        \<lparr>dr_files = AList.delete name (dr_files (bd_dirs dk ino)),
         dr_committed = removeAll name (dr_committed (bd_dirs dk ino))\<rparr>)\<rparr>"

text \<open>What a write of \<open>k\<close> bytes leaves: the whole characters among them.\<close>

fun utf8_prefix :: "nat \<Rightarrow> string \<Rightarrow> string" where
  "utf8_prefix k [] = []"
| "utf8_prefix k (c # cs) =
     (let n = byte_length [c] in if n \<le> k then c # utf8_prefix (k - n) cs else [])"

text \<open>A power loss, and what the disk happens to have of the rest.\<close>

definition surviving :: "(string \<times> burn_file) list \<Rightarrow> string \<Rightarrow> burn_file \<Rightarrow> burn_file" where
  "surviving leftovers name f =
     (if bf_synced f then f
      else case map_of leftovers name of None \<Rightarrow> f\<lparr>bf_text := []\<rparr> | Some g \<Rightarrow> g)"

definition power_loss_dir :: "(string \<times> burn_file) list \<Rightarrow> directory \<Rightarrow> directory" where
  "power_loss_dir leftovers d =
     (let kept = [(n, surviving leftovers n f). (n, f) \<leftarrow> dr_files d,
                    n \<in> set (dr_committed d) \<or> n \<in> fst ` set leftovers];
          back = filter (\<lambda>nf. fst nf \<notin> fst ` set (dr_files d)) leftovers
      in \<lparr>dr_files = kept @ back, dr_committed = map fst (kept @ back)\<rparr>)"

definition power_loss :: "(string \<times> burn_file) list \<Rightarrow> burn_disk \<Rightarrow> burn_disk" where
  "power_loss leftovers dk = dk\<lparr>bd_dirs := (\<lambda>ino. power_loss_dir leftovers (bd_dirs dk ino))\<rparr>"

section \<open>Records\<close>

type_synonym burn_record = "(string \<times> json) list"

definition MAX_RECORD_BYTES :: nat where
  "MAX_RECORD_BYTES = 16 * 1024"

definition unreadable_record :: burn_record where
  "unreadable_record = [(''jti'', JStr []), (''expiresAt'', JNum (NInt 0)), (''state'', JStr ''unreadable''),
     (''burnedAt'', JNum (NInt 0))]"

definition is_unreadable :: "burn_record \<Rightarrow> bool" where
  "is_unreadable r \<longleftrightarrow> map_of r ''state'' = Some (JStr ''unreadable'')"

definition dispatching_record :: "string \<Rightarrow> js_num \<Rightarrow> millis \<Rightarrow> burn_record" where
  "dispatching_record jti expiresAt now = [(''jti'', JStr jti), (''expiresAt'', JNum expiresAt),
     (''state'', JStr ''dispatching''), (''burnedAt'', JNum (NInt now))]"

definition record_name :: "(string \<Rightarrow> string) \<Rightarrow> string \<Rightarrow> string" where
  "record_name sha jti = sha jti @ ''.json''"

definition record_of_text :: "string \<Rightarrow> burn_record" where
  "record_of_text text =
     (if MAX_RECORD_BYTES < length text then unreadable_record
      else case json_parse text of
        None \<Rightarrow> unreadable_record
      | Some v \<Rightarrow>
          (case (own_field ''jti'' v, own_field ''expiresAt'' v) of
             (Some (JStr _), Some (JNum _)) \<Rightarrow> object_entries v
           | _ \<Rightarrow> unreadable_record))"

text \<open>\<open>None\<close> is a record that is genuinely absent.\<close>

definition readRecord :: "string \<Rightarrow> burn_disk \<Rightarrow> burn_disk \<times> burn_record option" where
  "readRecord name dk =
     (case burn_call dk of
        (Fails, dk1) \<Rightarrow> (dk1, Some unreadable_record)
      | (_, dk1) \<Rightarrow>
          (case Option.bind (bd_path dk1) (\<lambda>ino. file_at ino name dk1) of
             None \<Rightarrow> (dk1, None)
           | Some f \<Rightarrow> (dk1, Some (record_of_text (bf_text f)))))"

datatype write_result = Written | AlreadyExists | WriteFailed

definition record_text :: "burn_record \<Rightarrow> string" where
  "record_text r = json_text (JObj (object_order r))"

text \<open>The write and the sync of the file just opened, which \<open>open\<close> left empty.\<close>

definition fill_file :: "nat \<Rightarrow> string \<Rightarrow> string \<Rightarrow> millis \<Rightarrow> burn_disk \<Rightarrow> burn_disk \<times> write_result" where
  "fill_file ino name content now dk =
     (case burn_call dk of
        (Fails, dk1) \<Rightarrow> (dk1, WriteFailed)
      | (c, dk1) \<Rightarrow>
          (let out = utf8_prefix (transferred c (byte_length content)) content;
               dk2 = put_file ino name \<lparr>bf_text = out, bf_synced = False, bf_mtime = now\<rparr> dk1
           in case burn_call dk2 of
                (Fails, dk3) \<Rightarrow> (dk3, WriteFailed)
              | (_, dk3) \<Rightarrow> (put_file ino name \<lparr>bf_text = out, bf_synced = True, bf_mtime = now\<rparr> dk3, Written)))"

definition writeRecord :: "string \<Rightarrow> burn_record \<Rightarrow> bool \<Rightarrow> millis \<Rightarrow> burn_disk \<Rightarrow> burn_disk \<times> write_result" where
  "writeRecord name rec excl now dk =
     (case burn_call dk of
        (Fails, dk1) \<Rightarrow> (dk1, WriteFailed)
      | (_, dk1) \<Rightarrow>
          (case bd_path dk1 of
             None \<Rightarrow> (dk1, WriteFailed)
           | Some ino \<Rightarrow>
               if excl \<and> file_at ino name dk1 \<noteq> None then (dk1, AlreadyExists)
               else fill_file ino name (record_text rec) now
                      (put_file ino name \<lparr>bf_text = [], bf_synced = False, bf_mtime = now\<rparr> dk1)))"

section \<open>The store\<close>

record burn_store =
  bs_pinned :: nat
  bs_closed :: bool

datatype burn_throw = StoreClosed | Unreachable | Substituted | NotPersisted | NotCommitted

definition assertStillPinned :: "burn_store \<Rightarrow> burn_disk \<Rightarrow> burn_disk \<times> burn_throw option" where
  "assertStillPinned st dk =
     (if bs_closed st then (dk, Some StoreClosed)
      else case burn_call dk of
        (Fails, dk1) \<Rightarrow> (dk1, Some Unreachable)
      | (_, dk1) \<Rightarrow>
          (case bd_path dk1 of
             None \<Rightarrow> (dk1, Some Unreachable)
           | Some ino \<Rightarrow> (dk1, if ino \<noteq> bs_pinned st then Some Substituted else None)))"

text \<open>The sync of the pinned directory commits the entries it has.\<close>

definition fsyncPinned :: "burn_store \<Rightarrow> burn_disk \<Rightarrow> burn_disk \<times> bool" where
  "fsyncPinned st dk =
     (case burn_call dk of
        (Fails, dk1) \<Rightarrow> (dk1, False)
      | (_, dk1) \<Rightarrow>
          (let d = bd_dirs dk1 (bs_pinned st) in
           (dk1\<lparr>bd_dirs := (bd_dirs dk1)(bs_pinned st := d\<lparr>dr_committed := map fst (dr_files d)\<rparr>)\<rparr>, True)))"

datatype burn_answer = Burned | AlreadyBurned | BurnThrew burn_throw

definition burn :: "(string \<Rightarrow> string) \<Rightarrow> burn_store \<Rightarrow> string \<Rightarrow> js_num \<Rightarrow> millis \<Rightarrow> burn_disk \<Rightarrow> burn_disk \<times> burn_answer" where
  "burn sha st jti expiresAt now dk =
     (case assertStillPinned st dk of
        (dk1, Some e) \<Rightarrow> (dk1, BurnThrew e)
      | (dk1, None) \<Rightarrow>
          (case writeRecord (record_name sha jti) (dispatching_record jti expiresAt now) True now dk1 of
             (dk2, AlreadyExists) \<Rightarrow> (dk2, AlreadyBurned)
           | (dk2, WriteFailed) \<Rightarrow> (dk2, BurnThrew NotPersisted)
           | (dk2, Written) \<Rightarrow>
               (case fsyncPinned st dk2 of
                  (dk3, False) \<Rightarrow> (dk3, BurnThrew NotCommitted)
                | (dk3, True) \<Rightarrow> (dk3, Burned))))"

text \<open>\<open>{ ...base, ...patch }\<close>\<close>

definition spread :: "burn_record \<Rightarrow> burn_record \<Rightarrow> burn_record" where
  "spread base patch = foldl (\<lambda>r kv. AList.update (fst kv) (snd kv) r) base patch"

definition record_outcome ::
  "(string \<Rightarrow> string) \<Rightarrow> burn_store \<Rightarrow> string \<Rightarrow> burn_record \<Rightarrow> millis \<Rightarrow> burn_disk \<Rightarrow> burn_disk \<times> burn_throw option" where
  "record_outcome sha st jti patch now dk =
     (case assertStillPinned st dk of
        (dk1, Some e) \<Rightarrow> (dk1, Some e)
      | (dk1, None) \<Rightarrow>
          (case readRecord (record_name sha jti) dk1 of
             (dk2, existing) \<Rightarrow>
               (let base = (case existing of
                              Some r \<Rightarrow> if is_unreadable r then dispatching_record jti (NInt 0) now else r
                            | None \<Rightarrow> dispatching_record jti (NInt 0) now)
                in case writeRecord (record_name sha jti) (spread base patch) False now dk2 of
                     (dk3, Written) \<Rightarrow> (case fsyncPinned st dk3 of (dk4, ok) \<Rightarrow> (dk4, if ok then None else Some NotCommitted))
                   | (dk3, _) \<Rightarrow> (dk3, Some NotPersisted))))"

definition lookup_record :: "(string \<Rightarrow> string) \<Rightarrow> string \<Rightarrow> burn_disk \<Rightarrow> burn_disk \<times> burn_record option" where
  "lookup_record sha jti dk = readRecord (record_name sha jti) dk"

text \<open>\<open>now() > anchor + retentionMs\<close>; a sum that is a safe integer is exact.\<close>

fun past :: "millis \<Rightarrow> js_num \<Rightarrow> millis \<Rightarrow> bool" where
  "past now (NInt i) retention =
     (if is_safe_int (i + retention) then i + retention < now
      else double_add (rat_of_int i) (rat_of_int retention) < rat_of_int now)"
| "past now (NFrac t) retention = (double_add (to_double (literal_rat t)) (rat_of_int retention) < rat_of_int now)"
| "past now NNonFinite retention = False"

fun stated_expiry :: "burn_record \<Rightarrow> js_num" where
  "stated_expiry r = (case map_of r ''expiresAt'' of Some (JNum n) \<Rightarrow> n | _ \<Rightarrow> NNonFinite)"

definition retention_anchor :: "string \<Rightarrow> burn_record \<Rightarrow> millis \<Rightarrow> burn_disk \<Rightarrow> burn_disk \<times> js_num" where
  "retention_anchor name r now dk =
     (if is_unreadable r then
        (case burn_call dk of
           (Fails, dk1) \<Rightarrow> (dk1, NInt now)
         | (_, dk1) \<Rightarrow>
             (dk1, case Option.bind (bd_path dk1) (\<lambda>ino. file_at ino name dk1) of
                     None \<Rightarrow> NInt now | Some f \<Rightarrow> NInt (bf_mtime f)))
      else (dk, stated_expiry r))"

definition prune_record :: "millis \<Rightarrow> millis \<Rightarrow> burn_disk \<times> nat \<Rightarrow> string \<Rightarrow> burn_disk \<times> nat" where
  "prune_record retention now acc name =
     (case acc of (dk, removed) \<Rightarrow>
        if \<not> suffix ''.json'' name then (dk, removed)
        else
          (case readRecord name dk of
             (dk1, None) \<Rightarrow> (dk1, removed)
           | (dk1, Some r) \<Rightarrow>
               (case retention_anchor name r now dk1 of
                  (dk2, anchor) \<Rightarrow>
                    if past now anchor retention then
                      (case burn_call dk2 of
                         (Fails, dk3) \<Rightarrow> (dk3, removed)
                       | (_, dk3) \<Rightarrow>
                           (case bd_path dk3 of
                              None \<Rightarrow> (dk3, removed)
                            | Some ino \<Rightarrow>
                                if file_at ino name dk3 = None then (dk3, removed)
                                else (unlink_file ino name dk3, removed + 1)))
                    else (dk2, removed))))"

definition pruneExpired :: "millis \<Rightarrow> millis \<Rightarrow> burn_disk \<Rightarrow> burn_disk \<times> nat" where
  "pruneExpired retention now dk =
     (case burn_call dk of
        (Fails, dk1) \<Rightarrow> (dk1, 0)
      | (_, dk1) \<Rightarrow>
          (case bd_path dk1 of
             None \<Rightarrow> (dk1, 0)
           | Some ino \<Rightarrow> foldl (prune_record retention now) (dk1, 0) (map fst (dr_files (bd_dirs dk1 ino)))))"

definition close_store :: "burn_store \<Rightarrow> burn_store" where
  "close_store st = st\<lparr>bs_closed := True\<rparr>"

section \<open>Placement\<close>

text \<open>A resolved path is the list of its components; \<open>relative\<close> is that of \<open>node:path\<close>.\<close>

fun relative :: "string list \<Rightarrow> string list \<Rightarrow> string list" where
  "relative (a # as) (b # bs) = (if a = b then relative as bs else replicate (length (a # as)) ''..'' @ b # bs)"
| "relative as bs = replicate (length as) ''..'' @ bs"

definition inside_workspace :: "string list \<Rightarrow> string list \<Rightarrow> bool" where
  "inside_workspace workspace dir =
     (let rel = join_with ''/'' (relative workspace dir) in rel = [] \<or> \<not> prefix ''..'' rel \<and> \<not> prefix ''/'' rel)"

record file_status =
  fs_directory :: bool
  fs_uid :: nat
  fs_mode :: nat
  fs_identity :: nat

datatype placement_error =
    NotAbsolute | CannotCreate | IsSymlink | CannotResolve | InWorkspace | StatFailed | UntrustedOwner "string list"
  | WritableAncestor "string list" | NotADirectory | ForeignOwner | GroupOrWorldAccess | CannotOpen

text \<open>The walk from the directory to the root.\<close>

function trusted_ancestry :: "(string list \<Rightarrow> file_status option) \<Rightarrow> nat \<Rightarrow> string list \<Rightarrow> placement_error option" where
  "trusted_ancestry stat uid dir =
     (if dir = [] then None
      else
        let current = butlast dir in
        case stat current of
          None \<Rightarrow> Some StatFailed
        | Some s \<Rightarrow>
            if fs_uid s \<noteq> 0 \<and> fs_uid s \<noteq> uid then Some (UntrustedOwner current)
            else if fs_mode s AND 0x12 \<noteq> 0 then Some (WritableAncestor current)
            else trusted_ancestry stat uid current)"
  by pat_completeness auto
termination by (relation "measure (\<lambda>(_, _, dir). length dir)") auto

declare trusted_ancestry.simps [simp del]

definition burn_dir_hardened :: "(string list \<Rightarrow> file_status option) \<Rightarrow> nat option \<Rightarrow> string list \<Rightarrow> placement_error option" where
  "burn_dir_hardened stat uid dir =
     (case stat dir of
        None \<Rightarrow> Some StatFailed
      | Some s \<Rightarrow>
          if \<not> fs_directory s then Some NotADirectory
          else if uid \<noteq> None \<and> uid \<noteq> Some (fs_uid s) then Some ForeignOwner
          else if fs_mode s AND 0x3F \<noteq> 0 then Some GroupOrWorldAccess
          else None)"

text \<open>What the platform answers to the constructor's calls.\<close>

record placement =
  pl_created :: bool
  pl_symlink :: bool
  pl_real :: "string list option"
  pl_stat :: "string list \<Rightarrow> file_status option"
  pl_uid :: "nat option"
  pl_opened :: bool

definition createJtiBurnStore ::
  "placement \<Rightarrow> string \<Rightarrow> string list option \<Rightarrow> bool \<Rightarrow> placement_error + burn_store" where
  "createJtiBurnStore pl rawDir workspace unsafe =
     (if \<not> prefix ''/'' rawDir then Inl NotAbsolute
      else if \<not> pl_created pl then Inl CannotCreate
      else if pl_symlink pl then Inl IsSymlink
      else case pl_real pl of
        None \<Rightarrow> Inl CannotResolve
      | Some dir \<Rightarrow>
          if (case workspace of None \<Rightarrow> False | Some ws \<Rightarrow> inside_workspace ws dir) then Inl InWorkspace
          else
            (case (if unsafe then None
                   else trusted_ancestry (pl_stat pl) (case pl_uid pl of None \<Rightarrow> 0 | Some u \<Rightarrow> u) dir) of
               Some e \<Rightarrow> Inl e
             | None \<Rightarrow>
                 (case burn_dir_hardened (pl_stat pl) (pl_uid pl) dir of
                    Some e \<Rightarrow> Inl e
                  | None \<Rightarrow>
                      (case pl_stat pl dir of
                         Some s \<Rightarrow> if pl_opened pl then Inr \<lparr>bs_pinned = fs_identity s, bs_closed = False\<rparr> else Inl CannotOpen
                       | None \<Rightarrow> Inl StatFailed))))"

section \<open>What every operation keeps\<close>

lemma file_at_put [simp]:
  "file_at ino' n' (put_file ino n f dk) = (if ino' = ino \<and> n' = n then Some f else file_at ino' n' dk)"
  by (simp add: file_at_def put_file_def update_conv')

lemma put_path [simp]: "bd_path (put_file ino n f dk) = bd_path dk"
  by (simp add: put_file_def)

definition committed_at :: "nat \<Rightarrow> string \<Rightarrow> burn_disk \<Rightarrow> bool" where
  "committed_at ino n dk \<longleftrightarrow> n \<in> set (dr_committed (bd_dirs dk ino))"

lemma committed_put [simp]: "committed_at ino' n' (put_file ino n f dk) = committed_at ino' n' dk"
  by (simp add: committed_at_def put_file_def)

lemma burn_callD:
  "burn_call dk = (c, dk') \<Longrightarrow>
     bd_dirs dk' = bd_dirs dk \<and> bd_path dk' = bd_path dk \<and> (\<forall>i n. file_at i n dk' = file_at i n dk) \<and>
     (\<forall>i n. committed_at i n dk' = committed_at i n dk)"
  by (auto simp: burn_call_def file_at_def committed_at_def split: list.splits)

text \<open>A burn that a restart and a power loss remember: the entry is there and committed.\<close>

definition spent_entry :: "burn_disk \<Rightarrow> nat \<times> string \<Rightarrow> bool" where
  "spent_entry dk k \<longleftrightarrow> file_at (fst k) (snd k) dk \<noteq> None \<and> committed_at (fst k) (snd k) dk"

lemma readRecord_disk: "readRecord n dk = (dk', r) \<Longrightarrow> bd_dirs dk' = bd_dirs dk \<and> bd_path dk' = bd_path dk"
  by (auto simp: readRecord_def dest!: burn_callD split: prod.splits syscall.splits option.splits)

lemma pin_disk: "assertStillPinned st dk = (dk', e) \<Longrightarrow> bd_dirs dk' = bd_dirs dk \<and> bd_path dk' = bd_path dk"
  by (auto simp: assertStillPinned_def dest!: burn_callD split: prod.splits syscall.splits option.splits if_splits)

lemma pin_path: "assertStillPinned st dk = (dk', None) \<Longrightarrow> bd_path dk' = Some (bs_pinned st)"
  by (auto simp: assertStillPinned_def dest!: burn_callD split: prod.splits syscall.splits option.splits if_splits)

lemma same_dirs_spent: "bd_dirs dk' = bd_dirs dk \<Longrightarrow> spent_entry dk' k = spent_entry dk k"
  by (simp add: spent_entry_def file_at_def committed_at_def)

definition only_file :: "nat \<Rightarrow> string \<Rightarrow> burn_disk \<Rightarrow> burn_disk \<Rightarrow> burn_file \<Rightarrow> bool" where
  "only_file ino n dk dk' f \<longleftrightarrow>
     bd_path dk' = bd_path dk \<and> (\<forall>i m. file_at i m dk' = (if i = ino \<and> m = n then Some f else file_at i m dk)) \<and>
     (\<forall>i m. committed_at i m dk' = committed_at i m dk)"

lemma only_file_put: "only_file ino n dk (put_file ino n f dk) f"
  by (simp add: only_file_def)

lemma only_file_again: "only_file ino n dk dk' f \<Longrightarrow> only_file ino n dk (put_file ino n g dk') g"
  by (simp add: only_file_def)

lemma only_file_call: "only_file ino n dk dk' f \<Longrightarrow> burn_call dk' = (c, dk'') \<Longrightarrow> only_file ino n dk dk'' f"
  by (drule burn_callD) (simp add: only_file_def)

text \<open>A write leaves every other file alone; it leaves all alone where it creates none.\<close>

lemma fill_file_only:
  assumes "fill_file ino n out now dk1 = (dk', w)" and "only_file ino n dk dk1 f" and "bf_mtime f = now"
  shows "\<exists>g. only_file ino n dk dk' g \<and> bf_mtime g = now"
proof -
  obtain c dk2 where c: "burn_call dk1 = (c, dk2)" by fastforce
  define g where "g b = \<lparr>bf_text = utf8_prefix (transferred c (byte_length out)) out, bf_synced = b, bf_mtime = now\<rparr>" for b
  obtain c3 dk3 where c3: "burn_call (put_file ino n (g False) dk2) = (c3, dk3)" by fastforce
  note o2 = only_file_call[OF assms(2) c]
  note o3 = only_file_call[OF only_file_again[OF o2] c3]
  note o4 = only_file_again[OF o3, of "g True"]
  have "c \<noteq> Fails \<Longrightarrow> fill_file ino n out now dk1 =
      (case burn_call (put_file ino n (g False) dk2) of
         (Fails, dk3) \<Rightarrow> (dk3, WriteFailed) | (_, dk3) \<Rightarrow> (put_file ino n (g True) dk3, Written))"
    by (cases c) (simp_all add: fill_file_def c g_def Let_def split: prod.split syscall.split)
  moreover have "c = Fails \<Longrightarrow> dk' = dk2" using assms(1) by (simp add: fill_file_def c)
  ultimately have "dk' = dk2 \<or> dk' = dk3 \<or> dk' = put_file ino n (g True) dk3"
    using assms(1) by (cases c3; cases "c = Fails") (simp_all add: c3)
  with o2 o3 o4 assms(3) show ?thesis by (elim disjE) (auto simp: g_def)
qed

lemma writeRecord_steps:
  assumes "writeRecord n r excl now dk = (dk', w)"
  shows "(bd_dirs dk' = bd_dirs dk \<and> bd_path dk' = bd_path dk \<and> w \<noteq> Written) \<or>
     (\<exists>ino f. bd_path dk = Some ino \<and> \<not> (excl \<and> file_at ino n dk \<noteq> None) \<and> only_file ino n dk dk' f \<and> bf_mtime f = now)"
proof -
  obtain c1 dk1 where c1: "burn_call dk = (c1, dk1)" by fastforce
  note d1 = burn_callD[OF c1]
  show ?thesis
  proof (cases "c1 = Fails \<or> bd_path dk1 = None \<or> (\<exists>ino. bd_path dk1 = Some ino \<and> excl \<and> file_at ino n dk1 \<noteq> None)")
    case True
    then have "dk' = dk1 \<and> w \<noteq> Written"
      using assms by (auto simp: writeRecord_def c1 split: syscall.split_asm option.split_asm)
    with d1 show ?thesis by simp
  next
    case False
    then obtain ino where ino: "bd_path dk1 = Some ino" "\<not> (excl \<and> file_at ino n dk1 \<noteq> None)" by auto
    let ?opened = "put_file ino n \<lparr>bf_text = [], bf_synced = False, bf_mtime = now\<rparr> dk1"
    have "fill_file ino n (record_text r) now ?opened = (dk', w)"
      using assms False ino by (auto simp: writeRecord_def c1 split: syscall.split_asm)
    from fill_file_only[OF this only_file_put] obtain g where "only_file ino n dk1 dk' g" "bf_mtime g = now" by auto
    with ino d1 show ?thesis by (auto simp: only_file_def)
  qed
qed

lemma writeRecord_keeps:
  assumes "writeRecord n r excl now dk = (dk', w)" and "spent_entry dk k"
  shows "spent_entry dk' k"
  using writeRecord_steps[OF assms(1)] assms(2)
  by (elim disjE) (auto simp: same_dirs_spent[of dk' dk] only_file_def, auto simp: spent_entry_def)

lemma writeRecord_Written:
  assumes "writeRecord n r excl now dk = (dk', Written)" and "bd_path dk = Some ino"
  shows "file_at ino n dk' \<noteq> None" "excl \<Longrightarrow> file_at ino n dk = None"
  using writeRecord_steps[OF assms(1)] assms(2) by (auto simp: only_file_def)

lemma map_of_key: "map_of m n = Some y \<Longrightarrow> n \<in> fst ` set m"
  by (metis domI dom_map_of_conv_image_fst)

lemma fsync_cases:
  "fsyncPinned st dk = (dk', ok) \<Longrightarrow>
     bd_path dk' = bd_path dk \<and>
     bd_dirs dk' = (if ok then (bd_dirs dk)(bs_pinned st := (bd_dirs dk (bs_pinned st))
                       \<lparr>dr_committed := map fst (dr_files (bd_dirs dk (bs_pinned st)))\<rparr>)
                    else bd_dirs dk)"
  by (auto simp: fsyncPinned_def Let_def dest!: burn_callD split: prod.splits syscall.splits)

lemma fsync_keeps: "fsyncPinned st dk = (dk', ok) \<Longrightarrow> spent_entry dk k \<Longrightarrow> spent_entry dk' k"
  by (drule fsync_cases) (auto simp: spent_entry_def file_at_def committed_at_def dest: map_of_key)

lemma fsync_commits:
  "fsyncPinned st dk = (dk', True) \<Longrightarrow> file_at (bs_pinned st) n dk \<noteq> None \<Longrightarrow> spent_entry dk' (bs_pinned st, n)"
  by (drule fsync_cases) (auto simp: spent_entry_def file_at_def committed_at_def dest: map_of_key)

lemma burn_keeps:
  assumes "burn sha st jti ex now dk = (dk', a)" and "spent_entry dk k"
  shows "spent_entry dk' k"
proof -
  obtain dk1 e where p: "assertStillPinned st dk = (dk1, e)" by fastforce
  obtain dk2 w where w: "writeRecord (record_name sha jti) (dispatching_record jti ex now) True now dk1 = (dk2, w)"
    by fastforce
  obtain dk3 ok where f: "fsyncPinned st dk2 = (dk3, ok)" by fastforce
  have 1: "spent_entry dk1 k" using assms(2) pin_disk[OF p] same_dirs_spent by metis
  have 2: "spent_entry dk2 k" by (rule writeRecord_keeps[OF w 1])
  have 3: "spent_entry dk3 k" by (rule fsync_keeps[OF f 2])
  from assms(1) have "dk' \<in> {dk1, dk2, dk3}"
    by (simp add: burn_def p w f split: option.splits write_result.splits bool.splits)
  with 1 2 3 show ?thesis by auto
qed

lemma burn_Burned:
  "burn sha st jti ex now dk = (dk', Burned) \<longleftrightarrow>
     (\<exists>dk1 dk2. assertStillPinned st dk = (dk1, None) \<and>
        writeRecord (record_name sha jti) (dispatching_record jti ex now) True now dk1 = (dk2, Written) \<and>
        fsyncPinned st dk2 = (dk', True))"
  unfolding burn_def by (auto split: prod.splits option.splits write_result.splits bool.splits)

lemma burn_commits:
  assumes "burn sha st jti ex now dk = (dk', Burned)"
  shows "spent_entry dk' (bs_pinned st, record_name sha jti)" "\<not> spent_entry dk (bs_pinned st, record_name sha jti)"
proof -
  from assms obtain dk1 dk2 where s: "assertStillPinned st dk = (dk1, None)"
      "writeRecord (record_name sha jti) (dispatching_record jti ex now) True now dk1 = (dk2, Written)"
      "fsyncPinned st dk2 = (dk', True)"
    unfolding burn_Burned by blast
  note w = writeRecord_Written[OF s(2) pin_path[OF s(1)]]
  from fsync_commits[OF s(3) w(1)] show "spent_entry dk' (bs_pinned st, record_name sha jti)" .
  from w(2) have "\<not> spent_entry dk1 (bs_pinned st, record_name sha jti)" by (simp add: spent_entry_def)
  then show "\<not> spent_entry dk (bs_pinned st, record_name sha jti)"
    using pin_disk[OF s(1)] same_dirs_spent by metis
qed

lemma record_keeps:
  assumes "record_outcome sha st jti patch now dk = (dk', e)" and "spent_entry dk k"
  shows "spent_entry dk' k"
proof -
  obtain dk1 e1 where p: "assertStillPinned st dk = (dk1, e1)" by fastforce
  obtain dk2 r where r: "readRecord (record_name sha jti) dk1 = (dk2, r)" by fastforce
  let ?base = "case r of Some r \<Rightarrow> if is_unreadable r then dispatching_record jti (NInt 0) now else r
                 | None \<Rightarrow> dispatching_record jti (NInt 0) now"
  obtain dk3 w where w: "writeRecord (record_name sha jti) (spread ?base patch) False now dk2 = (dk3, w)" by fastforce
  obtain dk4 ok where f: "fsyncPinned st dk3 = (dk4, ok)" by fastforce
  have 1: "spent_entry dk1 k" "spent_entry dk2 k"
    using assms(2) pin_disk[OF p] readRecord_disk[OF r] same_dirs_spent by metis+
  have 3: "spent_entry dk3 k" by (rule writeRecord_keeps[OF w 1(2)])
  have 4: "spent_entry dk4 k" by (rule fsync_keeps[OF f 3])
  from assms(1) have "dk' \<in> {dk1, dk3, dk4}"
    by (simp add: record_outcome_def p r w f Let_def split: option.split_asm write_result.split_asm)
  with 1 3 4 show ?thesis by auto
qed

lemma power_loss_dir_keeps:
  assumes "map_of (dr_files d) n \<noteq> None" and "n \<in> set (dr_committed d)"
  shows "n \<in> fst ` set (dr_files (power_loss_dir leftovers d))" "n \<in> set (dr_committed (power_loss_dir leftovers d))"
proof -
  obtain f where f: "(n, f) \<in> set (dr_files d)" using assms(1) by (auto dest: map_of_SomeD)
  define kept where "kept = [(m, surviving leftovers m g). (m, g) \<leftarrow> dr_files d,
                  m \<in> set (dr_committed d) \<or> m \<in> fst ` set leftovers]"
  have "(n, surviving leftovers n f) \<in> set kept" using f assms(2) by (auto simp: kept_def)
  then have "n \<in> fst ` set kept" by force
  then show "n \<in> fst ` set (dr_files (power_loss_dir leftovers d))" "n \<in> set (dr_committed (power_loss_dir leftovers d))"
    unfolding power_loss_dir_def kept_def[symmetric] Let_def by (simp_all only: directory.simps set_append set_map image_Un Un_iff simp_thms)
qed

lemma power_loss_keeps: "spent_entry dk k \<Longrightarrow> spent_entry (power_loss leftovers dk) k"
  using power_loss_dir_keeps[of "bd_dirs dk (fst k)" "snd k" leftovers]
  by (simp add: spent_entry_def file_at_def committed_at_def power_loss_def map_of_eq_None_iff del: not_None_eq)

section \<open>Runs\<close>

text \<open>
  What happens to the disk of a deployment: any process's store burns or records, prunes run,
  the path is repointed, power is lost, and the coming calls are dealt anew.
\<close>

datatype burn_event =
    Burn burn_store string js_num millis
  | RecordOutcome burn_store string burn_record millis
  | Prune millis
  | PowerLoss "(string \<times> burn_file) list"
  | Repoint "nat option"
  | Deal "syscall list"

fun burn_step :: "(string \<Rightarrow> string) \<Rightarrow> millis \<Rightarrow> burn_disk \<Rightarrow> burn_event \<Rightarrow> burn_disk" where
  "burn_step sha retention dk (Burn st jti ex now) = fst (burn sha st jti ex now dk)"
| "burn_step sha retention dk (RecordOutcome st jti patch now) = fst (record_outcome sha st jti patch now dk)"
| "burn_step sha retention dk (Prune now) = fst (pruneExpired retention now dk)"
| "burn_step sha retention dk (PowerLoss leftovers) = power_loss leftovers dk"
| "burn_step sha retention dk (Repoint p) = dk\<lparr>bd_path := p\<rparr>"
| "burn_step sha retention dk (Deal cs) = dk\<lparr>bd_calls := cs\<rparr>"

text \<open>A burn of this entry that answers burned.\<close>

fun burns_entry :: "(string \<Rightarrow> string) \<Rightarrow> nat \<times> string \<Rightarrow> burn_disk \<Rightarrow> burn_event \<Rightarrow> bool" where
  "burns_entry sha k dk (Burn st jti ex now) =
     ((bs_pinned st, record_name sha jti) = k \<and> snd (burn sha st jti ex now dk) = Burned)"
| "burns_entry sha k dk _ = False"

section \<open>Pruning\<close>

text \<open>
  When a prune may take a file: at a time past the retention after its anchor, which is the expiry its
  record states, or the last write of a file whose record cannot be read (now and then no call can read
  it, nor even its time, and then the prune's own reading of the clock is the anchor, never past).
\<close>

definition due :: "millis \<Rightarrow> millis \<Rightarrow> burn_file \<Rightarrow> bool" where
  "due retention now f \<longleftrightarrow>
     (let r = record_of_text (bf_text f) in
      list_ex (\<lambda>anchor. past now anchor retention)
        ([NInt now, NInt (bf_mtime f)] @ (if is_unreadable r then [] else [stated_expiry r])))"

text \<open>The record of this file keeps it from pruning up to the expiry, however the calls fail.\<close>

definition shields :: "millis \<Rightarrow> millis \<Rightarrow> burn_file \<Rightarrow> bool" where
  "shields expiry retention f \<longleftrightarrow>
     0 \<le> retention \<and> 0 \<le> expiry \<and> is_safe_int (expiry + retention) \<and> 0 \<le> bf_mtime f \<and>
     is_safe_int (bf_mtime f + retention) \<and> expiry \<le> bf_mtime f + retention \<and> bf_synced f \<and>
     stated_expiry (record_of_text (bf_text f)) = NInt expiry"

lemma shields_not_due: "shields expiry retention f \<Longrightarrow> 0 \<le> now \<Longrightarrow> now \<le> expiry \<Longrightarrow> \<not> due retention now f"
  by (auto simp: shields_def due_def is_safe_int_def Let_def simp del: stated_expiry.simps)

definition holds_file :: "nat \<Rightarrow> string \<Rightarrow> burn_file \<Rightarrow> burn_disk \<Rightarrow> bool" where
  "holds_file ino n f dk \<longleftrightarrow> file_at ino n dk = Some f \<and> committed_at ino n dk"

lemma holds_spent: "holds_file ino n f dk \<Longrightarrow> spent_entry dk (ino, n)"
  by (simp add: holds_file_def spent_entry_def)

lemma holds_same_dirs: "bd_dirs dk' = bd_dirs dk \<Longrightarrow> holds_file ino n f dk' = holds_file ino n f dk"
  by (simp add: holds_file_def file_at_def committed_at_def)

lemma holds_unlink_other:
  "holds_file ino n f dk \<Longrightarrow> (ino', n') \<noteq> (ino, n) \<Longrightarrow> holds_file ino n f (unlink_file ino' n' dk)"
  by (auto simp: holds_file_def unlink_file_def file_at_def committed_at_def delete_conv')

lemma unlink_path: "bd_path (unlink_file ino n dk) = bd_path dk"
  by (simp add: unlink_file_def)

lemma readRecord_here:
  assumes "readRecord n dk = (dk', r)" and "bd_path dk = Some ino" and "file_at ino n dk = Some f"
  shows "r = Some unreadable_record \<or> r = Some (record_of_text (bf_text f))"
  using assms by (auto simp: readRecord_def dest!: burn_callD split: prod.splits syscall.splits)

lemma retention_anchor_disk:
  "retention_anchor n r now dk = (dk', a) \<Longrightarrow> bd_dirs dk' = bd_dirs dk \<and> bd_path dk' = bd_path dk"
  by (auto simp: retention_anchor_def dest!: burn_callD split: prod.splits syscall.splits if_splits)

lemma retention_anchor_here:
  assumes "retention_anchor n r now dk = (dk', a)" and "bd_path dk = Some ino" and "file_at ino n dk = Some f"
  shows "a = NInt now \<or> a = NInt (bf_mtime f) \<or> \<not> is_unreadable r \<and> a = stated_expiry r"
  using assms by (auto simp: retention_anchor_def dest!: burn_callD split: prod.splits syscall.splits if_splits)

lemma prune_record_keeps:
  assumes h: "holds_file ino n f dk" and d: "\<not> due retention now f"
  shows "holds_file ino n f (fst (prune_record retention now (dk, k) m))"
proof -
  obtain dk1 r where r: "readRecord m dk = (dk1, r)" by fastforce
  have d1: "bd_dirs dk1 = bd_dirs dk" "bd_path dk1 = bd_path dk" using readRecord_disk[OF r] by simp_all
  show ?thesis
  proof (cases r)
    case None
    then show ?thesis using h holds_same_dirs[OF d1(1)] by (simp add: prune_record_def r)
  next
    case (Some rec)
    obtain dk2 a where a: "retention_anchor m rec now dk1 = (dk2, a)" by fastforce
    obtain c dk3 where c: "burn_call dk2 = (c, dk3)" by fastforce
    have d3: "bd_dirs dk2 = bd_dirs dk" "bd_dirs dk3 = bd_dirs dk" "bd_path dk3 = bd_path dk"
      using d1 retention_anchor_disk[OF a] burn_callD[OF c] by simp_all
    have hh: "holds_file ino n f dk2" "holds_file ino n f dk3" using h d3 holds_same_dirs by metis+
    have "bd_path dk3 = Some ino \<and> m = n \<Longrightarrow> \<not> past now a retention"
    proof -
      assume "bd_path dk3 = Some ino \<and> m = n"
      then have at: "bd_path dk = Some ino" "file_at ino m dk = Some f" "bd_path dk1 = Some ino" "file_at ino m dk1 = Some f"
        using h d1 d3 by (simp_all add: holds_file_def file_at_def)
      have "is_unreadable unreadable_record" by (simp add: is_unreadable_def unreadable_record_def)
      with readRecord_here[OF r at(1,2)] retention_anchor_here[OF a at(3,4)] Some
      have "a = NInt now \<or> a = NInt (bf_mtime f) \<or>
          \<not> is_unreadable (record_of_text (bf_text f)) \<and> a = stated_expiry (record_of_text (bf_text f))" by auto
      with d show ?thesis by (auto simp: due_def Let_def simp del: stated_expiry.simps past.simps)
    qed
    then have "holds_file ino n f (unlink_file i m dk3)" if "bd_path dk3 = Some i" "past now a retention" for i
      using hh(2) that by (intro holds_unlink_other) auto
    moreover have "fst (prune_record retention now (dk, k) m) \<in> {dk, dk2, dk3} \<or>
        (\<exists>i. bd_path dk3 = Some i \<and> past now a retention \<and> fst (prune_record retention now (dk, k) m) = unlink_file i m dk3)"
      by (simp add: prune_record_def r Some a c split: syscall.split option.split)
    ultimately show ?thesis using hh h by auto
  qed
qed

lemma pruneExpired_keeps:
  assumes "holds_file ino n f dk" and "\<not> due retention now f"
  shows "holds_file ino n f (fst (pruneExpired retention now dk))"
proof -
  have "holds_file ino n f (fst (foldl (prune_record retention now) (dk', k) ms))" if "holds_file ino n f dk'" for dk' k ms
    using that
  proof (induction ms arbitrary: dk' k)
    case (Cons m ms)
    then show ?case
      using prune_record_keeps[OF Cons.prems assms(2), of k m] by (cases "prune_record retention now (dk', k) m") simp
  qed simp
  moreover have "holds_file ino n f dk'" if "burn_call dk = (c, dk')" for c dk'
    using assms(1) burn_callD[OF that] holds_same_dirs by metis
  ultimately show ?thesis by (auto simp: pruneExpired_def split: prod.split syscall.split option.split)
qed

text \<open>A prune that takes this entry, which was due.\<close>

fun takes_due :: "millis \<Rightarrow> nat \<times> string \<Rightarrow> burn_disk \<Rightarrow> burn_event \<Rightarrow> bool" where
  "takes_due retention k dk (Prune now) =
     (case file_at (fst k) (snd k) dk of
        None \<Rightarrow> False
      | Some f \<Rightarrow> due retention now f \<and> \<not> spent_entry (fst (pruneExpired retention now dk)) k)"
| "takes_due retention k dk _ = False"

lemma spent_holds: "spent_entry dk k \<longleftrightarrow> (\<exists>f. holds_file (fst k) (snd k) f dk)"
  by (auto simp: spent_entry_def holds_file_def)

lemma prune_spent:
  "spent_entry dk k \<Longrightarrow> spent_entry (fst (pruneExpired retention now dk)) k \<or> takes_due retention k dk (Prune now)"
  using pruneExpired_keeps[of "fst k" "snd k" _ dk retention now] holds_spent[of "fst k" "snd k"]
  by (auto simp: spent_holds holds_file_def)

lemma burn_step_spent:
  assumes "spent_entry dk k"
  shows "spent_entry (burn_step sha retention dk e) k \<or> takes_due retention k dk e"
  using assms burn_keeps[OF prod.collapse[symmetric]] record_keeps[OF prod.collapse[symmetric]] power_loss_keeps
    prune_spent[OF assms]
  by (cases e) (simp_all add: spent_entry_def file_at_def committed_at_def)

text \<open>Entries are free until a burn takes them, and free again only by a due prune.\<close>

interpretation burns: ledger "burn_step sha retention" "\<lambda>_. True" "takes_due retention" "burns_entry sha"
    "\<lambda>k dk. \<not> spent_entry dk k" for sha retention
proof
  fix dk k e
  have win: "burn sha st jti ex now dk = (fst (burn sha st jti ex now dk), Burned)"
    if "snd (burn sha st jti ex now dk) = Burned" for st jti ex now using that by (metis prod.collapse)
  show "\<not> spent_entry (burn_step sha retention dk e) k \<Longrightarrow> \<not> spent_entry dk k \<or> takes_due retention k dk e"
    using burn_step_spent by blast
  show "burns_entry sha k dk e \<Longrightarrow> \<not> spent_entry dk k"
    by (cases e) (auto dest: burn_commits(2)[OF win])
  show "burns_entry sha k dk e \<Longrightarrow> \<not> \<not> spent_entry (burn_step sha retention dk e) k"
    by (cases e) (auto intro: burn_commits(1)[OF win])
qed simp

text \<open>Events that leave a record alone: no one writes an outcome over it, and prunes run before the expiry.\<close>

fun leaves_record :: "(string \<Rightarrow> string) \<Rightarrow> string \<Rightarrow> millis \<Rightarrow> burn_event \<Rightarrow> bool" where
  "leaves_record sha n expiry (RecordOutcome st jti patch now) = (record_name sha jti \<noteq> n)"
| "leaves_record sha n expiry (Prune now) = (0 \<le> now \<and> now \<le> expiry)"
| "leaves_record sha n expiry _ = True"

lemma writeRecord_holds:
  assumes "writeRecord m r excl now dk = (dk', w)" and "holds_file ino n f dk" and "m \<noteq> n \<or> excl"
  shows "holds_file ino n f dk'"
  using writeRecord_steps[OF assms(1)] assms(2,3) holds_same_dirs[of dk' dk]
  by (elim disjE) (auto simp: only_file_def holds_file_def)

lemma fsync_holds:
  assumes "fsyncPinned st dk = (dk', ok)" and "holds_file ino n f dk"
  shows "holds_file ino n f dk'"
  using fsync_cases[OF assms(1)] assms(2)
  by (auto simp: holds_file_def file_at_def committed_at_def dest: map_of_key split: if_splits)

lemma burn_holds:
  assumes "holds_file ino n f dk"
  shows "holds_file ino n f (fst (burn sha st jti ex now dk))"
proof -
  obtain dk1 e where p: "assertStillPinned st dk = (dk1, e)" by fastforce
  obtain dk2 w where w: "writeRecord (record_name sha jti) (dispatching_record jti ex now) True now dk1 = (dk2, w)"
    by fastforce
  obtain dk3 ok where fs: "fsyncPinned st dk2 = (dk3, ok)" by fastforce
  have 1: "holds_file ino n f dk1" using assms pin_disk[OF p] holds_same_dirs by metis
  have 2: "holds_file ino n f dk2" by (rule writeRecord_holds[OF w 1]) simp
  have 3: "holds_file ino n f dk3" by (rule fsync_holds[OF fs 2])
  have "fst (burn sha st jti ex now dk) \<in> {dk1, dk2, dk3}"
    by (simp add: burn_def p w fs split: option.splits write_result.splits bool.splits)
  with 1 2 3 show ?thesis by auto
qed

lemma record_holds:
  assumes "holds_file ino n f dk" and "record_name sha jti \<noteq> n"
  shows "holds_file ino n f (fst (record_outcome sha st jti patch now dk))"
proof -
  obtain dk1 e1 where p: "assertStillPinned st dk = (dk1, e1)" by fastforce
  obtain dk2 r where r: "readRecord (record_name sha jti) dk1 = (dk2, r)" by fastforce
  let ?base = "case r of Some r \<Rightarrow> if is_unreadable r then dispatching_record jti (NInt 0) now else r
                 | None \<Rightarrow> dispatching_record jti (NInt 0) now"
  obtain dk3 w where w: "writeRecord (record_name sha jti) (spread ?base patch) False now dk2 = (dk3, w)" by fastforce
  obtain dk4 ok where fs: "fsyncPinned st dk3 = (dk4, ok)" by fastforce
  have 1: "holds_file ino n f dk1" "holds_file ino n f dk2"
    using assms(1) pin_disk[OF p] readRecord_disk[OF r] holds_same_dirs by metis+
  have 3: "holds_file ino n f dk3" using writeRecord_holds[OF w 1(2)] assms(2) by simp
  have 4: "holds_file ino n f dk4" by (rule fsync_holds[OF fs 3])
  have "fst (record_outcome sha st jti patch now dk) \<in> {dk1, dk3, dk4}"
    by (simp add: record_outcome_def p r w fs Let_def split: option.split write_result.split)
  with 1 3 4 show ?thesis by auto
qed

lemma power_loss_holds:
  assumes "holds_file ino n f dk" and "bf_synced f"
  shows "holds_file ino n f (power_loss leftovers dk)"
proof -
  define d where "d = bd_dirs dk ino"
  have d: "map_of (dr_files d) n = Some f" "n \<in> set (dr_committed d)"
    using assms(1) by (simp_all add: holds_file_def file_at_def committed_at_def d_def)
  have "map_of (concat (map (\<lambda>(m, g). if m \<in> set (dr_committed d) \<or> m \<in> fst ` set leftovers
            then [(m, surviving leftovers m g)] else []) xs)) n = Some f"
    if "map_of xs n = Some f" for xs
    using that d(2) assms(2) by (induction xs) (auto simp: surviving_def split: if_splits)
  from this[OF d(1)] have "map_of (dr_files (power_loss_dir leftovers d)) n = Some f"
    by (simp add: power_loss_dir_def Let_def map_add_Some_iff)
  with power_loss_dir_keeps(2)[of d n leftovers] d show ?thesis
    by (simp add: holds_file_def file_at_def committed_at_def power_loss_def d_def)
qed

lemma burn_step_holds:
  assumes "holds_file ino n f dk" and "shields expiry retention f" and "leaves_record sha n expiry e"
  shows "holds_file ino n f (burn_step sha retention dk e)"
proof (cases e)
  case (PowerLoss leftovers)
  then show ?thesis using power_loss_holds[OF assms(1)] assms(2) by (simp add: shields_def)
next
  case (Repoint p)
  then show ?thesis using assms(1) holds_same_dirs[of "dk\<lparr>bd_path := p\<rparr>" dk] by simp
next
  case (Deal cs)
  then show ?thesis using assms(1) holds_same_dirs[of "dk\<lparr>bd_calls := cs\<rparr>" dk] by simp
next
  case (Prune now)
  then show ?thesis using assms pruneExpired_keeps[OF assms(1) shields_not_due[OF assms(2)]] by simp
qed (use assms in \<open>simp_all add: burn_holds record_holds\<close>)

lemma burn_run_holds:
  "holds_file ino n f dk \<Longrightarrow> shields expiry retention f \<Longrightarrow> list_all (leaves_record sha n expiry) es \<Longrightarrow>
     holds_file ino n f (foldl (burn_step sha retention) dk es)"
  by (induction es arbitrary: dk) (auto intro: burn_step_holds)

section \<open>Calls that complete\<close>

lemma calm_call [simp]: "bd_calls dk = [] \<Longrightarrow> burn_call dk = (Completes, dk)"
  by (simp add: burn_call_def)

lemma calm_put [simp]: "bd_calls (put_file ino n f dk) = bd_calls dk"
  by (simp add: put_file_def)

lemma utf8_prefix_all: "utf8_prefix (byte_length s) s = s"
  by (induction s) (auto simp: byte_length_def Let_def)

lemma put_again: "put_file ino n g (put_file ino n f dk) = put_file ino n g dk"
  by (simp add: put_file_def update_Some_unfold)

definition whole_file :: "burn_record \<Rightarrow> millis \<Rightarrow> burn_file" where
  "whole_file r now = \<lparr>bf_text = record_text r, bf_synced = True, bf_mtime = now\<rparr>"

lemma writeRecord_calm:
  assumes "bd_calls dk = []" and "bd_path dk = Some ino" and "\<not> (excl \<and> file_at ino n dk \<noteq> None)"
  shows "\<exists>dk'. writeRecord n r excl now dk = (dk', Written) \<and> only_file ino n dk dk' (whole_file r now) \<and> bd_calls dk' = []"
proof -
  let ?p = "put_file ino n"
  have "writeRecord n r excl now dk =
      (?p (whole_file r now) (?p \<lparr>bf_text = record_text r, bf_synced = False, bf_mtime = now\<rparr>
         (?p \<lparr>bf_text = [], bf_synced = False, bf_mtime = now\<rparr> dk)), Written)"
    using assms by (simp add: writeRecord_def fill_file_def utf8_prefix_all whole_file_def Let_def)
  then show ?thesis using assms(1) by (auto simp: only_file_def)
qed

lemma fsync_calm:
  "bd_calls dk = [] \<Longrightarrow> \<exists>dk'. fsyncPinned st dk = (dk', True) \<and> bd_calls dk' = [] \<and> bd_path dk' = bd_path dk \<and>
     (\<forall>i n. file_at i n dk' = file_at i n dk)"
  by (auto simp: fsyncPinned_def Let_def file_at_def)

lemma pin_calm:
  "bd_calls dk = [] \<Longrightarrow> bd_path dk = Some (bs_pinned st) \<Longrightarrow> \<not> bs_closed st \<Longrightarrow> assertStillPinned st dk = (dk, None)"
  by (simp add: assertStillPinned_def)

text \<open>A record whose text reads back: the numbers print the way they are read, and it is not too long.\<close>

definition storable_record :: "burn_record \<Rightarrow> bool" where
  "storable_record r \<longleftrightarrow>
     distinct (map_keys r) \<and> json_ok (JObj (object_order r)) \<and> length (record_text r) \<le> MAX_RECORD_BYTES \<and>
     (\<exists>j. map_of r ''jti'' = Some (JStr j)) \<and> (\<exists>n. map_of r ''expiresAt'' = Some (JNum n))"

lemma storable_reads_back:
  assumes "storable_record r"
  shows "record_of_text (record_text r) = object_order r"
proof -
  have "distinct (map_keys r)"
    using assms by (simp add: storable_record_def)
  then have "map_of (object_order r) = map_of r" by (rule map_of_object_order)
  with assms show ?thesis
    by (auto simp: storable_record_def record_of_text_def record_text_def json_parse_text simp del: json_ok.simps json_text.simps)
qed

lemma burned_shields:
  assumes "bd_calls dk = []" and "burn sha st jti (NInt expiry) now dk = (dk', Burned)"
    and "storable_record (dispatching_record jti (NInt expiry) now)"
    and "0 \<le> retention" "0 \<le> now" "0 \<le> expiry" "expiry \<le> now + retention"
    and "is_safe_int (expiry + retention)" "is_safe_int (now + retention)"
  shows "\<exists>f. holds_file (bs_pinned st) (record_name sha jti) f dk' \<and> shields expiry retention f"
proof -
  let ?r = "dispatching_record jti (NInt expiry) now" and ?n = "record_name sha jti"
  from assms(2) obtain dk1 dk2 where s: "assertStillPinned st dk = (dk1, None)"
      "writeRecord ?n ?r True now dk1 = (dk2, Written)" "fsyncPinned st dk2 = (dk', True)"
    unfolding burn_Burned by blast
  have "dk1 = dk" using s(1) assms(1) by (auto simp: assertStillPinned_def split: option.splits if_splits)
  note path = pin_path[OF s(1)]
  have "\<not> (True \<and> file_at (bs_pinned st) ?n dk1 \<noteq> None)" using writeRecord_Written(2)[OF s(2) path] by simp
  from writeRecord_calm[OF _ path this, of ?r now] assms(1) s(2) \<open>dk1 = dk\<close>
  have "file_at (bs_pinned st) ?n dk2 = Some (whole_file ?r now)" by (auto simp: only_file_def)
  then have "holds_file (bs_pinned st) ?n (whole_file ?r now) dk'"
    using fsync_commits[OF s(3)] fsync_cases[OF s(3)] by (auto simp: holds_file_def spent_entry_def file_at_def)
  moreover have "object_order ?r = ?r"
    by (rule object_order_plain) (simp add: dispatching_record_def array_index_key_def is_digit_def code_unit_def)
  then have "record_of_text (record_text ?r) = ?r" using storable_reads_back[OF assms(3)] by simp
  ultimately show ?thesis
    using assms by (intro exI[of _ "whole_file ?r now"]) (simp add: shields_def whole_file_def dispatching_record_def)
qed

section \<open>Properties\<close>

text \<open>
  C34: A grant is burned at most once, and once more only for each prune that took its record when it
  was due: along every run of burns and outcome records by any processes, prunes, restarts,
  failing or short system calls, power losses and moves of the path, the entry of one directory and
  one identifier answers burned no more often than that; so at most once while no record of it is past the
  retention after the expiry it states, or after its last write if it cannot be read.
\<close>

theorem burn_wins_at_most_once:
  "count_run (burn_step sha retention) (burns_entry sha (ino, record_name sha jti)) dk es
     \<le> count_run (burn_step sha retention) (takes_due retention (ino, record_name sha jti)) dk es + 1"
  using burns.spends_within_issues[of sha retention "(ino, record_name sha jti)" dk es] by (simp split: if_split_asm)

text \<open>
  Pruning alone does not open the replay window: once a burn whose calls complete has answered burned,
  with an expiry within the retention of the burn, no burn of that grant in that directory answers
  burned again, whatever burns, prunes before the expiry, failing calls, power losses, moves of the
  path and outcome records of other grants come in between.
\<close>

theorem burn_holds_until_expiry:
  assumes "bd_calls dk = []" and "burn sha st jti (NInt expiry) now dk = (dk', Burned)"
    and "storable_record (dispatching_record jti (NInt expiry) now)"
    and "0 \<le> retention" "0 \<le> now" "0 \<le> expiry" "expiry \<le> now + retention"
    and "is_safe_int (expiry + retention)" "is_safe_int (now + retention)"
    and "list_all (leaves_record sha (record_name sha jti) expiry) es"
    and "bs_pinned st' = bs_pinned st"
  shows "snd (burn sha st' jti ex' now' (foldl (burn_step sha retention) dk' es)) \<noteq> Burned"
proof -
  from burned_shields[OF assms(1-9)] obtain f where
    f: "holds_file (bs_pinned st) (record_name sha jti) f dk'" "shields expiry retention f" by blast
  let ?dk = "foldl (burn_step sha retention) dk' es"
  have "spent_entry ?dk (bs_pinned st, record_name sha jti)"
    by (rule holds_spent[OF burn_run_holds[OF f assms(10)]])
  then show ?thesis using burn_commits(2) assms(11) by (metis prod.collapse)
qed

definition demo_store :: burn_store where
  "demo_store = \<lparr>bs_pinned = 3, bs_closed = False\<rparr>"

definition demo_disk :: burn_disk where
  "demo_disk = \<lparr>bd_dirs = (\<lambda>_. \<lparr>dr_files = [], dr_committed = []\<rparr>), bd_path = Some 3, bd_calls = []\<rparr>"

lemma demo_record_storable: "storable_record (dispatching_record ''j'' (NInt 50) 40)"
proof -
  let ?r = "dispatching_record ''j'' (NInt 50) 40"
  have "object_order ?r = ?r"
    by (rule object_order_plain) (simp add: dispatching_record_def array_index_key_def is_digit_def code_unit_def)
  then show ?thesis
    by (simp add: storable_record_def dispatching_record_def map_keys_def record_text_def json_string_text_def quoted_def escape_char_def
        code_unit_def MAX_RECORD_BYTES_def is_safe_int_def MAX_SAFE_INTEGER_def show_int_def show_nat.simps digit_char_def)
qed

lemma demo_burned: "snd (burn (\<lambda>j. j) demo_store ''j'' (NInt 50) 40 demo_disk) = Burned"
  by (simp add: burn_def assertStillPinned_def demo_store_def demo_disk_def burn_call_def writeRecord_def fill_file_def
      file_at_def put_file_def fsyncPinned_def Let_def)

lemma burn_holds_until_expiry_witness:
  "snd (burn (\<lambda>j. j) demo_store ''j'' (NInt 90) 45
     (foldl (burn_step (\<lambda>j. j) 100) (fst (burn (\<lambda>j. j) demo_store ''j'' (NInt 50) 40 demo_disk))
       [Deal [Completes, Fails], Prune 44, PowerLoss [], Deal []])) \<noteq> Burned"
proof -
  have b: "burn (\<lambda>j. j) demo_store ''j'' (NInt 50) 40 demo_disk =
      (fst (burn (\<lambda>j. j) demo_store ''j'' (NInt 50) 40 demo_disk), Burned)"
    using demo_burned by (metis prod.collapse)
  show ?thesis
    by (rule burn_holds_until_expiry[OF _ b demo_record_storable])
       (simp_all add: demo_disk_def is_safe_int_def MAX_SAFE_INTEGER_def)
qed

text \<open>
  A recorded outcome is what a later query reads: when the calls complete, recording an
  outcome on a readable record and looking it up returns the record with the outcome's fields
  in place, its identifier and expiry as before.
\<close>

theorem outcome_is_looked_up:
  assumes "bd_calls dk = []" and "bd_path dk = Some (bs_pinned st)" and "\<not> bs_closed st"
    and "file_at (bs_pinned st) (record_name sha jti) dk = Some f"
    and "\<not> is_unreadable (record_of_text (bf_text f))"
    and "storable_record (spread (record_of_text (bf_text f)) patch)"
    and "record_outcome sha st jti patch now dk = (dk', e)"
  shows "e = None \<and> snd (lookup_record sha jti dk') = Some (object_order (spread (record_of_text (bf_text f)) patch))"
proof -
  let ?n = "record_name sha jti" and ?r = "spread (record_of_text (bf_text f)) patch"
  have read: "readRecord ?n dk = (dk, Some (record_of_text (bf_text f)))"
    using assms by (simp add: readRecord_def)
  obtain dk2 where w: "writeRecord ?n ?r False now dk = (dk2, Written)" "only_file (bs_pinned st) ?n dk dk2 (whole_file ?r now)"
      "bd_calls dk2 = []"
    using writeRecord_calm[OF assms(1,2), of False] by blast
  obtain dk3 where fs: "fsyncPinned st dk2 = (dk3, True)" "bd_calls dk3 = []" "bd_path dk3 = bd_path dk2"
      "file_at (bs_pinned st) ?n dk3 = file_at (bs_pinned st) ?n dk2"
    using fsync_calm[OF w(3)] by blast
  have "dk' = dk3 \<and> e = None"
    using assms(7) by (simp add: record_outcome_def pin_calm[OF assms(1-3)] read assms(5) w(1) fs(1) Let_def)
  moreover have "bd_path dk3 = Some (bs_pinned st)" "file_at (bs_pinned st) ?n dk3 = Some (whole_file ?r now)"
    using fs w(2) assms(2) by (simp_all add: only_file_def)
  ultimately show ?thesis
    using fs(2) storable_reads_back[OF assms(6)] by (simp add: lookup_record_def readRecord_def whole_file_def)
qed

lemma outcome_is_looked_up_witness:
  "\<exists>dk. snd (lookup_record (\<lambda>j. j) ''j'' dk) =
     Some (object_order (spread (dispatching_record ''j'' (NInt 50) 40) [(''state'', JStr ''performed'')]))"
proof -
  let ?r = "dispatching_record ''j'' (NInt 50) 40" and ?n = "record_name (\<lambda>j. j) ''j''"
  have ord: "object_order ?r = ?r"
    by (rule object_order_plain) (simp add: dispatching_record_def array_index_key_def is_digit_def code_unit_def)
  have rb: "record_of_text (record_text ?r) = ?r" using storable_reads_back[OF demo_record_storable] ord by simp
  let ?dk = "put_file 3 ?n (whole_file ?r 40) demo_disk"
  have sp: "spread ?r [(''state'', JStr ''performed'')] =
      [(''jti'', JStr ''j''), (''expiresAt'', JNum (NInt 50)), (''state'', JStr ''performed''), (''burnedAt'', JNum (NInt 40))]"
    by (simp add: spread_def dispatching_record_def)
  have "object_order (spread ?r [(''state'', JStr ''performed'')]) = spread ?r [(''state'', JStr ''performed'')]"
    by (rule object_order_plain) (simp add: sp array_index_key_def is_digit_def code_unit_def)
  then have stb: "storable_record (spread ?r [(''state'', JStr ''performed'')])"
    by (simp add: storable_record_def sp map_keys_def record_text_def json_string_text_def quoted_def escape_char_def
        code_unit_def MAX_RECORD_BYTES_def is_safe_int_def MAX_SAFE_INTEGER_def show_int_def show_nat.simps digit_char_def)
  obtain dk' e where "record_outcome (\<lambda>j. j) demo_store ''j'' [(''state'', JStr ''performed'')] 45 ?dk = (dk', e)" by fastforce
  from outcome_is_looked_up[OF _ _ _ _ _ _ this, of "whole_file ?r 40"] rb stb
  have "snd (lookup_record (\<lambda>j. j) ''j'' dk') = Some (object_order (spread ?r [(''state'', JStr ''performed'')]))"
    by (simp add: demo_disk_def demo_store_def whole_file_def is_unreadable_def dispatching_record_def)
  then show ?thesis by blast
qed

lemma map_of_spread: "map_of patch k = None \<Longrightarrow> map_of (spread base patch) k = map_of base k"
  unfolding spread_def by (induction patch arbitrary: base) (auto simp: update_conv' split: if_splits)

lemma file_at_unlink: "file_at i n (unlink_file i m dk) = (if m = n then None else file_at i n dk)"
  by (simp add: file_at_def unlink_file_def delete_conv')

lemma calm_prune_record:
  assumes "bd_calls dk = []" and "bd_path dk = Some i"
  shows "fst (prune_record retention now (dk, k) m) \<in> {dk, unlink_file i m dk}"
    and "file_at i m dk = None \<Longrightarrow> fst (prune_record retention now (dk, k) m) = dk"
proof -
  have "fst (readRecord m dk) = dk" using assms(1) by (simp add: readRecord_def split: option.split)
  then obtain r where r: "readRecord m dk = (dk, r)" by (metis prod.collapse)
  define a where "a = (\<lambda>rec. snd (retention_anchor m rec now dk))"
  have a: "retention_anchor m rec now dk = (dk, a rec)" for rec
    using assms(1) by (simp add: a_def retention_anchor_def)
  show "fst (prune_record retention now (dk, k) m) \<in> {dk, unlink_file i m dk}"
    "file_at i m dk = None \<Longrightarrow> fst (prune_record retention now (dk, k) m) = dk"
    using assms by (simp_all add: prune_record_def r a split: option.split)
qed

lemma unlink_rest [simp]: "bd_calls (unlink_file i m dk) = bd_calls dk" "bd_path (unlink_file i m dk) = bd_path dk"
  by (simp_all add: unlink_file_def)

lemma calm_prune_removes:
  assumes "bd_calls dk = []" "bd_path dk = Some i" "n \<in> set ms \<or> file_at i n dk = None"
    and "\<And>dk k. bd_calls dk = [] \<Longrightarrow> bd_path dk = Some i \<Longrightarrow> file_at i n dk = Some f \<Longrightarrow>
        fst (prune_record retention now (dk, k) n) = unlink_file i n dk"
    and "file_at i n dk \<in> {None, Some f}"
  shows "file_at i n (fst (foldl (prune_record retention now) (dk, k) ms)) = None \<and>
    bd_calls (fst (foldl (prune_record retention now) (dk, k) ms)) = [] \<and>
    bd_path (fst (foldl (prune_record retention now) (dk, k) ms)) = Some i"
  using assms(1-3,5)
proof (induction ms arbitrary: dk k)
  case (Cons m ms)
  obtain d k' where d: "prune_record retention now (dk, k) m = (d, k')" by fastforce
  have u: "d \<in> {dk, unlink_file i m dk}" "file_at i m dk = None \<Longrightarrow> d = dk"
    using calm_prune_record[OF Cons.prems(1,2), where retention = retention and now = now and k = k and m = m] d by auto
  have "bd_calls d = []" "bd_path d = Some i" "file_at i n d \<in> {None, Some f}"
    using u(1) Cons.prems by (auto simp: file_at_unlink split: if_split_asm)
  moreover have "m = n \<Longrightarrow> file_at i n d = None"
    using assms(4)[OF Cons.prems(1,2), of k] Cons.prems(4) u(2) d by (auto simp: file_at_unlink)
  moreover have "m \<noteq> n \<Longrightarrow> file_at i n d = file_at i n dk" using u(1) by (auto simp: file_at_unlink)
  ultimately show ?case using Cons.IH[of d k'] Cons.prems(3) d by (cases "m = n") auto
qed simp

text \<open>
  C36: The exception: an outcome recorded while the record cannot be read states expiry zero, so
  that the next prune at any reading past the retention removes it and the same grant burns
  again, however far off its expiry was.
\<close>

theorem outcome_over_unreadable_unburns:
  assumes "bd_path dk = Some (bs_pinned st)" and "\<not> bs_closed st" and "bd_calls dk = [Completes, Fails]"
    and "map_of patch ''expiresAt'' = None"
    and "storable_record (spread (dispatching_record jti (NInt 0) now) patch)"
    and "\<not> is_unreadable (spread (dispatching_record jti (NInt 0) now) patch)"
    and "is_safe_int retention" and "retention < later"
  shows "snd (burn sha st jti ex later
     (foldl (burn_step sha retention) dk [RecordOutcome st jti patch now, Prune later])) = Burned"
proof -
  let ?n = "record_name sha jti" and ?r = "spread (dispatching_record jti (NInt 0) now) patch" and ?i = "bs_pinned st"
  let ?d1 = "dk\<lparr>bd_calls := [Fails]\<rparr>" and ?d2 = "dk\<lparr>bd_calls := []\<rparr>"
  have pin: "assertStillPinned st dk = (?d1, None)" using assms by (simp add: assertStillPinned_def burn_call_def)
  have read: "readRecord ?n ?d1 = (?d2, Some unreadable_record)" by (simp add: readRecord_def burn_call_def)
  obtain d3 where w: "writeRecord ?n ?r False now ?d2 = (d3, Written)" "only_file ?i ?n ?d2 d3 (whole_file ?r now)"
      "bd_calls d3 = []"
    using writeRecord_calm[of ?d2 ?i False ?n ?r now] assms(1) by auto
  obtain d4 where fs: "fsyncPinned st d3 = (d4, True)" "bd_calls d4 = []" "bd_path d4 = bd_path d3"
      "\<forall>i n. file_at i n d4 = file_at i n d3"
    using fsync_calm[OF w(3)] by blast
  have rec: "record_outcome sha st jti patch now dk = (d4, None)"
    by (simp add: record_outcome_def pin read w(1) fs(1) Let_def is_unreadable_def unreadable_record_def)
  have at: "bd_path d4 = Some ?i" "file_at ?i ?n d4 = Some (whole_file ?r now)"
    using fs w(2) assms(1) by (simp_all add: only_file_def)
  have map: "map_of (object_order ?r) = map_of ?r"
    using assms(5) by (intro map_of_object_order) (simp add: storable_record_def)
  have "map_of ?r ''expiresAt'' = Some (JNum (NInt 0))"
    using map_of_spread[OF assms(4)] by (simp add: dispatching_record_def)
  then have old: "stated_expiry (object_order ?r) = NInt 0" "\<not> is_unreadable (object_order ?r)"
    using assms(6) by (simp_all add: is_unreadable_def map)
  have pr: "fst (prune_record retention later (d, k) ?n) = unlink_file ?i ?n d"
    if "bd_calls d = []" "bd_path d = Some ?i" "file_at ?i ?n d = Some (whole_file ?r now)" for d k
  proof -
    have "readRecord ?n d = (d, Some (object_order ?r))"
      using that storable_reads_back[OF assms(5)] by (simp add: readRecord_def whole_file_def)
    then show ?thesis using old assms(7,8) that
      by (simp add: prune_record_def retention_anchor_def record_name_def suffix_def del: stated_expiry.simps)
  qed
  let ?names = "map fst (dr_files (bd_dirs d4 ?i))"
  define d5 where "d5 = fst (pruneExpired retention later d4)"
  have d5: "d5 = fst (foldl (prune_record retention later) (d4, 0) ?names)"
    unfolding d5_def pruneExpired_def by (simp add: fs(2) at(1))
  have "?n \<in> set ?names \<or> file_at ?i ?n d4 = None"
    using at(2) by (auto simp: file_at_def dest: map_of_key)
  with fs(2) at(1) have "file_at ?i ?n d5 = None \<and> bd_calls d5 = [] \<and> bd_path d5 = Some ?i"
    unfolding d5
  proof (rule calm_prune_removes)
    show "fst (prune_record retention later (d, k) ?n) = unlink_file ?i ?n d"
      if "bd_calls d = []" "bd_path d = Some ?i" "file_at ?i ?n d = Some (whole_file ?r now)" for d k
      by (rule pr[OF that])
    show "file_at ?i ?n d4 \<in> {None, Some (whole_file ?r now)}" using at(2) by simp
  qed
  then have p: "file_at ?i ?n d5 = None" "bd_calls d5 = []" "bd_path d5 = Some ?i" by blast+
  obtain d6 where w6: "writeRecord ?n (dispatching_record jti ex later) True later d5 = (d6, Written)" "bd_calls d6 = []"
    using writeRecord_calm[OF p(2,3), of True ?n] p(1) by blast
  obtain d7 where "fsyncPinned st d6 = (d7, True)" using fsync_calm[OF w6(2)] by blast
  then have "burn sha st jti ex later d5 = (d7, Burned)"
    unfolding burn_Burned using pin_calm[OF p(2,3) assms(2)] w6(1) by blast
  then show ?thesis by (simp add: rec d5_def)
qed

lemma outcome_over_unreadable_unburns_witness:
  "snd (burn (\<lambda>j. j) demo_store ''j'' (NInt 50) 150
     (foldl (burn_step (\<lambda>j. j) 100) (demo_disk\<lparr>bd_calls := [Completes, Fails]\<rparr>)
       [RecordOutcome demo_store ''j'' [(''state'', JStr ''performed'')] 45, Prune 150])) = Burned"
proof (rule outcome_over_unreadable_unburns)
  let ?r = "spread (dispatching_record ''j'' (NInt 0) 45) [(''state'', JStr ''performed'')]"
  have sp: "?r = [(''jti'', JStr ''j''), (''expiresAt'', JNum (NInt 0)), (''state'', JStr ''performed''), (''burnedAt'', JNum (NInt 45))]"
    by (simp add: spread_def dispatching_record_def)
  have "object_order ?r = ?r"
    by (rule object_order_plain) (simp add: sp array_index_key_def is_digit_def code_unit_def)
  then show "storable_record ?r"
    by (simp add: storable_record_def sp map_keys_def record_text_def json_string_text_def quoted_def escape_char_def
        code_unit_def MAX_RECORD_BYTES_def is_safe_int_def MAX_SAFE_INTEGER_def show_int_def show_nat.simps digit_char_def)
  show "\<not> is_unreadable ?r" by (simp add: sp is_unreadable_def)
qed (simp_all add: demo_disk_def demo_store_def is_safe_int_def MAX_SAFE_INTEGER_def)

section \<open>Placement facts\<close>

lemma relative_within: "relative ws (ws @ rest) = rest"
  by (induction ws) (cases rest; simp)+

lemma relative_outside: "\<not> prefix ws ds \<Longrightarrow> \<exists>rest. relative ws ds = ''..'' # rest"
  by (induction ws ds rule: relative.induct) (auto simp: neq_Nil_conv)

lemma joined_dots: "c \<noteq> [] \<Longrightarrow> prefix ''..'' (join_with ''/'' (c # cs)) = prefix ''..'' c"
  by (cases cs; cases c; cases "tl c") auto

lemma joined_slash: "c \<noteq> [] \<Longrightarrow> CHR ''/'' \<notin> set c \<Longrightarrow> \<not> prefix ''/'' (join_with ''/'' (c # cs))"
  by (cases cs; cases c) auto

definition real_path :: "string list \<Rightarrow> bool" where
  "real_path dir \<longleftrightarrow> (\<forall>c \<in> set dir. c \<noteq> [] \<and> CHR ''/'' \<notin> set c)"

lemma inside_workspace_iff:
  assumes "real_path dir"
  shows "inside_workspace ws dir \<longleftrightarrow> (\<exists>rest. dir = ws @ rest \<and> (rest = [] \<or> \<not> prefix ''..'' (hd rest)))"
proof (cases "prefix ws dir")
  case True
  then obtain rest where rest: "dir = ws @ rest" by (auto elim: prefixE)
  show ?thesis
  proof (cases rest)
    case Nil
    then show ?thesis using rest relative_within[of ws "[]"] by (simp add: inside_workspace_def)
  next
    case (Cons c cs)
    then have "c \<noteq> []" "CHR ''/'' \<notin> set c" using assms rest by (simp_all add: real_path_def)
    then show ?thesis
      using rest relative_within[of ws rest] joined_dots[of c cs] joined_slash[of c cs] Cons
      by (cases cs) (simp_all add: inside_workspace_def Let_def)
  qed
next
  case False
  then obtain rest where "relative ws dir = ''..'' # rest" using relative_outside by blast
  then have "\<not> inside_workspace ws dir" using joined_dots[of "''..''" rest] by (cases rest) (simp_all add: inside_workspace_def Let_def)
  with False show ?thesis by auto
qed

lemma trusted_ancestry_ok:
  "trusted_ancestry stat uid dir = None \<longleftrightarrow>
     (\<forall>k < length dir. \<exists>s. stat (take k dir) = Some s \<and> (fs_uid s = 0 \<or> fs_uid s = uid) \<and> fs_mode s AND 0x12 = 0)"
proof (induction stat uid dir rule: trusted_ancestry.induct)
  case (1 stat uid dir)
  show ?case
  proof (cases "dir = []")
    case False
    let ?ok = "\<lambda>k. \<exists>s. stat (take k dir) = Some s \<and> (fs_uid s = 0 \<or> fs_uid s = uid) \<and> fs_mode s AND 0x12 = 0"
    have "(\<forall>k < length dir. ?ok k) \<longleftrightarrow> ?ok (length dir - 1) \<and> (\<forall>k < length dir - 1. ?ok k)"
      using All_less_Suc[of "length dir - 1" ?ok] False by simp
    moreover have "take k (butlast dir) = take k dir" if "k < length dir - 1" for k
      using that by (simp add: take_butlast)
    moreover have "take (length dir - 1) dir = butlast dir" by (simp add: butlast_conv_take)
    ultimately show ?thesis
      using 1 False by (subst trusted_ancestry.simps) (auto simp: Let_def split: option.splits)
  qed (simp add: trusted_ancestry.simps)
qed

text \<open>
  A store is only opened in a hardened place: an absolute path whose last component is no
  symlink, every directory above it owned by root or the process and not writable by others, the
  directory itself private to the process; and it is outside the workspace, unless it lies under
  an entry of the workspace whose name begins with two dots, which the containment test lets
  through.
\<close>

theorem burn_store_placement:
  assumes "createJtiBurnStore pl rawDir workspace False = Inr st" and "pl_real pl = Some dir" and "real_path dir"
    and "pl_uid pl = Some uid"
  shows "prefix ''/'' rawDir \<and> \<not> pl_symlink pl \<and>
     (\<forall>k < length dir. \<exists>s. pl_stat pl (take k dir) = Some s \<and> fs_uid s \<in> {0, uid} \<and> fs_mode s AND 0x12 = 0) \<and>
     (\<exists>s. pl_stat pl dir = Some s \<and> fs_directory s \<and> fs_uid s = uid \<and> fs_mode s AND 0x3F = 0 \<and>
        st = \<lparr>bs_pinned = fs_identity s, bs_closed = False\<rparr>) \<and>
     (\<forall>ws rest. workspace = Some ws \<longrightarrow> dir = ws @ rest \<longrightarrow> rest \<noteq> [] \<and> prefix ''..'' (hd rest))"
proof -
  from assms have ok: "trusted_ancestry (pl_stat pl) uid dir = None" "burn_dir_hardened (pl_stat pl) (Some uid) dir = None"
      "prefix ''/'' rawDir" "\<not> pl_symlink pl" "case workspace of None \<Rightarrow> True | Some ws \<Rightarrow> \<not> inside_workspace ws dir"
    by (auto simp: createJtiBurnStore_def split: if_splits option.splits)
  from ok(2) obtain s where s: "pl_stat pl dir = Some s" "fs_directory s" "fs_uid s = uid" "fs_mode s AND 0x3F = 0"
    by (auto simp: burn_dir_hardened_def split: option.splits if_splits)
  have "st = \<lparr>bs_pinned = fs_identity s, bs_closed = False\<rparr>"
    using assms ok s by (auto simp: createJtiBurnStore_def split: if_splits option.splits)
  moreover have "\<forall>ws rest. workspace = Some ws \<longrightarrow> dir = ws @ rest \<longrightarrow> rest \<noteq> [] \<and> prefix ''..'' (hd rest)"
    using ok(5) inside_workspace_iff[OF assms(3)] by auto
  ultimately show ?thesis using ok s by (auto simp: trusted_ancestry_ok)
qed

lemma burn_store_placement_witness:
  "createJtiBurnStore \<lparr>pl_created = True, pl_symlink = False, pl_real = Some [''var'', ''ws'', ''..b''],
      pl_stat = (\<lambda>p. Some \<lparr>fs_directory = True, fs_uid = 7, fs_mode = 0x1C0, fs_identity = 4\<rparr>), pl_uid = Some 7, pl_opened = True\<rparr>
     ''/var/ws/..b'' (Some [''var'', ''ws'']) False = Inr \<lparr>bs_pinned = 4, bs_closed = False\<rparr> \<and> prefix ''..'' ''..b''"
  (is "?c = _ \<and> _")
proof -
  have "?c = Inr \<lparr>bs_pinned = 4, bs_closed = False\<rparr>"
    by (simp add: createJtiBurnStore_def inside_workspace_def Let_def trusted_ancestry.simps burn_dir_hardened_def)
  with burn_store_placement[OF this, of "[''var'', ''ws'', ''..b'']" 7] show ?thesis
    by (simp only: placement.simps real_path_def) simp
qed

end
