(* ===== verification/SecretLedger.thy ===== *)
theory SecretLedger
  imports Json "HOL-Library.Sublist"
begin

text \<open>
  The redactor of \<open>packages/executor/src/secret-ledger.ts\<close>: secrets are only ever added, each also
  in its JSON-escaped form, and every occurrence is replaced, the longest secrets first.
\<close>

section \<open>Definitions\<close>

type_synonym secret_ledger = "string list"

definition add_new :: "string \<Rightarrow> secret_ledger \<Rightarrow> secret_ledger" where
  "add_new s l = (if s \<in> set l then l else l @ [s])"

definition json_escaped :: "string \<Rightarrow> string" where
  "json_escaped s = (let t = json_string_text s in take (length t - 2) (drop 1 t))"

definition add_secret :: "string option \<Rightarrow> secret_ledger \<Rightarrow> secret_ledger" where
  "add_secret secret l =
     (case secret of
        None \<Rightarrow> l
      | Some s \<Rightarrow>
          if s = [] then l
          else if json_escaped s \<noteq> s then add_new (json_escaped s) (add_new s l) else add_new s l)"

definition REDACTED :: string where "REDACTED = ''[REDACTED]''"

text \<open>\<open>text.split(secret).join("[REDACTED]")\<close>, for a secret that is not empty.\<close>

function replace_all :: "string \<Rightarrow> string \<Rightarrow> string" where
  "replace_all secret content =
     (if secret = [] \<or> content = [] then content
      else if prefix secret content then REDACTED @ replace_all secret (drop (length secret) content)
      else hd content # replace_all secret (tl content))"
  by pat_completeness auto
termination
  by (relation "measure (\<lambda>(_, content). length content)") (auto simp: neq_Nil_conv)

declare replace_all.simps [simp del]

definition redact :: "secret_ledger \<Rightarrow> string \<Rightarrow> string" where
  "redact l content = fold replace_all (sort_key (\<lambda>s. - int (length s)) l) content"

section \<open>Facts\<close>

text \<open>A secret that the mark cannot spell a part of: no bracket, and no part of the word.\<close>

definition unlike_mark :: "string \<Rightarrow> bool" where
  "unlike_mark s \<longleftrightarrow> s \<noteq> [] \<and> CHR ''['' \<notin> set s \<and> CHR '']'' \<notin> set s \<and> \<not> sublist s ''REDACTED''"

lemma sublist_across:
  assumes "sublist s (x @ c # y)" and "c \<notin> set s"
  shows "sublist s x \<or> sublist s y"
proof -
  from assms(1) obtain a b where eq: "x @ c # y = a @ s @ b" by (auto simp: sublist_def)
  show ?thesis
  proof (cases "length (a @ s) \<le> length x")
    case True
    then have "prefix (a @ s) x" using eq by (metis append.assoc append_eq_append_conv_if prefixI append_take_drop_id)
    then show ?thesis by (auto simp: prefix_def sublist_def)
  next
    case False
    show ?thesis
    proof (cases "length x < length a")
      case True
      then have "drop (Suc (length x)) (x @ c # y) = drop (Suc (length x)) a @ s @ b" using eq by simp
      then show ?thesis by (auto simp: sublist_def)
    next
      case nlt: False
      then have lt: "length x - length a < length s" using False by simp
      then have "(a @ s @ b) ! length x = s ! (length x - length a)" using nlt by (simp add: nth_append)
      then have "c = s ! (length x - length a)" using eq by (metis nth_append_length)
      with lt show ?thesis using assms(2) nth_mem by blast
    qed
  qed
qed

lemma sublist_across_mark:
  assumes "sublist s (x @ REDACTED @ y)" and "unlike_mark s"
  shows "sublist s x \<or> sublist s y"
proof -
  from assms(1) have "sublist s (x @ CHR ''['' # (''REDACTED'' @ CHR '']'' # y))" by (simp add: REDACTED_def)
  then consider "sublist s x" | "sublist s (''REDACTED'' @ CHR '']'' # y)"
    using sublist_across assms(2) by (metis unlike_mark_def)
  then show ?thesis using sublist_across assms(2) by (metis unlike_mark_def)
qed

lemma replaced_keeps_out:
  assumes "unlike_mark s" and "sublist s (p @ replace_all r t)"
  shows "sublist s (p @ t)"
  using assms(2)
proof (induction r t arbitrary: p rule: replace_all.induct)
  case (1 r t)
  show ?case
  proof (cases "r = [] \<or> t = []")
    case False
    show ?thesis
    proof (cases "prefix r t")
      case True
      then have "sublist s (p @ REDACTED @ replace_all r (drop (length r) t))"
        using 1(3) False by (simp add: replace_all.simps[of r t])
      then have "sublist s p \<or> sublist s (replace_all r (drop (length r) t))"
        by (rule sublist_across_mark[OF _ assms(1)])
      then have "sublist s p \<or> sublist s (drop (length r) t)" using 1(1)[of "[]"] False True by auto
      then show ?thesis by (meson sublist_append_leftI sublist_append_rightI sublist_drop sublist_order.order_trans)
    next
      case np: False
      then have "sublist s ((p @ [hd t]) @ replace_all r (tl t))"
        using 1(3) False by (simp add: replace_all.simps[of r t])
      then have "sublist s ((p @ [hd t]) @ tl t)" using 1(2) False np by blast
      then show ?thesis using False by simp
    qed
  qed (use 1(3) in \<open>simp add: replace_all.simps\<close>)
qed

text \<open>No occurrence begins in \<open>p\<close> when \<open>t\<close> follows it.\<close>

definition none_begins :: "string \<Rightarrow> string \<Rightarrow> string \<Rightarrow> bool" where
  "none_begins s p t \<longleftrightarrow> (\<forall>a q. p = a @ q \<longrightarrow> q \<noteq> [] \<longrightarrow> \<not> prefix s (q @ t))"

lemma none_begins_within: "none_begins s p t \<Longrightarrow> s \<noteq> [] \<Longrightarrow> \<not> sublist s p"
  by (fastforce simp: none_begins_def sublist_def)

lemma none_begins_snoc:
  assumes "none_begins s p (c # t)" and "\<not> prefix s (c # t)"
  shows "none_begins s (p @ [c]) t"
  unfolding none_begins_def
proof (intro allI impI)
  fix a q assume "p @ [c] = a @ q" "q \<noteq> []"
  then obtain q' where q: "q = q' @ [c]" "p = a @ q'" by (cases q rule: rev_cases) auto
  show "\<not> prefix s (q @ t)"
    using assms q by (cases "q' = []") (auto simp: none_begins_def)
qed

lemma replaced_is_out:
  assumes "unlike_mark s" and "none_begins s p t"
  shows "\<not> sublist s (p @ replace_all s t)"
  using assms
proof (induction s t arbitrary: p rule: replace_all.induct)
  case (1 s t)
  have ne: "s \<noteq> []" using 1(3) by (simp add: unlike_mark_def)
  show ?case
  proof (cases "t = []")
    case True
    then show ?thesis using none_begins_within[OF 1(4) ne] by (simp add: replace_all.simps)
  next
    case False
    then obtain c t' where t: "t = c # t'" by (cases t) auto
    show ?thesis
    proof (cases "prefix s t")
      case True
      have "\<not> sublist s (replace_all s (drop (length s) t))"
        using 1(1)[of "[]"] 1(3) False ne True by (simp add: none_begins_def)
      moreover note none_begins_within[OF 1(4) ne]
      ultimately have "\<not> sublist s (p @ REDACTED @ replace_all s (drop (length s) t))"
        using sublist_across_mark[OF _ 1(3)] by blast
      then show ?thesis using False ne True by (simp add: replace_all.simps[of s t])
    next
      case np: False
      have "none_begins s (p @ [c]) t'" using none_begins_snoc 1(4) np t by blast
      then have "\<not> sublist s ((p @ [c]) @ replace_all s t')"
        using 1(2)[of "p @ [c]"] 1(3) ne np t by simp
      then show ?thesis using ne np t by (simp add: replace_all.simps[of s "c # t'"])
    qed
  qed
qed

lemma fold_replaced_out:
  assumes "unlike_mark s" and "s \<in> set ss \<or> \<not> sublist s content"
  shows "\<not> sublist s (fold replace_all ss content)"
  using assms(2)
proof (induction ss arbitrary: content)
  case (Cons r ss)
  have "r = s \<Longrightarrow> \<not> sublist s (replace_all r content)"
    using replaced_is_out[OF assms(1), of "[]" content] by (simp add: none_begins_def)
  moreover have "\<not> sublist s content \<Longrightarrow> \<not> sublist s (replace_all r content)"
    using replaced_keeps_out[OF assms(1), of "[]" r content] by auto
  ultimately show ?case using Cons.IH[of "replace_all r content"] Cons.prems by auto
qed simp

lemma add_secret_holds: "s \<noteq> [] \<Longrightarrow> s \<in> set (add_secret (Some s) l) \<and> json_escaped s \<in> set (add_secret (Some s) l)"
  by (auto simp: add_secret_def add_new_def)

lemma add_secret_grows: "set l \<subseteq> set (add_secret x l)"
  by (auto simp: add_secret_def add_new_def split: option.split)

lemma add_secrets_hold:
  "Some s \<in> set xs \<Longrightarrow> s \<noteq> [] \<Longrightarrow> {s, json_escaped s} \<subseteq> set (foldl (\<lambda>l x. add_secret x l) l xs)"
proof (induction xs arbitrary: l)
  case (Cons x xs)
  have "set l' \<subseteq> set (foldl (\<lambda>l x. add_secret x l) l' xs)" for l'
    by (induction xs arbitrary: l') (simp, metis add_secret_grows foldl_Cons subset_trans)
  with Cons add_secret_holds[of s l] show ?case by fastforce
qed simp

section \<open>Properties\<close>

text \<open>
  C38: No secret leaves: after any secrets were added, the redacted text of any message contains
  neither an added secret nor its JSON-escaped form, for every secret that the mark itself could
  not spell.
\<close>

theorem redact_hides_secrets:
  assumes "Some s \<in> set added" and "v \<in> {s, json_escaped s}" and "unlike_mark s" and "unlike_mark v"
  shows "\<not> sublist v (redact (foldl (\<lambda>l x. add_secret x l) [] added) content)"
proof -
  have "v \<in> set (foldl (\<lambda>l x. add_secret x l) [] added)"
    using add_secrets_hold[OF assms(1), of "[]"] assms(2,3) by (auto simp: unlike_mark_def)
  then show ?thesis unfolding redact_def by (intro fold_replaced_out[OF assms(4)]) simp
qed

lemma redact_hides_secrets_witness:
  "\<not> sublist ''ghs_1'' (redact (foldl (\<lambda>l x. add_secret x l) [] [None, Some ''ghs_1'', Some ''hs'']) ''bad token ghs_1'')"
  by (rule redact_hides_secrets[where s = "''ghs_1''"]) (simp_all add: unlike_mark_def sublist_code)

end
