(* ===== verification/GithubMerge.thy ===== *)
theory GithubMerge
  imports SecretLedger MergeArgs
begin

text \<open>
  The merge of \<open>packages/executor/src/github-client.ts\<close> with the checks and messages of
  \<open>github-http.ts\<close>: what is checked before the request that merges is sent, what is sent, and how
  each answer is classified.

  A GitHub answer is \<open>NoReply\<close> (whether the request timed out) or \<open>Reply\<close> with its status, whether
  its headers mark a rate limit, and the body, \<open>None\<close> past the size bound.  The token source gives a
  token or the message of its error.  \<open>mergePullRequest\<close> is the code up to its gate
  (\<open>prepare_merge\<close>), the gate of its caller, and the code after it (\<open>finish_merge\<close>).
\<close>

section \<open>Names and requests\<close>

definition name_chars :: "string \<Rightarrow> string \<Rightarrow> bool" where
  "name_chars extra s \<longleftrightarrow>
     list_all (\<lambda>c. is_digit c \<or> (65 \<le> code_unit c \<and> code_unit c \<le> 90) \<or> (97 \<le> code_unit c \<and> code_unit c \<le> 122) \<or>
       c \<in> set extra) s"

definition assertSafeOwner :: "string \<Rightarrow> string option" where
  "assertSafeOwner s =
     (if length s < 1 \<or> 39 < length s \<or> \<not> name_chars ''-'' s then Some ''owner is not a valid GitHub owner name'' else None)"

definition assertSafeRepoName :: "string \<Rightarrow> string option" where
  "assertSafeRepoName s =
     (if length s < 1 \<or> 100 < length s \<or> s = ''.'' \<or> s = ''..'' \<or> \<not> name_chars ''_.-'' s
      then Some ''repository name is not a valid GitHub repository name'' else None)"

definition assertSafePullNumber :: "int \<Rightarrow> string option" where
  "assertSafePullNumber n =
     (if \<not> is_safe_int n \<or> n \<le> 0 then Some ''pullNumber must be a safe positive integer'' else None)"

definition upper_hex :: "nat \<Rightarrow> char" where
  "upper_hex d = (if d < 10 then digit_char d else char_of (55 + d))"

definition percent :: "nat \<Rightarrow> string" where
  "percent b = [CHR ''%'', upper_hex (b div 16), upper_hex (b mod 16)]"

definition encodeURIComponent :: "string \<Rightarrow> string" where
  "encodeURIComponent s =
     concat (map (\<lambda>c. if name_chars ''-_.!~*()'' [c] \<or> code_unit c = 39 then [c]
       else if code_unit c < 128 then percent (code_unit c)
       else percent (192 + code_unit c div 64) @ percent (128 + code_unit c mod 64)) s)"

definition prPath :: "string \<Rightarrow> string \<Rightarrow> string \<Rightarrow> int \<Rightarrow> string + string" where
  "prPath baseUrl owner repo n =
     (case assertSafeOwner owner of
        Some e \<Rightarrow> Inl e
      | None \<Rightarrow>
          (case assertSafeRepoName repo of
             Some e \<Rightarrow> Inl e
           | None \<Rightarrow>
               (case assertSafePullNumber n of
                  Some e \<Rightarrow> Inl e
                | None \<Rightarrow> Inr (baseUrl @ ''/repos/'' @ encodeURIComponent owner @ ''/'' @ encodeURIComponent repo @
                            ''/pulls/'' @ show_int n))))"

section \<open>Answers\<close>

datatype http_reply = NoReply bool | Reply nat bool "string option"

definition fixedTransportMessage :: "bool \<Rightarrow> string" where
  "fixedTransportMessage timed_out =
     (if timed_out then ''the request timed out'' else ''a network-level failure occurred'')"

definition MAX_ERROR_MESSAGE_CHARS :: nat where "MAX_ERROR_MESSAGE_CHARS = 300"

definition githubErrorMessage :: "secret_ledger \<Rightarrow> string option \<Rightarrow> string" where
  "githubErrorMessage l body =
     (case body of
        None \<Rightarrow> []
      | Some content \<Rightarrow>
          if content = [] then []
          else
            (case Option.bind (json_parse content) (own_field ''message'') of
               Some (JStr m) \<Rightarrow> take MAX_ERROR_MESSAGE_CHARS (redact l m)
             | _ \<Rightarrow> []))"

record pull_request =
  pr_merged :: bool
  pr_mergeCommitSha :: "string option"
  pr_headSha :: "string option"
  pr_baseRef :: "string option"

fun string_at :: "json option \<Rightarrow> string option" where
  "string_at (Some (JStr s)) = Some s"
| "string_at _ = None"

definition pull_request_of :: "json \<Rightarrow> pull_request" where
  "pull_request_of body =
     \<lparr>pr_merged = (own_field ''merged'' body = Some (JBool True)),
      pr_mergeCommitSha = string_at (own_field ''merge_commit_sha'' body),
      pr_headSha = string_at (Option.bind (own_field ''head'' body) (own_field ''sha'')),
      pr_baseRef = string_at (Option.bind (own_field ''base'' body) (own_field ''ref''))\<rparr>"

fun fetchPullRequest :: "http_reply \<Rightarrow> string + pull_request" where
  "fetchPullRequest (NoReply t) = Inl (''the pull request read failed: '' @ fixedTransportMessage t)"
| "fetchPullRequest (Reply status limited body) =
     (if status \<noteq> 200 then Inl (''the pull request read answered HTTP '' @ show_nat status)
      else case body of
        None \<Rightarrow> Inl ''the pull request read exceeded the response size bound''
      | Some content \<Rightarrow>
          (case json_parse content of
             None \<Rightarrow> Inl ''the pull request read returned an unreadable body''
           | Some v \<Rightarrow> Inr (pull_request_of v)))"

section \<open>Outcomes\<close>

datatype connector_outcome = NotPerformed | UnknownOutcome

record connector_error =
  ce_message :: string
  ce_outcome :: connector_outcome

datatype attribution = ThisDispatch | MergedStateOnly

record merge_result =
  mr_merged :: bool
  mr_sha :: string
  mr_message :: string
  mr_attribution :: attribution

definition notPerformed :: "secret_ledger \<Rightarrow> string \<Rightarrow> connector_error" where
  "notPerformed l m = \<lparr>ce_message = redact l m, ce_outcome = NotPerformed\<rparr>"

definition unknownOutcome :: "secret_ledger \<Rightarrow> string \<Rightarrow> connector_error" where
  "unknownOutcome l m = \<lparr>ce_message = redact l m, ce_outcome = UnknownOutcome\<rparr>"

definition pr_name :: "merge_args \<Rightarrow> string" where
  "pr_name a = ma_owner a @ ''/'' @ ma_repo a @ ''#'' @ show_int (ma_pullNumber a)"

definition verifyAfterAmbiguousDispatch ::
  "secret_ledger \<Rightarrow> merge_args \<Rightarrow> string \<Rightarrow> http_reply \<Rightarrow> connector_error + merge_result" where
  "verifyAfterAmbiguousDispatch l a cause reply =
     (let checkYourself = ''Check '' @ pr_name a @ '' directly before re-approving - '' @
            ''a re-approved merge could run the action twice.''
      in case fetchPullRequest reply of
           Inl e \<Rightarrow>
             Inl (unknownOutcome l (cause @ ''; the post-dispatch verification read also failed ('' @ e @
               ''), so the outcome is UNKNOWN. '' @ checkYourself))
         | Inr pr \<Rightarrow>
             if pr_merged pr then
               Inr \<lparr>mr_merged = True,
                 mr_sha = (case pr_mergeCommitSha pr of None \<Rightarrow> [] | Some s \<Rightarrow> redact l s),
                 mr_message = redact l (''the pull request is merged - '' @ cause @
                   '', and a post-dispatch verification read '' @
                   ''confirms the pull request's MERGED STATE. Note precisely what that proves: the PR '' @
                   ''is merged; whether THIS dispatch performed the merge cannot be determined.''),
                 mr_attribution = MergedStateOnly\<rparr>
             else
               Inl (unknownOutcome l (cause @ ''; a post-dispatch verification read shows the pull request NOT merged as of '' @
                 ''that read - but a request that died on the wire can still complete after it, so this '' @
                 ''is a snapshot, not proof. '' @ checkYourself)))"

definition DOCUMENTED_REJECTION_STATUSES :: "nat list" where
  "DOCUMENTED_REJECTION_STATUSES = [401, 403, 404, 405, 409, 422, 429]"

definition rejectionDetail :: "secret_ledger \<Rightarrow> merge_args \<Rightarrow> nat \<Rightarrow> bool \<Rightarrow> string option \<Rightarrow> string" where
  "rejectionDetail l a status limited body =
     (let message = githubErrorMessage l body;
          cited = (if message = [] then [] else '': '' @ message);
          end_note = '' The merge was NOT performed by this request.''
      in if (status = 403 \<or> status = 429) \<and> limited then
           ''GitHub rate-limited the executor's credential (HTTP '' @ show_nat status @ '')'' @ cited @ ''.'' @ end_note
         else if status = 401 then
           ''GitHub rejected the executor's credential (HTTP 401)'' @ cited @ ''.'' @ end_note
         else if status = 403 then
           ''GitHub forbade the merge (HTTP 403)'' @ cited @ '' - the installation token has contents:write on '' @
           ma_owner a @ ''/'' @ ma_repo a @ '', so look for repository rules or organization policy.'' @ end_note
         else if status = 404 then
           ''GitHub answered 404 for '' @ pr_name a @ '' - the pull request does not exist, or the App's installation '' @
           ''cannot see that repository (GitHub serves 404, not 403, for resources a credential cannot see).'' @ end_note
         else if status = 405 then
           ''GitHub reports the pull request is not mergeable (HTTP 405)'' @ cited @
           '' - draft, failing required checks, branch protection, or already merged.'' @ end_note
         else if status = 409 then
           ''the head of '' @ pr_name a @ '' no longer matches the approved expectedHeadSha (HTTP 409)'' @ cited @
           '' - the branch moved after the owner's approval, and merging it now would merge commits the owner '' @
           ''never saw. Re-approve against the new head.'' @ end_note
         else if status = 422 then
           ''GitHub refused the merge request as invalid (HTTP 422)'' @ cited @ ''.'' @ end_note
         else if status = 429 then
           ''GitHub rate-limited the executor's credential (HTTP 429)'' @ cited @ ''.'' @ end_note
         else ''GitHub refused the merge (HTTP '' @ show_nat status @ '')'' @ cited @ ''.'' @ end_note)"

section \<open>The merge\<close>

text \<open>Up to the gate: the path of the pull request, or the error that nothing was sent.\<close>

definition prepare_merge ::
  "secret_ledger \<Rightarrow> string \<Rightarrow> merge_args \<Rightarrow> string + string \<Rightarrow> http_reply \<Rightarrow> connector_error + string" where
  "prepare_merge l baseUrl a token read =
     (case prPath baseUrl (ma_owner a) (ma_repo a) (ma_pullNumber a) of
        Inl e \<Rightarrow> Inl (notPerformed l (''the merge was not dispatched: '' @ e))
      | Inr url \<Rightarrow>
          if ma_expectedHeadSha a = [] then
            Inl (notPerformed l (''the merge was not dispatched: expectedHeadSha is mandatory - every merge is pinned '' @
              ''to the head the owner approved''))
          else
            (case token of
               Inl e \<Rightarrow> Inl (notPerformed l (''the merge was not dispatched - no installation token: '' @ e))
             | Inr _ \<Rightarrow>
                 (case fetchPullRequest read of
                    Inl e \<Rightarrow>
                      Inl (notPerformed l (''the merge was not dispatched - the pre-dispatch base check could not read the '' @
                        ''pull request ('' @ e @ '')''))
                  | Inr pr \<Rightarrow>
                      (case pr_baseRef pr of
                         None \<Rightarrow>
                           Inl (notPerformed l (''the merge was not dispatched - GitHub's pull request response carried no usable '' @
                             ''base ref, so the approved merge destination cannot be verified''))
                       | Some base \<Rightarrow>
                           if base \<noteq> ma_expectedBaseRef a then
                             Inl (notPerformed l (''the merge was not dispatched - the pull request's base branch is now '' @
                               CHR 0x22 # base @ CHR 0x22 # '', but the owner approved a merge into '' @
                               CHR 0x22 # ma_expectedBaseRef a @ CHR 0x22 # ''. The PR was retargeted after approval; re-approve '' @
                               ''against the new destination.''))
                           else Inr url))))"

definition gate_refused :: "secret_ledger \<Rightarrow> string \<Rightarrow> connector_error" where
  "gate_refused l e = notPerformed l (''the merge was not dispatched - '' @ e)"

record merge_request =
  mq_url :: string
  mq_body :: string

definition merge_put :: "merge_args \<Rightarrow> string \<Rightarrow> merge_request" where
  "merge_put a url =
     \<lparr>mq_url = url @ ''/merge'',
      mq_body = json_text (JObj ((case ma_mergeMethod a of None \<Rightarrow> [] | Some m \<Rightarrow> [(''merge_method'', JStr (method_text m))]) @
        [(''sha'', JStr (ma_expectedHeadSha a))]))\<rparr>"

fun finish_merge :: "secret_ledger \<Rightarrow> merge_args \<Rightarrow> http_reply \<Rightarrow> http_reply \<Rightarrow> connector_error + merge_result" where
  "finish_merge l a (NoReply t) verify =
     verifyAfterAmbiguousDispatch l a (''the merge request failed on the wire ('' @ fixedTransportMessage t @ '')'') verify"
| "finish_merge l a (Reply status limited body) verify =
     (if status = 200 then
        (let v = Option.bind body json_parse in
         if Option.bind v (own_field ''merged'') \<noteq> Some (JBool True) then
           verifyAfterAmbiguousDispatch l a ''GitHub answered HTTP 200 without confirming the merge'' verify
         else
           Inr \<lparr>mr_merged = True,
             mr_sha = (case string_at (Option.bind v (own_field ''sha'')) of None \<Rightarrow> [] | Some s \<Rightarrow> redact l s),
             mr_message = (case string_at (Option.bind v (own_field ''message'')) of None \<Rightarrow> [] | Some m \<Rightarrow> take 300 (redact l m)),
             mr_attribution = ThisDispatch\<rparr>)
      else if status \<in> set DOCUMENTED_REJECTION_STATUSES then
        Inl (notPerformed l (rejectionDetail l a status limited body))
      else
        verifyAfterAmbiguousDispatch l a (''GitHub answered an unrecognized HTTP '' @ show_nat status) verify)"

text \<open>The whole call, with the request it sent if it sent one.\<close>

definition mergePullRequest ::
  "secret_ledger \<Rightarrow> string \<Rightarrow> merge_args \<Rightarrow> string + string \<Rightarrow> http_reply \<Rightarrow> string option \<Rightarrow> http_reply \<Rightarrow> http_reply \<Rightarrow>
     merge_request option \<times> (connector_error + merge_result)" where
  "mergePullRequest l baseUrl a token read gate put verify =
     (case prepare_merge l baseUrl a token read of
        Inl e \<Rightarrow> (None, Inl e)
      | Inr url \<Rightarrow>
          (case gate of
             Some e \<Rightarrow> (None, Inl (gate_refused l e))
           | None \<Rightarrow> (Some (merge_put a url), finish_merge l a put verify)))"

section \<open>The pin\<close>

record pinned_target =
  pt_headSha :: string
  pt_baseRef :: string

definition getPullRequestHead ::
  "secret_ledger \<Rightarrow> string \<Rightarrow> string \<Rightarrow> string \<Rightarrow> int \<Rightarrow> string + string \<Rightarrow> http_reply \<Rightarrow> string + pinned_target" where
  "getPullRequestHead l baseUrl owner repo n token read =
     (case prPath baseUrl owner repo n of
        Inl e \<Rightarrow> Inl e
      | Inr _ \<Rightarrow>
          (case token of
             Inl e \<Rightarrow> Inl e
           | Inr _ \<Rightarrow>
               (case fetchPullRequest read of
                  Inl e \<Rightarrow> Inl e
                | Inr pr \<Rightarrow>
                    if pr_merged pr then
                      Inl (owner @ ''/'' @ repo @ ''#'' @ show_int n @ '' is already merged - nothing to pin'')
                    else
                      (case pr_headSha pr of
                         None \<Rightarrow> Inl ''GitHub's pull request response carried no usable head sha''
                       | Some head \<Rightarrow>
                           if \<not> full_commit_id head then Inl ''GitHub's pull request response carried no usable head sha''
                           else
                             (case pr_baseRef pr of
                                None \<Rightarrow> Inl ''GitHub's pull request response carried no usable base ref''
                              | Some base \<Rightarrow>
                                  if base = [] then Inl ''GitHub's pull request response carried no usable base ref''
                                  else Inr \<lparr>pt_headSha = redact l head, pt_baseRef = redact l base\<rparr>)))))"

section \<open>Facts\<close>

lemma prepare_refuses: "prepare_merge l baseUrl a token read = Inl e \<Longrightarrow> ce_outcome e = NotPerformed"
  by (auto simp: prepare_merge_def notPerformed_def split: sum.splits if_splits option.splits)

lemma prepare_merge_Inr:
  "prepare_merge l baseUrl a token read = Inr url \<longleftrightarrow>
     prPath baseUrl (ma_owner a) (ma_repo a) (ma_pullNumber a) = Inr url \<and> ma_expectedHeadSha a \<noteq> [] \<and>
     (\<exists>t. token = Inr t) \<and> (\<exists>pr. fetchPullRequest read = Inr pr \<and> pr_baseRef pr = Some (ma_expectedBaseRef a))"
  by (cases "prPath baseUrl (ma_owner a) (ma_repo a) (ma_pullNumber a)"; cases token; cases "fetchPullRequest read")
     (auto simp: prepare_merge_def split: option.split)

lemma verify_outcome:
  "case verifyAfterAmbiguousDispatch l a cause reply of
     Inl e \<Rightarrow> ce_outcome e = UnknownOutcome
   | Inr r \<Rightarrow> mr_attribution r = MergedStateOnly \<and> (\<exists>pr. fetchPullRequest reply = Inr pr \<and> pr_merged pr)"
  by (cases "fetchPullRequest reply")
     (simp_all add: verifyAfterAmbiguousDispatch_def Let_def unknownOutcome_def)

definition classified :: "http_reply \<Rightarrow> http_reply \<Rightarrow> connector_error + merge_result \<Rightarrow> bool" where
  "classified put verify result \<longleftrightarrow>
     (case result of
        Inl e \<Rightarrow> ce_outcome e = NotPerformed \<longleftrightarrow>
          (\<exists>status limited body. put = Reply status limited body \<and> status \<in> set DOCUMENTED_REJECTION_STATUSES)
      | Inr r \<Rightarrow> (mr_attribution r = ThisDispatch \<longrightarrow>
            (\<exists>limited content v. put = Reply 200 limited (Some content) \<and> json_parse content = Some v \<and>
               own_field ''merged'' v = Some (JBool True))) \<and>
          (mr_attribution r = MergedStateOnly \<longrightarrow> (\<exists>pr. fetchPullRequest verify = Inr pr \<and> pr_merged pr)))"

lemma verify_classified:
  assumes "\<nexists>status limited body. put = Reply status limited body \<and> status \<in> set DOCUMENTED_REJECTION_STATUSES"
  shows "classified put verify (verifyAfterAmbiguousDispatch l a cause verify)"
  using verify_outcome[where l = l and a = a and cause = cause and reply = verify] assms by (auto simp: classified_def split: sum.splits)

lemma finish_classified: "classified put verify (finish_merge l a put verify)"
proof (cases put)
  case (NoReply t)
  then show ?thesis using verify_classified by simp
next
  case (Reply status limited body)
  show ?thesis
  proof (cases "status = 200")
    case True
    then have no: "status \<notin> set DOCUMENTED_REJECTION_STATUSES" by (simp add: DOCUMENTED_REJECTION_STATUSES_def)
    show ?thesis
    proof (cases "Option.bind (Option.bind body json_parse) (own_field ''merged'') = Some (JBool True)")
      case merged: True
      then obtain content v where "body = Some content" "json_parse content = Some v" "own_field ''merged'' v = Some (JBool True)"
        by (auto simp: bind_eq_Some_conv)
      with True Reply show ?thesis by (simp add: classified_def Let_def)
    next
      case False
      then show ?thesis using True Reply no verify_classified by (simp add: Let_def)
    qed
  next
    case False
    then show ?thesis
      using Reply verify_classified by (simp add: classified_def notPerformed_def)
  qed
qed

section \<open>Properties\<close>

text \<open>
  C37: The outcome is honest.  A merge is sent only when the pull request still targets the
  approved base and the gate let it pass, and then as a request for exactly that pull request and
  head.  Not performed is answered only when nothing was sent or GitHub itself refused with a
  documented status; performed by this dispatch only on GitHub's own confirmation; and every
  other answer to a request that was sent is unknown or no more than the observed merged state.
\<close>

theorem merge_outcome_is_honest:
  assumes "mergePullRequest l baseUrl a token read gate put verify = (sent, result)"
  shows "case sent of
      None \<Rightarrow> \<exists>e. result = Inl e \<and> ce_outcome e = NotPerformed
    | Some req \<Rightarrow>
        gate = None \<and> (\<exists>t. token = Inr t) \<and>
        (\<exists>pr. fetchPullRequest read = Inr pr \<and> pr_baseRef pr = Some (ma_expectedBaseRef a)) \<and>
        (\<exists>url. prPath baseUrl (ma_owner a) (ma_repo a) (ma_pullNumber a) = Inr url \<and> req = merge_put a url) \<and>
        classified put verify result"
proof (cases "prepare_merge l baseUrl a token read")
  case (Inl e)
  then show ?thesis using assms prepare_refuses[OF Inl] by (auto simp: mergePullRequest_def)
next
  case (Inr url)
  show ?thesis
  proof (cases gate)
    case None
    then have "sent = Some (merge_put a url)" "result = finish_merge l a put verify"
      using assms Inr by (simp_all add: mergePullRequest_def)
    with None Inr show ?thesis using finish_classified by (auto simp: prepare_merge_Inr)
  next
    case (Some e)
    then show ?thesis using assms Inr by (auto simp: mergePullRequest_def gate_refused_def notPerformed_def)
  qed
qed

lemma merge_outcome_is_honest_witness:
  "fst (mergePullRequest [] ''https://api'' demo_args (Inr ''t'') (NoReply True) None (NoReply False) (NoReply False)) = None \<and>
   (\<exists>e. snd (mergePullRequest [] ''https://api'' demo_args (Inr ''t'') (NoReply True) None (NoReply False) (NoReply False)) = Inl e \<and>
     ce_outcome e = NotPerformed)"
proof -
  let ?m = "mergePullRequest [] ''https://api'' demo_args (Inr ''t'') (NoReply True) None (NoReply False) (NoReply False)"
  have "fst ?m = None" by (simp add: mergePullRequest_def prepare_merge_def split: sum.split)
  moreover have "case fst ?m of None \<Rightarrow> \<exists>e. snd ?m = Inl e \<and> ce_outcome e = NotPerformed | Some req \<Rightarrow> True"
    using merge_outcome_is_honest[OF prod.collapse[symmetric], of "[]" "''https://api''" demo_args "Inr ''t''" "NoReply True" None
        "NoReply False" "NoReply False"] by (simp split: option.split_asm option.split)
  ultimately show ?thesis by simp
qed

end
