(* ===== verification/MergeBroker.thy ===== *)
theory MergeBroker
  imports SignedKillState BurnStore GithubMerge
begin

text \<open>
  The executing broker, \<open>packages/executor/src/merge-broker.ts\<close>: connections that each carry one
  request (pin a head, merge, ask an outcome), the checks of a presented grant, the burn before
  anything acts on it, the two live kill-state checks around the token mint, and the phase-aware
  timeout.

  A merge suspends at its awaits, so connections interleave: an event opens a connection, delivers
  a chunk, fires the timer, or delivers the answer a task awaits.  The ledger grows as the token
  source learns secrets.  A restart drops the connections, keeps the disk and prunes the expired
  burns, as \<open>listen\<close> does.  \<open>br_sent\<close> lists the merge requests that went out, each with the connection
  that sent it (the number of the process's start, and its index since) and the identifier of its
  grant.  The listening socket, its permissions and the log are not modelled.
\<close>

section \<open>Configuration and state\<close>

record broker_config =
  bc_grantKey :: string
  bc_allowed :: "string list option"
  bc_store :: burn_store
  bc_retentionMs :: millis
  bc_baseUrl :: string
  bc_timeoutMs :: int
  bc_parseError :: string
  bc_typeError :: string
  bc_throwText :: "burn_throw \<Rightarrow> string"

definition broker_error :: "string \<Rightarrow> string option" where
  "broker_error grantKey =
     (if grantKey = [] then
        Some ''merge broker requires a grant key (OWNERSWITCH_GRANT_KEY) - it trusts nothing without one''
      else if byte_length grantKey < 32 then
        Some (''the merge broker's grant key is under 32 bytes - a merge-authorizing HMAC key must carry '' @
          ''at least 256 bits of secret; generate one with `openssl rand -hex 32`'')
      else None)"

record pin_args =
  pa_owner :: string
  pa_repo :: string
  pa_pullNumber :: int

datatype wire_response =
    HeadReply pinned_target
  | MergedReply bool string string
  | RecordReply string burn_record
  | RefusedReply string
  | ConnectorReply connector_outcome string

datatype task =
    NoTask
  | PinAwaitsLive pin_args
  | PinAwaitsHead pin_args
  | MergeAwaitsLive merge_grant merge_args
  | MergeAwaitsClient merge_grant merge_args int
  | MergeAwaitsCommit merge_grant merge_args int string
  | MergeAwaitsPut merge_grant merge_args
  | TaskDone

record connection =
  cn_buffer :: string
  cn_started :: bool
  cn_done :: bool
  cn_answer :: "wire_response option"
  cn_dispatched :: bool
  cn_abandoned :: bool
  cn_jti :: "string option"
  cn_task :: task

definition new_connection :: connection where
  "new_connection = \<lparr>cn_buffer = [], cn_started = False, cn_done = False, cn_answer = None, cn_dispatched = False,
     cn_abandoned = False, cn_jti = None, cn_task = NoTask\<rparr>"

record broker =
  br_disk :: burn_disk
  br_ledger :: secret_ledger
  br_conns :: "connection list"
  br_starts :: nat
  br_sent :: "((nat \<times> nat) \<times> string \<times> merge_request) list"

section \<open>Answers\<close>

definition MAX_REQUEST_BYTES :: nat where "MAX_REQUEST_BYTES = 8 * 1024"

fun safe_response :: "secret_ledger \<Rightarrow> wire_response \<Rightarrow> wire_response" where
  "safe_response l (RefusedReply e) = RefusedReply (take 400 (redact l e))"
| "safe_response l (ConnectorReply out e) = ConnectorReply out (take 400 (redact l e))"
| "safe_response l r = r"

text \<open>\<open>finish\<close>: the first answer is the answer.\<close>

definition finish_answer :: "secret_ledger \<Rightarrow> wire_response \<Rightarrow> connection \<Rightarrow> connection" where
  "finish_answer l r cn = (if cn_done cn then cn else cn\<lparr>cn_done := True, cn_answer := Some (safe_response l r)\<rparr>)"

text \<open>The answer that ends the task of the connection.\<close>

definition end_task :: "secret_ledger \<Rightarrow> wire_response \<Rightarrow> connection \<Rightarrow> connection" where
  "end_task l r cn = (finish_answer l r cn)\<lparr>cn_task := TaskDone\<rparr>"

definition timer_fires :: "broker_config \<Rightarrow> secret_ledger \<Rightarrow> connection \<Rightarrow> connection" where
  "timer_fires cfg l cn =
     (if cn_done cn then cn
      else
        let cn1 = cn\<lparr>cn_abandoned := True\<rparr> in
        if cn_dispatched cn then
          finish_answer l (ConnectorReply UnknownOutcome
            (''the merge dispatch exceeded the '' @ show_int (bc_timeoutMs cfg) @ ''ms budget and is still in '' @
             ''flight - its outcome is UNKNOWN, not refused. It will finish and be recorded; '' @
             ''query {op:'' @ CHR 0x22 # ''outcome'' @ CHR 0x22 # ''} with jti '' @
             CHR 0x22 # (case cn_jti cn of None \<Rightarrow> [] | Some j \<Rightarrow> j) @ CHR 0x22 #
             '' to resolve it before re-approving'')) cn1
        else finish_answer l (RefusedReply ''request timed out before dispatch - nothing was sent to GitHub'') cn1)"

section \<open>Checks\<close>

definition repo_allowed :: "broker_config \<Rightarrow> string \<Rightarrow> bool" where
  "repo_allowed cfg repo \<longleftrightarrow> (case bc_allowed cfg of None \<Rightarrow> True | Some ok \<Rightarrow> repo \<in> set ok)"

text \<open>A refusal of the broker's own (\<open>Refusal\<close>) is recorded; any other error (\<open>Failure\<close>) is not.\<close>

datatype broker_throw = Refusal string | Failure string

definition assertRepoAllowed :: "broker_config \<Rightarrow> string \<Rightarrow> broker_throw option" where
  "assertRepoAllowed cfg repo =
     (case assertSafeRepoName repo of
        Some e \<Rightarrow> Some (Failure e)
      | None \<Rightarrow>
          if \<not> repo_allowed cfg repo then
            Some (Refusal (''repository '' @ CHR 0x22 # repo @ CHR 0x22 # '' is not in the broker's allow-list''))
          else None)"

definition asPinArgs :: "json option \<Rightarrow> broker_throw + pin_args" where
  "asPinArgs raw =
     (case raw of
        None \<Rightarrow> Inl (Refusal ''pin-head requires args'')
      | Some v \<Rightarrow>
          if \<not> is_object v then Inl (Refusal ''pin-head requires args'')
          else
            (case string_such_that (\<lambda>s. s \<noteq> []) (own_field ''owner'' v) of
               None \<Rightarrow> Inl (Refusal ''pin-head requires owner'')
             | Some owner \<Rightarrow>
                 (case string_such_that (\<lambda>s. s \<noteq> []) (own_field ''repo'' v) of
                    None \<Rightarrow> Inl (Refusal ''pin-head requires repo'')
                  | Some repo \<Rightarrow>
                      (case positive_integer (own_field ''pullNumber'' v) of
                         None \<Rightarrow> Inl (Refusal ''pin-head requires a safe positive integer pullNumber'')
                       | Some n \<Rightarrow> Inr \<lparr>pa_owner = owner, pa_repo = repo, pa_pullNumber = n\<rparr>))))"

text \<open>\<open>String\<close> of a JSON value\<close>

fun js_String :: "json \<Rightarrow> string" where
  "js_String JNull = ''null''"
| "js_String (JBool b) = (if b then ''true'' else ''false'')"
| "js_String (JNum n) = (if n = NNonFinite then ''Infinity'' else num_text n)"
| "js_String (JStr s) = s"
| "js_String (JArr xs) = join_with '','' (map (\<lambda>x. if x = JNull then [] else js_String x) xs)"
| "js_String (JObj _) = ''[object Object]''"

fun merge_args_error_text :: "merge_args_error \<Rightarrow> string" where
  "merge_args_error_text ArgsNotJson = ''canonicalArgs is not valid JSON''"
| "merge_args_error_text ArgsNotObject = ''canonicalArgs must be a JSON object''"
| "merge_args_error_text (UnknownArgument k) =
     ''unknown argument '' @ CHR 0x22 # k @ CHR 0x22 # '' for merge_pull_request - the argument schema is closed: '' @
     ''owner, repo, pullNumber, mergeMethod, expectedHeadSha, expectedBaseRef''"
| "merge_args_error_text NeedsOwner = ''merge_pull_request requires owner''"
| "merge_args_error_text NeedsRepo = ''merge_pull_request requires repo''"
| "merge_args_error_text NeedsPullNumber = ''merge_pull_request requires a safe positive integer pullNumber''"
| "merge_args_error_text (UnknownMergeMethod v) = ''unknown mergeMethod '' @ CHR 0x22 # js_String v @ [CHR 0x22]"
| "merge_args_error_text NeedsHeadSha =
     ''merge_pull_request requires expectedHeadSha: a full 40- or 64-character hex commit id, '' @
     ''pinned by OwnerSwitch at review time''"
| "merge_args_error_text NeedsBaseRef =
     ''merge_pull_request requires expectedBaseRef: the destination branch pinned by '' @
     ''OwnerSwitch at review time (non-empty, bounded, and PRINTABLE ASCII - a non-ASCII '' @
     ''branch name is refused rather than risk a homoglyph the owner cannot distinguish)''"

definition recordOutcome ::
  "(string \<Rightarrow> string) \<Rightarrow> broker_config \<Rightarrow> string \<Rightarrow> burn_record \<Rightarrow> millis \<Rightarrow> burn_disk \<Rightarrow> burn_disk" where
  "recordOutcome sha cfg jti patch now dk = fst (record_outcome sha (bc_store cfg) jti patch now dk)"

definition refusal_patch :: "string \<Rightarrow> burn_record" where
  "refusal_patch e = [(''state'', JStr ''not-performed''), (''error'', JStr e)]"

section \<open>Requests\<close>

text \<open>The synchronous part of a merge up to the first live check: the burn, and the task that waits.\<close>

definition start_merge ::
  "mac \<Rightarrow> (string \<Rightarrow> string) \<Rightarrow> broker_config \<Rightarrow> json option \<Rightarrow> json option \<Rightarrow> millis \<Rightarrow> burn_disk \<Rightarrow>
     burn_disk \<times> string option \<times> (broker_throw + task)" where
  "start_merge mac sha cfg rawGrant rawArgs now dk =
     (case (case rawGrant of None \<Rightarrow> Inl ''grant is not an object'' | Some v \<Rightarrow> verifyMergeGrant mac sha v (bc_grantKey cfg) now) of
        Inl e \<Rightarrow> (dk, None, Inl (Refusal (''grant rejected: '' @ e)))
      | Inr g \<Rightarrow>
          if mg_connector g \<noteq> GITHUB_CONNECTOR \<or> mg_operation g \<noteq> MERGE_PULL_REQUEST then
            (dk, None, Inl (Refusal (''grant purpose is '' @ CHR 0x22 # mg_connector g @ ''.'' @ mg_operation g @ CHR 0x22 # '', not '' @
               CHR 0x22 # GITHUB_CONNECTOR @ ''.'' @ MERGE_PULL_REQUEST @ CHR 0x22 # '' - this broker performs GitHub merges only'')))
          else
            (case burn sha (bc_store cfg) (mg_jti g) (mg_expiresAt g) now dk of
               (dk1, BurnThrew e) \<Rightarrow> (dk1, None, Inl (Failure (bc_throwText cfg e)))
             | (dk1, AlreadyBurned) \<Rightarrow> (dk1, None, Inl (Refusal ''grant already used (single-use)''))
             | (dk1, Burned) \<Rightarrow>
                 (dk1, Some (mg_jti g),
                  (if (case rawArgs of None \<Rightarrow> False | Some v \<Rightarrow> canonicalJson v \<noteq> mg_canonicalArgs g) then
                     Inl (Refusal ''supplied args do not match the grant's authorized args'')
                   else
                     (case parseMergePrArgs (mg_canonicalArgs g) of
                        Inl e \<Rightarrow> Inl (Refusal (''the grant's authorized args are not a valid merge: '' @ merge_args_error_text e))
                      | Inr a \<Rightarrow>
                          (case assertRepoAllowed cfg (ma_repo a) of
                             Some t \<Rightarrow> Inl t
                           | None \<Rightarrow> Inr (MergeAwaitsLive g a)))))))"

text \<open>A throw that leaves the merge: a refusal after the burn is recorded; both are answered as refused.\<close>

definition throw_out ::
  "(string \<Rightarrow> string) \<Rightarrow> broker_config \<Rightarrow> secret_ledger \<Rightarrow> string option \<Rightarrow> broker_throw \<Rightarrow> millis \<Rightarrow>
     burn_disk \<times> connection \<Rightarrow> burn_disk \<times> connection" where
  "throw_out sha cfg l burned t now x =
     (case x of (dk, cn) \<Rightarrow>
        (case t of
           Refusal e \<Rightarrow>
             (case burned of None \<Rightarrow> dk | Some jti \<Rightarrow> recordOutcome sha cfg jti (refusal_patch e) now dk,
              end_task l (RefusedReply e) cn)
         | Failure e \<Rightarrow> (dk, end_task l (RefusedReply (redact l e)) cn)))"

text \<open>The fields of a record that are relayed as they are; a field that is not there is left out.\<close>

definition reported :: "burn_record \<Rightarrow> burn_record" where
  "reported r = List.map_filter (\<lambda>k. map_option (Pair k) (map_of r k)) [''state'', ''outcome'', ''merged'', ''sha'', ''message'']"

definition outcomeOf ::
  "(string \<Rightarrow> string) \<Rightarrow> broker_config \<Rightarrow> secret_ledger \<Rightarrow> json option \<Rightarrow> burn_disk \<Rightarrow> burn_disk \<times> wire_response" where
  "outcomeOf sha cfg l rawArgs dk =
     (case string_such_that (\<lambda>s. s \<noteq> []) (Option.bind rawArgs (own_field ''jti'')) of
        None \<Rightarrow> (dk, RefusedReply ''outcome requires a jti'')
      | Some jti \<Rightarrow>
          (case lookup_record sha jti dk of
             (dk1, None) \<Rightarrow> (dk1, RefusedReply ''no burn record for that jti - the grant was never presented here'')
           | (dk1, Some r) \<Rightarrow>
               (dk1,
                case map_of r ''error'' of
                  Some (JStr e) \<Rightarrow>
                    RecordReply jti (reported r @ [(''error'', JStr (take 400 (redact l e)))])
                | None \<Rightarrow> RecordReply jti (reported r)
                | Some _ \<Rightarrow> RefusedReply (redact l (bc_typeError cfg)))))"

definition handle_line ::
  "mac \<Rightarrow> (string \<Rightarrow> string) \<Rightarrow> broker_config \<Rightarrow> secret_ledger \<Rightarrow> string \<Rightarrow> millis \<Rightarrow> burn_disk \<times> connection \<Rightarrow>
     burn_disk \<times> connection" where
  "handle_line mac sha cfg l line now x =
     (case x of (dk, cn) \<Rightarrow>
        (case json_parse line of
           None \<Rightarrow> throw_out sha cfg l None (Failure (bc_parseError cfg)) now (dk, cn)
         | Some req \<Rightarrow>
             if own_field ''op'' req = Some (JStr ''pin-head'') then
               (case asPinArgs (own_field ''args'' req) of
                  Inl t \<Rightarrow> throw_out sha cfg l None t now (dk, cn)
                | Inr pa \<Rightarrow>
                    (case assertRepoAllowed cfg (pa_repo pa) of
                       Some t \<Rightarrow> throw_out sha cfg l None t now (dk, cn)
                     | None \<Rightarrow> (dk, cn\<lparr>cn_task := PinAwaitsLive pa\<rparr>)))
             else if own_field ''op'' req = Some (JStr ''merge'') then
               (case start_merge mac sha cfg (own_field ''grant'' req) (own_field ''args'' req) now dk of
                  (dk1, burned, Inl t) \<Rightarrow>
                    throw_out sha cfg l burned t now (dk1, cn\<lparr>cn_jti := burned\<rparr>)
                | (dk1, burned, Inr tk) \<Rightarrow> (dk1, cn\<lparr>cn_jti := burned, cn_task := tk\<rparr>))
             else if own_field ''op'' req = Some (JStr ''outcome'') then
               (case outcomeOf sha cfg l (own_field ''args'' req) dk of (dk1, r) \<Rightarrow> (dk1, end_task l r cn))
             else (dk, end_task l (RefusedReply ''unknown operation'') cn)))"

definition newline :: char where "newline = CHR 0x0A"

definition receive_chunk ::
  "mac \<Rightarrow> (string \<Rightarrow> string) \<Rightarrow> broker_config \<Rightarrow> secret_ledger \<Rightarrow> string \<Rightarrow> millis \<Rightarrow> burn_disk \<times> connection \<Rightarrow>
     burn_disk \<times> connection" where
  "receive_chunk mac sha cfg l chunk now x =
     (case x of (dk, cn) \<Rightarrow>
        if cn_done cn \<or> cn_started cn then (dk, cn)
        else
          let buffer = cn_buffer cn @ chunk; cn1 = cn\<lparr>cn_buffer := buffer\<rparr> in
          if MAX_REQUEST_BYTES < length buffer then (dk, finish_answer l (RefusedReply ''request too large'') cn1)
          else if newline \<notin> set buffer then (dk, cn1)
          else handle_line mac sha cfg l (takeWhile (\<lambda>c. c \<noteq> newline) buffer) now (dk, cn1\<lparr>cn_started := True\<rparr>))"

section \<open>After the awaits\<close>

definition pin_live :: "secret_ledger \<Rightarrow> live_kill_state option \<Rightarrow> pin_args \<Rightarrow> connection \<Rightarrow> connection" where
  "pin_live l answer pa cn =
     (if lk_killed (fetchLive answer) then
        end_task l (RefusedReply ''kill switch engaged (or control plane unreachable) - refused'') cn
      else cn\<lparr>cn_task := PinAwaitsHead pa\<rparr>)"

definition pin_head :: "broker_config \<Rightarrow> secret_ledger \<Rightarrow> string + string \<Rightarrow> http_reply \<Rightarrow> pin_args \<Rightarrow> connection \<Rightarrow> connection" where
  "pin_head cfg l token read pa cn =
     (case getPullRequestHead l (bc_baseUrl cfg) (pa_owner pa) (pa_repo pa) (pa_pullNumber pa) token read of
        Inl e \<Rightarrow> end_task l (RefusedReply (''cannot read the pull request head: '' @ e)) cn
      | Inr target \<Rightarrow> end_task l (HeadReply target) cn)"

text \<open>The live check before the mint: the refusal, or the epoch the later check compares with.\<close>

definition refuse_before_mint :: "merge_grant \<Rightarrow> live_kill_state \<Rightarrow> string option" where
  "refuse_before_mint g before =
     (if lk_killed before then Some ''kill switch engaged (or control plane unreachable) - refused''
      else if lk_epoch before \<noteq> mg_killEpoch g then
        Some (''kill epoch moved since approval (grant '' @ show_int (mg_killEpoch g) @ '', live '' @ show_int (lk_epoch before) @
          '') - a kill happened in between'')
      else if lk_grantLive before \<noteq> Some True then
        Some (''the control plane no longer vouches for this grant - vetoed since approval, unknown '' @
          ''to it, or it restarted; nothing was dispatched'')
      else None)"

definition merge_live ::
  "(string \<Rightarrow> string) \<Rightarrow> broker_config \<Rightarrow> secret_ledger \<Rightarrow> live_kill_state option \<Rightarrow> merge_grant \<Rightarrow> merge_args \<Rightarrow> millis \<Rightarrow>
     burn_disk \<times> connection \<Rightarrow> burn_disk \<times> connection" where
  "merge_live sha cfg l answer g a now x =
     (case refuse_before_mint g (fetchLive answer) of
        Some e \<Rightarrow> throw_out sha cfg l (Some (mg_jti g)) (Refusal e) now x
      | None \<Rightarrow> (fst x, (snd x)\<lparr>cn_task := MergeAwaitsClient g a (lk_epoch (fetchLive answer))\<rparr>))"

definition connector_patch :: "connector_error \<Rightarrow> burn_record" where
  "connector_patch e =
     [(''state'', JStr ''connector-error''),
      (''outcome'', JStr (case ce_outcome e of NotPerformed \<Rightarrow> ''not-performed'' | UnknownOutcome \<Rightarrow> ''unknown'')),
      (''error'', JStr (ce_message e))]"

definition connector_failed ::
  "(string \<Rightarrow> string) \<Rightarrow> broker_config \<Rightarrow> secret_ledger \<Rightarrow> connector_error \<Rightarrow> merge_grant \<Rightarrow> millis \<Rightarrow>
     burn_disk \<times> connection \<Rightarrow> burn_disk \<times> connection" where
  "connector_failed sha cfg l e g now x =
     (recordOutcome sha cfg (mg_jti g) (connector_patch e) now (fst x),
      end_task l (ConnectorReply (ce_outcome e) (ce_message e)) (snd x))"

text \<open>The client has its token and the pull request: the first half of \<open>beforeDispatch\<close>.\<close>

definition merge_client ::
  "(string \<Rightarrow> string) \<Rightarrow> broker_config \<Rightarrow> secret_ledger \<Rightarrow> string + string \<Rightarrow> http_reply \<Rightarrow> merge_grant \<Rightarrow> merge_args \<Rightarrow> int \<Rightarrow>
     millis \<Rightarrow> burn_disk \<times> connection \<Rightarrow> burn_disk \<times> connection" where
  "merge_client sha cfg l token read g a ep now x =
     (case prepare_merge l (bc_baseUrl cfg) a token read of
        Inl e \<Rightarrow> connector_failed sha cfg l e g now x
      | Inr url \<Rightarrow>
          if cn_abandoned (snd x) then
            connector_failed sha cfg l
              (gate_refused l ''the connection was abandoned before dispatch (client timed out) - not dispatched'') g now x
          else (fst x, (snd x)\<lparr>cn_task := MergeAwaitsCommit g a ep url\<rparr>))"

text \<open>The second half, after the commit was answered; \<open>None\<close> flips the phase and the request goes out.\<close>

definition refuse_dispatch :: "merge_grant \<Rightarrow> int \<Rightarrow> live_kill_state \<Rightarrow> millis \<Rightarrow> bool \<Rightarrow> string option" where
  "refuse_dispatch g ep after now abandoned =
     (if lk_killed after \<or> lk_epoch after \<noteq> ep then Some ''kill state changed during token minting''
      else if \<not> before_num now (mg_expiresAt g) then Some ''the grant expired during token minting - refused before dispatch''
      else if lk_committed after \<noteq> Some True then
        Some (''the control plane did not commit this grant for dispatch (vetoed, killed, or '' @
          ''unknown at commit time) - refused before dispatch'')
      else if abandoned then Some ''the connection was abandoned during the pre-dispatch checks - not dispatched''
      else None)"

definition merge_commit ::
  "(string \<Rightarrow> string) \<Rightarrow> broker_config \<Rightarrow> secret_ledger \<Rightarrow> live_kill_state option \<Rightarrow> merge_grant \<Rightarrow> merge_args \<Rightarrow> int \<Rightarrow>
     millis \<Rightarrow> burn_disk \<times> connection \<Rightarrow> burn_disk \<times> connection" where
  "merge_commit sha cfg l answer g a ep now x =
     (case refuse_dispatch g ep (fetchLive answer) now (cn_abandoned (snd x)) of
        Some e \<Rightarrow> connector_failed sha cfg l (gate_refused l e) g now x
      | None \<Rightarrow> (fst x, (snd x)\<lparr>cn_dispatched := True, cn_task := MergeAwaitsPut g a\<rparr>))"

definition merge_put_answered ::
  "(string \<Rightarrow> string) \<Rightarrow> broker_config \<Rightarrow> secret_ledger \<Rightarrow> http_reply \<Rightarrow> http_reply \<Rightarrow> merge_grant \<Rightarrow> merge_args \<Rightarrow>
     millis \<Rightarrow> burn_disk \<times> connection \<Rightarrow> burn_disk \<times> connection" where
  "merge_put_answered sha cfg l put verify g a now x =
     (case finish_merge l a put verify of
        Inl e \<Rightarrow> connector_failed sha cfg l e g now x
      | Inr r \<Rightarrow>
          (recordOutcome sha cfg (mg_jti g)
             [(''state'', JStr (case mr_attribution r of MergedStateOnly \<Rightarrow> ''merged-state-observed'' | ThisDispatch \<Rightarrow> ''performed'')),
              (''merged'', JBool (mr_merged r)), (''sha'', JStr (mr_sha r)), (''message'', JStr (mr_message r))] now (fst x),
           end_task l (MergedReply (mr_merged r) (mr_sha r) (mr_message r)) (snd x)))"

section \<open>Runs\<close>

datatype broker_event =
    Connects
  | Chunk nat string millis
  | Timer nat
  | SocketFails nat
  | LiveAnswers nat "live_kill_state option" millis
  | ClientReads nat "string + string" http_reply millis
  | PutAnswers nat http_reply http_reply millis
  | Learns "string option"
  | DiskEvent burn_event
  | Restarts millis

text \<open>What the event does to the connection it is for.\<close>

fun conn_step ::
  "mac \<Rightarrow> (string \<Rightarrow> string) \<Rightarrow> broker_config \<Rightarrow> secret_ledger \<Rightarrow> broker_event \<Rightarrow> burn_disk \<times> connection \<Rightarrow> burn_disk \<times> connection" where
  "conn_step mac sha cfg l (Chunk i chunk now) x = receive_chunk mac sha cfg l chunk now x"
| "conn_step mac sha cfg l (Timer i) x = (fst x, timer_fires cfg l (snd x))"
| "conn_step mac sha cfg l (SocketFails i) x = (fst x, (snd x)\<lparr>cn_done := True\<rparr>)"
| "conn_step mac sha cfg l (LiveAnswers i answer now) x =
     (case cn_task (snd x) of
        PinAwaitsLive pa \<Rightarrow> (fst x, pin_live l answer pa (snd x))
      | MergeAwaitsLive g a \<Rightarrow> merge_live sha cfg l answer g a now x
      | MergeAwaitsCommit g a ep url \<Rightarrow> merge_commit sha cfg l answer g a ep now x
      | _ \<Rightarrow> x)"
| "conn_step mac sha cfg l (ClientReads i token read now) x =
     (case cn_task (snd x) of
        PinAwaitsHead pa \<Rightarrow> (fst x, pin_head cfg l token read pa (snd x))
      | MergeAwaitsClient g a ep \<Rightarrow> merge_client sha cfg l token read g a ep now x
      | _ \<Rightarrow> x)"
| "conn_step mac sha cfg l (PutAnswers i put verify now) x =
     (case cn_task (snd x) of
        MergeAwaitsPut g a \<Rightarrow> merge_put_answered sha cfg l put verify g a now x
      | _ \<Rightarrow> x)"
| "conn_step mac sha cfg l _ x = x"

text \<open>The request a step sends: the one of a connection that moves past its commit.\<close>

fun sends :: "task \<Rightarrow> task \<Rightarrow> (string \<times> merge_request) list" where
  "sends (MergeAwaitsCommit g a ep url) (MergeAwaitsPut _ _) = [(mg_jti g, merge_put a url)]"
| "sends _ _ = []"

fun event_conn :: "broker_event \<Rightarrow> nat option" where
  "event_conn (Chunk i _ _) = Some i"
| "event_conn (Timer i) = Some i"
| "event_conn (SocketFails i) = Some i"
| "event_conn (LiveAnswers i _ _) = Some i"
| "event_conn (ClientReads i _ _ _) = Some i"
| "event_conn (PutAnswers i _ _ _) = Some i"
| "event_conn _ = None"

definition broker_step :: "mac \<Rightarrow> (string \<Rightarrow> string) \<Rightarrow> broker_config \<Rightarrow> broker \<Rightarrow> broker_event \<Rightarrow> broker" where
  "broker_step mac sha cfg br e =
     (case e of
        Connects \<Rightarrow> br\<lparr>br_conns := br_conns br @ [new_connection]\<rparr>
      | Learns secret \<Rightarrow> br\<lparr>br_ledger := add_secret secret (br_ledger br)\<rparr>
      | DiskEvent d \<Rightarrow> br\<lparr>br_disk := burn_step sha (bc_retentionMs cfg) (br_disk br) d\<rparr>
      | Restarts now \<Rightarrow>
          br\<lparr>br_disk := fst (pruneExpired (bc_retentionMs cfg) now (br_disk br)), br_conns := [], br_ledger := [],
             br_starts := br_starts br + 1\<rparr>
      | _ \<Rightarrow>
          (case event_conn e of
             Some i \<Rightarrow>
               if i < length (br_conns br) then
                 let cn = br_conns br ! i; (dk, cn') = conn_step mac sha cfg (br_ledger br) e (br_disk br, cn)
                 in br\<lparr>br_disk := dk, br_conns := (br_conns br)[i := cn'],
                       br_sent := br_sent br @ map (Pair (br_starts br, i)) (sends (cn_task cn) (cn_task cn'))\<rparr>
               else br
           | None \<Rightarrow> br))"

definition new_broker :: "burn_disk \<Rightarrow> broker" where
  "new_broker dk = \<lparr>br_disk = dk, br_ledger = [], br_conns = [], br_starts = 0, br_sent = []\<rparr>"

section \<open>One dispatch per grant\<close>

text \<open>The record a task holds that may still dispatch.\<close>

fun task_claim :: "(string \<Rightarrow> string) \<Rightarrow> task \<Rightarrow> string option" where
  "task_claim sha (MergeAwaitsLive g a) = Some (record_name sha (mg_jti g))"
| "task_claim sha (MergeAwaitsClient g a ep) = Some (record_name sha (mg_jti g))"
| "task_claim sha (MergeAwaitsCommit g a ep url) = Some (record_name sha (mg_jti g))"
| "task_claim sha _ = None"

definition grows :: "burn_disk \<Rightarrow> burn_disk \<Rightarrow> bool" where
  "grows dk dk' \<longleftrightarrow> (\<forall>k. spent_entry dk k \<longrightarrow> spent_entry dk' k)"

lemma grows_refl [simp]: "grows dk dk"
  by (simp add: grows_def)

lemma grows_trans: "grows a b \<Longrightarrow> grows b c \<Longrightarrow> grows a c"
  by (simp add: grows_def)

lemma recordOutcome_grows [simp]: "grows dk (recordOutcome sha cfg jti patch now dk)"
  using record_keeps[OF prod.collapse[symmetric]] by (simp add: grows_def recordOutcome_def)

lemma burn_grows: "burn sha st jti ex now dk = (dk', a) \<Longrightarrow> grows dk dk'"
  by (auto simp: grows_def intro: burn_keeps)

lemma readRecord_grows: "readRecord n dk = (dk', r) \<Longrightarrow> grows dk dk'"
  using readRecord_disk same_dirs_spent unfolding grows_def by metis

lemma end_task_task [simp]: "cn_task (end_task l r cn) = TaskDone"
  by (simp add: end_task_def)

lemma finish_task [simp]: "cn_task (finish_answer l r cn) = cn_task cn"
  by (simp add: finish_answer_def)

text \<open>How one step moves the claim of a connection.\<close>

definition claim_moves :: "(string \<Rightarrow> string) \<Rightarrow> nat \<Rightarrow> burn_disk \<times> connection \<Rightarrow> burn_disk \<times> connection \<Rightarrow> bool" where
  "claim_moves sha ino x y \<longleftrightarrow>
     grows (fst x) (fst y) \<and>
     (let c = task_claim sha (cn_task (snd x)); c' = task_claim sha (cn_task (snd y));
          out = map (\<lambda>s. record_name sha (fst s)) (sends (cn_task (snd x)) (cn_task (snd y)))
      in out = [] \<and> (c' = None \<or> c' = c \<or> (\<exists>n. c' = Some n \<and> \<not> spent_entry (fst x) (ino, n) \<and> spent_entry (fst y) (ino, n)))
         \<or> (\<exists>n. out = [n] \<and> c = Some n \<and> c' = None))"

lemma sends_into_done [simp]: "sends t TaskDone = []" "sends t NoTask = []" "sends t (PinAwaitsLive pa) = []"
  "sends t (PinAwaitsHead pa) = []" "sends t (MergeAwaitsLive g a) = []" "sends t (MergeAwaitsClient g a ep) = []"
  "sends t (MergeAwaitsCommit g a ep url) = []"
  by (cases t; simp)+

lemma claim_ends: "grows dk dk' \<Longrightarrow> cn_task cn' = TaskDone \<Longrightarrow> claim_moves sha ino (dk, cn) (dk', cn')"
  by (simp add: claim_moves_def)

lemma throw_out_moves: "grows dk dk1 \<Longrightarrow> claim_moves sha ino (dk, cn) (throw_out sha cfg l burned t now (dk1, cn1))"
  by (cases t) (auto simp: throw_out_def intro!: claim_ends intro: grows_trans split: option.split)

lemma start_merge_cases:
  assumes "start_merge mac sha cfg rawGrant rawArgs now dk = (dk', burned, r)"
  shows "grows dk dk' \<and>
    (\<forall>t. r = Inr t \<longrightarrow> (\<exists>g a v. t = MergeAwaitsLive g a \<and> burned = Some (mg_jti g) \<and> rawGrant = Some v \<and>
       verifyMergeGrant mac sha v (bc_grantKey cfg) now = Inr g \<and>
       mg_connector g = GITHUB_CONNECTOR \<and> mg_operation g = MERGE_PULL_REQUEST \<and>
       parseMergePrArgs (mg_canonicalArgs g) = Inr a \<and> assertRepoAllowed cfg (ma_repo a) = None \<and>
       \<not> spent_entry dk (bs_pinned (bc_store cfg), record_name sha (mg_jti g)) \<and>
       spent_entry dk' (bs_pinned (bc_store cfg), record_name sha (mg_jti g))))"
proof (cases rawGrant)
  case None
  then show ?thesis using assms by (auto simp: start_merge_def)
next
  case (Some v)
  show ?thesis
  proof (cases "verifyMergeGrant mac sha v (bc_grantKey cfg) now")
    case (Inl e)
    then show ?thesis using assms Some by (auto simp: start_merge_def)
  next
    case (Inr g)
    obtain dk1 b where b: "burn sha (bc_store cfg) (mg_jti g) (mg_expiresAt g) now dk = (dk1, b)" by fastforce
    show ?thesis
    proof (cases "mg_connector g \<noteq> GITHUB_CONNECTOR \<or> mg_operation g \<noteq> MERGE_PULL_REQUEST \<or> b \<noteq> Burned")
      case True
      then show ?thesis using assms Some Inr b burn_grows[OF b]
        by (cases b) (auto simp: start_merge_def split: if_split_asm)
    next
      case False
      note burnt = burn_commits[of sha "bc_store cfg" "mg_jti g" "mg_expiresAt g" now dk dk1]
      show ?thesis using False assms Some Inr b burn_grows[OF b] burnt
        by (auto simp: start_merge_def split: sum.splits option.splits if_splits)
    qed
  qed
qed

lemma handle_line_moves: "claim_moves sha (bs_pinned (bc_store cfg)) (dk, cn) (handle_line mac sha cfg l line now (dk, cn1))"
proof (cases "json_parse line")
  case None
  then show ?thesis by (simp add: handle_line_def throw_out_moves)
next
  case (Some req)
  let ?op = "own_field ''op'' req"
  consider "?op = Some (JStr ''pin-head'')" | "?op = Some (JStr ''merge'')" | "?op = Some (JStr ''outcome'')"
    | "?op \<notin> {Some (JStr ''pin-head''), Some (JStr ''merge''), Some (JStr ''outcome'')}" by blast
  then show ?thesis
  proof cases
    case 1
    then show ?thesis using Some
      by (auto simp: handle_line_def throw_out_moves claim_moves_def[of _ _ _ "(dk, cn1\<lparr>cn_task := PinAwaitsLive _\<rparr>)"]
          split: sum.split option.split)
  next
    case 2
    obtain dk1 burned r where sm: "start_merge mac sha cfg (own_field ''grant'' req) (own_field ''args'' req) now dk = (dk1, burned, r)"
      by (metis prod_cases3)
    note c = start_merge_cases[OF sm]
    show ?thesis
    proof (cases r)
      case (Inl t)
      then show ?thesis using 2 Some sm c by (simp add: handle_line_def throw_out_moves)
    next
      case (Inr t)
      with c obtain g a where "t = MergeAwaitsLive g a"
        "\<not> spent_entry dk (bs_pinned (bc_store cfg), record_name sha (mg_jti g))"
        "spent_entry dk1 (bs_pinned (bc_store cfg), record_name sha (mg_jti g))" by blast
      with Inr 2 Some sm c show ?thesis by (simp add: handle_line_def claim_moves_def)
    qed
  next
    case 3
    then show ?thesis using Some readRecord_grows
      by (auto simp: handle_line_def outcomeOf_def lookup_record_def intro!: claim_ends split: option.split prod.split json.split)
  next
    case 4
    then show ?thesis using Some by (simp add: handle_line_def claim_ends)
  qed
qed


lemma receive_moves: "claim_moves sha (bs_pinned (bc_store cfg)) (dk, cn) (receive_chunk mac sha cfg l chunk now (dk, cn))"
proof -
  have same: "claim_moves sha i (dk, cn) (dk, cn')" if "cn_task cn' = cn_task cn" "sends (cn_task cn) (cn_task cn) = []" for cn' i
    using that by (simp add: claim_moves_def)
  have "sends t t = []" for t by (cases t) simp_all
  with same show ?thesis
    by (simp add: receive_chunk_def Let_def handle_line_moves)
qed

lemma connector_failed_moves:
  "claim_moves sha ino (dk, cn) (connector_failed sha cfg l e g now (dk, cn))"
  by (simp add: connector_failed_def claim_ends)

lemma merge_live_moves:
  "cn_task cn = MergeAwaitsLive g a \<Longrightarrow> claim_moves sha ino (dk, cn) (merge_live sha cfg l answer g a now (dk, cn))"
  by (auto simp: merge_live_def throw_out_moves split: option.split) (simp add: claim_moves_def)

lemma merge_client_moves:
  "cn_task cn = MergeAwaitsClient g a ep \<Longrightarrow> claim_moves sha ino (dk, cn) (merge_client sha cfg l token read g a ep now (dk, cn))"
  by (auto simp: merge_client_def connector_failed_moves split: sum.split) (simp add: claim_moves_def)

lemma merge_commit_moves:
  "cn_task cn = MergeAwaitsCommit g a ep url \<Longrightarrow> claim_moves sha ino (dk, cn) (merge_commit sha cfg l answer g a ep now (dk, cn))"
  by (auto simp: merge_commit_def connector_failed_moves split: option.split) (simp add: claim_moves_def)

lemma merge_put_moves:
  "claim_moves sha ino (dk, cn) (merge_put_answered sha cfg l put verify g a now (dk, cn))"
  by (auto simp: merge_put_answered_def connector_failed_moves claim_ends split: sum.split)

lemma stays_moves: "cn_task (snd y) = cn_task (snd x) \<Longrightarrow> fst y = fst x \<Longrightarrow> claim_moves sha ino x y"
  by (cases "cn_task (snd x)") (simp_all add: claim_moves_def)

lemma conn_step_moves: "claim_moves sha (bs_pinned (bc_store cfg)) x (conn_step mac sha cfg l e x)"
proof (cases e)
  case (Chunk i chunk now)
  then show ?thesis using receive_moves[of sha cfg "fst x" "snd x"] by simp
next
  case (Timer i)
  then show ?thesis by (intro stays_moves) (simp_all add: timer_fires_def Let_def)
next
  case (LiveAnswers i answer now)
  then show ?thesis
    using merge_live_moves[of "snd x" _ _ sha _ "fst x"] merge_commit_moves[of "snd x" _ _ _ _ sha _ "fst x"]
    by (cases "cn_task (snd x)")
       (auto intro: stays_moves intro!: claim_ends[of "fst x" "fst x" _ _ _ "snd x", simplified] simp: pin_live_def claim_moves_def[of _ _ x "(fst x, _)"])
next
  case (ClientReads i token read now)
  then show ?thesis
    using merge_client_moves[of "snd x" _ _ _ sha _ "fst x"]
    by (cases "cn_task (snd x)") (auto intro: stays_moves simp: pin_head_def claim_moves_def[of _ _ x "(fst x, _)"] split: sum.split)
next
  case (PutAnswers i put verify now)
  then show ?thesis
    using merge_put_moves[of sha _ "fst x" "snd x"] by (cases "cn_task (snd x)") (auto intro: stays_moves)
qed (simp_all add: stays_moves)

definition claims :: "(string \<Rightarrow> string) \<Rightarrow> string \<Rightarrow> connection list \<Rightarrow> nat" where
  "claims sha n cns = length (filter (\<lambda>cn. task_claim sha (cn_task cn) = Some n) cns)"

definition sent_for :: "(string \<Rightarrow> string) \<Rightarrow> string \<Rightarrow> ((nat \<times> nat) \<times> string \<times> merge_request) list \<Rightarrow> nat" where
  "sent_for sha n rs = length (filter (\<lambda>r. record_name sha (fst (snd r)) = n) rs)"

text \<open>What holds the entry of a grant or has used it; whether the entry is there.\<close>

definition dispatches :: "(string \<Rightarrow> string) \<Rightarrow> string \<Rightarrow> broker \<Rightarrow> nat" where
  "dispatches sha n br = claims sha n (br_conns br) + sent_for sha n (br_sent br)"

definition entry :: "broker_config \<Rightarrow> string \<Rightarrow> burn_disk \<Rightarrow> nat" where
  "entry cfg n dk = (if spent_entry dk (bs_pinned (bc_store cfg), n) then 1 else 0)"

text \<open>A prune, of this process at its start or of another, that takes the burn of a grant when it was due.\<close>

fun takes_burn :: "broker_config \<Rightarrow> string \<Rightarrow> broker \<Rightarrow> broker_event \<Rightarrow> bool" where
  "takes_burn cfg n br (DiskEvent d) = takes_due (bc_retentionMs cfg) (bs_pinned (bc_store cfg), n) (br_disk br) d"
| "takes_burn cfg n br (Restarts now) = takes_due (bc_retentionMs cfg) (bs_pinned (bc_store cfg), n) (br_disk br) (Prune now)"
| "takes_burn cfg n br _ = False"

lemma claims_update:
  "i < length cns \<Longrightarrow>
     claims sha n (cns[i := cn]) + (if task_claim sha (cn_task (cns ! i)) = Some n then 1 else 0) =
     claims sha n cns + (if task_claim sha (cn_task cn) = Some n then 1 else 0)"
proof (induction cns arbitrary: i)
  case (Cons c cns)
  then show ?case by (cases i) (auto simp: claims_def)
qed simp

lemma sent_for_append: "sent_for sha n (rs @ ss) = sent_for sha n rs + sent_for sha n ss"
  by (simp add: sent_for_def)

lemma dispatches_conn:
  assumes i: "i < length (br_conns br)"
    and mv: "claim_moves sha (bs_pinned (bc_store cfg)) (br_disk br, br_conns br ! i) (dk, cn)"
  shows "dispatches sha n (br\<lparr>br_disk := dk, br_conns := (br_conns br)[i := cn],
     br_sent := br_sent br @ map (Pair c) (sends (cn_task (br_conns br ! i)) (cn_task cn))\<rparr>) + entry cfg n (br_disk br)
     \<le> dispatches sha n br + entry cfg n dk"
proof -
  let ?c = "task_claim sha (cn_task (br_conns br ! i))" and ?c' = "task_claim sha (cn_task cn)"
  let ?out = "sends (cn_task (br_conns br ! i)) (cn_task cn)" and ?k = "(bs_pinned (bc_store cfg), n)"
  have g: "entry cfg n (br_disk br) \<le> entry cfg n dk" using mv by (simp add: claim_moves_def grows_def entry_def)
  have out: "sent_for sha n (map (Pair c) ?out) = length (filter (\<lambda>m. m = n) (map (\<lambda>s. record_name sha (fst s)) ?out))"
    by (simp add: sent_for_def filter_map comp_def)
  note u = claims_update[OF i, of sha n cn]
  from mv consider "?out = []" "?c' = None \<or> ?c' = ?c"
    | m where "?out = []" "?c' = Some m" "\<not> spent_entry (br_disk br) (bs_pinned (bc_store cfg), m)"
        "spent_entry dk (bs_pinned (bc_store cfg), m)"
    | m where "map (\<lambda>s. record_name sha (fst s)) ?out = [m]" "?c = Some m" "?c' = None"
    by (auto simp: claim_moves_def Let_def)
  then show ?thesis
  proof cases
    case 1
    then show ?thesis using g u by (auto simp: dispatches_def sent_for_append sent_for_def split: if_splits)
  next
    case (2 m)
    then show ?thesis using g u
      by (cases "m = n") (auto simp: dispatches_def sent_for_append sent_for_def entry_def split: if_splits)
  next
    case (3 m)
    then show ?thesis using g u out by (cases "m = n") (auto simp: dispatches_def sent_for_append split: if_splits)
  qed
qed

lemma broker_step_conn:
  "event_conn e = Some i \<Longrightarrow> broker_step mac sha cfg br e =
     (if i < length (br_conns br) then
        let x = conn_step mac sha cfg (br_ledger br) e (br_disk br, br_conns br ! i)
        in br\<lparr>br_disk := fst x, br_conns := (br_conns br)[i := snd x],
              br_sent := br_sent br @ map (Pair (br_starts br, i)) (sends (cn_task (br_conns br ! i)) (cn_task (snd x)))\<rparr>
      else br)"
  by (cases e) (simp_all add: broker_step_def Let_def case_prod_beta)

lemma dispatches_step:
  "dispatches sha n (broker_step mac sha cfg br e) + entry cfg n (br_disk br) \<le>
     dispatches sha n br + entry cfg n (br_disk (broker_step mac sha cfg br e)) + (if takes_burn cfg n br e then 1 else 0)"
proof (cases "event_conn e")
  case (Some i)
  let ?y = "conn_step mac sha cfg (br_ledger br) e (br_disk br, br_conns br ! i)"
  have "claim_moves sha (bs_pinned (bc_store cfg)) (br_disk br, br_conns br ! i) (fst ?y, snd ?y)"
    using conn_step_moves[of sha cfg "(br_disk br, br_conns br ! i)" mac "br_ledger br" e] by simp
  from dispatches_conn[OF _ this, of n "(br_starts br, i)"] show ?thesis
    unfolding broker_step_conn[OF Some] Let_def by (cases "i < length (br_conns br)") (simp_all add: trans_le_add1)
next
  case None
  show ?thesis
  proof (cases e)
    case (DiskEvent d)
    have "entry cfg n (br_disk br) \<le> entry cfg n (burn_step sha (bc_retentionMs cfg) (br_disk br) d) +
        (if takes_burn cfg n br e then 1 else 0)"
      using burn_step_spent[of "br_disk br" "(bs_pinned (bc_store cfg), n)" sha "bc_retentionMs cfg" d]
      by (auto simp: DiskEvent entry_def)
    then show ?thesis by (simp add: DiskEvent broker_step_def dispatches_def)
  next
    case (Restarts now)
    have "entry cfg n (br_disk br) \<le> entry cfg n (fst (pruneExpired (bc_retentionMs cfg) now (br_disk br))) +
        (if takes_burn cfg n br e then 1 else 0)"
      using prune_spent[of "br_disk br" "(bs_pinned (bc_store cfg), n)" "bc_retentionMs cfg" now]
      by (auto simp: Restarts entry_def simp del: takes_due.simps)
    then show ?thesis by (simp add: Restarts broker_step_def dispatches_def claims_def)
  qed (use None in \<open>auto simp: broker_step_def dispatches_def claims_def new_connection_def\<close>)
qed

lemma dispatches_run:
  "dispatches sha n (foldl (broker_step mac sha cfg) br es) + entry cfg n (br_disk br) \<le>
     dispatches sha n br + entry cfg n (br_disk (foldl (broker_step mac sha cfg) br es)) +
     count_run (broker_step mac sha cfg) (takes_burn cfg n) br es"
proof (induction es rule: rev_induct)
  case (snoc e es)
  with dispatches_step[of sha n mac cfg "foldl (broker_step mac sha cfg) br es" e] show ?case
    by (simp add: count_run_snoc)
qed simp

section \<open>What a task carries\<close>

definition authorized :: "mac \<Rightarrow> (string \<Rightarrow> string) \<Rightarrow> broker_config \<Rightarrow> merge_grant \<Rightarrow> merge_args \<Rightarrow> bool" where
  "authorized mac sha cfg g a \<longleftrightarrow>
     (\<exists>v t. verifyMergeGrant mac sha v (bc_grantKey cfg) t = Inr g) \<and>
     mg_connector g = GITHUB_CONNECTOR \<and> mg_operation g = MERGE_PULL_REQUEST \<and>
     parseMergePrArgs (mg_canonicalArgs g) = Inr a \<and> repo_allowed cfg (ma_repo a)"

abbreviation broker_run :: "mac \<Rightarrow> (string \<Rightarrow> string) \<Rightarrow> broker_config \<Rightarrow> burn_disk \<Rightarrow> broker_event list \<Rightarrow> broker" where
  "broker_run mac sha cfg dk es \<equiv> foldl (broker_step mac sha cfg) (new_broker dk) es"

definition task_at :: "broker \<Rightarrow> nat \<Rightarrow> task option" where
  "task_at br i = (if i < length (br_conns br) then Some (cn_task (br_conns br ! i)) else None)"

fun is_restart :: "broker_event \<Rightarrow> bool" where
  "is_restart (Restarts now) = True"
| "is_restart _ = False"

text \<open>
  A live answer that this connection waited for with this grant, in the same process, and that vouched
  for the grant in its epoch; and the client's token and reads, which came after it.
\<close>

definition vouched ::
  "mac \<Rightarrow> (string \<Rightarrow> string) \<Rightarrow> broker_config \<Rightarrow> burn_disk \<Rightarrow> broker_event list \<Rightarrow> nat \<Rightarrow> merge_grant \<Rightarrow> merge_args \<Rightarrow> bool" where
  "vouched mac sha cfg dk es i g a \<longleftrightarrow>
     (\<exists>es1 live t es2. es = es1 @ LiveAnswers i (Some live) t # es2 \<and> \<not> list_ex is_restart es2 \<and>
        task_at (broker_run mac sha cfg dk es1) i = Some (MergeAwaitsLive g a) \<and>
        \<not> lk_killed live \<and> lk_epoch live = mg_killEpoch g \<and> lk_grantLive live = Some True)"

definition minted ::
  "mac \<Rightarrow> (string \<Rightarrow> string) \<Rightarrow> broker_config \<Rightarrow> burn_disk \<Rightarrow> broker_event list \<Rightarrow> nat \<Rightarrow> merge_grant \<Rightarrow> merge_args \<Rightarrow> bool" where
  "minted mac sha cfg dk es i g a \<longleftrightarrow>
     (\<exists>es1 token read t es2. es = es1 @ ClientReads i token read t # es2 \<and> \<not> list_ex is_restart es2 \<and>
        vouched mac sha cfg dk es1 i g a)"

fun task_ok ::
  "mac \<Rightarrow> (string \<Rightarrow> string) \<Rightarrow> broker_config \<Rightarrow> burn_disk \<Rightarrow> broker_event list \<Rightarrow> nat \<Rightarrow> task \<Rightarrow> bool" where
  "task_ok mac sha cfg dk es i (MergeAwaitsLive g a) = authorized mac sha cfg g a"
| "task_ok mac sha cfg dk es i (MergeAwaitsClient g a ep) =
     (authorized mac sha cfg g a \<and> ep = mg_killEpoch g \<and> vouched mac sha cfg dk es i g a)"
| "task_ok mac sha cfg dk es i (MergeAwaitsCommit g a ep url) =
     (authorized mac sha cfg g a \<and> ep = mg_killEpoch g \<and> minted mac sha cfg dk es i g a \<and>
      prPath (bc_baseUrl cfg) (ma_owner a) (ma_repo a) (ma_pullNumber a) = Inr url)"
| "task_ok mac sha cfg dk es i _ = True"

lemma vouched_grows: "vouched mac sha cfg dk es i g a \<Longrightarrow> \<not> is_restart e \<Longrightarrow> vouched mac sha cfg dk (es @ [e]) i g a"
  unfolding vouched_def by (elim exE, rename_tac es1 live t es2, rule_tac x = es1 in exI, rule_tac x = live in exI,
    rule_tac x = t in exI, rule_tac x = "es2 @ [e]" in exI) simp

lemma minted_grows: "minted mac sha cfg dk es i g a \<Longrightarrow> \<not> is_restart e \<Longrightarrow> minted mac sha cfg dk (es @ [e]) i g a"
  unfolding minted_def by (elim exE, rename_tac es1 token read t es2, rule_tac x = es1 in exI, rule_tac x = token in exI,
    rule_tac x = read in exI, rule_tac x = t in exI, rule_tac x = "es2 @ [e]" in exI) simp

lemma task_ok_grows:
  "task_ok mac sha cfg dk es i t \<Longrightarrow> \<not> is_restart e \<Longrightarrow> task_ok mac sha cfg dk (es @ [e]) i t"
  by (cases t) (auto simp: vouched_grows minted_grows)

lemma throw_out_task [simp]: "cn_task (snd (throw_out sha cfg l burned t now (dk, cn))) = TaskDone"
  by (cases t) (simp_all add: throw_out_def)

lemma connector_failed_task [simp]: "cn_task (snd (connector_failed sha cfg l e g now x)) = TaskDone"
  by (simp add: connector_failed_def)

lemma handle_line_task:
  "task_ok mac sha cfg dk0 es i (cn_task (snd (handle_line mac sha cfg l line now (dk, cn))))"
proof (cases "json_parse line")
  case None
  then show ?thesis by (simp add: handle_line_def)
next
  case (Some req)
  obtain dk1 burned r where sm: "start_merge mac sha cfg (own_field ''grant'' req) (own_field ''args'' req) now dk = (dk1, burned, r)"
    by (metis prod_cases3)
  have "task_ok mac sha cfg dk0 es i t" if "r = Inr t" for t
  proof -
    from start_merge_cases[OF sm] that obtain g a v where "t = MergeAwaitsLive g a"
        "verifyMergeGrant mac sha v (bc_grantKey cfg) now = Inr g" "mg_connector g = GITHUB_CONNECTOR"
        "mg_operation g = MERGE_PULL_REQUEST" "parseMergePrArgs (mg_canonicalArgs g) = Inr a" "assertRepoAllowed cfg (ma_repo a) = None"
      by blast
    then show ?thesis
      by (auto simp: authorized_def assertRepoAllowed_def split: option.split_asm if_split_asm intro!: exI[of _ v] exI[of _ now])
  qed
  then show ?thesis using Some sm
    by (auto simp: handle_line_def split: sum.split option.split prod.split)
qed

fun fresh_task :: "task \<Rightarrow> bool" where
  "fresh_task TaskDone = True"
| "fresh_task (PinAwaitsLive pa) = True"
| "fresh_task (MergeAwaitsLive g a) = True"
| "fresh_task _ = False"

lemma handle_line_fresh: "fresh_task (cn_task (snd (handle_line mac sha cfg l line now (dk, cn))))"
proof (cases "json_parse line")
  case None
  then show ?thesis by (simp add: handle_line_def)
next
  case (Some req)
  obtain dk1 burned r where sm: "start_merge mac sha cfg (own_field ''grant'' req) (own_field ''args'' req) now dk = (dk1, burned, r)"
    by (metis prod_cases3)
  have "fresh_task t" if "r = Inr t" for t using start_merge_cases[OF sm] that by auto
  then show ?thesis using Some sm by (auto simp: handle_line_def split: sum.split option.split prod.split)
qed

lemma refuse_before_mint_None:
  "refuse_before_mint g live = None \<longleftrightarrow> \<not> lk_killed live \<and> lk_epoch live = mg_killEpoch g \<and> lk_grantLive live = Some True"
  by (auto simp: refuse_before_mint_def)

lemma refuse_dispatch_None:
  "refuse_dispatch g ep live now ab = None \<longleftrightarrow>
     \<not> lk_killed live \<and> lk_epoch live = ep \<and> before_num now (mg_expiresAt g) \<and> lk_committed live = Some True \<and> \<not> ab"
  by (auto simp: refuse_dispatch_def)

lemma fetchLive_running: "\<not> lk_killed (fetchLive answer) \<Longrightarrow> answer = Some (fetchLive answer)"
  by (cases answer) (simp_all add: fetchLive_def plain_live_def)

lemma conn_step_task:
  assumes "task_ok mac sha cfg dk0 es i (cn_task cn)"
    and "task_at (broker_run mac sha cfg dk0 es) i = Some (cn_task cn)" and "event_conn e = Some i"
  shows "task_ok mac sha cfg dk0 (es @ [e]) i (cn_task (snd (conn_step mac sha cfg l e (dk, cn))))"
proof (cases e)
  case (Chunk j chunk now)
  then show ?thesis using task_ok_grows[OF assms(1)] by (simp add: receive_chunk_def Let_def handle_line_task)
next
  case (LiveAnswers j answer now)
  note t = task_ok_grows[OF assms(1), of e]
  show ?thesis
  proof (cases "cn_task cn")
    case (MergeAwaitsLive g a)
    have "vouched mac sha cfg dk0 (es @ [e]) i g a" if "refuse_before_mint g (fetchLive answer) = None"
    proof -
      have "answer = Some (fetchLive answer)" using that fetchLive_running by (simp add: refuse_before_mint_None)
      then have "es @ [e] = es @ LiveAnswers i (Some (fetchLive answer)) now # []" using LiveAnswers assms(3) by simp
      with that assms(2) MergeAwaitsLive show ?thesis unfolding vouched_def refuse_before_mint_None
        by (intro exI[of _ es] exI[of _ "fetchLive answer"] exI[of _ now] exI[of _ "[]"]) simp
    qed
    then show ?thesis using t LiveAnswers MergeAwaitsLive
      by (auto simp: merge_live_def refuse_before_mint_None split: option.split)
  qed (use t LiveAnswers in \<open>auto simp: merge_commit_def pin_live_def split: option.split\<close>)
next
  case (ClientReads j token read now)
  have "minted mac sha cfg dk0 (es @ [e]) i g a" if "vouched mac sha cfg dk0 es i g a" for g a
    using that assms(3) ClientReads unfolding minted_def
    by (intro exI[of _ es] exI[of _ token] exI[of _ read] exI[of _ now] exI[of _ "[]"]) simp
  then show ?thesis using task_ok_grows[OF assms(1), of e] assms(1) ClientReads
    by (cases "cn_task cn") (auto simp: merge_client_def pin_head_def prepare_merge_Inr split: sum.split)
next
  case (PutAnswers j put verify now)
  then show ?thesis using task_ok_grows[OF assms(1), of e]
    by (cases "cn_task cn") (auto simp: merge_put_answered_def split: sum.split)
qed (use task_ok_grows[OF assms(1), of e] assms(3) in \<open>simp_all add: timer_fires_def Let_def\<close>)

lemma sends_Cons: "r \<in> set (sends t t') \<Longrightarrow> \<exists>g a ep url g' a'. t = MergeAwaitsCommit g a ep url \<and> t' = MergeAwaitsPut g' a' \<and>
     sends t t' = [(mg_jti g, merge_put a url)] \<and> r = (mg_jti g, merge_put a url)"
  by (cases t; cases t') auto

lemma conn_step_sends:
  assumes "r \<in> set (sends (cn_task cn) (cn_task (snd (conn_step mac sha cfg l e (dk, cn)))))" and "event_conn e = Some i"
  shows "\<exists>g a ep url live now. e = LiveAnswers i (Some live) now \<and> cn_task cn = MergeAwaitsCommit g a ep url \<and>
    sends (cn_task cn) (cn_task (snd (conn_step mac sha cfg l e (dk, cn)))) = [(mg_jti g, merge_put a url)] \<and>
    r = (mg_jti g, merge_put a url) \<and> refuse_dispatch g ep live now (cn_abandoned cn) = None \<and>
    cn_dispatched (snd (conn_step mac sha cfg l e (dk, cn)))"
proof -
  from sends_Cons[OF assms(1)] obtain g a ep url g' a' where
    t: "cn_task cn = MergeAwaitsCommit g a ep url" "cn_task (snd (conn_step mac sha cfg l e (dk, cn))) = MergeAwaitsPut g' a'"
      "sends (cn_task cn) (cn_task (snd (conn_step mac sha cfg l e (dk, cn)))) = [(mg_jti g, merge_put a url)]"
      "r = (mg_jti g, merge_put a url)" by blast
  show ?thesis
  proof (cases e)
    case (LiveAnswers j answer now)
    with t(1,2) have d: "refuse_dispatch g ep (fetchLive answer) now (cn_abandoned cn) = None"
      by (simp add: merge_commit_def split: option.split_asm)
    then have "e = LiveAnswers i (Some (fetchLive answer)) now"
      using LiveAnswers assms(2) fetchLive_running by (simp add: refuse_dispatch_None)
    moreover have "cn_dispatched (snd (conn_step mac sha cfg l e (dk, cn)))"
      using t(1) d LiveAnswers by (simp add: merge_commit_def)
    ultimately show ?thesis using t d by blast
  next
    case (Chunk j chunk now)
    have "\<not> (\<exists>g' a'. cn_task (snd (handle_line mac sha cfg l line now (dk, c))) = MergeAwaitsPut g' a')" for line c
      using handle_line_fresh[of mac sha cfg l line now dk c] by auto
    with t Chunk show ?thesis by (auto simp: receive_chunk_def Let_def split: if_split_asm)
  qed (use t in \<open>auto simp: timer_fires_def Let_def split: if_split_asm\<close>)
qed

text \<open>What stood behind a request when the step sent it.\<close>

definition sent_ok ::
  "mac \<Rightarrow> (string \<Rightarrow> string) \<Rightarrow> broker_config \<Rightarrow> burn_disk \<Rightarrow> broker_event list \<Rightarrow> (nat \<times> nat) \<times> string \<times> merge_request \<Rightarrow> bool" where
  "sent_ok mac sha cfg dk es r \<longleftrightarrow>
     (\<exists>es1 i live now es2 br g a ep url. es = es1 @ LiveAnswers i (Some live) now # es2 \<and> br = broker_run mac sha cfg dk es1 \<and>
        task_at br i = Some (MergeAwaitsCommit g a ep url) \<and> r = ((br_starts br, i), mg_jti g, merge_put a url) \<and>
        br_sent (broker_step mac sha cfg br (LiveAnswers i (Some live) now)) = br_sent br @ [r] \<and>
        authorized mac sha cfg g a \<and> minted mac sha cfg dk es1 i g a \<and>
        prPath (bc_baseUrl cfg) (ma_owner a) (ma_repo a) (ma_pullNumber a) = Inr url \<and>
        \<not> lk_killed live \<and> lk_epoch live = mg_killEpoch g \<and> lk_committed live = Some True \<and>
        before_num now (mg_expiresAt g))"

lemma sent_ok_grows: "sent_ok mac sha cfg dk es r \<Longrightarrow> sent_ok mac sha cfg dk (es @ fs) r"
  unfolding sent_ok_def by fastforce

lemma broker_step_other:
  "event_conn e = None \<Longrightarrow>
     set (br_conns (broker_step mac sha cfg br e)) \<subseteq> insert new_connection (set (br_conns br)) \<and>
     br_sent (broker_step mac sha cfg br e) = br_sent br"
  by (cases e) (auto simp: broker_step_def)

lemma broker_step_connects: "broker_step mac sha cfg br Connects = br\<lparr>br_conns := br_conns br @ [new_connection]\<rparr>"
  by (simp add: broker_step_def)

lemma broker_step_learns: "broker_step mac sha cfg br (Learns secret) = br\<lparr>br_ledger := add_secret secret (br_ledger br)\<rparr>"
  by (simp add: broker_step_def)

lemma broker_step_disk:
  "broker_step mac sha cfg br (DiskEvent d) = br\<lparr>br_disk := burn_step sha (bc_retentionMs cfg) (br_disk br) d\<rparr>"
  by (simp add: broker_step_def)

lemma broker_step_restarts:
  "broker_step mac sha cfg br (Restarts now) =
     br\<lparr>br_disk := fst (pruneExpired (bc_retentionMs cfg) now (br_disk br)), br_conns := [], br_ledger := [], br_starts := br_starts br + 1\<rparr>"
  by (simp add: broker_step_def)

lemma broker_run_ok:
  "(\<forall>i < length (br_conns (broker_run mac sha cfg dk es)).
      task_ok mac sha cfg dk es i (cn_task (br_conns (broker_run mac sha cfg dk es) ! i))) \<and>
   (\<forall>r \<in> set (br_sent (broker_run mac sha cfg dk es)). sent_ok mac sha cfg dk es r)"
proof (induction es rule: rev_induct)
  case Nil
  then show ?case by (simp add: new_broker_def)
next
  case (snoc e es)
  let ?br = "broker_run mac sha cfg dk es" and ?br' = "broker_run mac sha cfg dk (es @ [e])"
  from snoc have sent: "\<forall>r \<in> set (br_sent ?br). sent_ok mac sha cfg dk (es @ [e]) r"
    by (blast intro: sent_ok_grows)
  have conns: "\<not> is_restart e \<Longrightarrow> i < length (br_conns ?br) \<Longrightarrow>
      task_ok mac sha cfg dk (es @ [e]) i (cn_task (br_conns ?br ! i))" for i
    using snoc task_ok_grows by blast
  show ?case
  proof (cases "event_conn e")
    case (Some i)
    then have nr: "\<not> is_restart e" by (cases e) simp_all
    show ?thesis
    proof (cases "i < length (br_conns ?br)")
      case True
      let ?cn = "br_conns ?br ! i" and ?x = "conn_step mac sha cfg (br_ledger ?br) e (br_disk ?br, br_conns ?br ! i)"
      have t: "task_ok mac sha cfg dk es i (cn_task ?cn)" "task_at ?br i = Some (cn_task ?cn)"
        using snoc True by (simp_all add: task_at_def)
      have step: "broker_step mac sha cfg ?br e = ?br\<lparr>br_disk := fst ?x, br_conns := (br_conns ?br)[i := snd ?x],
          br_sent := br_sent ?br @ map (Pair (br_starts ?br, i)) (sends (cn_task ?cn) (cn_task (snd ?x)))\<rparr>"
        using True by (simp add: broker_step_conn[OF Some] Let_def)
      have "sent_ok mac sha cfg dk (es @ [e]) ((br_starts ?br, i), r)" if r: "r \<in> set (sends (cn_task ?cn) (cn_task (snd ?x)))" for r
      proof -
        from conn_step_sends[OF r Some] obtain g a ep url live now where
          s: "e = LiveAnswers i (Some live) now" "cn_task ?cn = MergeAwaitsCommit g a ep url"
            "sends (cn_task ?cn) (cn_task (snd ?x)) = [r]" "r = (mg_jti g, merge_put a url)"
            "refuse_dispatch g ep live now (cn_abandoned ?cn) = None" by metis
        have "br_sent (broker_step mac sha cfg ?br e) = br_sent ?br @ [((br_starts ?br, i), r)]"
          unfolding step by (simp add: s(3))
        then show ?thesis
          unfolding sent_ok_def using t s(1,2,4,5) unfolding refuse_dispatch_None
          by (intro exI[of _ es] exI[of _ i] exI[of _ live] exI[of _ now] exI[of _ "[]"] exI[of _ ?br] exI[of _ g] exI[of _ a]
              exI[of _ ep] exI[of _ url]) simp
      qed
      then have "\<forall>r \<in> set (br_sent ?br'). sent_ok mac sha cfg dk (es @ [e]) r" using sent by (auto simp: step)
      moreover have "task_ok mac sha cfg dk (es @ [e]) j (cn_task (br_conns ?br' ! j))" if "j < length (br_conns ?br')" for j
        using that conns[OF nr, of j] conn_step_task[OF t Some]
        by (cases "j = i") (simp_all add: step)
      ultimately show ?thesis by blast
    next
      case False
      then show ?thesis using conns[OF nr] sent by (simp add: broker_step_conn[OF Some])
    qed
  next
    case None
    show ?thesis
    proof (cases e)
      case Connects
      have "br_conns ?br' = br_conns ?br @ [new_connection]" "br_sent ?br' = br_sent ?br"
        using broker_step_connects[of mac sha cfg ?br] by (simp_all add: Connects)
      then show ?thesis using conns sent
        by (auto simp: Connects nth_append new_connection_def less_Suc_eq)
    next
      case (Restarts now)
      have "br_conns ?br' = []" "br_sent ?br' = br_sent ?br"
        using broker_step_restarts[of mac sha cfg ?br now] by (simp_all add: Restarts)
      then show ?thesis using sent by simp
    qed (use None conns sent in \<open>simp_all add: broker_step_learns broker_step_disk\<close>)
  qed
qed

section \<open>Answers are honest\<close>

text \<open>
  A connection that was told refused has sent nothing, and its task can no longer send: the task
  is over, or the timer has abandoned it.
\<close>

fun may_send :: "task \<Rightarrow> bool" where
  "may_send (MergeAwaitsLive g a) = True"
| "may_send (MergeAwaitsClient g a ep) = True"
| "may_send (MergeAwaitsCommit g a ep url) = True"
| "may_send _ = False"

fun is_refused :: "wire_response option \<Rightarrow> bool" where
  "is_refused (Some (RefusedReply e)) = True"
| "is_refused _ = False"

fun sent_task :: "task \<Rightarrow> bool" where
  "sent_task (MergeAwaitsPut g a) = True"
| "sent_task TaskDone = True"
| "sent_task _ = False"

definition honest :: "connection \<Rightarrow> bool" where
  "honest cn \<longleftrightarrow>
     (cn_answer cn \<noteq> None \<longrightarrow> cn_done cn) \<and>
     (cn_dispatched cn \<longrightarrow> \<not> is_refused (cn_answer cn) \<and> sent_task (cn_task cn)) \<and>
     (cn_task cn \<noteq> NoTask \<longrightarrow> cn_started cn) \<and>
     (is_refused (cn_answer cn) \<and> may_send (cn_task cn) \<longrightarrow> cn_abandoned cn)"

lemma finish_honest:
  assumes "honest cn" and "is_refused (Some r) \<longrightarrow> \<not> cn_dispatched cn \<and> \<not> may_send (cn_task cn)"
  shows "honest (finish_answer l r cn)"
  using assms by (cases r) (auto simp: honest_def finish_answer_def)

lemma end_honest:
  assumes "honest cn" and "is_refused (Some r) \<longrightarrow> \<not> cn_dispatched cn" and "cn_started cn"
  shows "honest (end_task l r cn)"
  using assms by (cases r) (auto simp: honest_def end_task_def finish_answer_def)

lemma throw_out_honest:
  assumes "honest cn" and "\<not> cn_dispatched cn" and "cn_started cn"
  shows "honest (snd (throw_out sha cfg l burned t now (dk, cn)))"
  using assms by (cases t) (simp_all add: throw_out_def end_honest)

lemma connector_failed_honest: "honest (snd x) \<Longrightarrow> cn_started (snd x) \<Longrightarrow> honest (snd (connector_failed sha cfg l e g now x))"
  by (simp add: connector_failed_def end_honest)

lemma fresh_honest:
  assumes "honest cn" and "\<not> cn_dispatched cn" "\<not> cn_done cn"
  shows "honest (cn\<lparr>cn_jti := j, cn_started := True, cn_task := t\<rparr>)"
  using assms by (auto simp: honest_def)

lemma handle_line_honest:
  assumes "honest cn" and "\<not> cn_dispatched cn" "\<not> cn_done cn" "cn_started cn"
  shows "honest (snd (handle_line mac sha cfg l line now (dk, cn)))"
proof (cases "json_parse line")
  case None
  then show ?thesis using assms by (simp add: handle_line_def throw_out_honest)
next
  case (Some req)
  have pin: "honest (cn\<lparr>cn_task := t\<rparr>)" for t
    using assms by (auto simp: honest_def)
  have jti: "honest (cn\<lparr>cn_jti := j\<rparr>)" "honest (cn\<lparr>cn_jti := j, cn_task := t\<rparr>)" for j t
    using assms by (auto simp: honest_def)
  obtain dk1 burned r where sm: "start_merge mac sha cfg (own_field ''grant'' req) (own_field ''args'' req) now dk = (dk1, burned, r)"
    by (metis prod_cases3)
  have "honest (snd (throw_out sha cfg l burned t now (dk1, cn\<lparr>cn_jti := burned\<rparr>)))" for t
    using jti(1) assms by (intro throw_out_honest) simp_all
  then show ?thesis using Some sm assms pin jti
    by (auto simp: handle_line_def throw_out_honest end_honest split: sum.split option.split prod.split)
qed

lemma receive_honest: "honest cn \<Longrightarrow> honest (snd (receive_chunk mac sha cfg l chunk now (dk, cn)))"
proof -
  assume h: "honest cn"
  show ?thesis
  proof (cases "cn_done cn \<or> cn_started cn")
    case False
    then have "cn_task cn = NoTask" "\<not> cn_dispatched cn" using h by (auto simp: honest_def)
    moreover from this have "honest (cn\<lparr>cn_buffer := b\<rparr>)" "honest (cn\<lparr>cn_buffer := b, cn_started := True\<rparr>)" for b
      using h by (auto simp: honest_def)
    ultimately show ?thesis using False
      by (simp add: receive_chunk_def Let_def finish_honest handle_line_honest)
  qed (use h in \<open>auto simp: receive_chunk_def\<close>)
qed

lemma timer_honest: "honest cn \<Longrightarrow> honest (timer_fires cfg l cn)"
  by (auto simp: honest_def timer_fires_def finish_answer_def Let_def)

lemma waiting_task: "honest cn \<Longrightarrow> \<not> sent_task (cn_task cn) \<Longrightarrow> \<not> cn_dispatched cn"
  "honest cn \<Longrightarrow> cn_task cn \<noteq> NoTask \<Longrightarrow> cn_started cn"
  by (auto simp: honest_def)

lemma merge_live_honest:
  assumes "honest cn" and "cn_task cn = MergeAwaitsLive g a"
  shows "honest (snd (merge_live sha cfg l answer g a now (dk, cn)))"
  using assms waiting_task[OF assms(1)]
  by (auto simp: merge_live_def throw_out_honest split: option.split) (auto simp: honest_def)

lemma merge_client_honest:
  assumes "honest cn" and "cn_task cn = MergeAwaitsClient g a ep"
  shows "honest (snd (merge_client sha cfg l token read g a ep now (dk, cn)))"
  using assms waiting_task[OF assms(1)]
  by (auto simp: merge_client_def connector_failed_honest split: sum.split) (auto simp: honest_def)

lemma merge_commit_honest:
  assumes "honest cn" and "cn_task cn = MergeAwaitsCommit g a ep url"
  shows "honest (snd (merge_commit sha cfg l answer g a ep now (dk, cn)))"
  using assms waiting_task[OF assms(1)]
  by (auto simp: merge_commit_def connector_failed_honest split: option.split)
     (auto simp: honest_def refuse_dispatch_None)

lemma merge_put_honest:
  assumes "honest cn" and "cn_task cn = MergeAwaitsPut g a"
  shows "honest (snd (merge_put_answered sha cfg l put verify g a now (dk, cn)))"
  using assms waiting_task[OF assms(1)]
  by (auto simp: merge_put_answered_def connector_failed_honest end_honest split: sum.split)

lemma conn_step_honest: "honest cn \<Longrightarrow> honest (snd (conn_step mac sha cfg l e (dk, cn)))"
proof (cases e)
  case (Chunk i chunk now)
  then show "honest cn \<Longrightarrow> ?thesis" by (simp add: receive_honest)
next
  case (Timer i)
  then show "honest cn \<Longrightarrow> ?thesis" by (simp add: timer_honest)
next
  case (SocketFails i)
  then show "honest cn \<Longrightarrow> ?thesis" by (auto simp: honest_def)
next
  case (LiveAnswers i answer now)
  assume h: "honest cn"
  then have "cn_task cn = PinAwaitsLive pa \<Longrightarrow> honest (pin_live l answer pa cn)" for pa
    using waiting_task[OF h] by (auto simp: pin_live_def end_honest) (auto simp: honest_def)
  with h show ?thesis using LiveAnswers
    by (cases "cn_task cn") (auto simp: merge_live_honest merge_commit_honest)
next
  case (ClientReads i token read now)
  assume h: "honest cn"
  then have "cn_task cn = PinAwaitsHead pa \<Longrightarrow> honest (pin_head cfg l token read pa cn)" for pa
    using waiting_task[OF h] by (auto simp: pin_head_def end_honest split: sum.split)
  with h show ?thesis using ClientReads
    by (cases "cn_task cn") (auto simp: merge_client_honest)
next
  case (PutAnswers i put verify now)
  then show "honest cn \<Longrightarrow> ?thesis" by (cases "cn_task cn") (auto simp: merge_put_honest)
qed simp_all

lemma broker_honest: "\<forall>cn \<in> set (br_conns br). honest cn \<Longrightarrow> \<forall>cn \<in> set (br_conns (broker_step mac sha cfg br e)). honest cn"
proof -
  assume h: "\<forall>cn \<in> set (br_conns br). honest cn"
  show ?thesis
  proof (cases "event_conn e")
    case (Some i)
    then show ?thesis using h conn_step_honest
      by (auto simp: broker_step_conn[OF Some] Let_def dest!: set_update_subset_insert[THEN subsetD])
  next
    case None
    have "honest new_connection" by (simp add: honest_def new_connection_def)
    then show ?thesis using h broker_step_other[OF None, of mac sha cfg br] by auto
  qed
qed

interpretation honesty: machine "broker_step mac sha cfg" "\<lambda>br. \<forall>cn \<in> set (br_conns br). honest cn" for mac sha cfg
  by unfold_locales (rule broker_honest)

lemma done_answer_stays:
  assumes "cn_done cn"
  shows "cn_answer (snd (conn_step mac sha cfg l e (dk, cn))) = cn_answer cn"
proof -
  have fin: "finish_answer l r cn' = cn'" if "cn_done cn'" for r cn' using that by (simp add: finish_answer_def)
  have endt: "cn_answer (end_task l r cn) = cn_answer cn" for r using assms by (simp add: end_task_def fin)
  have out: "cn_answer (snd (throw_out sha cfg l b t now (dk, cn))) = cn_answer cn" for b t now
    using endt by (cases t) (simp_all add: throw_out_def)
  have con: "cn_answer (snd (connector_failed sha cfg l c g now (dk, cn))) = cn_answer cn" for c g now
    using endt by (simp add: connector_failed_def)
  show ?thesis using assms endt out con
    by (cases e; cases "cn_task cn")
       (auto simp: receive_chunk_def timer_fires_def merge_live_def merge_commit_def merge_client_def merge_put_answered_def
          pin_live_def pin_head_def split: option.split sum.split)
qed

lemma length_filter_mono: "(\<And>x. P x \<Longrightarrow> Q x) \<Longrightarrow> length (filter P xs) \<le> length (filter Q xs)"
  by (induction xs) (auto intro: le_SucI)

section \<open>Properties\<close>

text \<open>
  C5: One approval, one dispatch: along every run of connections, answers in any order, timeouts,
  restarts with their prunes, failing calls, power losses and the burns, outcomes and prunes of sibling
  processes, the broker sends at most one merge request per grant, and one more only for each prune that
  took the burn of the grant when it was due, that is past the retention after the expiry its record
  states, or after its last write if it cannot be read.
\<close>

theorem one_merge_per_grant:
  "length (filter (\<lambda>r. fst (snd r) = jti) (br_sent (broker_run mac sha cfg dk es)))
     \<le> count_run (broker_step mac sha cfg) (takes_burn cfg (record_name sha jti)) (new_broker dk) es + 1"
proof -
  let ?br = "broker_run mac sha cfg dk es" and ?n = "record_name sha jti"
  have "dispatches sha ?n (new_broker dk) = 0" by (simp add: dispatches_def new_broker_def claims_def sent_for_def)
  moreover have "entry cfg ?n (br_disk ?br) \<le> 1" by (simp add: entry_def)
  ultimately have "dispatches sha ?n ?br \<le> count_run (broker_step mac sha cfg) (takes_burn cfg ?n) (new_broker dk) es + 1"
    using dispatches_run[of sha ?n mac cfg "new_broker dk" es] by linarith
  moreover have "length (filter (\<lambda>r. fst (snd r) = jti) (br_sent ?br)) \<le> sent_for sha ?n (br_sent ?br)"
    unfolding sent_for_def by (rule length_filter_mono) simp
  ultimately show ?thesis by (simp add: dispatches_def)
qed

text \<open>
  C6: No dispatch without authority: every merge request is sent by a step at which a live answer
  comes, to a connection that waits for it, in the grant's epoch, that commits the grant before it
  expired; the grant verified under the broker's key, for a merge of an allowed repository and exactly
  the request's arguments; and earlier this same connection, in this same process, was given a live
  answer that vouched for the grant in its epoch, and only after that its token and reads.
\<close>

theorem dispatch_is_authorized:
  "list_all (\<lambda>r. \<exists>es1 i live now es2 br g a ep url.
        es = es1 @ LiveAnswers i (Some live) now # es2 \<and> br = broker_run mac sha cfg dk es1 \<and>
        task_at br i = Some (MergeAwaitsCommit g a ep url) \<and> r = ((br_starts br, i), mg_jti g, merge_put a url) \<and>
        br_sent (broker_step mac sha cfg br (LiveAnswers i (Some live) now)) = br_sent br @ [r] \<and>
        authorized mac sha cfg g a \<and> minted mac sha cfg dk es1 i g a \<and>
        prPath (bc_baseUrl cfg) (ma_owner a) (ma_repo a) (ma_pullNumber a) = Inr url \<and>
        \<not> lk_killed live \<and> lk_epoch live = mg_killEpoch g \<and> lk_committed live = Some True \<and>
        before_num now (mg_expiresAt g)) (br_sent (broker_run mac sha cfg dk es))"
  using broker_run_ok[of mac sha cfg dk es] unfolding sent_ok_def list_all_iff by blast

section \<open>Refused\<close>

text \<open>Every request in the list was sent by a connection that knows it; those of this process are still there.\<close>

definition senders_known :: "broker \<Rightarrow> bool" where
  "senders_known br \<longleftrightarrow>
     (\<forall>r \<in> set (br_sent br). fst (fst r) \<le> br_starts br \<and>
        (fst (fst r) = br_starts br \<longrightarrow>
           snd (fst r) < length (br_conns br) \<and> cn_dispatched (br_conns br ! snd (fst r)))) \<and>
     (\<forall>cn \<in> set (br_conns br). honest cn)"

lemma conn_step_dispatched: "cn_dispatched cn \<Longrightarrow> cn_dispatched (snd (conn_step mac sha cfg l e (dk, cn)))"
proof -
  assume d: "cn_dispatched cn"
  have fin: "cn_dispatched (finish_answer l r cn') = cn_dispatched cn'" "cn_dispatched (end_task l r cn') = cn_dispatched cn'" for r cn'
    by (simp_all add: finish_answer_def end_task_def)
  have out: "cn_dispatched (snd (throw_out sha cfg l b t now (dk', cn'))) = cn_dispatched cn'" for b t now dk' cn'
    by (cases t) (simp_all add: throw_out_def fin)
  have con: "cn_dispatched (snd (connector_failed sha cfg l c g now x)) = cn_dispatched (snd x)" for c g now x
    by (simp add: connector_failed_def fin)
  have line: "cn_dispatched (snd (handle_line mac sha cfg l line now (dk', cn'))) = cn_dispatched cn'" for line now dk' cn'
    by (auto simp: handle_line_def out fin split: option.split sum.split prod.split)
  show ?thesis using d
    by (cases e; cases "cn_task cn")
       (auto simp: receive_chunk_def timer_fires_def merge_live_def merge_commit_def merge_client_def merge_put_answered_def
          pin_live_def pin_head_def fin out con line Let_def split: option.split sum.split)
qed

lemma senders_step:
  assumes "senders_known br"
  shows "senders_known (broker_step mac sha cfg br e)"
proof (cases "event_conn e")
  case (Some i)
  show ?thesis
  proof (cases "i < length (br_conns br)")
    case True
    let ?cn = "br_conns br ! i" and ?x = "conn_step mac sha cfg (br_ledger br) e (br_disk br, br_conns br ! i)"
    have "cn_dispatched (snd ?x)" if "r \<in> set (sends (cn_task ?cn) (cn_task (snd ?x)))" for r
      using conn_step_sends[OF that Some] by blast
    moreover have "cn_dispatched ?cn \<Longrightarrow> cn_dispatched (snd ?x)" by (rule conn_step_dispatched)
    ultimately show ?thesis
      using assms True broker_honest[of br mac sha cfg e]
      by (auto simp: senders_known_def broker_step_conn[OF Some] Let_def nth_list_update)
  next
    case False
    then show ?thesis using assms by (simp add: broker_step_conn[OF Some])
  qed
next
  case None
  then show ?thesis
    using assms broker_honest[of br mac sha cfg e]
    by (cases e) (auto simp: senders_known_def broker_step_def nth_append)
qed

interpretation senders: machine "broker_step mac sha cfg" senders_known for mac sha cfg
  by unfold_locales (rule senders_step)

text \<open>A connection of the start \<open>n\<close> that was told refused has sent nothing; while the process lives it stays told.\<close>

definition told_refused :: "nat \<Rightarrow> nat \<Rightarrow> string \<Rightarrow> broker \<Rightarrow> bool" where
  "told_refused n i m br \<longleftrightarrow>
     senders_known br \<and> n \<le> br_starts br \<and> list_all (\<lambda>r. fst r \<noteq> (n, i)) (br_sent br) \<and>
     (br_starts br = n \<longrightarrow> i < length (br_conns br) \<and> cn_answer (br_conns br ! i) = Some (RefusedReply m))"

lemma told_refused_first:
  assumes "senders_known br" "i < length (br_conns br)" "cn_answer (br_conns br ! i) = Some (RefusedReply m)"
  shows "told_refused (br_starts br) i m br"
proof -
  have "honest (br_conns br ! i)" using assms(1,2) by (simp add: senders_known_def)
  then have "\<not> cn_dispatched (br_conns br ! i)" using assms(3) by (auto simp: honest_def)
  then have "list_all (\<lambda>r. fst r \<noteq> (br_starts br, i)) (br_sent br)"
    using assms(1) by (auto simp: senders_known_def list_all_iff)
  with assms show ?thesis by (simp add: told_refused_def)
qed

lemma told_refused_step:
  assumes "told_refused n i m br"
  shows "told_refused n i m (broker_step mac sha cfg br e)"
proof (cases "event_conn e")
  case (Some j)
  show ?thesis
  proof (cases "j < length (br_conns br) \<and> br_starts br = n \<and> j = i")
    case True
    let ?br = "broker_step mac sha cfg br e"
    have r: "i < length (br_conns br)" "cn_answer (br_conns br ! i) = Some (RefusedReply m)"
      using assms True by (auto simp: told_refused_def)
    then have "honest (br_conns br ! i)" using assms by (simp add: told_refused_def senders_known_def)
    then have "cn_done (br_conns br ! i)" using r by (auto simp: honest_def)
    from done_answer_stays[OF this] r have "cn_answer (br_conns ?br ! i) = Some (RefusedReply m)" "i < length (br_conns ?br)"
      using True by (simp_all add: broker_step_conn[OF Some] Let_def)
    moreover have "senders_known ?br" using assms by (simp add: told_refused_def senders_step)
    ultimately have "told_refused (br_starts ?br) i m ?br" by (intro told_refused_first)
    then show ?thesis using True by (simp add: broker_step_conn[OF Some] Let_def)
  next
    case False
    then show ?thesis
      using assms senders_step[of br mac sha cfg e]
      by (auto simp: told_refused_def broker_step_conn[OF Some] Let_def list_all_iff nth_list_update split: if_splits)
  qed
next
  case None
  then show ?thesis
    using assms senders_step[of br mac sha cfg e]
    by (cases e) (auto simp: told_refused_def broker_step_def nth_append)
qed

interpretation refusals: machine "broker_step mac sha cfg" "told_refused n i m" for mac sha cfg n i m
  by unfold_locales (rule told_refused_step)

text \<open>
  C7: Refused means nothing was sent, also when the timeout answers while a merge is still
  waiting: no merge request of a connection that was answered refused is among those sent, then or
  after any later events, and while its process lives the connection keeps that answer.
\<close>

theorem refused_means_nothing_sent:
  assumes "br = broker_run mac sha cfg dk es" and "i < length (br_conns br)"
    and "cn_answer (br_conns br ! i) = Some (RefusedReply m)" and "br' = foldl (broker_step mac sha cfg) br es'"
  shows "list_all (\<lambda>r. fst r \<noteq> (br_starts br, i)) (br_sent br') \<and>
     (br_starts br' = br_starts br \<longrightarrow> cn_answer (br_conns br' ! i) = Some (RefusedReply m))"
proof -
  have "senders_known br" unfolding assms(1) by (rule senders.inv_run) (simp add: senders_known_def new_broker_def)
  from refusals.inv_run[OF told_refused_first[OF this assms(2,3)]] show ?thesis
    unfolding assms(4) by (simp add: told_refused_def)
qed

definition demo_config :: broker_config where
  "demo_config = \<lparr>bc_grantKey = ''k'', bc_allowed = None, bc_store = demo_store, bc_retentionMs = 21600000, bc_baseUrl = ''https://api.github.com'',
     bc_timeoutMs = 120000, bc_parseError = ''bad JSON'', bc_typeError = ''not a string'', bc_throwText = (\<lambda>_. ''no burn'')\<rparr>"

lemma refused_means_nothing_sent_witness:
  "list_all (\<lambda>r. fst r \<noteq> (0, 0))
     (br_sent (broker_run demo_mac (\<lambda>j. j) demo_config demo_disk [Connects, Timer 0, Timer 0]))"
proof -
  let ?m = "take 400 (redact [] ''request timed out before dispatch - nothing was sent to GitHub'')"
  let ?br = "broker_run demo_mac (\<lambda>j. j) demo_config demo_disk [Connects, Timer 0]"
  have br: "?br = \<lparr>br_disk = demo_disk, br_ledger = [],
      br_conns = [new_connection\<lparr>cn_abandoned := True, cn_done := True, cn_answer := Some (RefusedReply ?m)\<rparr>],
      br_starts = 0, br_sent = []\<rparr>"
    by (simp add: broker_step_def new_broker_def new_connection_def timer_fires_def finish_answer_def Let_def)
  have "0 < length (br_conns ?br)" "cn_answer (br_conns ?br ! 0) = Some (RefusedReply ?m)" "br_starts ?br = 0"
    unfolding br by simp_all
  with refused_means_nothing_sent[OF HOL.refl this(1,2) HOL.refl, of "[Timer 0]"] show ?thesis
    by (simp del: foldl.simps) simp
qed

end
