(* ===== verification/Auth.thy ===== *)
theory Auth
  imports Crypto
begin

text \<open>
  Authentication of the control plane's requests, \<open>packages/control-plane/src/auth.ts\<close>: the
  signatures of devices with their replay window, the owner's sessions and the loopback test.
  HMAC is the parameter \<open>mac\<close>; the bytes of a token are random and an argument.  The nonce store
  and the session store are association lists that the calls return updated.
\<close>

section \<open>Device signatures\<close>

record device_credential =
  dc_deviceId :: string
  dc_timestamp :: js_num
  dc_nonce :: string
  dc_signature :: string

type_synonym nonce_store = "(string \<times> int) list"

definition DEVICE_SKEW_MS :: int where "DEVICE_SKEW_MS = 60000"

definition signedPayload :: "string \<Rightarrow> int \<Rightarrow> string \<Rightarrow> string \<Rightarrow> string" where
  "signedPayload deviceId timestamp nonce rawBody =
     deviceId @ CHR ''.'' # num_text (NInt timestamp) @ CHR ''.'' # nonce @ CHR ''.'' # rawBody"

definition unambiguousField :: "string \<Rightarrow> bool" where
  "unambiguousField v \<longleftrightarrow> v \<noteq> [] \<and> CHR ''.'' \<notin> set v"

text \<open>\<open>Number.isInteger\<close>\<close>

fun is_integer :: "js_num \<Rightarrow> int option" where
  "is_integer (NInt i) = Some i"
| "is_integer _ = None"

definition signDeviceRequest :: "mac \<Rightarrow> string \<Rightarrow> js_num \<Rightarrow> string \<Rightarrow> string \<Rightarrow> string \<Rightarrow> string + string" where
  "signDeviceRequest mac deviceId timestamp nonce rawBody secret =
     (if \<not> unambiguousField deviceId \<or> \<not> unambiguousField nonce then
        Inl (''deviceId and nonce must be non-empty and contain no '' @ CHR 0x22 # ''.'' @ [CHR 0x22])
      else
        (case is_integer timestamp of
           None \<Rightarrow> Inl ''timestamp must be an integer (ms since epoch)''
         | Some ts \<Rightarrow> Inr (hex_encode (mac secret (signedPayload deviceId ts nonce rawBody)))))"

definition sweep_nonces :: "int \<Rightarrow> nonce_store \<Rightarrow> nonce_store" where
  "sweep_nonces now seen = filter (\<lambda>e. now \<le> snd e) seen"

definition nonceKey :: "string \<Rightarrow> string \<Rightarrow> string" where
  "nonceKey deviceId nonce = deviceId @ CHR '':'' # nonce"

text \<open>The checks before the nonce: the timestamp of a credential that is well formed, fresh and signed.\<close>

definition signed_at :: "mac \<Rightarrow> device_credential \<Rightarrow> string \<Rightarrow> string \<Rightarrow> int \<Rightarrow> int \<Rightarrow> int option" where
  "signed_at mac c rawBody secret now maxSkew =
     (if \<not> unambiguousField (dc_deviceId c) \<or> \<not> unambiguousField (dc_nonce c) \<or> dc_signature c = [] then None
      else
        (case is_integer (dc_timestamp c) of
           None \<Rightarrow> None
         | Some ts \<Rightarrow>
             if maxSkew < \<bar>now - ts\<bar> then None
             else if hex_decode (dc_signature c) \<noteq> mac secret (signedPayload (dc_deviceId c) ts (dc_nonce c) rawBody) then None
             else Some ts))"

definition verifyDeviceSignature ::
  "mac \<Rightarrow> device_credential \<Rightarrow> string \<Rightarrow> string \<Rightarrow> int \<Rightarrow> int \<Rightarrow> nonce_store \<Rightarrow> nonce_store \<times> bool" where
  "verifyDeviceSignature mac c rawBody secret now maxSkew seen =
     (let seen1 = sweep_nonces now seen; key = nonceKey (dc_deviceId c) (dc_nonce c) in
      case signed_at mac c rawBody secret now maxSkew of
        None \<Rightarrow> (seen1, False)
      | Some ts \<Rightarrow>
          if key \<in> set (map_keys seen1) then (seen1, False)
          else (AList.update key (ts + maxSkew) seen1, True))"

section \<open>Owner sessions\<close>

record owner_session =
  os_token :: string
  os_ownerId :: string
  os_expiresAt :: int

type_synonym session_store = "(string \<times> owner_session) list"

definition SESSION_TTL_MS :: int where "SESSION_TTL_MS = 15 * 60000"

definition createOwnerSession ::
  "string \<Rightarrow> string \<Rightarrow> int option \<Rightarrow> int \<Rightarrow> session_store \<Rightarrow> session_store \<times> owner_session" where
  "createOwnerSession token ownerId ttl now sessions =
     (let swept = filter (\<lambda>e. now < os_expiresAt (snd e)) sessions;
          s = \<lparr>os_token = token, os_ownerId = ownerId,
               os_expiresAt = now + (case ttl of None \<Rightarrow> SESSION_TTL_MS | Some t \<Rightarrow> t)\<rparr>
      in (AList.update token s swept, s))"

definition verifyOwnerSession :: "string \<Rightarrow> int \<Rightarrow> session_store \<Rightarrow> session_store \<times> owner_session option" where
  "verifyOwnerSession token now sessions =
     (case map_of sessions token of
        None \<Rightarrow> (sessions, None)
      | Some s \<Rightarrow>
          if os_expiresAt s \<le> now then (AList.delete token sessions, None)
          else (sessions, Some s))"

section \<open>Loopback\<close>

definition starts_with :: "string \<Rightarrow> string \<Rightarrow> bool" where
  "starts_with pre s \<longleftrightarrow> take (length pre) s = pre"

definition octet_digits :: "string \<Rightarrow> bool" where
  "octet_digits s \<longleftrightarrow> 1 \<le> length s \<and> length s \<le> 3 \<and> list_all is_digit s"

definition isLoopbackAddress :: "string option \<Rightarrow> bool" where
  "isLoopbackAddress address =
     (case address of
        None \<Rightarrow> False
      | Some a \<Rightarrow>
          if a = [] then False
          else if a = ''::1'' then True
          else
            let v4 = (if starts_with ''::ffff:'' a then drop 7 a else a) in
            (case split_on CHR ''.'' v4 of
               [p, q, r, s] \<Rightarrow> p = ''127'' \<and> octet_digits q \<and> octet_digits r \<and> octet_digits s
             | _ \<Rightarrow> False))"

section \<open>Facts\<close>

lemma split_at_mark:
  assumes "a @ d # b = a' @ d # b'" and "d \<notin> set a" and "d \<notin> set a'"
  shows "a = a' \<and> b = b'"
  using assms
proof (induction a arbitrary: a')
  case Nil
  then show ?case by (cases a') auto
next
  case (Cons x a)
  then show ?case by (cases a') auto
qed

lemma no_mark_in_int: "is_safe_int i \<Longrightarrow> CHR ''.'' \<notin> set (num_text (NInt i))"
  by (auto dest: show_int_marks simp: is_digit_def code_unit_def)

lemma signedPayload_inj:
  assumes "signedPayload d ts n body = signedPayload d' ts' n' body'"
    and "unambiguousField d" and "unambiguousField d'" and "unambiguousField n" and "unambiguousField n'"
    and "is_safe_int ts" and "is_safe_int ts'"
  shows "d = d' \<and> ts = ts' \<and> n = n' \<and> body = body'"
proof -
  note m = assms(2-5)[unfolded unambiguousField_def]
  have 1: "d = d' \<and> num_text (NInt ts) @ CHR ''.'' # n @ CHR ''.'' # body = num_text (NInt ts') @ CHR ''.'' # n' @ CHR ''.'' # body'"
    by (rule split_at_mark[OF assms(1)[unfolded signedPayload_def]]) (use m in auto)
  have 2: "num_text (NInt ts) = num_text (NInt ts') \<and> n @ CHR ''.'' # body = n' @ CHR ''.'' # body'"
    by (rule split_at_mark[OF 1[THEN conjunct2] no_mark_in_int[OF assms(6)] no_mark_in_int[OF assms(7)]])
  have "n = n' \<and> body = body'"
    by (rule split_at_mark[OF 2[THEN conjunct2]]) (use m in auto)
  moreover have "ts = ts'" using 2 assms(6,7) show_int_inj by simp
  ultimately show ?thesis using 1 by simp
qed

lemma signed_at_Some:
  "signed_at mac c raw secret now skew = Some ts \<longleftrightarrow>
     unambiguousField (dc_deviceId c) \<and> unambiguousField (dc_nonce c) \<and> dc_signature c \<noteq> [] \<and>
     dc_timestamp c = NInt ts \<and> \<bar>now - ts\<bar> \<le> skew \<and>
     hex_decode (dc_signature c) = mac secret (signedPayload (dc_deviceId c) ts (dc_nonce c) raw)"
  by (cases "dc_timestamp c") (auto simp: signed_at_def)

lemma map_of_sweep:
  "map_of (sweep_nonces now seen) k = Some st \<Longrightarrow> now \<le> st"
  "map_of seen k = Some st \<Longrightarrow> now \<le> st \<Longrightarrow> map_of (sweep_nonces now seen) k = Some st"
  by (induction seen) (auto simp: sweep_nonces_def split: if_splits)

section \<open>Replay\<close>

text \<open>
  Requests arriving on a clock that does not run backwards: the state is the clock and the nonce
  store, an attempt lets some time pass and presents a credential with what it is checked against.
\<close>

fun gated ::
  "(device_credential \<Rightarrow> 'x \<Rightarrow> int \<Rightarrow> int option) \<Rightarrow> (device_credential \<Rightarrow> 'x \<Rightarrow> string) \<Rightarrow> int \<Rightarrow> int \<times> nonce_store \<Rightarrow>
     nat \<times> device_credential \<times> 'x \<Rightarrow> (int \<times> nonce_store) \<times> bool" where
  "gated check name skew (t, seen) (dt, c, x) =
     (let now = t + int dt; seen1 = sweep_nonces now seen in
      case check c x now of
        None \<Rightarrow> ((now, seen1), False)
      | Some ts \<Rightarrow>
          if name c x \<in> set (map_keys seen1) then ((now, seen1), False)
          else ((now, AList.update (name c x) (ts + skew) seen1), True))"

fun attempt_key :: "(device_credential \<Rightarrow> 'x \<Rightarrow> string) \<Rightarrow> nat \<times> device_credential \<times> 'x \<Rightarrow> string \<times> js_num" where
  "attempt_key name (dt, c, x) = (name c x, dc_timestamp c)"

fun request_spent :: "int \<Rightarrow> int \<times> nonce_store \<Rightarrow> string \<times> js_num \<Rightarrow> bool" where
  "request_spent skew (t, seen) (n, ts) \<longleftrightarrow>
     (\<exists>i. ts = NInt i \<and> (i + skew < t \<or> (\<exists>st. map_of seen n = Some st \<and> i + skew \<le> st)))"

text \<open>A check that lets through only timestamps within the window makes requests single-use.\<close>

locale replay_window =
  fixes check :: "device_credential \<Rightarrow> 'x \<Rightarrow> int \<Rightarrow> int option"
    and name :: "device_credential \<Rightarrow> 'x \<Rightarrow> string"
    and skew :: int
  assumes check_fresh: "check c x now = Some ts \<Longrightarrow> dc_timestamp c = NInt ts \<and> now \<le> ts + skew"
begin

lemma spent_is_kept: "request_spent skew s k \<Longrightarrow> request_spent skew (fst (gated check name skew s e)) k"
proof -
  assume spent: "request_spent skew s k"
  obtain t seen n ts c x dt where [simp]: "s = (t, seen)" "e = (dt, c, x)" "k = (n, ts)"
    by (metis prod_cases3 surj_pair)
  obtain i where i: "ts = NInt i" "i + skew < t \<or> (\<exists>st. map_of seen n = Some st \<and> i + skew \<le> st)"
    using spent by auto
  have later: "i + skew < t + int dt \<or> (\<exists>st. map_of (sweep_nonces (t + int dt) seen) n = Some st \<and> i + skew \<le> st)"
    using i(2) map_of_sweep(2)[of seen n _ "t + int dt"] by (smt (verit) of_nat_0_le_iff)
  show ?thesis
    using i(1) later by (auto simp: Let_def update_conv' set_map_keys split: option.split if_splits)
qed

lemma spent_is_refused: "request_spent skew s (attempt_key name e) \<Longrightarrow> \<not> snd (gated check name skew s e)"
proof -
  assume spent: "request_spent skew s (attempt_key name e)"
  obtain t seen c x dt where [simp]: "s = (t, seen)" "e = (dt, c, x)"
    by (metis prod_cases3 surj_pair)
  obtain i where i: "dc_timestamp c = NInt i" "i + skew < t \<or> (\<exists>st. map_of seen (name c x) = Some st \<and> i + skew \<le> st)"
    using spent by auto
  show ?thesis
  proof (cases "check c x (t + int dt)")
    case (Some ts)
    then have "ts = i" "\<not> i + skew < t + int dt" using i(1) check_fresh by force+
    then have "name c x \<in> set (map_keys (sweep_nonces (t + int dt) seen))"
      using i(2) map_of_sweep(2)[of seen _ _ "t + int dt"] unfolding set_map_keys by fastforce
    with Some show ?thesis by (simp add: Let_def)
  qed (simp add: Let_def)
qed

lemma accepted_is_spent: "snd (gated check name skew s e) \<Longrightarrow> request_spent skew (fst (gated check name skew s e)) (attempt_key name e)"
proof -
  assume ok: "snd (gated check name skew s e)"
  obtain t seen c x dt where [simp]: "s = (t, seen)" "e = (dt, c, x)"
    by (metis prod_cases3 surj_pair)
  from ok obtain ts where ts: "check c x (t + int dt) = Some ts"
    by (auto simp: Let_def split: option.splits if_splits)
  then have "dc_timestamp c = NInt ts" using check_fresh by blast
  with ok ts show ?thesis by (simp add: Let_def update_conv' split: if_splits)
qed

end

sublocale replay_window \<subseteq> requests: single_use "gated check name skew" "attempt_key name" "request_spent skew"
  by unfold_locales (rule spent_is_kept, assumption, rule spent_is_refused, assumption, rule accepted_is_spent, assumption)

text \<open>The signed requests of devices, each with its body.\<close>

fun attempt_request ::
  "mac \<Rightarrow> string \<Rightarrow> int \<Rightarrow> int \<times> nonce_store \<Rightarrow> nat \<times> device_credential \<times> string \<Rightarrow> (int \<times> nonce_store) \<times> bool" where
  "attempt_request mac secret skew (t, seen) (dt, c, raw) =
     (case verifyDeviceSignature mac c raw secret (t + int dt) skew seen of (seen', ok) \<Rightarrow> ((t + int dt, seen'), ok))"

definition device_nonce :: "device_credential \<Rightarrow> string \<Rightarrow> string" where
  "device_nonce c raw = nonceKey (dc_deviceId c) (dc_nonce c)"

interpretation device_window: replay_window "\<lambda>c raw now. signed_at mac c raw secret now skew" device_nonce skew
  for mac secret skew
  by unfold_locales (auto simp: signed_at_Some)

lemma attempt_request_gated:
  "attempt_request mac secret skew = gated (\<lambda>c raw now. signed_at mac c raw secret now skew) device_nonce skew"
  by (intro ext, clarsimp simp: verifyDeviceSignature_def device_nonce_def Let_def split: option.split)

section \<open>Properties\<close>

text \<open>
  A request of a device counts once: along every run of requests on a clock that does not run
  backwards, whatever nonces were seen before, a credential is accepted at most once.
\<close>

theorem device_request_counts_once:
  "wins (attempt_request mac secret skew) (attempt_key device_nonce) k (t, seen) es \<le> 1"
  unfolding attempt_request_gated by (rule device_window.requests.at_most_one_win)

text \<open>
  C25: A device signature pins the request: whenever the signature made for one request is accepted
  for a request, the two have the same device, time, nonce and body, or their two signed payloads are
  different and have the same digest under the secret, so that HMAC itself has been broken.
\<close>

theorem device_signature_pins_request:
  assumes "mac_ok mac" and "signDeviceRequest mac d (NInt ts) n raw secret = Inr sg" and "is_safe_int ts"
    and "snd (verifyDeviceSignature mac c raw' secret now skew seen)" and "dc_signature c = sg"
    and "\<bar>now\<bar> + skew \<le> MAX_SAFE_INTEGER"
  shows "(dc_deviceId c = d \<and> dc_timestamp c = NInt ts \<and> dc_nonce c = n \<and> raw' = raw) \<or>
    (\<exists>ts'. dc_timestamp c = NInt ts' \<and>
       clash mac secret (signedPayload (dc_deviceId c) ts' (dc_nonce c) raw') (signedPayload d ts n raw))"
proof -
  from assms(4) obtain ts' where "signed_at mac c raw' secret now skew = Some ts'"
    by (auto simp: verifyDeviceSignature_def Let_def split: option.splits)
  then have v: "unambiguousField (dc_deviceId c)" "unambiguousField (dc_nonce c)" "dc_timestamp c = NInt ts'"
      "\<bar>now - ts'\<bar> \<le> skew" "hex_decode sg = mac secret (signedPayload (dc_deviceId c) ts' (dc_nonce c) raw')"
    using assms(5) by (simp_all add: signed_at_Some)
  from assms(2) have s: "unambiguousField d" "unambiguousField n" "sg = hex_encode (mac secret (signedPayload d ts n raw))"
    by (auto simp: signDeviceRequest_def split: if_splits)
  have "hex_decode sg = mac secret (signedPayload d ts n raw)" unfolding s(3) using assms(1) by (intro hex_decode_encode) (simp add: mac_ok_def)
  with v(5) have "clash mac secret (signedPayload (dc_deviceId c) ts' (dc_nonce c) raw') (signedPayload d ts n raw) \<or>
      signedPayload (dc_deviceId c) ts' (dc_nonce c) raw' = signedPayload d ts n raw" by (auto simp: clash_def)
  moreover have "is_safe_int ts'" using v(4) assms(6) by (simp add: is_safe_int_def)
  ultimately show ?thesis using signedPayload_inj v s assms(3) by blast
qed

lemma device_signature_pins_request_witness:
  "\<exists>c. snd (verifyDeviceSignature plain_mac c ''{}'' ''k'' 5 60000 []) \<and>
       dc_deviceId c = ''button'' \<and> dc_timestamp c = NInt 7 \<and> dc_nonce c = ''n'' \<and> ''{}'' = ''{}''"
proof -
  let ?sg = "hex_encode (plain_mac ''k'' (signedPayload ''button'' 7 ''n'' ''{}''))"
  let ?c = "\<lparr>dc_deviceId = ''button'', dc_timestamp = NInt 7, dc_nonce = ''n'', dc_signature = ?sg\<rparr>"
  have ok: "snd (verifyDeviceSignature plain_mac ?c ''{}'' ''k'' 5 60000 [])"
    by (simp add: verifyDeviceSignature_def signed_at_def unambiguousField_def sweep_nonces_def map_keys_def
        hex_decode_encode[OF plain_mac_bytes])
  have sg: "signDeviceRequest plain_mac ''button'' (NInt 7) ''n'' ''{}'' ''k'' = Inr ?sg"
    by (simp add: signDeviceRequest_def unambiguousField_def)
  have "is_safe_int 7" "\<bar>5\<bar> + 60000 \<le> MAX_SAFE_INTEGER" by (simp_all add: is_safe_int_def MAX_SAFE_INTEGER_def)
  note pinned = device_signature_pins_request[OF plain_mac_ok sg this(1) ok _ this(2)]
  have "dc_deviceId ?c = ''button'' \<and> dc_timestamp ?c = NInt 7 \<and> dc_nonce ?c = ''n'' \<and> ''{}'' = ''{}''"
    using pinned by (auto simp only: device_credential.simps clash_def)
  with ok show ?thesis by blast
qed

end
