(* ===== verification/Cbor.thy ===== *)
theory Cbor
  imports Encoding
begin

text \<open>
  The strict CBOR decoder of enrolment, \<open>packages/control-plane/src/cbor.ts\<close>.  The reader is the
  count of items read so far and the bytes that are left; a decoder returns an error, or a value
  and the reader after it.  Nesting is bounded, so the decoder recurses on the levels that
  remain, and the loops over the elements of an array or the members of a map on their count.

  A map lists its members in the order they were read.  \<open>NotText\<close> stands for a text string that
  is not UTF-8 or holds a code point beyond the modelled strings.
\<close>

section \<open>Values and errors\<close>

datatype cbor =
    CInt int
  | CText string
  | CBytes byte_list
  | CBool bool
  | CNull
  | CArr "cbor list"
  | CMap "(string \<times> cbor) list"

datatype cbor_error =
    Truncated
  | TooManyItems
  | TooDeep
  | LengthNotAccepted
  | Indefinite
  | NotText
  | NumericTextKey string
  | NotAKey
  | RefusedKey string
  | DuplicateKey string
  | NotSimple
  | Tagged
  | TrailingBytes nat

definition MAX_DEPTH :: nat where "MAX_DEPTH = 8"

definition MAX_ITEMS :: nat where "MAX_ITEMS = 1024"

section \<open>Reader\<close>

record reader =
  rd_items :: nat
  rd_bytes :: byte_list

definition read_u8 :: "reader \<Rightarrow> cbor_error + nat \<times> reader" where
  "read_u8 r =
     (case rd_bytes r of [] \<Rightarrow> Inl Truncated | b # bs \<Rightarrow> Inr (b, r\<lparr>rd_bytes := bs\<rparr>))"

definition read_take :: "nat \<Rightarrow> reader \<Rightarrow> cbor_error + byte_list \<times> reader" where
  "read_take n r =
     (if length (rd_bytes r) < n then Inl Truncated
      else Inr (take n (rd_bytes r), r\<lparr>rd_bytes := drop n (rd_bytes r)\<rparr>))"

definition countItem :: "reader \<Rightarrow> cbor_error + reader" where
  "countItem r =
     (if MAX_ITEMS < rd_items r + 1 then Inl TooManyItems else Inr (r\<lparr>rd_items := rd_items r + 1\<rparr>))"

definition big_endian :: "byte_list \<Rightarrow> nat" where
  "big_endian bs = foldl (\<lambda>n b. 256 * n + b) 0 bs"

definition readLength :: "nat \<Rightarrow> reader \<Rightarrow> cbor_error + nat \<times> reader" where
  "readLength additional r =
     (if additional < 24 then Inr (additional, r)
      else if additional = 24 then read_u8 r
      else if additional = 25 then map_sum id (apfst big_endian) (read_take 2 r)
      else if additional = 26 then map_sum id (apfst big_endian) (read_take 4 r)
      else Inl LengthNotAccepted)"

section \<open>Items\<close>

definition numeric_text :: "string \<Rightarrow> bool" where
  "numeric_text s =
     (let ds = (case s of c # cs \<Rightarrow> if c = CHR ''-'' then cs else s | [] \<Rightarrow> []) in ds \<noteq> [] \<and> list_all is_digit ds)"

fun key_name :: "cbor \<Rightarrow> cbor_error + string" where
  "key_name (CText s) = (if numeric_text s then Inl (NumericTextKey s) else Inr s)"
| "key_name (CInt i) = (if is_safe_int i then Inr (show_int i) else Inl NotAKey)"
| "key_name _ = Inl NotAKey"

definition REFUSED_KEYS :: "string list" where
  "REFUSED_KEYS = [''__proto__'', ''constructor'', ''prototype'']"

text \<open>The name of a member, given the members before it.\<close>

definition member_name :: "(string \<times> cbor) list \<Rightarrow> cbor \<Rightarrow> cbor_error + string" where
  "member_name prev key =
     (case key_name key of
        Inl e \<Rightarrow> Inl e
      | Inr name \<Rightarrow>
          if name \<in> set REFUSED_KEYS then Inl (RefusedKey name)
          else if name \<in> set (map_keys prev) then Inl (DuplicateKey name)
          else Inr name)"

type_synonym 'a decoder = "reader \<Rightarrow> cbor_error + 'a \<times> reader"

fun read_elements :: "cbor decoder \<Rightarrow> nat \<Rightarrow> reader \<Rightarrow> cbor_error + cbor list \<times> reader" where
  "read_elements dec 0 r = Inr ([], r)"
| "read_elements dec (Suc n) r =
     (case dec r of
        Inl e \<Rightarrow> Inl e
      | Inr (v, r1) \<Rightarrow> map_sum id (apfst ((#) v)) (read_elements dec n r1))"

fun read_members ::
  "cbor decoder \<Rightarrow> nat \<Rightarrow> (string \<times> cbor) list \<Rightarrow> reader \<Rightarrow> cbor_error + (string \<times> cbor) list \<times> reader" where
  "read_members dec 0 prev r = Inr (prev, r)"
| "read_members dec (Suc n) prev r =
     (case dec r of
        Inl e \<Rightarrow> Inl e
      | Inr (key, r1) \<Rightarrow>
          (case member_name prev key of
             Inl e \<Rightarrow> Inl e
           | Inr name \<Rightarrow>
               (case dec r1 of
                  Inl e \<Rightarrow> Inl e
                | Inr (v, r2) \<Rightarrow> read_members dec n (prev @ [(name, v)]) r2)))"

text \<open>The body of an item after its initial byte, with the decoder of the level below.\<close>

definition decode_body :: "cbor decoder \<Rightarrow> nat \<Rightarrow> nat \<Rightarrow> cbor decoder" where
  "decode_body dec major additional r =
     (if additional = 31 then Inl Indefinite
      else if major = 0 then map_sum id (apfst (\<lambda>n. CInt (int n))) (readLength additional r)
      else if major = 1 then map_sum id (apfst (\<lambda>n. CInt (- 1 - int n))) (readLength additional r)
      else if major = 2 then
        (case readLength additional r of
           Inl e \<Rightarrow> Inl e | Inr (n, r1) \<Rightarrow> map_sum id (apfst CBytes) (read_take n r1))
      else if major = 3 then
        (case readLength additional r of
           Inl e \<Rightarrow> Inl e
         | Inr (n, r1) \<Rightarrow>
             (case read_take n r1 of
                Inl e \<Rightarrow> Inl e
              | Inr (raw, r2) \<Rightarrow> (case utf8_text raw of None \<Rightarrow> Inl NotText | Some s \<Rightarrow> Inr (CText s, r2))))
      else if major = 4 then
        (case readLength additional r of
           Inl e \<Rightarrow> Inl e | Inr (n, r1) \<Rightarrow> map_sum id (apfst CArr) (read_elements dec n r1))
      else if major = 5 then
        (case readLength additional r of
           Inl e \<Rightarrow> Inl e | Inr (n, r1) \<Rightarrow> map_sum id (apfst CMap) (read_members dec n [] r1))
      else if major = 7 then
        (if additional = 20 then Inr (CBool False, r)
         else if additional = 21 then Inr (CBool True, r)
         else if additional = 22 then Inr (CNull, r)
         else Inl NotSimple)
      else Inl Tagged)"

fun decodeItem :: "nat \<Rightarrow> cbor decoder" where
  "decodeItem 0 r = Inl TooDeep"
| "decodeItem (Suc levels) r =
     (case countItem r of
        Inl e \<Rightarrow> Inl e
      | Inr r1 \<Rightarrow>
          (case read_u8 r1 of
             Inl e \<Rightarrow> Inl e
           | Inr (initial, r2) \<Rightarrow> decode_body (decodeItem levels) (initial div 32) (initial mod 32) r2))"

definition cborDecodeFirst :: "byte_list \<Rightarrow> cbor_error + cbor \<times> nat" where
  "cborDecodeFirst bs =
     map_sum id (apsnd (\<lambda>r. length bs - length (rd_bytes r)))
       (decodeItem (MAX_DEPTH + 1) \<lparr>rd_items = 0, rd_bytes = bs\<rparr>)"

definition cborDecodeExact :: "byte_list \<Rightarrow> cbor_error + cbor" where
  "cborDecodeExact bs =
     (case cborDecodeFirst bs of
        Inl e \<Rightarrow> Inl e
      | Inr (v, n) \<Rightarrow> if n \<noteq> length bs then Inl (TrailingBytes (length bs - n)) else Inr v)"

section \<open>What a decoder reads\<close>

text \<open>A result depends on the bytes read for it alone: \<open>used\<close> is read whatever comes after it.\<close>

definition steady :: "(reader \<Rightarrow> cbor_error + 'a \<times> reader) \<Rightarrow> reader \<Rightarrow> 'a \<Rightarrow> reader \<Rightarrow> bool" where
  "steady f r v r' \<longleftrightarrow>
     (\<exists>used. rd_bytes r = used @ rd_bytes r' \<and>
        (\<forall>rest. f (r\<lparr>rd_bytes := used @ rest\<rparr>) = Inr (v, r'\<lparr>rd_bytes := rest\<rparr>)))"

lemma steady_bytes: "steady f r v r' \<Longrightarrow> is_bytes (rd_bytes r) \<Longrightarrow> is_bytes (rd_bytes r')"
  by (auto simp: steady_def is_bytes_def)

lemma steady_length: "steady f r v r' \<Longrightarrow> length (rd_bytes r') \<le> length (rd_bytes r)"
  by (auto simp: steady_def)

lemma steady_then:
  assumes "steady f r v r1" and "steady g r1 w r2"
    and "\<And>b b1. f (r\<lparr>rd_bytes := b\<rparr>) = Inr (v, r1\<lparr>rd_bytes := b1\<rparr>) \<Longrightarrow> h (r\<lparr>rd_bytes := b\<rparr>) = k (g (r1\<lparr>rd_bytes := b1\<rparr>))"
    and "\<And>x. k (Inr (w, x)) = Inr (u, x)"
  shows "steady h r u r2"
proof -
  from assms(1) obtain x where x: "rd_bytes r = x @ rd_bytes r1"
      "\<And>rest. f (r\<lparr>rd_bytes := x @ rest\<rparr>) = Inr (v, r1\<lparr>rd_bytes := rest\<rparr>)"
    by (auto simp: steady_def)
  from assms(2) obtain y where y: "rd_bytes r1 = y @ rd_bytes r2"
      "\<And>rest. g (r1\<lparr>rd_bytes := y @ rest\<rparr>) = Inr (w, r2\<lparr>rd_bytes := rest\<rparr>)"
    by (auto simp: steady_def)
  have "h (r\<lparr>rd_bytes := (x @ y) @ rest\<rparr>) = Inr (u, r2\<lparr>rd_bytes := rest\<rparr>)" for rest
    using assms(3)[OF x(2)[of "y @ rest"]] y(2)[of rest] assms(4) by simp
  with x(1) y(1) show ?thesis unfolding steady_def by (intro exI[of _ "x @ y"]) simp
qed

lemma steady_same: "(\<And>b. f (r\<lparr>rd_bytes := b\<rparr>) = Inr (v, r\<lparr>rd_bytes := b\<rparr>)) \<Longrightarrow> steady f r v r"
  unfolding steady_def by (intro exI[of _ "[]"]) simp

lemma steady_map:
  "steady f r v r' \<Longrightarrow> (\<And>b. h (r\<lparr>rd_bytes := b\<rparr>) = map_sum id (apfst g) (f (r\<lparr>rd_bytes := b\<rparr>))) \<Longrightarrow> steady h r (g v) r'"
  unfolding steady_def by fastforce

lemma read_u8_steady: "read_u8 r = Inr (b, r') \<Longrightarrow> steady read_u8 r b r' \<and> rd_items r' = rd_items r \<and> length (rd_bytes r') < length (rd_bytes r)"
  unfolding steady_def by (cases "rd_bytes r") (auto simp: read_u8_def intro!: exI[of _ "[b]"])

lemma read_take_steady:
  "read_take n r = Inr (bs, r') \<Longrightarrow> steady (read_take n) r bs r' \<and> rd_items r' = rd_items r \<and> length bs = n \<and> set bs \<subseteq> set (rd_bytes r)"
  unfolding steady_def
  by (auto simp: read_take_def split: if_splits dest: in_set_takeD intro!: exI[of _ "take n (rd_bytes r)"])

lemma big_endian_less: "is_bytes bs \<Longrightarrow> big_endian bs < 256 ^ length bs"
proof (induction bs rule: rev_induct)
  case (snoc b bs)
  then have "big_endian bs < 256 ^ length bs" "b < 256" by (simp_all add: is_bytes_def)
  then have "256 * big_endian bs + b < 256 * 256 ^ length bs" by linarith
  then show ?case by (simp add: big_endian_def)
qed (simp add: big_endian_def)

lemma readLength_steady:
  assumes "readLength a r = Inr (n, r')" and "is_bytes (rd_bytes r)"
  shows "steady (readLength a) r n r' \<and> rd_items r' = rd_items r \<and> n < 4294967296"
proof -
  have bytes: "read_take k r = Inr (bs, r') \<Longrightarrow> is_bytes bs" for k bs
    using read_take_steady[of k r bs r'] assms(2) by (auto simp: is_bytes_def list_all_iff)
  consider "a < 24" | "a = 24" | "a = 25" | "a = 26"
    using assms(1) by (auto simp: readLength_def split: if_splits)
  then show ?thesis
  proof cases
    case 1
    then show ?thesis using assms(1) by (auto simp: readLength_def intro!: steady_same)
  next
    case 2
    then have "read_u8 r = Inr (n, r')" using assms(1) by (simp add: readLength_def)
    moreover from this have "n < 256" using assms(2) by (auto simp: read_u8_def is_bytes_def split: list.splits)
    ultimately show ?thesis using 2 read_u8_steady by (fastforce simp: readLength_def steady_def)
  next
    case 3
    then obtain bs where bs: "read_take 2 r = Inr (bs, r')" "n = big_endian bs"
      using assms(1) by (cases "read_take 2 r") (auto simp: readLength_def)
    have "big_endian bs < 256 ^ 2" using big_endian_less[OF bytes[OF bs(1)]] read_take_steady[OF bs(1)] by simp
    moreover have "steady (readLength a) r (big_endian bs) r'"
      using read_take_steady[OF bs(1)] 3 by (auto intro!: steady_map[of "read_take 2"] simp: readLength_def)
    ultimately show ?thesis using read_take_steady[OF bs(1)] bs(2) by simp
  next
    case 4
    then obtain bs where bs: "read_take 4 r = Inr (bs, r')" "n = big_endian bs"
      using assms(1) by (cases "read_take 4 r") (auto simp: readLength_def)
    have "big_endian bs < 256 ^ 4" using big_endian_less[OF bytes[OF bs(1)]] read_take_steady[OF bs(1)] by simp
    moreover have "steady (readLength a) r (big_endian bs) r'"
      using read_take_steady[OF bs(1)] 4 by (auto intro!: steady_map[of "read_take 4"] simp: readLength_def)
    ultimately show ?thesis using read_take_steady[OF bs(1)] bs(2) by simp
  qed
qed

section \<open>Well-formed values\<close>

text \<open>What a value may be at a level: its integers fit the lengths, its names are distinct and safe.\<close>

fun cbor_ok :: "nat \<Rightarrow> cbor \<Rightarrow> bool" where
  "cbor_ok 0 v = False"
| "cbor_ok (Suc k) v =
     (case v of
        CInt i \<Rightarrow> - 4294967296 \<le> i \<and> i < 4294967296
      | CBytes bs \<Rightarrow> is_bytes bs
      | CArr xs \<Rightarrow> list_all (cbor_ok k) xs
      | CMap kvs \<Rightarrow> distinct (map_keys kvs) \<and> list_all (\<lambda>kv. fst kv \<notin> set REFUSED_KEYS \<and> cbor_ok k (snd kv)) kvs
      | _ \<Rightarrow> True)"

text \<open>Items of a value as the reader counts them: a member is a key and a value.\<close>

fun cbor_items :: "cbor \<Rightarrow> nat" where
  "cbor_items (CArr xs) = 1 + sum_list (map cbor_items xs)"
| "cbor_items (CMap kvs) = 1 + sum_list (map (\<lambda>kv. 1 + cbor_items (snd kv)) kvs)"
| "cbor_items _ = 1"

text \<open>
  What each level promises the one above: well-formed values, items counted and within the
  bound, and a result that depends on the bytes read alone.
\<close>

locale item_decoder =
  fixes dec :: "cbor decoder" and ok :: "cbor \<Rightarrow> bool"
  assumes reads: "dec r = Inr (v, r') \<Longrightarrow> is_bytes (rd_bytes r) \<Longrightarrow>
      ok v \<and> rd_items r' = rd_items r + cbor_items v \<and> rd_items r' \<le> MAX_ITEMS \<and> steady dec r v r' \<and>
      length (rd_bytes r') < length (rd_bytes r)"
begin

lemma elements_read:
  "read_elements dec n r = Inr (xs, r') \<Longrightarrow> is_bytes (rd_bytes r) \<Longrightarrow> rd_items r \<le> MAX_ITEMS \<Longrightarrow>
     list_all ok xs \<and> rd_items r' = rd_items r + sum_list (map cbor_items xs) \<and> rd_items r' \<le> MAX_ITEMS \<and>
     steady (read_elements dec n) r xs r'"
proof (induction n arbitrary: r xs)
  case 0
  then show ?case by (auto intro!: steady_same)
next
  case (Suc n)
  then obtain v r1 ys where 1: "dec r = Inr (v, r1)" "read_elements dec n r1 = Inr (ys, r')" "xs = v # ys"
    by (cases "read_elements dec n (snd (projr (dec r)))") (auto split: sum.splits)
  note v = reads[OF 1(1) Suc.prems(2)]
  then have "is_bytes (rd_bytes r1)" using steady_bytes[of dec r v r1] Suc.prems(2) by simp
  note ys = Suc.IH[OF 1(2) this]
  have "steady (read_elements dec (Suc n)) r (v # ys) r'"
    by (rule steady_then[where f = dec and g = "read_elements dec n" and k = "map_sum id (apfst ((#) v))" and ?r1.0 = r1])
       (use v ys in auto)
  with v ys 1(3) show ?case by (auto simp del: read_elements.simps)
qed

lemma members_read:
  "read_members dec n prev r = Inr (kvs, r') \<Longrightarrow> is_bytes (rd_bytes r) \<Longrightarrow> rd_items r \<le> MAX_ITEMS \<Longrightarrow>
     distinct (map_keys prev) \<Longrightarrow> list_all (\<lambda>kv. fst kv \<notin> set REFUSED_KEYS \<and> ok (snd kv)) prev \<Longrightarrow>
     distinct (map_keys kvs) \<and> list_all (\<lambda>kv. fst kv \<notin> set REFUSED_KEYS \<and> ok (snd kv)) kvs \<and>
     rd_items r' + sum_list (map (\<lambda>kv. 1 + cbor_items (snd kv)) prev) =
       rd_items r + sum_list (map (\<lambda>kv. 1 + cbor_items (snd kv)) kvs) \<and>
     rd_items r' \<le> MAX_ITEMS \<and> steady (read_members dec n prev) r kvs r'"
proof (induction n arbitrary: prev r)
  case 0
  then show ?case by (auto intro!: steady_same)
next
  case (Suc n)
  then obtain key r1 name v r2 where 1: "dec r = Inr (key, r1)" "member_name prev key = Inr name"
      "dec r1 = Inr (v, r2)" "read_members dec n (prev @ [(name, v)]) r2 = Inr (kvs, r')"
    by (auto split: sum.split_asm prod.split_asm)
  from 1(2) have name: "name \<notin> set REFUSED_KEYS" "name \<notin> set (map_keys prev)"
    by (auto simp: member_name_def split: sum.splits if_splits)
  have key: "cbor_items key = 1"
    using 1(2) by (cases key) (auto simp: member_name_def)
  note k = reads[OF 1(1) Suc.prems(2)]
  then have b1: "is_bytes (rd_bytes r1)" using steady_bytes[of dec r key r1] Suc.prems(2) by simp
  note v = reads[OF 1(3) b1]
  then have b2: "is_bytes (rd_bytes r2)" using steady_bytes[of dec r1 v r2] b1 by simp
  have ih: "distinct (map_keys kvs) \<and> list_all (\<lambda>kv. fst kv \<notin> set REFUSED_KEYS \<and> ok (snd kv)) kvs \<and>
      rd_items r' + sum_list (map (\<lambda>kv. 1 + cbor_items (snd kv)) (prev @ [(name, v)])) =
        rd_items r2 + sum_list (map (\<lambda>kv. 1 + cbor_items (snd kv)) kvs) \<and>
      rd_items r' \<le> MAX_ITEMS \<and> steady (read_members dec n (prev @ [(name, v)])) r2 kvs r'"
    by (rule Suc.IH[OF 1(4) b2]) (use v name Suc.prems in \<open>auto simp: map_keys_def\<close>)
  have "steady (\<lambda>x. case dec x of Inl e \<Rightarrow> Inl e | Inr (v, r2) \<Rightarrow> read_members dec n (prev @ [(name, v)]) r2) r1 kvs r'"
    by (rule steady_then[where f = dec and g = "read_members dec n (prev @ [(name, v)])" and k = id and ?r1.0 = r2])
       (use v ih in auto)
  then have "steady (read_members dec (Suc n) prev) r kvs r'"
    by (rule steady_then[where f = dec and k = id and v = key, rotated])
       (use k 1(2) in auto)
  with ih k v key show ?case by (auto simp del: read_members.simps)
qed

end

lemma mapped_Inr: "map_sum id (apfst f) x = Inr (v, r) \<longleftrightarrow> (\<exists>w. x = Inr (w, r) \<and> v = f w)"
  by (cases x) auto

lemma reader_updates_commute: "r\<lparr>rd_bytes := b, rd_items := i\<rparr> = r\<lparr>rd_items := i, rd_bytes := b\<rparr>"
  by (cases r) simp

text \<open>One level on top of another keeps the promise.\<close>

lemma body_read:
  assumes "item_decoder dec (cbor_ok k)" and "decode_body dec major a r = Inr (v, r')"
    and "is_bytes (rd_bytes r)" and "rd_items r \<le> MAX_ITEMS"
  shows "cbor_ok (Suc k) v \<and> rd_items r' + 1 = rd_items r + cbor_items v \<and> rd_items r' \<le> MAX_ITEMS \<and>
     steady (decode_body dec major a) r v r'"
proof -
  note elements = item_decoder.elements_read[OF assms(1)]
  note members = item_decoder.members_read[OF assms(1), of _ "[]"]
  consider "major \<in> {0, 1}" | "major = 2" | "major = 3" | "major = 4" | "major = 5" | "major = 7"
    using assms(2) by (auto simp: decode_body_def split: if_splits)
  then show ?thesis
  proof cases
    case 1
    then obtain n where n: "readLength a r = Inr (n, r')" "a \<noteq> 31" "v = CInt (if major = 0 then int n else - 1 - int n)"
      using assms(2) by (cases "readLength a r") (auto simp: decode_body_def split: if_splits)
    note l = readLength_steady[OF n(1) assms(3)]
    have "steady (decode_body dec major a) r v r'" unfolding n(3)
      by (rule steady_map[of "readLength a" r n]) (use l 1 n(2) in \<open>auto simp: decode_body_def\<close>)
    with l n(3) assms(4) show ?thesis by auto
  next
    case 6
    then have "r' = r" "v \<in> {CBool False, CBool True, CNull}" "steady (decode_body dec major a) r v r"
      using assms(2) by (auto simp: decode_body_def split: if_splits intro!: steady_same)
    with assms(4) show ?thesis by auto
  next
    case 2
    then obtain n r1 bs where n: "readLength a r = Inr (n, r1)" "a \<noteq> 31" "read_take n r1 = Inr (bs, r')" "v = CBytes bs"
      using assms(2) by (cases "readLength a r") (auto simp: decode_body_def mapped_Inr split: if_splits)
    note l = readLength_steady[OF n(1) assms(3)] and t = read_take_steady[OF n(3)]
    have "is_bytes bs" using t l steady_bytes[of "readLength a" r n r1] assms(3) by (auto simp: is_bytes_def list_all_iff)
    moreover have "steady (decode_body dec major a) r v r'"
      by (rule steady_then[where f = "readLength a" and g = "read_take n" and k = "map_sum id (apfst CBytes)"])
         (use l t 2 n in \<open>auto simp: decode_body_def\<close>)
    ultimately show ?thesis using l t n(4) assms(4) by auto
  next
    case 3
    then obtain n r1 raw s where n: "readLength a r = Inr (n, r1)" "a \<noteq> 31" "read_take n r1 = Inr (raw, r')"
        "utf8_text raw = Some s" "v = CText s"
      using assms(2) by (cases "readLength a r") (auto simp: decode_body_def split: if_splits sum.split_asm option.split_asm)
    note l = readLength_steady[OF n(1) assms(3)] and t = read_take_steady[OF n(3)]
    have "steady (decode_body dec major a) r v r'"
      by (rule steady_then[where f = "readLength a" and g = "read_take n" and
            k = "\<lambda>x. case x of Inl e \<Rightarrow> Inl e | Inr (raw, r2) \<Rightarrow>
                   (case utf8_text raw of None \<Rightarrow> Inl NotText | Some s \<Rightarrow> Inr (CText s, r2))"])
         (use l t 3 n in \<open>auto simp: decode_body_def\<close>)
    then show ?thesis using l t n(5) assms(4) by auto
  next
    case 4
    then obtain n r1 xs where n: "readLength a r = Inr (n, r1)" "a \<noteq> 31" "read_elements dec n r1 = Inr (xs, r')" "v = CArr xs"
      using assms(2) by (cases "readLength a r") (auto simp: decode_body_def mapped_Inr split: if_splits)
    note l = readLength_steady[OF n(1) assms(3)]
    have "is_bytes (rd_bytes r1)" using l steady_bytes[of "readLength a" r n r1] assms(3) by simp
    note e = elements[OF n(3) this]
    have "steady (decode_body dec major a) r v r'"
      by (rule steady_then[where f = "readLength a" and g = "read_elements dec n" and k = "map_sum id (apfst CArr)"])
         (use l e 4 n assms(4) in \<open>auto simp: decode_body_def\<close>)
    then show ?thesis using l e n(4) assms(4) by auto
  next
    case 5
    then obtain n r1 kvs where n: "readLength a r = Inr (n, r1)" "a \<noteq> 31" "read_members dec n [] r1 = Inr (kvs, r')" "v = CMap kvs"
      using assms(2) by (cases "readLength a r") (auto simp: decode_body_def mapped_Inr split: if_splits)
    note l = readLength_steady[OF n(1) assms(3)]
    have "is_bytes (rd_bytes r1)" using l steady_bytes[of "readLength a" r n r1] assms(3) by simp
    note m = members[OF n(3) this]
    have "steady (decode_body dec major a) r v r'"
      by (rule steady_then[where f = "readLength a" and g = "read_members dec n []" and k = "map_sum id (apfst CMap)"])
         (use l m 5 n assms(4) in \<open>auto simp: decode_body_def map_keys_def\<close>)
    then show ?thesis using l m n(4) assms(4) by (auto simp: map_keys_def)
  qed
qed

lemma decodeItem_reads: "item_decoder (decodeItem levels) (cbor_ok levels)"
proof (induction levels)
  case 0
  show ?case by unfold_locales simp
next
  case (Suc k)
  show ?case
  proof
    fix r v r'
    assume dec: "decodeItem (Suc k) r = Inr (v, r')" and bytes: "is_bytes (rd_bytes r)"
    from dec obtain r1 b r2 where 1: "countItem r = Inr r1" "read_u8 r1 = Inr (b, r2)"
        "decode_body (decodeItem k) (b div 32) (b mod 32) r2 = Inr (v, r')"
      by (auto split: sum.split_asm prod.split_asm)
    from 1(1) have r1: "r1 = r\<lparr>rd_items := rd_items r + 1\<rparr>" "rd_items r1 \<le> MAX_ITEMS"
      by (auto simp: countItem_def split: if_splits)
    note u = read_u8_steady[OF 1(2)]
    have "is_bytes (rd_bytes r2)" using u steady_bytes[of read_u8 r1 b r2] bytes r1(1) by simp
    note body = body_read[OF Suc.IH 1(3) this]
    have s1: "steady (\<lambda>x. case read_u8 x of Inl e \<Rightarrow> Inl e | Inr (i, x2) \<Rightarrow> decode_body (decodeItem k) (i div 32) (i mod 32) x2) r1 v r'"
      by (rule steady_then[where f = read_u8 and k = id]) (use u body r1 in auto)
    have "steady (decodeItem (Suc k)) r v r'"
      using s1 1(1) r1 unfolding steady_def by (auto simp: countItem_def reader_updates_commute split: if_splits)
    moreover have "length (rd_bytes r') < length (rd_bytes r)"
      using u steady_length[of "decode_body (decodeItem k) (b div 32) (b mod 32)" r2 v r'] body r1 by auto
    ultimately show "cbor_ok (Suc k) v \<and> rd_items r' = rd_items r + cbor_items v \<and> rd_items r' \<le> MAX_ITEMS \<and>
        steady (decodeItem (Suc k)) r v r' \<and> length (rd_bytes r') < length (rd_bytes r)"
      using body u r1 by auto
  qed
qed

interpretation items: item_decoder "decodeItem levels" "cbor_ok levels" for levels
  by (rule decodeItem_reads)

section \<open>Properties\<close>

text \<open>
  C23: What the decoder returns is well formed: nested at most nine levels, at most 1024 items,
  integers within 32 bits of length, and maps with distinct names none of which reaches a
  prototype; and it has read at least one byte and none beyond the input.
\<close>

theorem decoded_is_well_formed:
  assumes "cborDecodeFirst bs = Inr (v, n)" and "is_bytes bs"
  shows "cbor_ok 9 v \<and> cbor_items v \<le> MAX_ITEMS \<and> 0 < n \<and> n \<le> length bs"
proof -
  from assms(1) obtain r where r: "decodeItem 9 \<lparr>rd_items = 0, rd_bytes = bs\<rparr> = Inr (v, r)" "n = length bs - length (rd_bytes r)"
    by (cases "decodeItem (MAX_DEPTH + 1) \<lparr>rd_items = 0, rd_bytes = bs\<rparr>") (auto simp: cborDecodeFirst_def MAX_DEPTH_def)
  from items.reads[OF r(1)] assms(2) r(2) show ?thesis by auto
qed

text \<open>
  Nothing beyond the bytes that were read has any influence: the value decoded from the
  front of an input is the value decoded from those bytes followed by anything.
\<close>

theorem decoder_reads_a_prefix:
  assumes "cborDecodeFirst bs = Inr (v, n)" and "is_bytes bs"
  shows "cborDecodeFirst (take n bs @ rest) = Inr (v, n) \<and> cborDecodeExact (take n bs) = Inr v"
proof -
  let ?r = "\<lparr>rd_items = 0, rd_bytes = bs\<rparr>"
  from assms(1) obtain r where r: "decodeItem 9 ?r = Inr (v, r)" "n = length bs - length (rd_bytes r)"
    by (cases "decodeItem (MAX_DEPTH + 1) ?r") (auto simp: cborDecodeFirst_def MAX_DEPTH_def)
  from items.reads[OF r(1)] assms(2) obtain used where u: "bs = used @ rd_bytes r"
      "\<And>rest. decodeItem 9 (?r\<lparr>rd_bytes := used @ rest\<rparr>) = Inr (v, r\<lparr>rd_bytes := rest\<rparr>)"
    by (auto simp: steady_def)
  have n: "n = length used" using r(2) u(1) by simp
  have front: "cborDecodeFirst (used @ rest) = Inr (v, n)" for rest
    using u(2)[of rest] n by (simp add: cborDecodeFirst_def MAX_DEPTH_def)
  have t: "take n bs = used" using u(1) n by simp
  from front[of "[]"] have "cborDecodeExact used = Inr v" by (simp add: cborDecodeExact_def n)
  with front[of rest] show ?thesis unfolding t by simp
qed


definition demo_cbor :: byte_list where
  "demo_cbor = [161, 99, 102, 109, 116, 130, 1, 32]"

lemmas decoder_numerals =
  decodeItem.simps(2)[of "pred_numeral w" for w, folded numeral_eq_Suc]
  read_elements.simps(2)[of _ "pred_numeral w" for w, folded numeral_eq_Suc]
  read_members.simps(2)[of _ "pred_numeral w" for w, folded numeral_eq_Suc]

lemma demo_cbor_decodes: "cborDecodeFirst demo_cbor = Inr (CMap [(''fmt'', CArr [CInt 1, CInt (- 1)])], 8)"
  by (simp add: demo_cbor_def cborDecodeFirst_def MAX_DEPTH_def countItem_def MAX_ITEMS_def read_u8_def decode_body_def
      readLength_def read_take_def member_name_def REFUSED_KEYS_def numeric_text_def map_keys_def decoder_numerals is_digit_def code_unit_def)
     (simp add: char_of_def bit_0)

lemma decoded_is_well_formed_witness:
  "cbor_ok 9 (CMap [(''fmt'', CArr [CInt 1, CInt (- 1)])]) \<and> (0::nat) < 8 \<and> 8 \<le> length demo_cbor"
  using decoded_is_well_formed[OF demo_cbor_decodes] by (simp add: demo_cbor_def is_bytes_def)

lemma decoder_reads_a_prefix_witness:
  "cborDecodeFirst (take 8 demo_cbor @ [0, 255]) = Inr (CMap [(''fmt'', CArr [CInt 1, CInt (- 1)])], 8)"
  using decoder_reads_a_prefix[OF demo_cbor_decodes, of "[0, 255]"] by (simp add: demo_cbor_def is_bytes_def)

end
