(* ===== verification/WebAuthn.thy ===== *)
theory WebAuthn
  imports Cbor MergeArgs
begin

text \<open>
  The passkey checks of the control plane: assertions, \<open>packages/control-plane/src/webauthn.ts\<close>, and
  registrations, \<open>webauthn-register.ts\<close>.  SHA-256, the verification of an ECDSA signature (DER
  under a PEM key, or raw under a key object), the point check with its SPKI export and the SPKI
  parser are the fields of \<open>key_ops\<close>; \<open>None\<close> is a throw of the library.  Client data is read whatever
  its code points; those beyond U+00FF share one character, which no expected value has: a challenge
  is base64url and an origin is ASCII.
\<close>

section \<open>The library\<close>

text \<open>A public key the library has read: its type and curve, and its canonical exports.\<close>

record public_key =
  pub_ec :: bool
  pub_curve :: "string option"
  pub_der :: byte_list
  pub_pem :: string

definition is_p256 :: "public_key \<Rightarrow> bool" where
  "is_p256 k \<longleftrightarrow> pub_ec k \<and> pub_curve k = Some ''prime256v1''"

record key_ops =
  ko_sha256 :: "byte_list \<Rightarrow> byte_list"
  ko_verify :: "string \<Rightarrow> byte_list \<Rightarrow> byte_list \<Rightarrow> bool option"
  ko_verify_raw :: "public_key \<Rightarrow> byte_list \<Rightarrow> byte_list \<Rightarrow> bool option"
  ko_p256_spki :: "byte_list \<Rightarrow> byte_list \<Rightarrow> byte_list option"
  ko_spki :: "byte_list \<Rightarrow> public_key option"

definition constantTimeStringEqual :: "string \<Rightarrow> string \<Rightarrow> bool" where
  "constantTimeStringEqual a b \<longleftrightarrow> utf8 a = utf8 b"

lemma constantTimeStringEqual_iff [simp]: "constantTimeStringEqual a b \<longleftrightarrow> a = b"
  by (auto simp: constantTimeStringEqual_def dest: utf8_inj)

definition has_flag :: "nat \<Rightarrow> nat \<Rightarrow> bool" where
  "has_flag flags f \<longleftrightarrow> odd (flags div f)"

definition FLAG_UP :: nat where "FLAG_UP = 1"
definition FLAG_UV :: nat where "FLAG_UV = 4"
definition FLAG_AT :: nat where "FLAG_AT = 64"
definition FLAG_ED :: nat where "FLAG_ED = 128"

section \<open>Assertions\<close>

record owner_passkey =
  pk_credentialId :: string
  pk_publicKeyPem :: string

record assertion =
  wa_credentialId :: string
  wa_clientDataJSON :: string
  wa_authenticatorData :: string
  wa_signature :: string

record assertion_options =
  ao_passkey :: owner_passkey
  ao_rpId :: string
  ao_expectedChallenge :: string
  ao_expectedOrigin :: string
  ao_lastSignCount :: nat

datatype assertion_verdict = AssertionOk nat | AssertionRefused string | AssertionThrew

text \<open>\<open>JSON.parse(raw.toString("utf8"))\<close>\<close>

definition client_json :: "byte_list \<Rightarrow> json option" where
  "client_json raw = json_parse (narrow_escapes (lenient_text raw))"

lemma client_json_plain: "CHR 0x5C \<notin> set s \<Longrightarrow> client_json (utf8 s) = json_parse s"
  by (simp add: client_json_def narrow_escapes_plain)

text \<open>The checks of the client data; the refusal, if any.\<close>

definition get_client_data_refusal :: "assertion_options \<Rightarrow> json \<Rightarrow> string option" where
  "get_client_data_refusal ao d =
     (if own_field ''type'' d \<noteq> Some (JStr ''webauthn.get'') then Some ''clientData.type is not webauthn.get''
      else if \<not> (case own_field ''challenge'' d of
                   Some (JStr c) \<Rightarrow> constantTimeStringEqual c (ao_expectedChallenge ao) | _ \<Rightarrow> False) then
        Some ''assertion challenge does not match this ceremony''
      else if ao_expectedOrigin ao = [] then
        Some ''no expected origin configured - refusing to skip origin binding''
      else if own_field ''origin'' d \<noteq> Some (JStr (ao_expectedOrigin ao)) then
        Some ''assertion origin does not match the enrolled origin''
      else if own_field ''crossOrigin'' d \<notin> {None, Some (JBool False)} then
        Some ''assertion was produced in a cross-origin (embedded) context''
      else if own_field ''topOrigin'' d \<notin> {None, Some (JStr (ao_expectedOrigin ao))} then
        Some ''assertion topOrigin does not match the enrolled origin''
      else None)"

definition auth_data_refusal :: "key_ops \<Rightarrow> assertion_options \<Rightarrow> byte_list \<Rightarrow> string option" where
  "auth_data_refusal ko ao ad =
     (let signCount = read_be32 (drop 33 ad) in
      if length ad < 37 then Some ''authenticatorData is too short''
      else if take 32 ad \<noteq> ko_sha256 ko (utf8 (ao_rpId ao)) then
        Some ''assertion rpIdHash does not match this control plane's rpId''
      else if \<not> has_flag (ad ! 32) FLAG_UP then Some ''user presence (UP) not asserted''
      else if \<not> has_flag (ad ! 32) FLAG_UV then
        Some ''user verification (UV) not asserted - the merge lane requires it''
      else if (signCount \<noteq> 0 \<or> ao_lastSignCount ao \<noteq> 0) \<and> signCount \<le> ao_lastSignCount ao then
        Some (''signature counter did not advance ('' @ show_nat signCount @ '' after '' @ show_nat (ao_lastSignCount ao) @
          '') - possible cloned authenticator'')
      else None)"

definition verifyOwnerAssertion :: "key_ops \<Rightarrow> assertion \<Rightarrow> assertion_options \<Rightarrow> assertion_verdict" where
  "verifyOwnerAssertion ko a ao =
     (if \<not> constantTimeStringEqual (wa_credentialId a) (pk_credentialId (ao_passkey ao)) then
        AssertionRefused ''assertion is not from the enrolled passkey''
      else
        (case canonicalB64url (wa_clientDataJSON a) of
           None \<Rightarrow> AssertionRefused ''clientDataJSON is not canonical base64url''
         | Some raw \<Rightarrow>
             (case client_json raw of
                None \<Rightarrow> AssertionRefused ''clientDataJSON does not decode''
              | Some d \<Rightarrow>
                  if d = JNull then AssertionThrew
                  else
                    (case get_client_data_refusal ao d of
                       Some e \<Rightarrow> AssertionRefused e
                     | None \<Rightarrow>
                         (case canonicalB64url (wa_authenticatorData a) of
                            None \<Rightarrow> AssertionRefused ''authenticatorData is not canonical base64url''
                          | Some ad \<Rightarrow>
                              (case auth_data_refusal ko ao ad of
                                 Some e \<Rightarrow> AssertionRefused e
                               | None \<Rightarrow>
                                   (case canonicalB64url (wa_signature a) of
                                      None \<Rightarrow> AssertionRefused ''signature is not canonical base64url''
                                    | Some sg \<Rightarrow>
                                        (case ko_verify ko (pk_publicKeyPem (ao_passkey ao)) (ad @ ko_sha256 ko raw) sg of
                                           None \<Rightarrow> AssertionRefused ''the enrolled public key or signature is unusable''
                                         | Some ok \<Rightarrow>
                                             if ok then AssertionOk (read_be32 (drop 33 ad))
                                             else AssertionRefused
                                               ''assertion signature does not verify under the enrolled passkey''))))))))"

section \<open>Registrations\<close>

record registration_options =
  ro_rpId :: string
  ro_expectedOrigin :: string
  ro_expectedChallenge :: string

record registration =
  rg_credentialId :: string
  rg_publicKeySpki :: string
  rg_signCount :: nat
  rg_transports :: "string list option"

definition storedSpkiToPem :: "key_ops \<Rightarrow> string \<Rightarrow> string + string" where
  "storedSpkiToPem ko stored =
     (case canonicalB64url stored of
        None \<Rightarrow> Inl ''stored key is not canonical base64url''
      | Some der \<Rightarrow>
          if der = [] then Inl ''stored key is not canonical base64url''
          else
            (case ko_spki ko der of
               None \<Rightarrow> Inl ''stored key does not parse as SPKI''
             | Some key \<Rightarrow>
                 if \<not> is_p256 key then Inl ''stored key is not EC P-256''
                 else if pub_der key \<noteq> der then
                   Inl ''stored key has trailing bytes after the SPKI - refusing smuggled data''
                 else Inr (pub_pem key)))"

definition WIRE_KEYS :: "string list" where
  "WIRE_KEYS = [''credentialId'', ''clientDataJSON'', ''attestationObject'', ''transports'']"

definition MAX_CREDENTIAL_ID_CHARS :: nat where "MAX_CREDENTIAL_ID_CHARS = 2048"
definition MAX_CLIENT_DATA_CHARS :: nat where "MAX_CLIENT_DATA_CHARS = 16 * 1024"
definition MAX_ATTESTATION_CHARS :: nat where "MAX_ATTESTATION_CHARS = 128 * 1024"
definition MAX_CREDENTIAL_ID_BYTES :: nat where "MAX_CREDENTIAL_ID_BYTES = 1023"

fun short_texts :: "json list \<Rightarrow> string list option" where
  "short_texts [] = Some []"
| "short_texts (JStr s # vs) = (if s = [] \<or> 32 < length s then None else map_option ((#) s) (short_texts vs))"
| "short_texts (_ # _) = None"

text \<open>The optional hint: \<open>None\<close> when it has the wrong shape.\<close>

fun transports_of :: "json option \<Rightarrow> string list option option" where
  "transports_of None = Some None"
| "transports_of (Some (JArr vs)) = (if 8 < length vs then None else map_option Some (short_texts vs))"
| "transports_of (Some _) = None"

record registration_wire =
  rw_credentialId :: string
  rw_clientDataJSON :: string
  rw_attestationObject :: string
  rw_transports :: "string list option"

definition registration_envelope :: "json \<Rightarrow> string + registration_wire" where
  "registration_envelope wire =
     (if \<not> is_plain_object wire then Inl ''registration must be a JSON object''
      else
        (case find (\<lambda>k. k \<notin> set WIRE_KEYS) (map_keys (object_entries wire)) of
           Some k \<Rightarrow> Inl (''unexpected registration property '' @ json_string_text k)
         | None \<Rightarrow>
             (case (string_such_that (\<lambda>s. s \<noteq> []) (own_field ''credentialId'' wire),
                    string_such_that (\<lambda>s. s \<noteq> []) (own_field ''clientDataJSON'' wire),
                    string_such_that (\<lambda>s. s \<noteq> []) (own_field ''attestationObject'' wire)) of
                (None, _, _) \<Rightarrow> Inl ''credentialId must be a non-empty string''
              | (_, None, _) \<Rightarrow> Inl ''clientDataJSON must be a non-empty string''
              | (_, _, None) \<Rightarrow> Inl ''attestationObject must be a non-empty string''
              | (Some c, Some d, Some a) \<Rightarrow>
                  if MAX_CREDENTIAL_ID_CHARS < length c then Inl ''credentialId is oversized''
                  else if MAX_CLIENT_DATA_CHARS < length d then Inl ''clientDataJSON is oversized''
                  else if MAX_ATTESTATION_CHARS < length a then Inl ''attestationObject is oversized''
                  else
                    (case transports_of (own_field ''transports'' wire) of
                       None \<Rightarrow> Inl ''transports must be a small array of short strings (a hint, never proof)''
                     | Some ts \<Rightarrow>
                         Inr \<lparr>rw_credentialId = c, rw_clientDataJSON = d, rw_attestationObject = a, rw_transports = ts\<rparr>))))"

definition stringify_field :: "json option \<Rightarrow> string" where
  "stringify_field v = (case v of None \<Rightarrow> ''undefined'' | Some j \<Rightarrow> json_text j)"

definition create_client_data_refusal :: "registration_options \<Rightarrow> json \<Rightarrow> string option" where
  "create_client_data_refusal opts d =
     (if own_field ''type'' d \<noteq> Some (JStr ''webauthn.create'') then
        Some (''clientDataJSON.type is not '' @ CHR 0x22 # ''webauthn.create'' @ CHR 0x22 # '' - an assertion cannot enroll'')
      else if \<not> (case own_field ''challenge'' d of
                   Some (JStr c) \<Rightarrow> constantTimeStringEqual c (ro_expectedChallenge opts) | _ \<Rightarrow> False) then
        Some ''clientDataJSON.challenge does not match this enrolment ceremony''
      else if own_field ''origin'' d \<noteq> Some (JStr (ro_expectedOrigin opts)) then
        Some (''clientDataJSON.origin is not the owner app ('' @ stringify_field (own_field ''origin'' d) @ '')'')
      else if own_field ''crossOrigin'' d \<notin> {None, Some (JBool False)} then
        Some ''registration was produced cross-origin (an embedding frame) - refused''
      else if own_field ''topOrigin'' d \<notin> {None, Some (JStr (ro_expectedOrigin opts))} then
        Some ''registration was produced under a different top-level origin - refused''
      else None)"

text \<open>\<open>JSON.stringify\<close> of a decoded value; a byte array prints as an object of its indices.\<close>

fun cbor_json :: "cbor \<Rightarrow> json" where
  "cbor_json (CInt i) = JNum (NInt i)"
| "cbor_json (CText s) = JStr s"
| "cbor_json (CBytes bs) = JObj (map (\<lambda>(i, b). (show_nat i, JNum (NInt (int b)))) (List.enumerate 0 bs))"
| "cbor_json (CBool b) = JBool b"
| "cbor_json CNull = JNull"
| "cbor_json (CArr xs) = JArr (map cbor_json xs)"
| "cbor_json (CMap kvs) = JObj (object_order (map (\<lambda>kv. (fst kv, cbor_json (snd kv))) kvs))"

definition cbor_field :: "string \<Rightarrow> (string \<times> cbor) list \<Rightarrow> cbor option" where
  "cbor_field k kvs = map_of kvs k"

text \<open>The authenticator data of an attestation object.\<close>

definition attested_auth_data :: "cbor \<Rightarrow> string + byte_list" where
  "attested_auth_data v =
     (case v of
        CMap kvs \<Rightarrow>
          let ks = sort (map_keys kvs) in
          if join_with '','' ks \<noteq> ''attStmt,authData,fmt'' then
            Inl (''attestationObject must carry exactly fmt, attStmt, authData (got '' @ join_with '', '' ks @ '')'')
          else if cbor_field ''fmt'' kvs \<noteq> Some (CText ''none'') then
            Inl (''attestation format '' @ stringify_field (map_option cbor_json (cbor_field ''fmt'' kvs)) @
              '' is not supported - this deployment enrolls with attestation '' @ quoted ''none'' @
              '' (transports/AAGUID are hints, never proof); a format we would not verify is a format an attacker chooses'')
          else if cbor_field ''attStmt'' kvs \<noteq> Some (CMap []) then
            Inl (''attestation '' @ quoted ''none'' @ '' must carry an empty attStmt'')
          else
            (case cbor_field ''authData'' kvs of
               Some (CBytes ad) \<Rightarrow> Inr ad
             | _ \<Rightarrow> Inl ''attestationObject.authData is not a byte string'')
      | _ \<Rightarrow> Inl ''attestationObject is not a CBOR map'')"

definition create_auth_data_refusal :: "key_ops \<Rightarrow> registration_options \<Rightarrow> byte_list \<Rightarrow> string option" where
  "create_auth_data_refusal ko opts ad =
     (let flags = ad ! 32; idLength = 256 * ad ! 53 + ad ! 54 in
      if length ad < 37 then Some ''authenticatorData is shorter than its fixed header''
      else if take 32 ad \<noteq> ko_sha256 ko (utf8 (ro_rpId opts)) then
        Some ''rpIdHash does not match the relying party - enrolled against a different rpId''
      else if \<not> has_flag flags FLAG_UP then Some ''user-presence flag missing - no human touched the authenticator''
      else if \<not> has_flag flags FLAG_UV then
        Some ''user-verification flag missing - enrolment requires passing the screen lock (UV)''
      else if \<not> has_flag flags FLAG_AT then Some ''attested-credential-data flag missing - nothing to enroll''
      else if has_flag flags FLAG_ED then
        Some ''extension-data flag set - no extensions are requested, extension bytes are refused''
      else if length ad < 37 + 16 + 2 then Some ''attested credential data is truncated''
      else if idLength = 0 \<or> MAX_CREDENTIAL_ID_BYTES < idLength then
        Some (''credential id length '' @ show_nat idLength @ '' is outside the spec's bounds'')
      else if length ad < 55 + idLength then Some ''credential id is truncated''
      else None)"

definition attested_credential_id :: "byte_list \<Rightarrow> byte_list" where
  "attested_credential_id ad = take (256 * ad ! 53 + ad ! 54) (drop 55 ad)"

definition cose_bytes :: "byte_list \<Rightarrow> byte_list" where
  "cose_bytes ad = drop (55 + (256 * ad ! 53 + ad ! 54)) ad"

text \<open>The coordinates of an ES256 key with exactly its five labels.\<close>

definition cose_point :: "cbor \<Rightarrow> string + byte_list \<times> byte_list" where
  "cose_point v =
     (case v of
        CMap kvs \<Rightarrow>
          let ks = sort (map_keys kvs) in
          if join_with '','' ks \<noteq> ''-1,-2,-3,1,3'' then
            Inl (''COSE key must carry exactly labels 1,3,-1,-2,-3 (got '' @ join_with '', '' ks @ '')'')
          else if cbor_field ''1'' kvs \<noteq> Some (CInt 2) then Inl ''COSE key is not EC2 - only ES256 on P-256 enrolls''
          else if cbor_field ''3'' kvs \<noteq> Some (CInt (- 7)) then
            Inl ''COSE alg is not ES256 - the only algorithm enrolment admits''
          else if cbor_field ''-1'' kvs \<noteq> Some (CInt 1) then Inl ''COSE curve is not P-256''
          else
            (case (cbor_field ''-2'' kvs, cbor_field ''-3'' kvs) of
               (Some (CBytes x), Some (CBytes y)) \<Rightarrow>
                 if length x \<noteq> 32 \<or> length y \<noteq> 32 then Inl ''COSE coordinates must be exactly 32 bytes each'' else Inr (x, y)
             | _ \<Rightarrow> Inl ''COSE coordinates must be exactly 32 bytes each'')
      | _ \<Rightarrow> Inl ''COSE key is not a CBOR map'')"

fun cbor_error_text :: "cbor_error \<Rightarrow> string" where
  "cbor_error_text Truncated = ''CBOR: truncated input''"
| "cbor_error_text TooManyItems = ''CBOR: too many items''"
| "cbor_error_text TooDeep = ''CBOR: nesting too deep''"
| "cbor_error_text LengthNotAccepted = ''CBOR: length encoding not in the accepted subset''"
| "cbor_error_text Indefinite = ''CBOR: indefinite lengths are refused''"
| "cbor_error_text NotText = ''The encoded data was not valid for encoding utf-8''"
| "cbor_error_text (NumericTextKey k) = ''CBOR: text map key '' @ json_string_text k @ '' impersonates an integer label''"
| "cbor_error_text NotAKey = ''CBOR: map keys must be text strings or integers''"
| "cbor_error_text (RefusedKey k) = ''CBOR: map key '' @ json_string_text k @ '' is refused (prototype pollution)''"
| "cbor_error_text (DuplicateKey k) = ''CBOR: duplicate map key '' @ json_string_text k"
| "cbor_error_text NotSimple = ''CBOR: simple/float values are not in the accepted subset''"
| "cbor_error_text Tagged = ''CBOR: tags are not in the accepted subset''"
| "cbor_error_text (TrailingBytes n) = ''CBOR: '' @ show_nat n @ '' trailing byte(s) after the value''"

text \<open>The credential in checked authenticator data: the wire id must be the attested one.\<close>

definition attested_key :: "key_ops \<Rightarrow> registration_wire \<Rightarrow> byte_list \<Rightarrow> string + registration" where
  "attested_key ko w ad =
     (case canonicalB64url (rw_credentialId w) of
        None \<Rightarrow> Inl ''credentialId is not canonical base64url''
      | Some cid \<Rightarrow>
          if cid \<noteq> attested_credential_id ad then Inl ''credentialId does not match the attested credential data''
          else
            (case cborDecodeFirst (cose_bytes ad) of
               Inl e \<Rightarrow> Inl (''COSE key: '' @ cbor_error_text e)
             | Inr (v, n) \<Rightarrow>
                 if n \<noteq> length (cose_bytes ad) then
                   Inl ''trailing bytes after the COSE key - refusing smuggled data in authenticatorData''
                 else
                   (case cose_point v of
                      Inl e \<Rightarrow> Inl e
                    | Inr (x, y) \<Rightarrow>
                        (case ko_p256_spki ko x y of
                           None \<Rightarrow> Inl ''COSE coordinates do not form a valid P-256 point''
                         | Some spki \<Rightarrow>
                             Inr \<lparr>rg_credentialId = b64url_encode (attested_credential_id ad),
                                  rg_publicKeySpki = b64url_encode spki, rg_signCount = read_be32 (drop 33 ad),
                                  rg_transports = rw_transports w\<rparr>))))"

definition verifyOwnerRegistration :: "key_ops \<Rightarrow> json \<Rightarrow> registration_options \<Rightarrow> string + registration" where
  "verifyOwnerRegistration ko wire opts =
     (case registration_envelope wire of
        Inl e \<Rightarrow> Inl e
      | Inr w \<Rightarrow>
          (case canonicalB64url (rw_clientDataJSON w) of
             None \<Rightarrow> Inl ''clientDataJSON is not canonical base64url''
           | Some raw \<Rightarrow>
               (case client_json raw of
                  None \<Rightarrow> Inl ''clientDataJSON is not valid JSON''
                | Some d \<Rightarrow>
                    if \<not> is_plain_object d then Inl ''clientDataJSON is not a JSON object''
                    else
                      (case create_client_data_refusal opts d of
                         Some e \<Rightarrow> Inl e
                       | None \<Rightarrow>
                           (case canonicalB64url (rw_attestationObject w) of
                              None \<Rightarrow> Inl ''attestationObject is not canonical base64url''
                            | Some ao \<Rightarrow>
                                (case cborDecodeExact ao of
                                   Inl e \<Rightarrow> Inl (''attestationObject: '' @ cbor_error_text e)
                                 | Inr v \<Rightarrow>
                                     (case attested_auth_data v of
                                        Inl e \<Rightarrow> Inl e
                                      | Inr ad \<Rightarrow>
                                          (case create_auth_data_refusal ko opts ad of
                                             Some e \<Rightarrow> Inl e
                                           | None \<Rightarrow> attested_key ko w ad))))))))"

section \<open>Facts\<close>

lemma get_client_data_ok:
  "get_client_data_refusal ao d = None \<longleftrightarrow>
     own_field ''type'' d = Some (JStr ''webauthn.get'') \<and>
     own_field ''challenge'' d = Some (JStr (ao_expectedChallenge ao)) \<and> ao_expectedOrigin ao \<noteq> [] \<and>
     own_field ''origin'' d = Some (JStr (ao_expectedOrigin ao)) \<and>
     own_field ''crossOrigin'' d \<in> {None, Some (JBool False)} \<and>
     own_field ''topOrigin'' d \<in> {None, Some (JStr (ao_expectedOrigin ao))}"
proof -
  have "(case own_field ''challenge'' d of Some (JStr c) \<Rightarrow> constantTimeStringEqual c (ao_expectedChallenge ao) | _ \<Rightarrow> False)
      \<longleftrightarrow> own_field ''challenge'' d = Some (JStr (ao_expectedChallenge ao))"
    by (cases "own_field ''challenge'' d") (auto split: json.split)
  then show ?thesis unfolding get_client_data_refusal_def by (simp del: insert_iff)
qed

lemma auth_data_ok:
  "auth_data_refusal ko ao ad = None \<longleftrightarrow>
     37 \<le> length ad \<and> take 32 ad = ko_sha256 ko (utf8 (ao_rpId ao)) \<and> has_flag (ad ! 32) FLAG_UP \<and>
     has_flag (ad ! 32) FLAG_UV \<and>
     (ao_lastSignCount ao < read_be32 (drop 33 ad) \<or> read_be32 (drop 33 ad) = 0 \<and> ao_lastSignCount ao = 0)"
  by (auto simp: auth_data_refusal_def Let_def)

lemma create_client_data_ok:
  "create_client_data_refusal opts d = None \<longleftrightarrow>
     own_field ''type'' d = Some (JStr ''webauthn.create'') \<and>
     own_field ''challenge'' d = Some (JStr (ro_expectedChallenge opts)) \<and>
     own_field ''origin'' d = Some (JStr (ro_expectedOrigin opts)) \<and>
     own_field ''crossOrigin'' d \<in> {None, Some (JBool False)} \<and>
     own_field ''topOrigin'' d \<in> {None, Some (JStr (ro_expectedOrigin opts))}"
proof -
  have "(case own_field ''challenge'' d of Some (JStr c) \<Rightarrow> constantTimeStringEqual c (ro_expectedChallenge opts) | _ \<Rightarrow> False)
      \<longleftrightarrow> own_field ''challenge'' d = Some (JStr (ro_expectedChallenge opts))"
    by (cases "own_field ''challenge'' d") (auto split: json.split)
  then show ?thesis unfolding create_client_data_refusal_def by (simp del: insert_iff)
qed

lemma create_auth_data_ok:
  "create_auth_data_refusal ko opts ad = None \<Longrightarrow>
     take 32 ad = ko_sha256 ko (utf8 (ro_rpId opts)) \<and> has_flag (ad ! 32) FLAG_UP \<and> has_flag (ad ! 32) FLAG_UV \<and>
     has_flag (ad ! 32) FLAG_AT \<and> \<not> has_flag (ad ! 32) FLAG_ED \<and>
     1 \<le> length (attested_credential_id ad) \<and> length (attested_credential_id ad) \<le> 1023"
  by (auto simp: create_auth_data_refusal_def Let_def attested_credential_id_def MAX_CREDENTIAL_ID_BYTES_def split: if_splits)

text \<open>Client data that is the JSON value null makes the verifier throw: its type is read before its shape.\<close>

lemma null_client_data_throws:
  assumes "wa_credentialId a = pk_credentialId (ao_passkey ao)" and "wa_clientDataJSON a = b64url_encode (utf8 ''null'')"
  shows "verifyOwnerAssertion ko a ao = AssertionThrew"
proof -
  have "json_parse ''null'' = Some JNull" using json_parse_text[of JNull] by simp
  with assms canonical_encode[OF utf8_bytes] show ?thesis
    by (simp add: verifyOwnerAssertion_def client_json_plain)
qed

text \<open>The counter of an accepted assertion comes from four bytes.\<close>

lemma accepted_counter:
  assumes "verifyOwnerAssertion ko a ao = AssertionOk n"
  shows "n < 4294967296"
proof -
  from assms obtain ad where "n = read_be32 (drop 33 ad)" "canonicalB64url (wa_authenticatorData a) = Some ad"
    unfolding verifyOwnerAssertion_def by (auto split: if_split_asm option.split_asm)
  moreover from this have "is_bytes (drop 33 ad)"
    using b64_decode_bytes by (auto simp: canonicalB64url_def is_bytes_def list_all_iff split: if_split_asm dest: in_set_dropD)
  ultimately show ?thesis using read_be32_less by simp
qed

section \<open>Properties\<close>

text \<open>
  What a registration enrols is its own ceremony's credential: made as a registration for
  this challenge at the owner app's origin in no foreign frame, for this relying party, with
  presence, verification and attested data and no extensions; the identifier is the attested one,
  and the stored key is the export of a point of the curve whose COSE key fills the rest of the data.
\<close>

theorem registration_is_its_ceremony:
  assumes "verifyOwnerRegistration ko wire opts = Inr g"
  shows "\<exists>d ad x y spki kvs.
     own_field ''type'' d = Some (JStr ''webauthn.create'') \<and>
     own_field ''challenge'' d = Some (JStr (ro_expectedChallenge opts)) \<and>
     own_field ''origin'' d = Some (JStr (ro_expectedOrigin opts)) \<and>
     own_field ''crossOrigin'' d \<in> {None, Some (JBool False)} \<and>
     take 32 ad = ko_sha256 ko (utf8 (ro_rpId opts)) \<and> has_flag (ad ! 32) FLAG_UP \<and> has_flag (ad ! 32) FLAG_UV \<and>
     has_flag (ad ! 32) FLAG_AT \<and> \<not> has_flag (ad ! 32) FLAG_ED \<and>
     own_field ''credentialId'' wire = Some (JStr (rg_credentialId g)) \<and>
     rg_credentialId g = b64url_encode (attested_credential_id ad) \<and>
     cborDecodeExact (cose_bytes ad) = Inr (CMap kvs) \<and>
     cbor_field ''-2'' kvs = Some (CBytes x) \<and> cbor_field ''-3'' kvs = Some (CBytes y) \<and> length x = 32 \<and> length y = 32 \<and>
     ko_p256_spki ko x y = Some spki \<and> rg_publicKeySpki g = b64url_encode spki"
proof -
  from assms obtain w d ad where w: "registration_envelope wire = Inr w" "create_client_data_refusal opts d = None"
      "create_auth_data_refusal ko opts ad = None" "attested_key ko w ad = Inr g"
    unfolding verifyOwnerRegistration_def by (auto split: sum.split_asm option.split_asm if_split_asm)
  from w(4) obtain cid v x y spki where k: "canonicalB64url (rw_credentialId w) = Some cid" "cid = attested_credential_id ad"
      "cborDecodeFirst (cose_bytes ad) = Inr (v, length (cose_bytes ad))" "cose_point v = Inr (x, y)"
      "ko_p256_spki ko x y = Some spki" "rg_credentialId g = b64url_encode (attested_credential_id ad)"
      "rg_publicKeySpki g = b64url_encode spki"
    unfolding attested_key_def by (auto split: sum.split_asm option.split_asm if_split_asm)
  from k(4) obtain kvs where p: "v = CMap kvs" "cbor_field ''-2'' kvs = Some (CBytes x)" "cbor_field ''-3'' kvs = Some (CBytes y)"
      "length x = 32" "length y = 32"
    by (cases v) (auto simp: cose_point_def Let_def split: if_split_asm option.split_asm cbor.split_asm)
  have "cborDecodeExact (cose_bytes ad) = Inr (CMap kvs)" using k(3) p(1) by (simp add: cborDecodeExact_def)
  moreover have "own_field ''credentialId'' wire = Some (JStr (rw_credentialId w))"
    using w(1) by (auto simp: registration_envelope_def string_such_that_Some split: if_split_asm option.split_asm)
  moreover have "rw_credentialId w = rg_credentialId g" using canonical_unique[OF k(1)] k(2,6) by simp
  ultimately show ?thesis
    using w(2)[unfolded create_client_data_ok] create_auth_data_ok[OF w(3)] k p by metis
qed

end
