(* ===== verification/License.thy ===== *)
theory License
  imports Encoding
begin

text \<open>
  Licenses, \<open>packages/control-plane/src/license.ts\<close>: minting and the offline check with its grace
  past expiry.  Ed25519 signing and verification are parameters, \<open>None\<close> for a key the library
  rejects.  A refusal is the reason without its prose; a payload is the JSON object it is signed as.
\<close>

definition LICENSE_PREFIX :: string where "LICENSE_PREFIX = ''osl1''"

definition RESTORE_GRACE_MS :: int where "RESTORE_GRACE_MS = 72 * 3600000"

datatype license_state = LicenseValid | LicenseGrace

datatype license_refusal =
    NotALicense
  | UnusableVendorKey
  | BadLicenseSignature
  | InvalidPayload string
  | OtherDeployment string
  | NotYetValid
  | LicenseExpired

record license =
  li_jti :: string
  li_plan :: string
  li_licensee :: string
  li_deploymentId :: "string option"
  li_issuedAt :: int
  li_expiresAt :: int

fun text_field :: "json option \<Rightarrow> string option" where
  "text_field (Some (JStr s)) = Some s"
| "text_field _ = None"

fun integer_field :: "json option \<Rightarrow> int option" where
  "integer_field (Some (JNum (NInt i))) = Some i"
| "integer_field _ = None"

text \<open>\<open>assertPayload\<close>, returning the fields it has checked.\<close>

definition assertPayload :: "json \<Rightarrow> string + license" where
  "assertPayload p =
     (if p = JNull then Inl ''Cannot read properties of null (reading 'v')''
      else if own_field ''v'' p \<noteq> Some (JNum (NInt 1)) then Inl ''v must be 1''
      else
        (case text_field (own_field ''jti'' p) of None \<Rightarrow> Inl ''jti required'' | Some jti \<Rightarrow>
         if jti = [] then Inl ''jti required''
         else if own_field ''plan'' p \<notin> {Some (JStr ''team''), Some (JStr ''enterprise'')} then
           Inl (''plan must be '' @ quoted ''team'' @ '' or '' @ quoted ''enterprise'')
         else
           (case text_field (own_field ''licensee'' p) of None \<Rightarrow> Inl ''licensee required'' | Some licensee \<Rightarrow>
            if licensee = [] then Inl ''licensee required''
            else if own_field ''deploymentId'' p \<noteq> None \<and>
                (text_field (own_field ''deploymentId'' p) = None \<or> own_field ''deploymentId'' p = Some (JStr [])) then
              Inl ''deploymentId must be a non-empty string when present''
            else
              (case (integer_field (own_field ''issuedAt'' p), integer_field (own_field ''expiresAt'' p)) of
                 (Some issued, Some expires) \<Rightarrow>
                   if expires \<le> issued then Inl ''expiresAt must be after issuedAt''
                   else Inr \<lparr>li_jti = jti, li_plan = the (text_field (own_field ''plan'' p)), li_licensee = licensee,
                             li_deploymentId = text_field (own_field ''deploymentId'' p),
                             li_issuedAt = issued, li_expiresAt = expires\<rparr>
               | _ \<Rightarrow> Inl ''issuedAt/expiresAt must be integer unix ms''))))"

definition mintLicense :: "(byte_list \<Rightarrow> byte_list) \<Rightarrow> json \<Rightarrow> string + string" where
  "mintLicense sign payload =
     (case assertPayload payload of
        Inl e \<Rightarrow> Inl e
      | Inr _ \<Rightarrow>
          let body = utf8 (json_text payload) in
          Inr (LICENSE_PREFIX @ CHR ''.'' # b64url_encode body @ CHR ''.'' # b64url_encode (sign body)))"

text \<open>What a signed payload is worth here and now.\<close>

definition license_standing :: "license \<Rightarrow> int \<Rightarrow> string option \<Rightarrow> license_refusal + license \<times> license_state" where
  "license_standing li now expectedDeploymentId =
     (if li_deploymentId li \<noteq> None \<and> li_deploymentId li \<noteq> expectedDeploymentId then
        Inl (OtherDeployment (the (li_deploymentId li)))
      else if now < li_issuedAt li then Inl NotYetValid
      else if now < li_expiresAt li then Inr (li, LicenseValid)
      else if now < li_expiresAt li + RESTORE_GRACE_MS then Inr (li, LicenseGrace)
      else Inl LicenseExpired)"

definition verifyLicense ::
  "(byte_list \<Rightarrow> byte_list \<Rightarrow> bool option) \<Rightarrow> string \<Rightarrow> int \<Rightarrow> string option \<Rightarrow>
     license_refusal + license \<times> license_state" where
  "verifyLicense verify token now expectedDeploymentId =
     (case split_on CHR ''.'' token of
        [prefix, b, s] \<Rightarrow>
          if prefix \<noteq> LICENSE_PREFIX then Inl NotALicense
          else
            (case verify (b64_decode b) (b64_decode s) of
               None \<Rightarrow> Inl UnusableVendorKey
             | Some ok \<Rightarrow>
                 if \<not> ok then Inl BadLicenseSignature
                 else
                   (case Option.bind (utf8_text (b64_decode b)) json_parse of
                      None \<Rightarrow> Inl (InvalidPayload ''malformed'')
                    | Some p \<Rightarrow>
                        (case assertPayload p of
                           Inl e \<Rightarrow> Inl (InvalidPayload e)
                         | Inr li \<Rightarrow> license_standing li now expectedDeploymentId)))
      | _ \<Rightarrow> Inl NotALicense)"

section \<open>Facts\<close>

lemma split_on_plain: "d \<notin> set s \<Longrightarrow> split_on d s = [s]"
  by (induction s) auto

lemma split_on_append: "d \<notin> set s \<Longrightarrow> split_on d (s @ d # t) = s # split_on d t"
  by (induction s) auto

lemma b64url_no_dot: "is_bytes bs \<Longrightarrow> CHR ''.'' \<notin> set (b64url_encode bs)"
proof
  assume "is_bytes bs" "CHR ''.'' \<in> set (b64url_encode bs)"
  then obtain n where "n < 64" "b64_char n = CHR ''.''"
    using b64_sextets_small by (force simp: b64url_encode_def list_all_iff)
  then have "b64url_value (CHR ''.'') = Some n" using b64_char_value by metis
  then show False by (simp add: b64url_value_def code_unit_def)
qed

section \<open>Properties\<close>

text \<open>
  C24: A minted license is honoured: what the vendor signs, the deployment it is bound to reads
  back as that license from its issue until its expiry and as in grace for 72 hours more, and
  refuses before and after, so that an expired license still restores during the grace.
\<close>

theorem minted_license_is_honoured:
  assumes "assertPayload p = Inr li" and "json_ok p" and "\<And>body. verify body (sign body) = Some True"
    and "\<And>body. is_bytes (sign body)" and "li_deploymentId li = None \<or> li_deploymentId li = dep"
  shows "\<exists>token. mintLicense sign p = Inr token \<and>
     verifyLicense verify token now dep =
       (if now < li_issuedAt li then Inl NotYetValid
        else if now < li_expiresAt li then Inr (li, LicenseValid)
        else if now < li_expiresAt li + 72 * 60 * 60 * 1000 then Inr (li, LicenseGrace)
        else Inl LicenseExpired)"
proof -
  let ?b = "utf8 (json_text p)"
  let ?t = "LICENSE_PREFIX @ CHR ''.'' # b64url_encode ?b @ CHR ''.'' # b64url_encode (sign ?b)"
  have "split_on CHR ''.'' ?t = [LICENSE_PREFIX, b64url_encode ?b, b64url_encode (sign ?b)]"
    using b64url_no_dot[OF utf8_bytes] b64url_no_dot[OF assms(4)]
    by (simp add: split_on_append split_on_plain LICENSE_PREFIX_def)
  then have "verifyLicense verify ?t now dep = license_standing li now dep"
    using assms(1,3) json_parse_text[OF assms(2)]
    by (simp add: verifyLicense_def b64_decode_encode[OF utf8_bytes] b64_decode_encode[OF assms(4)] utf8_round_trip)
  moreover have "mintLicense sign p = Inr ?t" using assms(1) by (simp add: mintLicense_def Let_def)
  ultimately show ?thesis using assms(5) by (auto simp: license_standing_def RESTORE_GRACE_MS_def)
qed

definition demo_license :: json where
  "demo_license = JObj [(''v'', JNum (NInt 1)), (''jti'', JStr ''l1''), (''plan'', JStr ''team''),
     (''licensee'', JStr ''Acme''), (''issuedAt'', JNum (NInt 10)), (''expiresAt'', JNum (NInt 20))]"

lemma minted_license_is_honoured_witness:
  "\<exists>token li. mintLicense (\<lambda>_. [7]) demo_license = Inr token \<and>
     verifyLicense (\<lambda>_ s. Some (s = [7])) token 25 None = Inr (li, LicenseGrace) \<and> li_licensee li = ''Acme''"
proof -
  let ?li = "\<lparr>li_jti = ''l1'', li_plan = ''team'', li_licensee = ''Acme'', li_deploymentId = None,
     li_issuedAt = 10, li_expiresAt = 20\<rparr>"
  have p: "assertPayload demo_license = Inr ?li" by (simp add: demo_license_def assertPayload_def)
  have ok: "json_ok demo_license"
    by (simp add: demo_license_def map_keys_def object_order_def array_index_key_def is_digit_def code_unit_def
        is_safe_int_def MAX_SAFE_INTEGER_def)
  from minted_license_is_honoured[OF p ok, of "\<lambda>_ s. Some (s = [7])" "\<lambda>_. [7]" None 25]
  show ?thesis by (auto simp: is_bytes_def)
qed

end
