(* ===== verification/DeviceSig.thy ===== *)
theory DeviceSig
  imports Encoding
begin

text \<open>
  The byte strings that devices sign: \<open>packages/shared/src/owner-device-sig.ts\<close>, the preimage of a
  request with the canonical form of its target, and \<open>enroll-pop.ts\<close>, the enrolment transcript.
  The comparison with the URL serializer is modelled for what the checks before it let through:
  printable ASCII that begins with a slash, without a fragment, with complete escapes.
\<close>

section \<open>Length prefixes\<close>

definition OWNER_DEVICE_SIG_LABEL :: string where "OWNER_DEVICE_SIG_LABEL = ''ownerswitch/device-sig/v1''"

definition ENROLL_POP_LABEL :: string where "ENROLL_POP_LABEL = ''ownerswitch/enroll-cheap-lane/v1''"

definition SHA256_LEN :: nat where "SHA256_LEN = 32"

definition MAX_FIELD :: nat where "MAX_FIELD = 0xffffffff"

definition lengthPrefixed :: "byte_list list \<Rightarrow> byte_list option" where
  "lengthPrefixed fs =
     (if list_ex (\<lambda>f. MAX_FIELD < length f) fs then None
      else Some (concat (map (\<lambda>f. be32 (length f) @ f) fs)))"

lemma concat_prefixed_inj:
  "concat (map (\<lambda>f. be32 (length f) @ f) fs) = concat (map (\<lambda>f. be32 (length f) @ f) gs) \<Longrightarrow>
     list_all (\<lambda>f. length f \<le> MAX_FIELD) fs \<Longrightarrow> list_all (\<lambda>f. length f \<le> MAX_FIELD) gs \<Longrightarrow> fs = gs"
proof (induction fs arbitrary: gs)
  case Nil
  then show ?case by (cases gs) (auto simp: be32_def)
next
  case (Cons f fs)
  then obtain g gs' where gs: "gs = g # gs'" by (cases gs) (auto simp: be32_def)
  from Cons.prems(1) have eq: "be32 (length f) @ f @ concat (map (\<lambda>f. be32 (length f) @ f) fs) =
      be32 (length g) @ g @ concat (map (\<lambda>f. be32 (length f) @ f) gs')"
    by (simp add: gs)
  have "length f < 4294967296" "length g < 4294967296" using Cons.prems(2,3) by (simp_all add: gs MAX_FIELD_def)
  then have "read_be32 (be32 (length f) @ r) = length f" "read_be32 (be32 (length g) @ r) = length g" for r
    by (simp_all only: read_be32)
  note heads = this
  have len: "length f = length g"
    using arg_cong[OF eq, of read_be32] by (simp only: heads)
  let ?x = "concat (map (\<lambda>f. be32 (length f) @ f) fs)" and ?y = "concat (map (\<lambda>f. be32 (length f) @ f) gs')"
  have "f @ ?x = g @ ?y" using eq unfolding len by (simp only: same_append_eq)
  then have "f = g \<and> ?x = ?y" using append_eq_append_conv[of f g ?x ?y] len by blast
  moreover from this have "fs = gs'" by (intro Cons.IH) (use Cons.prems(2,3) gs in simp_all)
  ultimately show ?case by (simp add: gs)
qed

text \<open>The encoding is injective: the prefixes bind the boundaries.\<close>

lemma lengthPrefixed_inj: "lengthPrefixed fs = Some bs \<Longrightarrow> lengthPrefixed gs = Some bs \<Longrightarrow> fs = gs"
  by (rule concat_prefixed_inj) (auto simp: lengthPrefixed_def list_ex_iff list_all_iff not_less split: if_splits)

section \<open>Canonical request targets\<close>

datatype target_error = NotOriginForm | NotPrintable | HasFragment | BadEscape string | NotSerialized

definition upper_hex_digit :: "char \<Rightarrow> bool" where
  "upper_hex_digit c \<longleftrightarrow> is_digit c \<or> (65 \<le> code_unit c \<and> code_unit c \<le> 70)"

text \<open>The first escape that is not a percent sign with two upper-case digits.\<close>

fun bad_escape :: "string \<Rightarrow> string option" where
  "bad_escape [] = None"
| "bad_escape (c # cs) =
     (if c = CHR ''%'' then
        (case cs of
           h # l # rest \<Rightarrow> if upper_hex_digit h \<and> upper_hex_digit l then bad_escape rest else Some [c, h, l]
         | _ \<Rightarrow> Some (c # cs))
      else bad_escape cs)"

definition path_of :: "string \<Rightarrow> string" where "path_of t = takeWhile (\<lambda>c. c \<noteq> CHR ''?'') t"

definition query_of :: "string \<Rightarrow> string" where "query_of t = drop (length (path_of t)) t"

definition dot_segment :: "string \<Rightarrow> bool" where
  "dot_segment s \<longleftrightarrow> s \<in> {''.'', ''%2E'', ''..'', ''.%2E'', ''%2E.'', ''%2E%2E''}"

text \<open>
  A target the URL serializer gives back: no authority, no backslash, no dot segment, no character
  of the path or query that it escapes, no empty query.
\<close>

definition serializer_keeps :: "string \<Rightarrow> bool" where
  "serializer_keeps t \<longleftrightarrow>
     take 2 t \<noteq> ''//'' \<and>
     list_all (\<lambda>c. c \<notin> set [CHR 0x5C, CHR 0x22, CHR ''<'', CHR ''>'', CHR ''^'', CHR 0x60, CHR ''{'', CHR ''}'']) (path_of t) \<and>
     list_all (\<lambda>s. \<not> dot_segment s) (split_on CHR ''/'' (path_of t)) \<and>
     query_of t \<noteq> ''?'' \<and> list_all (\<lambda>c. c \<notin> set [CHR 0x22, CHR ''<'', CHR ''>'', CHR 0x27]) (query_of t)"

definition assertCanonicalPathAndQuery :: "string \<Rightarrow> target_error option" where
  "assertCanonicalPathAndQuery t =
     (if take 1 t \<noteq> ''/'' then Some NotOriginForm
      else if list_ex (\<lambda>c. code_unit c < 0x21 \<or> 0x7e < code_unit c) t then Some NotPrintable
      else if CHR ''#'' \<in> set t then Some HasFragment
      else
        (case bad_escape t of
           Some e \<Rightarrow> Some (BadEscape e)
         | None \<Rightarrow> if \<not> serializer_keeps t then Some NotSerialized else None))"

section \<open>Preimages\<close>

text \<open>\<open>toUpperCase\<close>; the micro sign and the y with diaeresis, whose capitals are beyond U+00FF, stay.\<close>

definition upper_char :: "char \<Rightarrow> string" where
  "upper_char c =
     (let n = code_unit c in
      if n = 223 then ''SS''
      else if (97 \<le> n \<and> n \<le> 122) \<or> (224 \<le> n \<and> n \<le> 254 \<and> n \<noteq> 247) then [char_of (n - 32)]
      else [c])"

definition toUpperCase :: "string \<Rightarrow> string" where
  "toUpperCase s = concat (map upper_char s)"

record sig_fields =
  sf_deviceId :: string
  sf_method :: string
  sf_pathAndQuery :: string
  sf_bodyHash :: byte_list
  sf_timestamp :: js_num
  sf_nonce :: string

datatype preimage_error = BadBodyHash | BadTimestamp | BadTarget target_error | FieldTooLong

definition sig_parts :: "sig_fields \<Rightarrow> int \<Rightarrow> byte_list list" where
  "sig_parts f ts =
     [utf8 OWNER_DEVICE_SIG_LABEL, utf8 (sf_deviceId f), utf8 (toUpperCase (sf_method f)), utf8 (sf_pathAndQuery f),
      sf_bodyHash f, utf8 (num_text (NInt ts)), utf8 (sf_nonce f)]"

definition ownerDeviceSigPreimage :: "sig_fields \<Rightarrow> preimage_error + byte_list" where
  "ownerDeviceSigPreimage f =
     (if length (sf_bodyHash f) \<noteq> SHA256_LEN then Inl BadBodyHash
      else
        (case safe_integer (sf_timestamp f) of
           None \<Rightarrow> Inl BadTimestamp
         | Some ts \<Rightarrow>
             (case assertCanonicalPathAndQuery (sf_pathAndQuery f) of
                Some e \<Rightarrow> Inl (BadTarget e)
              | None \<Rightarrow>
                  (case lengthPrefixed (sig_parts f ts) of None \<Rightarrow> Inl FieldTooLong | Some bs \<Rightarrow> Inr bs))))"

record pop_fields =
  pop_inviteId :: string
  pop_ownerId :: string
  pop_credentialId :: byte_list
  pop_spki :: byte_list

datatype pop_error = NoInviteId | NoOwnerId | NoCredentialId | NoSpki | PopFieldTooLong

definition ownerEnrollPopPreimage :: "pop_fields \<Rightarrow> pop_error + byte_list" where
  "ownerEnrollPopPreimage f =
     (if pop_inviteId f = [] then Inl NoInviteId
      else if pop_ownerId f = [] then Inl NoOwnerId
      else if pop_credentialId f = [] then Inl NoCredentialId
      else if pop_spki f = [] then Inl NoSpki
      else
        (case lengthPrefixed [utf8 ENROLL_POP_LABEL, utf8 (pop_inviteId f), utf8 (pop_ownerId f), pop_credentialId f, pop_spki f] of
           None \<Rightarrow> Inl PopFieldTooLong
         | Some bs \<Rightarrow> Inr bs))"

section \<open>Properties\<close>

lemma sig_preimage_parts:
  "ownerDeviceSigPreimage f = Inr bs \<longleftrightarrow>
     (\<exists>ts. length (sf_bodyHash f) = SHA256_LEN \<and> sf_timestamp f = NInt ts \<and> is_safe_int ts \<and>
        assertCanonicalPathAndQuery (sf_pathAndQuery f) = None \<and> lengthPrefixed (sig_parts f ts) = Some bs)"
  by (auto simp: ownerDeviceSigPreimage_def split: option.split)

text \<open>
  C20: Signed bytes say one thing: two requests with the same preimage are the same device, method
  (up to case), target, body hash, time and nonce, and no request has the preimage of an enrolment.
\<close>

theorem preimage_pins_request:
  assumes "ownerDeviceSigPreimage f = Inr bs"
  shows "(ownerDeviceSigPreimage g = Inr bs \<longrightarrow>
            sf_deviceId g = sf_deviceId f \<and> toUpperCase (sf_method g) = toUpperCase (sf_method f) \<and>
            sf_pathAndQuery g = sf_pathAndQuery f \<and> sf_bodyHash g = sf_bodyHash f \<and>
            sf_timestamp g = sf_timestamp f \<and> sf_nonce g = sf_nonce f) \<and>
         ownerEnrollPopPreimage h \<noteq> Inr bs"
proof -
  from assms obtain ts where f: "sf_timestamp f = NInt ts" "is_safe_int ts" "lengthPrefixed (sig_parts f ts) = Some bs"
    by (auto simp: sig_preimage_parts)
  have "ownerEnrollPopPreimage h \<noteq> Inr bs"
  proof
    assume "ownerEnrollPopPreimage h = Inr bs"
    then have "lengthPrefixed [utf8 ENROLL_POP_LABEL, utf8 (pop_inviteId h), utf8 (pop_ownerId h), pop_credentialId h, pop_spki h] = Some bs"
      by (auto simp: ownerEnrollPopPreimage_def split: if_splits option.splits)
    from lengthPrefixed_inj[OF f(3) this] show False by (simp add: sig_parts_def del: num_text.simps)
  qed
  moreover have "sf_deviceId g = sf_deviceId f \<and> toUpperCase (sf_method g) = toUpperCase (sf_method f) \<and>
      sf_pathAndQuery g = sf_pathAndQuery f \<and> sf_bodyHash g = sf_bodyHash f \<and>
      sf_timestamp g = sf_timestamp f \<and> sf_nonce g = sf_nonce f" if "ownerDeviceSigPreimage g = Inr bs"
  proof -
    from that obtain ts' where g: "sf_timestamp g = NInt ts'" "is_safe_int ts'" "lengthPrefixed (sig_parts g ts') = Some bs"
      by (auto simp: sig_preimage_parts)
    from lengthPrefixed_inj[OF f(3) g(3)]
    have "sf_deviceId f = sf_deviceId g" "toUpperCase (sf_method f) = toUpperCase (sf_method g)"
        "sf_pathAndQuery f = sf_pathAndQuery g" "sf_bodyHash f = sf_bodyHash g"
        "num_text (NInt ts) = num_text (NInt ts')" "sf_nonce f = sf_nonce g"
      by (simp_all add: sig_parts_def del: num_text.simps)
    then show ?thesis using f g safe_text_inj[of ts ts'] by simp
  qed
  ultimately show ?thesis by blast
qed

definition demo_sig :: sig_fields where
  "demo_sig = \<lparr>sf_deviceId = ''d1'', sf_method = ''GET'', sf_pathAndQuery = ''/veto/w1?x=%2F'', sf_bodyHash = replicate 32 7,
     sf_timestamp = NInt 5, sf_nonce = ''n''\<rparr>"

lemma demo_sig_signs: "\<exists>bs. ownerDeviceSigPreimage demo_sig = Inr bs \<and> ownerDeviceSigPreimage (demo_sig\<lparr>sf_method := ''get''\<rparr>) = Inr bs"
proof -
  have "assertCanonicalPathAndQuery ''/veto/w1?x=%2F'' = None"
    by (simp add: assertCanonicalPathAndQuery_def code_unit_def upper_hex_digit_def is_digit_def serializer_keeps_def
        path_of_def query_of_def dot_segment_def)
  then have t: "assertCanonicalPathAndQuery (sf_pathAndQuery demo_sig) = None" by (simp add: demo_sig_def)
  have "toUpperCase ''get'' = toUpperCase ''GET''"
    by (simp add: toUpperCase_def upper_char_def code_unit_def Let_def) (simp add: char_of_def bit_0)
  then have p: "sig_parts (demo_sig\<lparr>sf_method := ''get''\<rparr>) 5 = sig_parts demo_sig 5"
    by (simp add: sig_parts_def demo_sig_def del: num_text.simps)
  have safe: "is_safe_int 5" by (simp add: is_safe_int_def MAX_SAFE_INTEGER_def)
  have "\<exists>bs. lengthPrefixed (sig_parts demo_sig 5) = Some bs"
    by (simp add: lengthPrefixed_def sig_parts_def demo_sig_def MAX_FIELD_def byte_length_utf8[symmetric] byte_length_def
        OWNER_DEVICE_SIG_LABEL_def toUpperCase_def upper_char_def Let_def code_unit_def show_int_def show_nat.simps safe)
  then obtain bs where bs: "lengthPrefixed (sig_parts demo_sig 5) = Some bs" by blast
  have f: "length (sf_bodyHash demo_sig) = SHA256_LEN" "sf_timestamp demo_sig = NInt 5"
    by (simp_all add: demo_sig_def SHA256_LEN_def)
  have "ownerDeviceSigPreimage demo_sig = Inr bs" unfolding sig_preimage_parts using f t safe bs by blast
  moreover have "ownerDeviceSigPreimage (demo_sig\<lparr>sf_method := ''get''\<rparr>) = Inr bs"
    unfolding sig_preimage_parts by (rule exI[of _ 5]) (use f t safe bs p in simp)
  ultimately show ?thesis by blast
qed

lemma preimage_pins_request_witness:
  "\<exists>bs. ownerDeviceSigPreimage demo_sig = Inr bs \<and> toUpperCase ''get'' = toUpperCase ''GET'' \<and>
     ownerEnrollPopPreimage \<lparr>pop_inviteId = ''i'', pop_ownerId = ''o'', pop_credentialId = [1], pop_spki = [2]\<rparr> \<noteq> Inr bs"
proof -
  obtain bs where bs: "ownerDeviceSigPreimage demo_sig = Inr bs" "ownerDeviceSigPreimage (demo_sig\<lparr>sf_method := ''get''\<rparr>) = Inr bs"
    using demo_sig_signs by blast
  from preimage_pins_request[OF bs(1), of "demo_sig\<lparr>sf_method := ''get''\<rparr>"] bs show ?thesis by (auto simp: demo_sig_def)
qed

end
