(* ===== verification/OwnerDevice.thy ===== *)
theory OwnerDevice
  imports WebAuthn DeviceSig Auth
begin

text \<open>
  The owner app's devices, \<open>packages/control-plane/src/owner-device.ts\<close>: the strict reading of an
  enrolled public key, the proof of possession at enrolment and the verification of a signed
  request with its replay window.  A key object is the \<open>public_key\<close> of \<open>WebAuthn\<close>.
\<close>

section \<open>Enrolled keys\<close>

record enrolled_device =
  ed_deviceId :: string
  ed_publicKey :: public_key
  ed_generation :: int
  ed_revokedAt :: "js_num option"

datatype spki_error =
    PrivateKeyGiven
  | NotOnePemBlock
  | NotAPublicKeyBlock
  | NotSpki
  | NotEcdsa
  | NotPrime256 "string option"
  | TrailingKeyBytes
  | NotCanonicalBase64

text \<open>The white space of regular expressions and \<open>trim\<close>, within the modelled code units.\<close>

definition is_js_space :: "char \<Rightarrow> bool" where
  "is_js_space c \<longleftrightarrow> (9 \<le> code_unit c \<and> code_unit c \<le> 13) \<or> code_unit c = 32 \<or> code_unit c = 160"

definition js_trim :: "string \<Rightarrow> string" where
  "js_trim s = rev (dropWhile is_js_space (rev (dropWhile is_js_space s)))"

definition BEGIN_MARK :: string where "BEGIN_MARK = ''-----BEGIN ''"

fun occurrences :: "string \<Rightarrow> string \<Rightarrow> nat" where
  "occurrences m [] = 0"
| "occurrences m (c # cs) = (if starts_with m (c # cs) then 1 else 0) + occurrences m cs"

definition ends_with :: "string \<Rightarrow> string \<Rightarrow> bool" where
  "ends_with m s \<longleftrightarrow> starts_with (rev m) (rev s)"

definition armor_char :: "char \<Rightarrow> bool" where
  "armor_char c \<longleftrightarrow> (65 \<le> code_unit c \<and> code_unit c \<le> 90) \<or> is_digit c \<or> c = CHR '' ''"

text \<open>Some armor in the text announces a private key.\<close>

fun private_armor :: "string \<Rightarrow> bool" where
  "private_armor [] = False"
| "private_armor (c # cs) =
     ((starts_with BEGIN_MARK (c # cs) \<and>
        (let after = drop (length BEGIN_MARK) (c # cs); label = takeWhile armor_char after in
         ends_with ''PRIVATE KEY'' label \<and> starts_with ''-----'' (drop (length label) after))) \<or>
      private_armor cs)"

definition base64_body_char :: "char \<Rightarrow> bool" where
  "base64_body_char c \<longleftrightarrow> (b64_value c \<noteq> None \<and> c \<notin> {CHR ''-'', CHR ''_''}) \<or> c = CHR ''='' \<or> is_js_space c"

text \<open>The body of a single PUBLIC KEY block, white space removed.\<close>

definition pem_body :: "string \<Rightarrow> string option" where
  "pem_body t =
     (let head = ''-----BEGIN PUBLIC KEY-----''; tail = ''-----END PUBLIC KEY-----'';
          rest = drop (length head) t;
          lines = (if starts_with [CHR 0x0D, CHR 0x0A] rest then drop 2 rest else drop 1 rest);
          body = takeWhile base64_body_char lines
      in if starts_with head t \<and> (starts_with [CHR 0x0A] rest \<or> starts_with [CHR 0x0D, CHR 0x0A] rest) \<and> body \<noteq> [] \<and>
            starts_with tail (drop (length body) lines) \<and>
            list_all is_js_space (drop (length tail) (drop (length body) lines))
         then Some (filter (\<lambda>c. \<not> is_js_space c) body) else None)"

definition b64_std_char :: "char \<Rightarrow> char" where
  "b64_std_char c = (if c = CHR ''-'' then CHR ''+'' else if c = CHR ''_'' then CHR ''/'' else c)"

text \<open>Standard base64 with padding.\<close>

definition b64_encode :: "byte_list \<Rightarrow> string" where
  "b64_encode bs =
     map b64_std_char (b64url_encode bs) @ replicate ((3 - length bs mod 3) mod 3) (CHR ''='')"

definition key_body :: "string \<Rightarrow> spki_error + string \<times> bool" where
  "key_body trimmed =
     (if 0 < occurrences ''BEGIN'' trimmed then
        (if occurrences BEGIN_MARK trimmed \<noteq> 1 then Inl NotOnePemBlock
         else (case pem_body trimmed of None \<Rightarrow> Inl NotAPublicKeyBlock | Some b \<Rightarrow> Inr (b, True)))
      else Inr (filter (\<lambda>c. \<not> is_js_space c) trimmed, False))"

definition enrolledOwnerDeviceFromSpki :: "key_ops \<Rightarrow> string \<Rightarrow> string \<Rightarrow> spki_error + enrolled_device" where
  "enrolledOwnerDeviceFromSpki ko deviceId spki =
     (let trimmed = js_trim spki in
      if private_armor trimmed then Inl PrivateKeyGiven
      else
        (case key_body trimmed of
           Inl e \<Rightarrow> Inl e
         | Inr (body, isPem) \<Rightarrow>
             (case ko_spki ko (b64_decode body) of
                None \<Rightarrow> Inl NotSpki
              | Some key \<Rightarrow>
                  if \<not> pub_ec key then Inl NotEcdsa
                  else if pub_curve key \<noteq> Some ''prime256v1'' then Inl (NotPrime256 (pub_curve key))
                  else if pub_der key \<noteq> b64_decode body then Inl TrailingKeyBytes
                  else if body \<noteq> b64_encode (pub_der key) \<and> (isPem \<or> body \<noteq> b64url_encode (pub_der key)) then
                    Inl NotCanonicalBase64
                  else Inr \<lparr>ed_deviceId = deviceId, ed_publicKey = key, ed_generation = 1, ed_revokedAt = None\<rparr>)))"

section \<open>Proof of possession\<close>

definition canonical_nonempty :: "string \<Rightarrow> byte_list option" where
  "canonical_nonempty s = (if s = [] then None else canonicalB64url s)"

definition verifyEnrollProofOfPossession ::
  "key_ops \<Rightarrow> string \<Rightarrow> string \<Rightarrow> string \<Rightarrow> enrolled_device \<Rightarrow> string \<Rightarrow> bool" where
  "verifyEnrollProofOfPossession ko inviteId ownerId credentialId device proof_text =
     (case canonical_nonempty credentialId of
        None \<Rightarrow> False
      | Some cid \<Rightarrow>
          (case ownerEnrollPopPreimage \<lparr>pop_inviteId = inviteId, pop_ownerId = ownerId, pop_credentialId = cid,
                  pop_spki = pub_der (ed_publicKey device)\<rparr> of
             Inl _ \<Rightarrow> False
           | Inr preimage \<Rightarrow>
               (case canonical_nonempty proof_text of
                  None \<Rightarrow> False
                | Some sg \<Rightarrow> length sg = 64 \<and> ko_verify_raw ko (ed_publicKey device) preimage sg = Some True)))"

section \<open>Signed requests\<close>

text \<open>The credential has the fields of a device credential; its signature is base64url.\<close>

definition ownerNonceKey :: "string \<Rightarrow> string \<Rightarrow> string" where
  "ownerNonceKey deviceId nonce = ''owner:'' @ deviceId @ CHR '':'' # nonce"

definition unaliased :: "string \<Rightarrow> bool" where
  "unaliased s \<longleftrightarrow> s \<noteq> [] \<and> CHR '':'' \<notin> set s"

text \<open>The checks before the nonce: the timestamp of a credential that is fresh and truly the device's.\<close>

definition owner_signed_at ::
  "key_ops \<Rightarrow> device_credential \<Rightarrow> string \<Rightarrow> string \<Rightarrow> string \<Rightarrow> (string \<Rightarrow> enrolled_device option) \<Rightarrow> int \<Rightarrow> int \<Rightarrow> int option" where
  "owner_signed_at ko c method pathAndQuery rawBody devices now maxSkew =
     (if \<not> unaliased (dc_deviceId c) \<or> \<not> unaliased (dc_nonce c) \<or> dc_signature c = [] then None
      else
        (case safe_integer (dc_timestamp c) of
           None \<Rightarrow> None
         | Some ts \<Rightarrow>
             if maxSkew < \<bar>now - ts\<bar> then None
             else
               (case devices (dc_deviceId c) of
                  None \<Rightarrow> None
                | Some device \<Rightarrow>
                    if ed_revokedAt device \<noteq> None then None
                    else
                      (case ownerDeviceSigPreimage \<lparr>sf_deviceId = dc_deviceId c, sf_method = method, sf_pathAndQuery = pathAndQuery,
                              sf_bodyHash = ko_sha256 ko (utf8 rawBody), sf_timestamp = dc_timestamp c, sf_nonce = dc_nonce c\<rparr> of
                         Inl _ \<Rightarrow> None
                       | Inr preimage \<Rightarrow>
                           let sg = b64_decode (dc_signature c) in
                           if length sg \<noteq> 64 then None
                           else if ko_verify_raw ko (ed_publicKey device) preimage sg = Some True then Some ts
                           else None))))"

definition verifyOwnerDeviceSignature ::
  "key_ops \<Rightarrow> device_credential \<Rightarrow> string \<Rightarrow> string \<Rightarrow> string \<Rightarrow> (string \<Rightarrow> enrolled_device option) \<Rightarrow> int \<Rightarrow> int \<Rightarrow>
     nonce_store \<Rightarrow> nonce_store \<times> string option" where
  "verifyOwnerDeviceSignature ko c method pathAndQuery rawBody devices now maxSkew seen =
     (let seen1 = sweep_nonces now seen; key = ownerNonceKey (dc_deviceId c) (dc_nonce c) in
      case owner_signed_at ko c method pathAndQuery rawBody devices now maxSkew of
        None \<Rightarrow> (seen1, None)
      | Some ts \<Rightarrow>
          if key \<in> set (map_keys seen1) then (seen1, None)
          else (AList.update key (ts + maxSkew) seen1, Some (dc_deviceId c)))"

section \<open>Facts\<close>

lemma owner_signed_at_Some:
  "owner_signed_at ko c method target raw devices now skew = Some ts \<longleftrightarrow>
     unaliased (dc_deviceId c) \<and> unaliased (dc_nonce c) \<and> dc_signature c \<noteq> [] \<and> dc_timestamp c = NInt ts \<and> is_safe_int ts \<and>
     \<bar>now - ts\<bar> \<le> skew \<and>
     (\<exists>device preimage.
        devices (dc_deviceId c) = Some device \<and> ed_revokedAt device = None \<and>
        ownerDeviceSigPreimage \<lparr>sf_deviceId = dc_deviceId c, sf_method = method, sf_pathAndQuery = target,
          sf_bodyHash = ko_sha256 ko (utf8 raw), sf_timestamp = dc_timestamp c, sf_nonce = dc_nonce c\<rparr> = Inr preimage \<and>
        length (b64_decode (dc_signature c)) = 64 \<and>
        ko_verify_raw ko (ed_publicKey device) preimage (b64_decode (dc_signature c)) = Some True)"
  by (auto simp: owner_signed_at_def Let_def split: option.split sum.split)

text \<open>Two lanes share one nonce store: the shared-secret devices and the owner's devices.\<close>

datatype lane_request =
    FleetRequest string
  | OwnerRequest string string string "string \<Rightarrow> enrolled_device option"

fun attempt_lane ::
  "mac \<Rightarrow> string \<Rightarrow> key_ops \<Rightarrow> int \<Rightarrow> int \<times> nonce_store \<Rightarrow> nat \<times> device_credential \<times> lane_request \<Rightarrow>
     (int \<times> nonce_store) \<times> bool" where
  "attempt_lane mac secret ko skew (t, seen) (dt, c, FleetRequest raw) =
     (case verifyDeviceSignature mac c raw secret (t + int dt) skew seen of (seen', ok) \<Rightarrow> ((t + int dt, seen'), ok))"
| "attempt_lane mac secret ko skew (t, seen) (dt, c, OwnerRequest method target raw devices) =
     (case verifyOwnerDeviceSignature ko c method target raw devices (t + int dt) skew seen of
        (seen', d) \<Rightarrow> ((t + int dt, seen'), d \<noteq> None))"

fun lane_check :: "mac \<Rightarrow> string \<Rightarrow> key_ops \<Rightarrow> int \<Rightarrow> device_credential \<Rightarrow> lane_request \<Rightarrow> int \<Rightarrow> int option" where
  "lane_check mac secret ko skew c (FleetRequest raw) now = signed_at mac c raw secret now skew"
| "lane_check mac secret ko skew c (OwnerRequest method target raw devices) now =
     owner_signed_at ko c method target raw devices now skew"

fun lane_nonce :: "device_credential \<Rightarrow> lane_request \<Rightarrow> string" where
  "lane_nonce c (FleetRequest raw) = nonceKey (dc_deviceId c) (dc_nonce c)"
| "lane_nonce c (OwnerRequest method target raw devices) = ownerNonceKey (dc_deviceId c) (dc_nonce c)"

interpretation lanes: replay_window "lane_check mac secret ko skew" lane_nonce skew for mac secret ko skew
proof
  fix c x now ts
  assume "lane_check mac secret ko skew c x now = Some ts"
  then show "dc_timestamp c = NInt ts \<and> now \<le> ts + skew"
    by (cases x) (auto simp: signed_at_Some owner_signed_at_Some)
qed

lemma attempt_lane_gated: "attempt_lane mac secret ko skew = gated (lane_check mac secret ko skew) lane_nonce skew"
proof (intro ext)
  fix s :: "int \<times> nonce_store" and e :: "nat \<times> device_credential \<times> lane_request"
  obtain t seen dt c x where "s = (t, seen)" "e = (dt, c, x)" by (metis prod_cases3 surj_pair)
  then show "attempt_lane mac secret ko skew s e = gated (lane_check mac secret ko skew) lane_nonce skew s e"
    by (cases x) (auto simp: verifyDeviceSignature_def verifyOwnerDeviceSignature_def Let_def split: option.split)
qed

section \<open>Properties\<close>

text \<open>
  A signed request of the owner's device is accepted only as that: the device is enrolled and
  not revoked, the signature verifies under its key over this method, target, body, time and
  nonce, the time is within the window, and the nonce was not live before and is now.
\<close>

theorem owner_request_is_the_devices:
  assumes "verifyOwnerDeviceSignature ko c method target raw devices now skew seen = (seen', Some d)"
  shows "d = dc_deviceId c \<and>
     (\<exists>device preimage ts.
        devices d = Some device \<and> ed_revokedAt device = None \<and>
        ownerDeviceSigPreimage \<lparr>sf_deviceId = d, sf_method = method, sf_pathAndQuery = target,
          sf_bodyHash = ko_sha256 ko (utf8 raw), sf_timestamp = NInt ts, sf_nonce = dc_nonce c\<rparr> = Inr preimage \<and>
        ko_verify_raw ko (ed_publicKey device) preimage (b64_decode (dc_signature c)) = Some True \<and>
        \<bar>now - ts\<bar> \<le> skew \<and> map_of seen' (ownerNonceKey d (dc_nonce c)) = Some (ts + skew) \<and>
        (\<forall>st. map_of seen (ownerNonceKey d (dc_nonce c)) = Some st \<longrightarrow> st < now))"
proof -
  from assms obtain ts where ts: "owner_signed_at ko c method target raw devices now skew = Some ts" "d = dc_deviceId c"
      "ownerNonceKey d (dc_nonce c) \<notin> set (map_keys (sweep_nonces now seen))"
      "seen' = AList.update (ownerNonceKey d (dc_nonce c)) (ts + skew) (sweep_nonces now seen)"
    by (auto simp: verifyOwnerDeviceSignature_def Let_def split: option.splits if_splits)
  have "map_of (sweep_nonces now seen) (ownerNonceKey d (dc_nonce c)) = None"
    using ts(3) by (auto simp: set_map_keys)
  then have "\<forall>st. map_of seen (ownerNonceKey d (dc_nonce c)) = Some st \<longrightarrow> st < now"
    using map_of_sweep(2)[of seen "ownerNonceKey d (dc_nonce c)" _ now] by (metis linorder_not_le option.distinct(1))
  moreover have "map_of seen' (ownerNonceKey d (dc_nonce c)) = Some (ts + skew)"
    by (simp add: ts(4) update_conv')
  moreover note ts(1)[unfolded owner_signed_at_Some]
  ultimately show ?thesis using ts(2) by (metis (no_types, lifting))
qed

text \<open>
  C18: A signed request counts once, on whichever lane: however requests of the shared-secret
  devices and of the owner's devices arrive on the one nonce store, while devices enrol and are
  revoked, a nonce with its timestamp is accepted at most once.
\<close>

theorem signed_request_counts_once:
  "wins (attempt_lane mac secret ko skew) (attempt_key lane_nonce) k (t, seen) es \<le> 1"
  unfolding attempt_lane_gated by (rule lanes.requests.at_most_one_win)

text \<open>A text without its white space.\<close>

definition bare :: "string \<Rightarrow> string" where
  "bare s = filter (\<lambda>c. \<not> is_js_space c) s"

lemma bare_simps [simp]: "bare (s @ t) = bare s @ bare t" "bare [] = []" "list_all is_js_space s \<Longrightarrow> bare s = []"
  by (auto simp: bare_def list_all_iff filter_empty_conv)

lemma dropped_space: "bare (dropWhile is_js_space s) = bare s"
  by (induction s) (auto simp: bare_def)

lemma bare_rev: "bare (rev s) = rev (bare s)"
  by (simp add: bare_def rev_filter)

lemma bare_trim: "bare (js_trim s) = bare s"
  by (simp add: js_trim_def bare_rev dropped_space)

lemma starts_with_split: "starts_with pre s \<Longrightarrow> s = pre @ drop (length pre) s"
  unfolding starts_with_def by (metis append_take_drop_id)

lemma bare_pem:
  assumes "pem_body t = Some b"
  shows "bare t = ''-----BEGINPUBLICKEY-----'' @ b @ ''-----ENDPUBLICKEY-----''"
proof -
  let ?head = "''-----BEGIN PUBLIC KEY-----''" and ?tail = "''-----END PUBLIC KEY-----''"
  define rest where "rest = drop (length ?head) t"
  define ls where "ls = (if starts_with [CHR 0x0D, CHR 0x0A] rest then drop 2 rest else drop 1 rest)"
  define body where "body = takeWhile base64_body_char ls"
  define after where "after = drop (length body) ls"
  have p: "starts_with ?head t" "starts_with [CHR 0x0A] rest \<or> starts_with [CHR 0x0D, CHR 0x0A] rest"
      "starts_with ?tail after" "list_all is_js_space (drop (length ?tail) after)" "b = bare body"
    using assms unfolding pem_body_def Let_def rest_def[symmetric] ls_def[symmetric] body_def[symmetric] after_def[symmetric] bare_def
    by (auto split: if_split_asm)
  have "t = ?head @ rest" unfolding rest_def by (rule starts_with_split[OF p(1)])
  moreover have "bare rest = bare ls"
  proof (cases "starts_with [CHR 0x0D, CHR 0x0A] rest")
    case True
    from starts_with_split[OF this] have r: "rest = [CHR 0x0D, CHR 0x0A] @ drop 2 rest" by (simp add: numeral_2_eq_2)
    have "bare (CHR 0x0D # CHR 0x0A # s) = bare s" for s by (simp add: bare_def is_js_space_def code_unit_def)
    with r have "bare rest = bare (drop 2 rest)" by (metis append_Cons append_Nil)
    then show ?thesis by (simp add: ls_def True)
  next
    case False
    with p(2) starts_with_split[of "[CHR 0x0A]" rest] have r: "rest = [CHR 0x0A] @ drop 1 rest" by simp
    have "bare (CHR 0x0A # s) = bare s" for s by (simp add: bare_def is_js_space_def code_unit_def)
    with r have "bare rest = bare (drop 1 rest)" by (metis append_Cons append_Nil)
    then show ?thesis by (simp add: ls_def False)
  qed
  moreover have "ls = body @ after"
    by (simp add: body_def after_def dropWhile_eq_drop[symmetric])
  moreover have "bare after = bare ?tail"
    using arg_cong[OF starts_with_split[OF p(3)], of bare] unfolding bare_simps(1) bare_simps(3)[OF p(4)] append_Nil2 .
  moreover have "bare ?head = ''-----BEGINPUBLICKEY-----''" "bare ?tail = ''-----ENDPUBLICKEY-----''"
    by (simp_all add: bare_def is_js_space_def code_unit_def)
  ultimately have "bare t = ''-----BEGINPUBLICKEY-----'' @ bare body @ ''-----ENDPUBLICKEY-----''"
    by (simp only: bare_simps(1))
  then show ?thesis unfolding p(5) .
qed

text \<open>
  C21: An enrolled key is all there is: the text a device is enrolled from, white space aside, is the
  canonical base64 of a P-256 public key, its base64url, or its base64 between the two lines of the
  PUBLIC KEY armor, and has not one character before, between or after, so that nothing else, and
  no private half, rides along in it.
\<close>

theorem enrolled_text_is_the_key:
  assumes "enrolledOwnerDeviceFromSpki ko deviceId spki = Inr device"
  shows "is_p256 (ed_publicKey device) \<and> ed_generation device = 1 \<and> ed_revokedAt device = None \<and>
     bare spki \<in> {b64_encode (pub_der (ed_publicKey device)), b64url_encode (pub_der (ed_publicKey device)),
        ''-----BEGINPUBLICKEY-----'' @ b64_encode (pub_der (ed_publicKey device)) @ ''-----ENDPUBLICKEY-----''}"
proof -
  from assms obtain body isPem key where k: "key_body (js_trim spki) = Inr (body, isPem)"
      "is_p256 key" "body = b64_encode (pub_der key) \<or> \<not> isPem \<and> body = b64url_encode (pub_der key)"
      "device = \<lparr>ed_deviceId = deviceId, ed_publicKey = key, ed_generation = 1, ed_revokedAt = None\<rparr>"
    by (auto simp: enrolledOwnerDeviceFromSpki_def Let_def is_p256_def split: if_split_asm sum.split_asm option.split_asm)
  from k(1) have "if isPem then pem_body (js_trim spki) = Some body else bare (js_trim spki) = body"
    by (auto simp: key_body_def bare_def split: if_split_asm option.split_asm)
  then have "bare spki = (if isPem then ''-----BEGINPUBLICKEY-----'' @ body @ ''-----ENDPUBLICKEY-----'' else body)"
    using bare_pem[of "js_trim spki" body] by (simp add: bare_trim split: if_split_asm)
  with k show ?thesis by (auto split: if_split_asm)
qed

definition demo_ops :: key_ops where
  "demo_ops = \<lparr>ko_sha256 = (\<lambda>_. replicate 32 7), ko_verify = (\<lambda>_ _ _. Some True), ko_verify_raw = (\<lambda>_ _ _. Some True),
     ko_p256_spki = (\<lambda>x y. Some (x @ y)),
     ko_spki = (\<lambda>der. Some \<lparr>pub_ec = True, pub_curve = Some ''prime256v1'', pub_der = take 3 der, pub_pem = ''P''\<rparr>)\<rparr>"

lemma enrolled_text_is_the_key_witness:
  "\<exists>device. enrolledOwnerDeviceFromSpki demo_ops ''d1'' '' AQID '' = Inr device \<and> is_p256 (ed_publicKey device) \<and>
     bare '' AQID '' = b64_encode (pub_der (ed_publicKey device))"
proof -
  have d: "b64_decode ''AQID'' = [1, 2, 3]" and e: "b64url_encode [1, 2, 3] = ''AQID''"
    by (simp_all add: b64_decode_def map_filter_simps b64_value_def b64url_value_def code_unit_def b64url_encode_def b64_char_def
        char_of_def bit_0)
  have t: "js_trim '' AQID '' = ''AQID''" by (simp add: js_trim_def is_js_space_def code_unit_def)
  let ?k = "\<lparr>pub_ec = True, pub_curve = Some ''prime256v1'', pub_der = [1, 2, 3], pub_pem = ''P''\<rparr>"
  have r: "enrolledOwnerDeviceFromSpki demo_ops ''d1'' '' AQID '' =
      Inr \<lparr>ed_deviceId = ''d1'', ed_publicKey = ?k, ed_generation = 1, ed_revokedAt = None\<rparr>"
    unfolding enrolledOwnerDeviceFromSpki_def t
    by (simp add: key_body_def starts_with_def BEGIN_MARK_def is_js_space_def code_unit_def demo_ops_def d e Let_def is_p256_def del: One_nat_def)
  from enrolled_text_is_the_key[OF r] r show ?thesis
    by (auto simp: bare_def is_js_space_def code_unit_def e b64_encode_def b64_std_char_def simp del: One_nat_def)
qed

end
