(* ===== verification/Invite.thy ===== *)
theory Invite
  imports OwnerDevice
begin

text \<open>
  Enrolment invites, \<open>packages/control-plane/src/invite.ts\<close>: the store of hash commitments, bound to
  live state when an invite is minted and again when it is spent, and the one path that spends it,
  \<open>performEnrollment\<close>, with its chain of proofs.  The store is returned updated; a reading of the
  clock is an argument.  The standing callback of a witness answers \<open>None\<close> when it throws.
\<close>

section \<open>Records\<close>

datatype invite_origin = BootstrapOrigin int | DeviceOrigin string int

record invite =
  iv_inviteId :: string
  iv_tokenHash :: string
  iv_ownerId :: string
  iv_deviceName :: string
  iv_challenge :: string
  iv_assertionChallenge :: string
  iv_killEpoch :: int
  iv_expiresAt :: int
  iv_origin :: invite_origin

record spend_witness =
  wt_killed :: bool
  wt_killEpoch :: int
  wt_bootstrapGeneration :: int
  wt_activeDeviceCount :: int
  wt_deviceStanding :: "string \<Rightarrow> int \<Rightarrow> bool option"

datatype invite_fate = FateAlive | FateBurned | FateAbsent

type_synonym invite_store = "(string \<times> invite) list"

definition DEFAULT_TTL_MS :: int where "DEFAULT_TTL_MS = 10 * 60000"

definition DEFAULT_MAX :: nat where "DEFAULT_MAX = 32"

definition witnessIsMalformed :: "spend_witness \<Rightarrow> bool" where
  "witnessIsMalformed w \<longleftrightarrow>
     wt_killed w \<or> \<not> is_safe_int (wt_killEpoch w) \<or> wt_killEpoch w < 0 \<or>
     \<not> is_safe_int (wt_bootstrapGeneration w) \<or>
     \<not> is_safe_int (wt_activeDeviceCount w) \<or> wt_activeDeviceCount w < 0"

section \<open>The store\<close>

datatype register_error =
    EmptyInviteId
  | InviteExists
  | BadTokenHash
  | MissingChallenge
  | BadDeviceName
  | EmptyOwnerId
  | BadKillEpoch
  | BadBootstrapGeneration
  | NoIssuerId
  | BadIssuerGeneration
  | MintWhileKilled
  | MalformedMintWitness
  | StaleKillEpoch
  | StaleBootstrapGeneration
  | RegistryNotEmpty
  | StandingCheckFailed
  | IssuerNotStanding
  | TooManyInvites

definition sweep_invites :: "int \<Rightarrow> invite_store \<Rightarrow> invite_store" where
  "sweep_invites now st = filter (\<lambda>e. now < iv_expiresAt (snd e)) st"

text \<open>The canonical text of a digest: 43 characters that encode 32 bytes.\<close>

definition is_commitment :: "string \<Rightarrow> bool" where
  "is_commitment h \<longleftrightarrow> length h = 43 \<and> (case canonicalB64url h of None \<Rightarrow> False | Some d \<Rightarrow> length d = 32)"

fun origin_error :: "invite_origin \<Rightarrow> register_error option" where
  "origin_error (BootstrapOrigin g) = (if \<not> is_safe_int g \<or> g < 0 then Some BadBootstrapGeneration else None)"
| "origin_error (DeviceOrigin d g) =
     (if d = [] then Some NoIssuerId
      else if \<not> is_safe_int g \<or> g < 1 then Some BadIssuerGeneration
      else None)"

text \<open>The facts an origin records must be the live ones.\<close>

fun origin_stale :: "spend_witness \<Rightarrow> invite_origin \<Rightarrow> register_error option" where
  "origin_stale w (BootstrapOrigin g) =
     (if g \<noteq> wt_bootstrapGeneration w then Some StaleBootstrapGeneration
      else if wt_activeDeviceCount w \<noteq> 0 then Some RegistryNotEmpty
      else None)"
| "origin_stale w (DeviceOrigin d g) =
     (case wt_deviceStanding w d g of
        None \<Rightarrow> Some StandingCheckFailed
      | Some standing \<Rightarrow> if standing then None else Some IssuerNotStanding)"

definition register_error :: "nat \<Rightarrow> invite \<Rightarrow> spend_witness \<Rightarrow> invite_store \<Rightarrow> register_error option" where
  "register_error maxInvites r w st =
     (if iv_inviteId r = [] then Some EmptyInviteId
      else if iv_inviteId r \<in> set (map_keys st) then Some InviteExists
      else if \<not> is_commitment (iv_tokenHash r) then Some BadTokenHash
      else if iv_challenge r = [] \<or> iv_assertionChallenge r = [] then Some MissingChallenge
      else if iv_deviceName r = [] \<or> 200 < length (iv_deviceName r) then Some BadDeviceName
      else if iv_ownerId r = [] then Some EmptyOwnerId
      else if \<not> is_safe_int (iv_killEpoch r) \<or> iv_killEpoch r < 0 then Some BadKillEpoch
      else
        (case origin_error (iv_origin r) of
           Some e \<Rightarrow> Some e
         | None \<Rightarrow>
             if wt_killed w then Some MintWhileKilled
             else if witnessIsMalformed w then Some MalformedMintWitness
             else if iv_killEpoch r \<noteq> wt_killEpoch w then Some StaleKillEpoch
             else
               (case origin_stale w (iv_origin r) of
                  Some e \<Rightarrow> Some e
                | None \<Rightarrow> if maxInvites \<le> length st then Some TooManyInvites else None)))"

text \<open>The draft's expiry is not looked at: the store sets it.\<close>

definition register_invite ::
  "int \<Rightarrow> nat \<Rightarrow> int \<Rightarrow> invite \<Rightarrow> spend_witness \<Rightarrow> invite_store \<Rightarrow> invite_store \<times> (register_error + invite)" where
  "register_invite ttl maxInvites now draft w st =
     (let st1 = sweep_invites now st in
      case register_error maxInvites draft w st1 of
        Some e \<Rightarrow> (st1, Inl e)
      | None \<Rightarrow>
          let full = draft\<lparr>iv_expiresAt := now + ttl\<rparr> in
          (AList.update (iv_inviteId full) full st1, Inr full))"

definition peek_invite :: "int \<Rightarrow> string \<Rightarrow> invite_store \<Rightarrow> invite_store \<times> invite option" where
  "peek_invite now inviteId st =
     (case map_of st inviteId of
        None \<Rightarrow> (st, None)
      | Some r \<Rightarrow> if iv_expiresAt r \<le> now then (AList.delete inviteId st, None) else (st, Some r))"

definition canonical_token :: "string \<Rightarrow> bool" where
  "canonical_token s \<longleftrightarrow> 22 \<le> length s \<and> length s \<le> 128 \<and> canonicalB64url s \<noteq> None"

text \<open>Why the live state does not let a reserved invite through.\<close>

definition authority_refusal :: "spend_witness \<Rightarrow> invite \<Rightarrow> string option" where
  "authority_refusal w r =
     (if iv_killEpoch r \<noteq> wt_killEpoch w then Some ''invite was minted under a superseded kill epoch''
      else
        (case iv_origin r of
           BootstrapOrigin g \<Rightarrow>
             if g \<noteq> wt_bootstrapGeneration w then Some ''invite was minted under a superseded bootstrap generation''
             else if wt_activeDeviceCount w \<noteq> 0 then
               Some ''bootstrap invites enroll only into an EMPTY registry - an active device exists''
             else None
         | DeviceOrigin d g \<Rightarrow>
             (case wt_deviceStanding w d g of
                None \<Rightarrow> Some ''issuer standing check FAILED (threw) - refusing the spend, invite burned''
              | Some standing \<Rightarrow>
                  if standing then None
                  else Some ''the inviting device is no longer in standing at its minting generation'')))"

definition is_bootstrap :: "invite \<Rightarrow> bool" where
  "is_bootstrap r \<longleftrightarrow> (case iv_origin r of BootstrapOrigin _ \<Rightarrow> True | DeviceOrigin _ _ \<Rightarrow> False)"

definition consume_invite ::
  "key_ops \<Rightarrow> int \<Rightarrow> string \<Rightarrow> string \<Rightarrow> spend_witness \<Rightarrow> invite_store \<Rightarrow>
     invite_store \<times> (string \<times> invite_fate + invite)" where
  "consume_invite ko now inviteId tokenSecret w st =
     (if wt_killed w then
        (AList.delete inviteId st,
         Inl (''the kill switch is engaged - nothing enrolls while killed, and the attempted invite is burned'',
              if inviteId \<in> set (map_keys st) then FateBurned else FateAbsent))
      else if witnessIsMalformed w then (st, Inl (''spend refused: malformed live witness (fail closed)'', FateAlive))
      else
        (case map_of st inviteId of
           None \<Rightarrow> (st, Inl (''unknown or already-spent invite'', FateAbsent))
         | Some r \<Rightarrow>
             if iv_expiresAt r \<le> now then (AList.delete inviteId st, Inl (''invite expired'', FateAbsent))
             else if \<not> canonical_token tokenSecret then
               (st, Inl (''invite secret is not a canonical token (base64url, >= 22 chars)'', FateAlive))
             else if ko_sha256 ko (utf8 tokenSecret) \<noteq> b64_decode (iv_tokenHash r) then
               (st, Inl (''invite secret does not match the commitment'', FateAlive))
             else
               let st1 = AList.delete inviteId st in
               (case authority_refusal w r of
                  Some e \<Rightarrow> (st1, Inl (e, FateBurned))
                | None \<Rightarrow> (if is_bootstrap r then filter (\<lambda>e. \<not> is_bootstrap (snd e)) st1 else st1, Inr r))))"

definition invalidateSupersededEpoch :: "int \<Rightarrow> invite_store \<Rightarrow> invite_store \<times> nat" where
  "invalidateSupersededEpoch currentEpoch st =
     (filter (\<lambda>e. iv_killEpoch (snd e) = currentEpoch) st,
      length (filter (\<lambda>e. iv_killEpoch (snd e) \<noteq> currentEpoch) st))"

section \<open>The enrolment\<close>

definition MAX_FIELD_CHARS :: nat where "MAX_FIELD_CHARS = 128 * 1024"

definition SUBMISSION_KEYS :: "string list" where
  "SUBMISSION_KEYS =
     [''inviteId'', ''token'', ''registration'', ''possessionAssertion'', ''cheapLaneKey'', ''cheapLaneKeyProof'',
      ''deviceName'']"

fun stringField :: "nat \<Rightarrow> json option \<Rightarrow> string option" where
  "stringField cap (Some (JStr s)) = (if s \<noteq> [] \<and> length s \<le> cap then Some s else None)"
| "stringField cap _ = None"

text \<open>An optional user handle: absent, or canonical base64url of 1 to 64 bytes.\<close>

definition user_handle :: "json option \<Rightarrow> string option option" where
  "user_handle v =
     (case v of
        None \<Rightarrow> Some None
      | Some _ \<Rightarrow>
          (case stringField 256 v of
             None \<Rightarrow> None
           | Some h \<Rightarrow>
               (case canonicalB64url h of
                  None \<Rightarrow> None
                | Some d \<Rightarrow> if 1 \<le> length d \<and> length d \<le> 64 then Some (Some h) else None)))"

definition ASSERTION_KEYS :: "string list" where
  "ASSERTION_KEYS = [''credentialId'', ''clientDataJSON'', ''authenticatorData'', ''signature'', ''userHandle'']"

definition possession_assertion_from :: "json \<Rightarrow> (assertion \<times> string option) option" where
  "possession_assertion_from v =
     (if \<not> is_plain_object v \<or> list_ex (\<lambda>k. k \<notin> set ASSERTION_KEYS) (map_keys (object_entries v)) then None
      else
        (case (stringField 4096 (own_field ''credentialId'' v), stringField (64 * 1024) (own_field ''clientDataJSON'' v),
               stringField (8 * 1024) (own_field ''authenticatorData'' v), stringField (4 * 1024) (own_field ''signature'' v),
               user_handle (own_field ''userHandle'' v)) of
           (Some c, Some d, Some a, Some s, Some h) \<Rightarrow>
             Some (\<lparr>wa_credentialId = c, wa_clientDataJSON = d, wa_authenticatorData = a, wa_signature = s\<rparr>, h)
         | _ \<Rightarrow> None))"

record submission =
  sb_inviteId :: string
  sb_token :: string
  sb_cheapLaneKey :: string
  sb_cheapLaneKeyProof :: string
  sb_deviceName :: string
  sb_registration :: json
  sb_possession :: json

definition submission_of :: "json \<Rightarrow> string + submission" where
  "submission_of v =
     (if \<not> is_plain_object v then Inl ''enrolment must be a JSON object''
      else
        (case find (\<lambda>k. k \<notin> set SUBMISSION_KEYS) (map_keys (object_entries v)) of
           Some k \<Rightarrow> Inl (''unexpected enrolment property '' @ json_string_text k)
         | None \<Rightarrow>
             (case stringField 256 (own_field ''inviteId'' v) of
                None \<Rightarrow> Inl ''inviteId must be a non-empty string'' | Some inviteId \<Rightarrow>
             (case stringField 256 (own_field ''token'' v) of
                None \<Rightarrow> Inl ''token must be a non-empty string'' | Some token \<Rightarrow>
             (case stringField (8 * 1024) (own_field ''cheapLaneKey'' v) of
                None \<Rightarrow> Inl ''cheapLaneKey must be a non-empty string'' | Some key \<Rightarrow>
             (case stringField 1024 (own_field ''cheapLaneKeyProof'' v) of
                None \<Rightarrow> Inl ''cheapLaneKeyProof must be a non-empty string'' | Some proof_text \<Rightarrow>
             (case stringField 200 (own_field ''deviceName'' v) of
                None \<Rightarrow> Inl ''deviceName is required - the label committed at mint, repeated as confirmation''
              | Some name \<Rightarrow>
             (case own_field ''registration'' v of
                None \<Rightarrow> Inl ''registration is required'' | Some reg \<Rightarrow>
             (case own_field ''possessionAssertion'' v of
                None \<Rightarrow> Inl (''possessionAssertion is required - with attestation '' @ quoted ''none'' @
                  '' only a fresh assertion with the new credential proves the client holds its private key'')
              | Some poss \<Rightarrow>
                  if (case reg of JStr s \<Rightarrow> MAX_FIELD_CHARS < length s | _ \<Rightarrow> False) then Inl ''registration is oversized''
                  else Inr \<lparr>sb_inviteId = inviteId, sb_token = token, sb_cheapLaneKey = key,
                            sb_cheapLaneKeyProof = proof_text, sb_deviceName = name, sb_registration = reg,
                            sb_possession = poss\<rparr>)))))))))"

record enrolled_credential =
  ec_credentialId :: string
  ec_publicKeySpki :: string
  ec_signCount :: nat
  ec_transports :: "string list option"
  ec_userHandle :: "string option"

record relying_party =
  rp_rpId :: string
  rp_origin :: string

text \<open>
  The proofs of a submission against the invite it claims: the registration, the fresh assertion
  with the new credential, and the cheap-lane key over the transcript.  What is thrown on the way
  is the refusal of the backstop.
\<close>

definition ceremony_proofs ::
  "key_ops \<Rightarrow> relying_party \<Rightarrow> submission \<Rightarrow> invite \<Rightarrow> string + enrolled_credential \<times> string" where
  "ceremony_proofs ko rp sb iv =
     (if sb_deviceName sb \<noteq> iv_deviceName iv then Inl ''deviceName does not match the label committed at mint''
      else
        (case verifyOwnerRegistration ko (sb_registration sb)
                \<lparr>ro_rpId = rp_rpId rp, ro_expectedOrigin = rp_origin rp, ro_expectedChallenge = iv_challenge iv\<rparr> of
           Inl e \<Rightarrow> Inl (''registration refused: '' @ e)
         | Inr reg \<Rightarrow>
             (case possession_assertion_from (sb_possession sb) of
                None \<Rightarrow> Inl ''possessionAssertion is malformed''
              | Some (a, handle) \<Rightarrow>
                  (case storedSpkiToPem ko (rg_publicKeySpki reg) of
                     Inl e \<Rightarrow> Inl (''registration key unusable: '' @ e)
                   | Inr pem \<Rightarrow>
                       (case verifyOwnerAssertion ko a
                               \<lparr>ao_passkey = \<lparr>pk_credentialId = rg_credentialId reg, pk_publicKeyPem = pem\<rparr>,
                                ao_rpId = rp_rpId rp, ao_expectedChallenge = iv_assertionChallenge iv,
                                ao_expectedOrigin = rp_origin rp, ao_lastSignCount = rg_signCount reg\<rparr> of
                          AssertionThrew \<Rightarrow> Inl ''malformed enrolment''
                        | AssertionRefused e \<Rightarrow> Inl (''possession assertion refused: '' @ e)
                        | AssertionOk signCount \<Rightarrow>
                            (case enrolledOwnerDeviceFromSpki ko ''enrolling-device'' (sb_cheapLaneKey sb) of
                               Inl _ \<Rightarrow> Inl ''cheapLaneKey refused''
                             | Inr device \<Rightarrow>
                                 if \<not> verifyEnrollProofOfPossession ko (sb_inviteId sb) (iv_ownerId iv)
                                        (rg_credentialId reg) device (sb_cheapLaneKeyProof sb) then
                                   Inl ''cheap-lane proof of possession refused''
                                 else Inr (\<lparr>ec_credentialId = rg_credentialId reg, ec_publicKeySpki = rg_publicKeySpki reg,
                                            ec_signCount = signCount, ec_transports = rg_transports reg,
                                            ec_userHandle = handle\<rparr>,
                                           b64url_encode (pub_der (ed_publicKey device)))))))))"

datatype enrollment_outcome =
    EnrollmentOk invite enrolled_credential string
  | EnrollmentRefused string bool

definition performEnrollment ::
  "key_ops \<Rightarrow> relying_party \<Rightarrow> int \<Rightarrow> json \<Rightarrow> spend_witness \<Rightarrow> invite_store \<Rightarrow> invite_store \<times> enrollment_outcome" where
  "performEnrollment ko rp now v w st =
     (case submission_of v of
        Inl e \<Rightarrow> (st, EnrollmentRefused e True)
      | Inr sb \<Rightarrow>
          (case peek_invite now (sb_inviteId sb) st of
             (st1, None) \<Rightarrow> (st1, EnrollmentRefused ''unknown, expired, or already-spent invite'' False)
           | (st1, Some iv) \<Rightarrow>
               (case ceremony_proofs ko rp sb iv of
                  Inl e \<Rightarrow> (st1, EnrollmentRefused e True)
                | Inr (credential, spki) \<Rightarrow>
                    (case consume_invite ko now (sb_inviteId sb) (sb_token sb) w st1 of
                       (st2, Inl (e, fate)) \<Rightarrow> (st2, EnrollmentRefused e (fate = FateAlive))
                     | (st2, Inr r) \<Rightarrow> (st2, EnrollmentOk r credential spki)))))"

section \<open>Runs of the store\<close>

datatype invite_event =
    MintInvite int invite spend_witness
  | PeekInvite int string
  | Enroll int json spend_witness
  | SweepInvites int
  | KillHook int

fun invite_step :: "key_ops \<Rightarrow> relying_party \<Rightarrow> int \<Rightarrow> nat \<Rightarrow> invite_store \<Rightarrow> invite_event \<Rightarrow> invite_store" where
  "invite_step ko rp ttl mx st (MintInvite now draft w) = fst (register_invite ttl mx now draft w st)"
| "invite_step ko rp ttl mx st (PeekInvite now inviteId) = fst (peek_invite now inviteId st)"
| "invite_step ko rp ttl mx st (Enroll now v w) = fst (performEnrollment ko rp now v w st)"
| "invite_step ko rp ttl mx st (SweepInvites now) = sweep_invites now st"
| "invite_step ko rp ttl mx st (KillHook epoch) = fst (invalidateSupersededEpoch epoch st)"

fun mints_invite :: "int \<Rightarrow> nat \<Rightarrow> invite \<Rightarrow> invite_store \<Rightarrow> invite_event \<Rightarrow> bool" where
  "mints_invite ttl mx iv st (MintInvite now draft w) \<longleftrightarrow> snd (register_invite ttl mx now draft w st) = Inr iv"
| "mints_invite ttl mx iv st _ \<longleftrightarrow> False"

fun spends_invite :: "key_ops \<Rightarrow> relying_party \<Rightarrow> invite \<Rightarrow> invite_store \<Rightarrow> invite_event \<Rightarrow> bool" where
  "spends_invite ko rp iv st (Enroll now v w) \<longleftrightarrow>
     (case snd (performEnrollment ko rp now v w st) of EnrollmentOk r _ _ \<Rightarrow> r = iv | EnrollmentRefused _ _ \<Rightarrow> False)"
| "spends_invite ko rp iv st _ \<longleftrightarrow> False"

definition holds_invite :: "invite \<Rightarrow> invite_store \<Rightarrow> bool" where
  "holds_invite iv st \<longleftrightarrow> (iv_inviteId iv, iv) \<in> set st"

section \<open>Facts\<close>

text \<open>Every record sits under its own id.\<close>

definition store_ok :: "invite_store \<Rightarrow> bool" where
  "store_ok st \<longleftrightarrow> distinct (map_keys st) \<and> (\<forall>(k, r) \<in> set st. iv_inviteId r = k)"

lemma set_update_subset: "set (AList.update k v m) \<subseteq> insert (k, v) (set m)"
  by (induction m) auto

lemma set_delete [simp]: "set (AList.delete k m) = {p \<in> set m. fst p \<noteq> k}"
  by (auto simp: AList.delete_eq)

lemma authority_refusal_None:
  "authority_refusal w r = None \<longleftrightarrow> iv_killEpoch r = wt_killEpoch w \<and> origin_stale w (iv_origin r) = None"
  by (cases "iv_origin r") (auto simp: authority_refusal_def split: option.split)

lemma stringField_Some: "stringField cap x = Some s \<longleftrightarrow> x = Some (JStr s) \<and> s \<noteq> [] \<and> length s \<le> cap"
  by (cases "(cap, x)" rule: stringField.cases) auto

lemma submission_invite: "submission_of v = Inr sb \<Longrightarrow> own_field ''inviteId'' v = Some (JStr (sb_inviteId sb))"
  unfolding submission_of_def
  by (clarsimp split: if_split_asm option.split_asm simp: stringField_Some simp del: not_None_eq)

lemma register_invite_cases:
  assumes "register_invite ttl mx now draft w st = (st', r)"
  obtains (refused) e where "r = Inl e" "st' = sweep_invites now st"
  | (minted) "r = Inr (draft\<lparr>iv_expiresAt := now + ttl\<rparr>)" "register_error mx draft w (sweep_invites now st) = None"
      "st' = AList.update (iv_inviteId draft) (draft\<lparr>iv_expiresAt := now + ttl\<rparr>) (sweep_invites now st)"
  using assms by (auto simp: register_invite_def Let_def split: option.split_asm)

lemma consume_invite_cases:
  assumes "consume_invite ko now i secret w st = (st', r)"
  obtains (refused) e fate where "r = Inl (e, fate)" "set st' \<subseteq> set st" "fate = FateAlive \<longrightarrow> st' = st"
      "fate \<noteq> FateAlive \<longrightarrow> i \<notin> set (map_keys st')"
  | (spent) iv where "r = Inr iv" "map_of st i = Some iv" "i \<notin> set (map_keys st')"
      "st' = filter (\<lambda>e. \<not> (is_bootstrap iv \<and> is_bootstrap (snd e))) (AList.delete i st)"
      "\<not> wt_killed w" "now < iv_expiresAt iv" "canonical_token secret"
      "ko_sha256 ko (utf8 secret) = b64_decode (iv_tokenHash iv)" "authority_refusal w iv = None"
proof -
  have gone: "i \<notin> set (map_keys (AList.delete i st))" "i \<notin> set (map_keys (filter P (AList.delete i st)))" for P
    by (auto simp: map_keys_def)
  have absent: "map_of m i = None \<Longrightarrow> i \<notin> set (map_keys m)" for m :: invite_store
    by (simp add: set_map_keys domIff)
  show thesis
  proof (cases r)
    case (Inl x)
    then obtain e fate where x: "r = Inl (e, fate)" by (cases x) auto
    have "set st' \<subseteq> set st \<and> (fate = FateAlive \<longrightarrow> st' = st) \<and> (fate \<noteq> FateAlive \<longrightarrow> i \<notin> set (map_keys st'))"
      using assms unfolding x consume_invite_def Let_def
      by (auto split: if_split_asm option.split_asm simp: gone dest: absent)
    with x show thesis by (intro refused) auto
  next
    case (Inr iv)
    with assms have "map_of st i = Some iv" "\<not> wt_killed w" "now < iv_expiresAt iv" "canonical_token secret"
        "ko_sha256 ko (utf8 secret) = b64_decode (iv_tokenHash iv)" "authority_refusal w iv = None"
        "st' = filter (\<lambda>e. \<not> (is_bootstrap iv \<and> is_bootstrap (snd e))) (AList.delete i st)"
      unfolding consume_invite_def Let_def by (auto split: if_split_asm option.split_asm)
    with Inr gone show thesis by (intro spent) auto
  qed
qed

lemma peek_invite_cases:
  assumes "peek_invite now i st = (st', r)"
  obtains (none) "r = None" "st' = AList.delete i st" "i \<notin> set (map_keys st')"
  | (some) iv where "r = Some iv" "st' = st" "map_of st i = Some iv" "now < iv_expiresAt iv"
proof (cases "map_of st i")
  case None
  then have "i \<notin> set (map_keys st)" by (simp add: set_map_keys domIff)
  then have "AList.delete i st = st" by (force simp: AList.delete_eq map_keys_def filter_id_conv)
  with None assms \<open>i \<notin> _\<close> show ?thesis by (auto simp: peek_invite_def intro: none)
next
  case (Some iv)
  show ?thesis
  proof (cases "iv_expiresAt iv \<le> now")
    case True
    with Some assms show ?thesis by (intro none) (auto simp: peek_invite_def map_keys_def)
  next
    case False
    with Some assms show ?thesis by (intro some[of iv]) (auto simp: peek_invite_def)
  qed
qed

text \<open>An enrolment that went through is a spend of the invite, with every proof made.\<close>

lemma performEnrollment_ok:
  assumes "performEnrollment ko rp now v w st = (st', EnrollmentOk iv c spki)"
  obtains sb where "submission_of v = Inr sb" "map_of st (sb_inviteId sb) = Some iv"
    "ceremony_proofs ko rp sb iv = Inr (c, spki)"
    "consume_invite ko now (sb_inviteId sb) (sb_token sb) w st = (st', Inr iv)"
proof -
  from assms obtain sb st1 iv1 where 1: "submission_of v = Inr sb"
      "peek_invite now (sb_inviteId sb) st = (st1, Some iv1)" "ceremony_proofs ko rp sb iv1 = Inr (c, spki)"
      "consume_invite ko now (sb_inviteId sb) (sb_token sb) w st1 = (st', Inr iv)"
    by (auto simp: performEnrollment_def split: sum.split_asm prod.split_asm option.split_asm)
  from 1(2) have 2: "st1 = st" "map_of st (sb_inviteId sb) = Some iv1" by (auto elim: peek_invite_cases)
  with 1(4) have "iv1 = iv" by (auto elim: consume_invite_cases)
  with 1 2 show thesis by (intro that) auto
qed

text \<open>Whatever a submission does, it only takes invites out, whole.\<close>

lemma performEnrollment_filters: "\<exists>P. fst (performEnrollment ko rp now v w st) = filter P st"
proof -
  have p: "\<exists>P. st1 = filter P st" if "peek_invite now i st = (st1, x)" for i st1 x
    using that by (cases rule: peek_invite_cases) (auto simp: AList.delete_eq intro: exI[of _ "\<lambda>_. True"])
  have c: "\<exists>P. st2 = filter P st1" if "consume_invite ko now i s w st1 = (st2, x)" for i s st1 st2 x
    using that unfolding consume_invite_def Let_def AList.delete_eq
    by (auto split: if_split_asm option.split_asm intro: exI[of _ "\<lambda>_. True"])
  show ?thesis
    unfolding performEnrollment_def
    by (auto split: sum.split prod.split option.split dest!: p c intro: exI[of _ "\<lambda>_. True"])
qed

lemma register_invite_ok: "snd (register_invite ttl mx now draft w st) = Inr iv \<Longrightarrow>
    iv = draft\<lparr>iv_expiresAt := now + ttl\<rparr> \<and> register_error mx draft w (sweep_invites now st) = None"
  by (auto simp: register_invite_def Let_def split: option.split_asm)

lemma store_ok_filter: "store_ok st \<Longrightarrow> store_ok (filter P st)"
  by (auto simp: store_ok_def map_keys_def distinct_map_filter)

lemma invite_step_ok:
  assumes "store_ok st"
  shows "store_ok (invite_step ko rp ttl mx st e)"
proof (cases e)
  case (MintInvite now draft w)
  have s: "store_ok (sweep_invites now st)" unfolding sweep_invites_def by (rule store_ok_filter[OF assms])
  obtain st' r where reg: "register_invite ttl mx now draft w st = (st', r)" by fastforce
  then show ?thesis
    using s
    by (cases rule: register_invite_cases)
       (auto simp: MintInvite reg store_ok_def distinct_keys_update dest!: set_update_subset[THEN subsetD])
next
  case (Enroll now v w)
  then show ?thesis using performEnrollment_filters[of ko rp now v w st] store_ok_filter[OF assms] by auto
next
  case (PeekInvite now i)
  obtain st' r where peek: "peek_invite now i st = (st', r)" by fastforce
  then show ?thesis
    using assms store_ok_filter[OF assms]
    by (cases rule: peek_invite_cases) (auto simp: PeekInvite peek AList.delete_eq)
qed (use assms store_ok_filter in \<open>auto simp: sweep_invites_def invalidateSupersededEpoch_def\<close>)

lemma spend_facts:
  assumes "store_ok st" and "spends_invite ko rp iv st e"
  obtains now v w sb where "e = Enroll now v w" "submission_of v = Inr sb" "sb_inviteId sb = iv_inviteId iv"
    "map_of st (iv_inviteId iv) = Some iv" "iv_inviteId iv \<notin> set (map_keys (invite_step ko rp ttl mx st e))"
    "\<not> wt_killed w" "now < iv_expiresAt iv" "authority_refusal w iv = None"
    "ko_sha256 ko (utf8 (sb_token sb)) = b64_decode (iv_tokenHash iv)"
proof -
  obtain now v w where e: "e = Enroll now v w" using assms(2) by (cases e) auto
  obtain st' r where p: "performEnrollment ko rp now v w st = (st', r)" by fastforce
  with assms(2) e obtain c spki where r: "r = EnrollmentOk iv c spki" by (auto split: enrollment_outcome.split_asm)
  from performEnrollment_ok[OF p[unfolded r]] obtain sb where sb: "submission_of v = Inr sb"
      "map_of st (sb_inviteId sb) = Some iv" "consume_invite ko now (sb_inviteId sb) (sb_token sb) w st = (st', Inr iv)" .
  from map_of_SomeD[OF sb(2)] assms(1) have "sb_inviteId sb = iv_inviteId iv" by (auto simp: store_ok_def)
  with sb(3) e p sb(1,2) show thesis by (auto elim!: consume_invite_cases intro!: that)
qed

interpretation invites: ledger "invite_step ko rp ttl mx" store_ok "mints_invite ttl mx" "spends_invite ko rp" holds_invite
  for ko rp ttl mx
proof
  fix st e
  assume "store_ok st"
  then show "store_ok (invite_step ko rp ttl mx st e)" by (rule invite_step_ok)
next
  fix iv st e
  assume "store_ok st" and l: "holds_invite iv (invite_step ko rp ttl mx st e)"
  show "holds_invite iv st \<or> mints_invite ttl mx iv st e"
  proof (cases e)
    case (MintInvite now draft w)
    obtain st' r where reg: "register_invite ttl mx now draft w st = (st', r)" by fastforce
    then show ?thesis
      using l
      by (cases rule: register_invite_cases)
         (auto simp: MintInvite reg holds_invite_def sweep_invites_def dest!: set_update_subset[THEN subsetD])
  next
    case (Enroll now v w)
    then show ?thesis using l performEnrollment_filters[of ko rp now v w st] by (auto simp: holds_invite_def)
  next
    case (PeekInvite now i)
    obtain st' r where peek: "peek_invite now i st = (st', r)" by fastforce
    then show ?thesis using l by (cases rule: peek_invite_cases) (auto simp: PeekInvite peek holds_invite_def)
  qed (use l in \<open>auto simp: holds_invite_def sweep_invites_def invalidateSupersededEpoch_def\<close>)
next
  fix iv st e
  assume "store_ok st" and "spends_invite ko rp iv st e"
  then show "holds_invite iv st" by (rule spend_facts) (auto simp: holds_invite_def dest: map_of_SomeD)
next
  fix iv st e
  assume "store_ok st" and "spends_invite ko rp iv st e"
  then show "\<not> holds_invite iv (invite_step ko rp ttl mx st e)"
    by (rule spend_facts) (force simp: holds_invite_def map_keys_def)
qed

section \<open>Properties\<close>

text \<open>
  An enrolment spends a mint that is still good: behind every device that enrols lies the
  registration of that very invite, which nothing has spent since; both happened while nothing was
  killed, in the same kill epoch and with the issuer in standing; the invite has not expired and the
  secret is the one committed to.
\<close>

theorem enrollment_spends_a_live_mint:
  assumes "spends_invite ko rp iv (foldl (invite_step ko rp ttl mx) [] es) (Enroll now v w)"
  shows "\<exists>es1 minted draft mw es2 sb.
     es = es1 @ MintInvite minted draft mw # es2 \<and> iv = draft\<lparr>iv_expiresAt := minted + ttl\<rparr> \<and> now < minted + ttl \<and>
     \<not> wt_killed mw \<and> \<not> wt_killed w \<and> wt_killEpoch mw = wt_killEpoch w \<and>
     authority_refusal mw iv = None \<and> authority_refusal w iv = None \<and>
     submission_of v = Inr sb \<and> sb_inviteId sb = iv_inviteId iv \<and>
     ko_sha256 ko (utf8 (sb_token sb)) = b64_decode (iv_tokenHash iv) \<and>
     count_run (invite_step ko rp ttl mx) (spends_invite ko rp iv)
       (foldl (invite_step ko rp ttl mx) [] (es1 @ [MintInvite minted draft mw])) es2 = 0"
proof -
  have ok: "store_ok []" by (simp add: store_ok_def map_keys_def)
  have "store_ok (foldl (invite_step ko rp ttl mx) [] es)" by (rule invites.inv_run[OF ok])
  from spend_facts[OF this assms] obtain sb where sb: "submission_of v = Inr sb" "sb_inviteId sb = iv_inviteId iv"
      "\<not> wt_killed w" "now < iv_expiresAt iv" "authority_refusal w iv = None"
      "ko_sha256 ko (utf8 (sb_token sb)) = b64_decode (iv_tokenHash iv)"
    by (metis invite_event.inject(3))
  have "\<not> holds_invite iv []" by (simp add: holds_invite_def)
  from invites.spent_was_issued[OF ok assms this] obtain es1 e es2 where
    e: "es = es1 @ e # es2" "mints_invite ttl mx iv (foldl (invite_step ko rp ttl mx) [] es1) e"
      "count_run (invite_step ko rp ttl mx) (spends_invite ko rp iv) (foldl (invite_step ko rp ttl mx) [] (es1 @ [e])) es2 = 0"
    by blast
  from e(2) obtain minted draft mw where m: "e = MintInvite minted draft mw" by (cases e) auto
  from e(2)[unfolded m mints_invite.simps] have iv: "iv = draft\<lparr>iv_expiresAt := minted + ttl\<rparr>" and
    r: "register_error mx draft mw (sweep_invites minted (foldl (invite_step ko rp ttl mx) [] es1)) = None"
    by (auto dest: register_invite_ok)
  from r have "\<not> wt_killed mw" "authority_refusal mw iv = None"
    by (auto simp: register_error_def authority_refusal_None iv split: if_split_asm option.split_asm)
  moreover from r sb(5) have "wt_killEpoch mw = wt_killEpoch w"
    by (auto simp: register_error_def authority_refusal_None iv split: if_split_asm option.split_asm)
  ultimately show ?thesis using sb e(1,3) m iv by (intro exI conjI) (assumption | simp)+
qed

text \<open>
  C40: A refusal tells the fate of the invite: one that says the invite survives leaves every invite
  that has not expired where it was, and one that says it does not leaves the claimed id without an
  invite.
\<close>

theorem refusal_tells_the_fate:
  assumes "performEnrollment ko rp now v w st = (st', EnrollmentRefused e survives)"
  shows "if survives then \<forall>(k, iv) \<in> set st. now < iv_expiresAt iv \<longrightarrow> (k, iv) \<in> set st'
     else \<exists>i. own_field ''inviteId'' v = Some (JStr i) \<and> i \<notin> set (map_keys st')"
proof (cases "submission_of v")
  case (Inl x)
  with assms show ?thesis by (auto simp: performEnrollment_def)
next
  case (Inr sb)
  note i = submission_invite[OF Inr]
  obtain st1 r where p: "peek_invite now (sb_inviteId sb) st = (st1, r)" by fastforce
  then show ?thesis
  proof (cases rule: peek_invite_cases)
    case none
    with assms Inr p i show ?thesis by (auto simp: performEnrollment_def)
  next
    case (some iv)
    show ?thesis
    proof (cases "ceremony_proofs ko rp sb iv")
      case (Inl x)
      with assms Inr p some show ?thesis by (auto simp: performEnrollment_def)
    next
      case (Inr cs)
      obtain st2 x where c: "consume_invite ko now (sb_inviteId sb) (sb_token sb) w st = (st2, x)" by fastforce
      with assms \<open>submission_of v = Inr sb\<close> p some Inr have x: "\<exists>fate. x = Inl (e, fate) \<and> st' = st2 \<and> survives = (fate = FateAlive)"
        by (auto simp: performEnrollment_def split: sum.split_asm prod.split_asm)
      from c x i show ?thesis by (cases rule: consume_invite_cases) auto
    qed
  qed
qed

text \<open>A submission that claims an id nobody minted.\<close>

definition demo_submission :: json where
  "demo_submission = JObj [(''inviteId'', JStr ''i''), (''token'', JStr ''t''), (''registration'', JNull),
     (''possessionAssertion'', JNull), (''cheapLaneKey'', JStr ''k''), (''cheapLaneKeyProof'', JStr ''p''),
     (''deviceName'', JStr ''d'')]"

lemma refusal_tells_the_fate_witness:
  "\<forall>ko rp w. snd (performEnrollment ko rp 0 demo_submission w []) =
       EnrollmentRefused ''unknown, expired, or already-spent invite'' False \<and>
     ''i'' \<notin> set (map_keys (fst (performEnrollment ko rp 0 demo_submission w [])))"
proof (intro allI)
  fix ko rp w
  have r: "performEnrollment ko rp 0 demo_submission w [] =
      ([], EnrollmentRefused ''unknown, expired, or already-spent invite'' False)"
    by (simp add: performEnrollment_def submission_of_def demo_submission_def map_keys_def SUBMISSION_KEYS_def peek_invite_def)
  from refusal_tells_the_fate[OF this] have "''i'' \<notin> set (map_keys ([] :: invite_store))"
    by (auto simp: demo_submission_def)
  with r show "snd (performEnrollment ko rp 0 demo_submission w []) =
       EnrollmentRefused ''unknown, expired, or already-spent invite'' False \<and>
     ''i'' \<notin> set (map_keys (fst (performEnrollment ko rp 0 demo_submission w [])))" by simp
qed

text \<open>
  An invite enrols at most as many devices as it was minted: along every run from an empty store,
  whatever is submitted, peeked at, swept or expired in between.
\<close>

theorem invite_enrolls_once_per_mint:
  "count_run (invite_step ko rp ttl mx) (spends_invite ko rp iv) [] es \<le>
     count_run (invite_step ko rp ttl mx) (mints_invite ttl mx iv) [] es"
  by (rule order.trans[OF invites.spends_within_issues]) (simp_all add: store_ok_def map_keys_def holds_invite_def)

end
