(* ===== verification/OwnedFiles.thy ===== *)
theory OwnedFiles
  imports Json
begin

text \<open>
  The little file system under the two device stores of the control plane: one directory with a
  state file and its \<open>.initialized\<close> marker, both with an owner, a group and a mode, and a script
  that says of each coming system call whether it fails and how much a read or write moves.  Here
  are the steps the stores share: the bounded read, the write loop, the atomic publish of a
  temporary file and the fsync of the directory.  A call that fails does so with an error other
  than the ones the code tells apart (no such file, a symbolic link, file exists), which follow
  from what is there.  Descriptors close outside the publish; the random name of a temporary file is new.
\<close>

unbundle bit_operations_syntax

section \<open>Leaves and calls\<close>

record owned_file =
  of_uid :: nat
  of_gid :: nat
  of_mode :: nat
  of_text :: string

text \<open>A link says whether its target exists; a special file opens but is not a regular file.\<close>

datatype leaf = LeafFile owned_file | LeafLink bool | LeafDirectory | LeafSpecial

datatype dir_state = DirIs nat nat | DirGone | DirReplaced

record owned_disk =
  od_dir :: dir_state
  od_state :: "leaf option"
  od_marker :: "leaf option"
  od_calls :: "syscall list"

text \<open>Who the process is, and what its umask takes out of the mode of a file it creates.\<close>

record os_process =
  op_uid :: nat
  op_gid :: nat
  op_umask :: nat

definition created_mode :: "os_process \<Rightarrow> nat \<Rightarrow> nat" where
  "created_mode p mode = mode - (mode AND op_umask p)"

definition on_call :: "owned_disk \<Rightarrow> (owned_disk \<Rightarrow> 'a) \<Rightarrow> (owned_disk \<Rightarrow> 'a) \<Rightarrow> 'a" where
  "on_call dk failed went =
     (case od_calls dk of
        [] \<Rightarrow> went dk
      | c # cs \<Rightarrow> if c = Fails then failed (dk\<lparr>od_calls := cs\<rparr>) else went (dk\<lparr>od_calls := cs\<rparr>))"

text \<open>\<open>existsSync\<close> follows a link.\<close>

fun leaf_exists :: "leaf option \<Rightarrow> bool" where
  "leaf_exists None = False"
| "leaf_exists (Some (LeafLink target)) = target"
| "leaf_exists (Some _) = True"

section \<open>Loops\<close>

datatype read_end = ReadError | OverLimit | WholeFile

text \<open>
  \<open>readSync\<close> into a buffer one byte larger than the limit until it answers 0: \<open>sz\<close> bytes in the file,
  \<open>got\<close> of them read.
\<close>

function read_whole :: "nat \<Rightarrow> nat \<Rightarrow> nat \<Rightarrow> owned_disk \<Rightarrow> owned_disk \<times> read_end" where
  "read_whole limit sz got dk =
     (let c = (case od_calls dk of [] \<Rightarrow> Completes | c # _ \<Rightarrow> c); dk1 = dk\<lparr>od_calls := tl (od_calls dk)\<rparr>;
          got' = got + transferred c (min (limit + 1 - got) (sz - got))
      in if c = Fails then (dk1, ReadError)
         else if sz \<le> got then (dk1, WholeFile)
         else if limit < got' then (dk1, OverLimit)
         else read_whole limit sz got' dk1)"
  by pat_completeness auto

lemma read_whole_decreases:
  assumes "\<not> sz \<le> got" "\<not> limit < got + transferred c (min (limit + 1 - got) (sz - got))"
  shows "sz - (got + transferred c (min (limit + 1 - got) (sz - got))) < sz - got"
proof -
  have "0 < min (limit + 1 - got) (sz - got)" using assms by simp
  from transferred_pos[OF this, of c] assms(1) show ?thesis by linarith
qed

termination read_whole
  by (relation "measure (\<lambda>(limit, sz, got, dk). sz - got)")
     (simp, simp only: in_measure prod.case, rule read_whole_decreases, assumption+)

declare read_whole.simps [simp del]

text \<open>\<open>writeSync\<close> until all \<open>sz\<close> bytes are written: how many were, and whether that is all.\<close>

function write_whole :: "nat \<Rightarrow> nat \<Rightarrow> owned_disk \<Rightarrow> owned_disk \<times> nat" where
  "write_whole sz written dk =
     (if sz \<le> written then (dk, sz)
      else
        let c = (case od_calls dk of [] \<Rightarrow> Completes | c # _ \<Rightarrow> c); dk1 = dk\<lparr>od_calls := tl (od_calls dk)\<rparr>
        in if c = Fails then (dk1, written)
           else write_whole sz (written + transferred c (sz - written)) dk1)"
  by pat_completeness auto

lemma write_whole_decreases:
  "\<not> sz \<le> written \<Longrightarrow> sz - (written + transferred c (sz - written)) < sz - written"
  using transferred_pos[of "sz - written" c] by linarith

termination write_whole
  by (relation "measure (\<lambda>(sz, written, dk). sz - written)")
     (simp, simp only: in_measure prod.case, rule write_whole_decreases, assumption)

declare write_whole.simps [simp del]

section \<open>Publishing\<close>

definition fsync_dir :: "owned_disk \<Rightarrow> owned_disk \<times> bool" where
  "fsync_dir dk = on_call dk (\<lambda>dk1. (dk1, False)) (\<lambda>dk1. on_call dk1 (\<lambda>dk2. (dk2, False)) (\<lambda>dk2. (dk2, True)))"

text \<open>\<open>renameSync\<close> onto the state path; a directory in the way makes it fail.\<close>

definition rename_onto :: "owned_file \<Rightarrow> owned_disk \<Rightarrow> owned_disk \<times> bool" where
  "rename_onto f dk =
     on_call dk (\<lambda>dk1. (dk1, False))
       (\<lambda>dk1. if od_state dk1 = Some LeafDirectory then (dk1, False)
              else (dk1\<lparr>od_state := Some (LeafFile f)\<rparr>, True))"

text \<open>\<open>fchmodSync\<close>, and \<open>fchownSync\<close> where a group is named.\<close>

definition pin_leaf :: "nat option \<Rightarrow> owned_disk \<Rightarrow> (owned_disk \<Rightarrow> 'a) \<Rightarrow> (owned_disk \<Rightarrow> 'a) \<Rightarrow> 'a" where
  "pin_leaf grp dk failed went =
     on_call dk failed (\<lambda>dk1. case grp of None \<Rightarrow> went dk1 | Some _ \<Rightarrow> on_call dk1 failed went)"

text \<open>The catch block: close the temporary file if it is still open, unlink it; failures are ignored.\<close>

definition give_up :: "bool \<Rightarrow> owned_disk \<Rightarrow> owned_disk" where
  "give_up was_open dk =
     (let dk1 = (if was_open then on_call dk id id else dk) in on_call dk1 id id)"

text \<open>Create, pin, write, fsync, close and rename a temporary file; \<open>False\<close> where it throws.\<close>

definition publish_file :: "os_process \<Rightarrow> nat \<Rightarrow> nat option \<Rightarrow> string \<Rightarrow> owned_disk \<Rightarrow> owned_disk \<times> bool" where
  "publish_file p mode grp body dk =
     on_call dk (\<lambda>dk1. (give_up False dk1, False)) (\<lambda>dk1.
     pin_leaf grp dk1 (\<lambda>dk2. (give_up True dk2, False)) (\<lambda>dk2.
     let (dk3, written) = write_whole (byte_length body) 0 dk2 in
     if written < byte_length body then (give_up True dk3, False)
     else
       on_call dk3 (\<lambda>dk4. (give_up True dk4, False)) (\<lambda>dk4.
       on_call dk4 (\<lambda>dk5. (give_up True dk5, False)) (\<lambda>dk5.
       case rename_onto \<lparr>of_uid = op_uid p, of_gid = (case grp of None \<Rightarrow> op_gid p | Some g \<Rightarrow> g),
                         of_mode = mode, of_text = body\<rparr> dk5 of
         (dk6, False) \<Rightarrow> (give_up False dk6, False)
       | (dk6, True) \<Rightarrow> (dk6, True)))))"

text \<open>
  Create and write the marker.  It exists from its creation on, so a failure leaves it with the mode
  and the part of the note it got so far.
\<close>

definition create_marker ::
  "os_process \<Rightarrow> nat \<Rightarrow> nat option \<Rightarrow> string \<Rightarrow> owned_disk \<Rightarrow> owned_disk \<times> bool" where
  "create_marker p mode grp note dk =
     (let marked = (\<lambda>m g body d. d\<lparr>od_marker :=
            Some (LeafFile \<lparr>of_uid = op_uid p, of_gid = g, of_mode = m, of_text = body\<rparr>)\<rparr>)
      in
     on_call dk (\<lambda>dk1. (dk1, False)) (\<lambda>dk1.
     on_call (marked (created_mode p mode) (op_gid p) [] dk1) (\<lambda>dk2. (dk2, False)) (\<lambda>dk2.
     let noted = (\<lambda>g dk3.
           let (dk4, written) = write_whole (length note) 0 dk3;
               dk5 = marked mode g (take written note) dk4
           in if written < length note then (dk5, False)
              else on_call dk5 (\<lambda>dk6. (dk6, False)) (\<lambda>dk6. (dk6, True)))
     in case grp of
          None \<Rightarrow> noted (op_gid p) (marked mode (op_gid p) [] dk2)
        | Some g \<Rightarrow> on_call (marked mode (op_gid p) [] dk2) (\<lambda>dk3. (dk3, False)) (noted g))))"

section \<open>What the steps leave alone\<close>

definition same_leaves :: "owned_disk \<Rightarrow> owned_disk \<Rightarrow> bool" where
  "same_leaves dk dk' \<longleftrightarrow> od_dir dk' = od_dir dk \<and> od_state dk' = od_state dk \<and> od_marker dk' = od_marker dk"

lemma same_leavesD [dest]:
  "same_leaves dk dk' \<Longrightarrow> od_dir dk' = od_dir dk"
  "same_leaves dk dk' \<Longrightarrow> od_state dk' = od_state dk"
  "same_leaves dk dk' \<Longrightarrow> od_marker dk' = od_marker dk"
  by (simp_all add: same_leaves_def)

lemma same_leaves_calls [simp]: "same_leaves dk (dk\<lparr>od_calls := cs\<rparr>)"
  by (simp add: same_leaves_def)

lemma same_leaves_refl [simp]: "same_leaves dk dk"
  by (simp add: same_leaves_def)

lemma same_leaves_trans [trans]: "same_leaves a b \<Longrightarrow> same_leaves b c \<Longrightarrow> same_leaves a c"
  by (simp add: same_leaves_def)

text \<open>A call fails or goes on, on a disk with the same leaves; it goes on when no call of the script fails.\<close>

definition steady :: "owned_disk \<Rightarrow> bool" where
  "steady dk \<longleftrightarrow> Fails \<notin> set (od_calls dk)"

lemma steady_updates [simp]:
  "steady (dk\<lparr>od_state := s\<rparr>) = steady dk" "steady (dk\<lparr>od_marker := m\<rparr>) = steady dk"
  by (simp_all add: steady_def)

lemma on_call_rule:
  assumes "\<And>dk1. same_leaves dk dk1 \<Longrightarrow> \<not> steady dk \<Longrightarrow> P (failed dk1)"
    and "\<And>dk1. same_leaves dk dk1 \<Longrightarrow> (steady dk \<Longrightarrow> steady dk1) \<Longrightarrow> P (went dk1)"
  shows "P (on_call dk failed went)"
  using assms by (auto simp: on_call_def steady_def split: list.split)

lemma read_whole_rule:
  "read_whole limit sz got dk = (dk', r) \<Longrightarrow>
     same_leaves dk dk' \<and> (r = WholeFile \<longrightarrow> got \<le> limit \<longrightarrow> sz \<le> limit) \<and>
     (steady dk \<longrightarrow> steady dk' \<and> (got \<le> sz \<longrightarrow> sz \<le> limit \<longrightarrow> r = WholeFile))"
proof (induction limit sz got dk rule: read_whole.induct)
  case (1 limit sz got dk)
  let ?c = "case od_calls dk of [] \<Rightarrow> Completes | c # _ \<Rightarrow> c"
  let ?left = "min (limit + 1 - got) (sz - got)"
  let ?got = "got + transferred ?c ?left"
  let ?dk1 = "dk\<lparr>od_calls := tl (od_calls dk)\<rparr>"
  have st: "steady dk \<Longrightarrow> steady ?dk1 \<and> ?c \<noteq> Fails"
    by (cases "od_calls dk") (auto simp: steady_def)
  have le: "\<not> sz \<le> got \<Longrightarrow> sz \<le> limit \<Longrightarrow> ?got \<le> sz"
    using transferred_le[of ?left ?c] by fastforce
  have unfolded: "read_whole limit sz got dk =
      (if ?c = Fails then (?dk1, ReadError) else if sz \<le> got then (?dk1, WholeFile)
       else if limit < ?got then (?dk1, OverLimit) else read_whole limit sz ?got ?dk1)"
    by (subst read_whole.simps) (simp add: Let_def)
  show ?case
  proof (cases "?c = Fails \<or> sz \<le> got \<or> limit < ?got")
    case True
    with 1(2) st le show ?thesis
      unfolding unfolded by (auto simp: same_leaves_def split: if_split_asm)
  next
    case False
    with 1(2) have "read_whole limit sz ?got ?dk1 = (dk', r)" unfolding unfolded by simp
    from 1(1)[OF refl refl refl _ _ _ this] False st le show ?thesis
      by (auto simp: same_leaves_def)
  qed
qed

lemma write_whole_rule:
  "write_whole sz written dk = (dk', n) \<Longrightarrow>
     same_leaves dk dk' \<and> (steady dk \<longrightarrow> steady dk' \<and> n = sz)"
proof (induction sz written dk rule: write_whole.induct)
  case (1 sz written dk)
  let ?c = "case od_calls dk of [] \<Rightarrow> Completes | c # _ \<Rightarrow> c"
  let ?dk1 = "dk\<lparr>od_calls := tl (od_calls dk)\<rparr>"
  have st: "steady dk \<Longrightarrow> steady ?dk1 \<and> ?c \<noteq> Fails"
    by (cases "od_calls dk") (auto simp: steady_def)
  have unfolded: "write_whole sz written dk =
      (if sz \<le> written then (dk, sz) else if ?c = Fails then (?dk1, written)
       else write_whole sz (written + transferred ?c (sz - written)) ?dk1)"
    by (subst write_whole.simps) (simp add: Let_def)
  show ?case
  proof (cases "sz \<le> written \<or> ?c = Fails")
    case True
    with 1(2) st show ?thesis unfolding unfolded by (auto simp: same_leaves_def split: if_split_asm)
  next
    case False
    with 1(2) have "write_whole sz (written + transferred ?c (sz - written)) ?dk1 = (dk', n)" unfolding unfolded by simp
    from 1(1)[OF _ refl refl _ this] False st show ?thesis by (auto simp: same_leaves_def)
  qed
qed

lemma fsync_dir_rule:
  "same_leaves dk (fst (fsync_dir dk)) \<and> (steady dk \<longrightarrow> steady (fst (fsync_dir dk)) \<and> snd (fsync_dir dk))"
  unfolding fsync_dir_def
  by (rule on_call_rule, simp, rule on_call_rule) (auto simp: same_leaves_def)

lemma give_up_same [simp]: "same_leaves dk (give_up b dk)"
proof -
  have s: "same_leaves d (on_call d id id)" for d by (rule on_call_rule) auto
  then show ?thesis by (auto simp: give_up_def Let_def intro: same_leaves_trans)
qed

lemma give_up_leaves [simp]:
  "od_dir (give_up b dk) = od_dir dk" "od_state (give_up b dk) = od_state dk" "od_marker (give_up b dk) = od_marker dk"
  by (simp_all add: same_leavesD[OF give_up_same])

definition published_file :: "os_process \<Rightarrow> nat \<Rightarrow> nat option \<Rightarrow> string \<Rightarrow> owned_file" where
  "published_file p mode grp body =
     \<lparr>of_uid = op_uid p, of_gid = (case grp of None \<Rightarrow> op_gid p | Some g \<Rightarrow> g), of_mode = mode, of_text = body\<rparr>"

lemma rename_onto_rule:
  "case rename_onto f dk of (dk', ok) \<Rightarrow>
     od_dir dk' = od_dir dk \<and> od_marker dk' = od_marker dk \<and>
     od_state dk' = (if ok then Some (LeafFile f) else od_state dk) \<and>
     (steady dk \<longrightarrow> steady dk' \<and> (od_state dk \<noteq> Some LeafDirectory \<longrightarrow> ok))"
  unfolding rename_onto_def by (rule on_call_rule) (auto simp: same_leaves_def)

text \<open>A publish leaves everything as it was exactly when it throws.\<close>

lemma publish_file_rule:
  "case publish_file p mode grp body dk of (dk', ok) \<Rightarrow>
     od_dir dk' = od_dir dk \<and> od_marker dk' = od_marker dk \<and>
     od_state dk' = (if ok then Some (LeafFile (published_file p mode grp body)) else od_state dk) \<and>
     (steady dk \<longrightarrow> od_state dk \<noteq> Some LeafDirectory \<longrightarrow> steady dk' \<and> ok)"
  (is "?P (publish_file p mode grp body dk)")
proof -
  let ?f = "published_file p mode grp body"
  have written: "?P (case rename_onto ?f dk5 of (dk6, False) \<Rightarrow> (give_up False dk6, False) | (dk6, True) \<Rightarrow> (dk6, True))"
    if "same_leaves dk dk5" "steady dk \<longrightarrow> steady dk5" for dk5
    using rename_onto_rule[where f = ?f and dk = dk5] that by (auto simp: Let_def same_leaves_def split: prod.split bool.split)
  have body: "?P (let (dk3, written) = write_whole (byte_length body) 0 dk2 in
     if written < byte_length body then (give_up True dk3, False)
     else
       on_call dk3 (\<lambda>dk4. (give_up True dk4, False)) (\<lambda>dk4.
       on_call dk4 (\<lambda>dk5. (give_up True dk5, False)) (\<lambda>dk5.
       case rename_onto ?f dk5 of (dk6, False) \<Rightarrow> (give_up False dk6, False) | (dk6, True) \<Rightarrow> (dk6, True))))"
    if a: "same_leaves dk dk2" "steady dk \<longrightarrow> steady dk2" for dk2
  proof -
    obtain dk3 n where w: "write_whole (byte_length body) 0 dk2 = (dk3, n)" by fastforce
    from write_whole_rule[OF w] a have b: "same_leaves dk dk3" "steady dk \<longrightarrow> steady dk3 \<and> n = byte_length body"
      by (auto intro: same_leaves_trans)
    show ?thesis
    proof (cases "n < byte_length body")
      case True
      with w b show ?thesis by (auto simp: same_leaves_def)
    next
      case False
      have "?P (on_call dk3 (\<lambda>dk4. (give_up True dk4, False)) (\<lambda>dk4.
          on_call dk4 (\<lambda>dk5. (give_up True dk5, False)) (\<lambda>dk5.
          case rename_onto ?f dk5 of (dk6, False) \<Rightarrow> (give_up False dk6, False) | (dk6, True) \<Rightarrow> (dk6, True))))"
      proof (rule on_call_rule, goal_cases)
        case (2 dk4)
        with b have c: "same_leaves dk dk4" "steady dk \<longrightarrow> steady dk4" by (auto intro: same_leaves_trans)
        show ?case
        proof (rule on_call_rule, goal_cases)
          case (2 dk5)
          with c show ?case by (intro written) (auto intro: same_leaves_trans)
        qed (use c in \<open>auto simp: same_leaves_def\<close>)
      qed (use b in \<open>auto simp: same_leaves_def\<close>)
      with w False show ?thesis by simp
    qed
  qed
  show ?thesis
    unfolding publish_file_def published_file_def[symmetric]
  proof (rule on_call_rule, goal_cases)
    case (2 dk1)
    then show ?case
      unfolding pin_leaf_def
    proof (rule_tac on_call_rule, goal_cases)
      case (2 dk2)
      then have d: "same_leaves dk dk2" "steady dk \<longrightarrow> steady dk2" by (auto intro: same_leaves_trans)
      show ?case
      proof (cases grp)
        case None
        with body[OF d] show ?thesis by simp
      next
        case (Some g)
        show ?thesis unfolding Some option.case
        proof (rule on_call_rule, goal_cases)
          case (2 dk3)
          with d have "same_leaves dk dk3" "steady dk \<longrightarrow> steady dk3" by (auto intro: same_leaves_trans)
          from body[OF this] show ?case unfolding Some .
        qed (use d in \<open>auto simp: same_leaves_def\<close>)
      qed
    qed (auto simp: same_leaves_def)
  qed (auto simp: same_leaves_def)
qed

text \<open>A marker that was created without a failure holds the whole note; the state is never touched.\<close>

lemma create_marker_rule:
  "case create_marker p mode grp note dk of (dk', ok) \<Rightarrow>
     od_dir dk' = od_dir dk \<and> od_state dk' = od_state dk \<and>
     (ok \<longrightarrow> od_marker dk' = Some (LeafFile (published_file p mode grp note))) \<and> (steady dk \<longrightarrow> steady dk' \<and> ok)"
  (is "?P (create_marker p mode grp note dk)")
proof -
  let ?mark = "\<lambda>m g body d. d\<lparr>od_marker := Some (LeafFile \<lparr>of_uid = op_uid p, of_gid = g, of_mode = m, of_text = body\<rparr>)\<rparr>"
  let ?noted = "\<lambda>g dk3. case write_whole (length note) 0 dk3 of (dk4, written) \<Rightarrow>
     if written < length note then (?mark mode g (take written note) dk4, False)
     else on_call (?mark mode g (take written note) dk4) (\<lambda>dk6. (dk6, False)) (\<lambda>dk6. (dk6, True))"
  define near where "near d \<longleftrightarrow> od_dir d = od_dir dk \<and> od_state d = od_state dk \<and> (steady dk \<longrightarrow> steady d)" for d
  have near_same: "near e" if "near d" "same_leaves d e" "steady d \<Longrightarrow> steady e" for d e
    using that by (auto simp: near_def same_leaves_def)
  have near_mark: "near (?mark m g b d)" if "near d" for m g b d using that by (simp add: near_def)
  have lost: "?P (e, False)" if "near d" "same_leaves d e" "\<not> steady d" for d e
    using that by (auto simp: near_def same_leaves_def)
  have noted: "?P (?noted g d)" if "near d" "g = (case grp of None \<Rightarrow> op_gid p | Some g \<Rightarrow> g)" for g d
  proof -
    obtain e n where w: "write_whole (length note) 0 d = (e, n)" by fastforce
    from write_whole_rule[OF w] that have e: "near (?mark mode g (take n note) e)" "steady dk \<longrightarrow> n = length note"
      by (auto simp: near_def same_leaves_def)
    show ?thesis
    proof (cases "n < length note")
      case True
      with w e show ?thesis by (auto simp: near_def)
    next
      case False
      have "?P (on_call (?mark mode g (take n note) e) (\<lambda>dk6. (dk6, False)) (\<lambda>dk6. (dk6, True)))"
      proof (rule on_call_rule, goal_cases)
        case (1 f)
        show ?case by (rule lost[OF e(1) 1])
      next
        case (2 f)
        with e False that(2) show ?case by (auto simp: near_def same_leaves_def published_file_def)
      qed
      with w False show ?thesis by simp
    qed
  qed
  have "near dk" by (simp add: near_def)
  show ?thesis
    unfolding create_marker_def Let_def
  proof (rule on_call_rule, goal_cases)
    case (1 d)
    show ?case by (rule lost[OF \<open>near dk\<close> 1])
  next
    case (2 d)
    have d: "near d" by (rule near_same[OF \<open>near dk\<close> 2])
    show ?case
    proof (rule on_call_rule, goal_cases)
      case (1 e)
      show ?case by (rule lost[OF near_mark[OF d] 1])
    next
      case (2 e)
      have e: "near e" by (rule near_same[OF near_mark[OF d] 2])
      show ?case
      proof (cases grp)
        case None
        have "?P (?noted (op_gid p) (?mark mode (op_gid p) [] e))" by (rule noted[OF near_mark[OF e]]) (simp add: None)
        then show ?thesis unfolding None option.case .
      next
        case (Some g)
        have "?P (on_call (?mark mode (op_gid p) [] e) (\<lambda>dk3. (dk3, False)) (?noted g))"
        proof (rule on_call_rule, goal_cases)
          case (1 f)
          show ?case by (rule lost[OF near_mark[OF e] 1])
        next
          case (2 f)
          show ?case using noted[OF near_same[OF near_mark[OF e] 2], of g] Some by simp
        qed
        then show ?thesis unfolding Some option.case .
      qed
    qed
  qed
qed

end
