(* ===== verification/EnrolledDevices.thy ===== *)
theory EnrolledDevices
  imports Invite KillStore
begin

text \<open>
  The registry of enrolled devices, \<open>packages/control-plane/src/enrolled-devices.ts\<close>: the strict
  reading of what it persists (\<open>asPersistedEnrolledDevices\<close>, \<open>asLegacyV1\<close>) and the class
  \<open>EnrolledDeviceRegistry\<close> over an interface for its file, \<open>device_store\<close>, whose world is \<open>'f\<close>.
  Every mutation publishes first and changes memory after; a publish that is not proven
  durable quarantines.  Random handles and ids are arguments: what the code draws until it is new.
\<close>

section \<open>Persisted state\<close>

record enrolled_record =
  en_deviceId :: string
  en_ownerId :: string
  en_deviceName :: string
  en_credentialId :: string
  en_publicKeySpki :: string
  en_cheapLaneKeySpki :: string
  en_signCount :: int
  en_transports :: "string list option"
  en_userHandle :: "string option"
  en_generation :: int
  en_revokedAt :: "js_num option"
  en_enrolledAt :: js_num

type_synonym device_table = "(string \<times> enrolled_record) list"

record persisted_devices =
  pd_bootstrapGeneration :: int
  pd_devices :: device_table
  pd_owners :: "(string \<times> string) list"

definition MAX_ACTIVE_DEVICES :: nat where "MAX_ACTIVE_DEVICES = 64"

definition MAX_OWNERS :: nat where "MAX_OWNERS = 128"

definition FORBIDDEN_DEVICE_IDS :: "string list" where
  "FORBIDDEN_DEVICE_IDS = [''__proto__'', ''constructor'', ''prototype'']"

definition isCanonicalB64url :: "nat \<Rightarrow> nat \<Rightarrow> string \<Rightarrow> bool" where
  "isCanonicalB64url minBytes maxBytes v \<longleftrightarrow>
     v \<noteq> [] \<and> (case canonicalB64url v of None \<Rightarrow> False | Some d \<Rightarrow> minBytes \<le> length d \<and> length d \<le> maxBytes)"

section \<open>The strict reading\<close>

definition DEVICE_KEYS :: "string list" where
  "DEVICE_KEYS =
     [''deviceId'', ''ownerId'', ''deviceName'', ''credentialId'', ''publicKeySpki'', ''cheapLaneKeySpki'', ''signCount'',
      ''transports'', ''userHandle'', ''generation'', ''revokedAt'', ''enrolledAt'']"

text \<open>A string that passes a test; an integer from a bound on; a finite number or null.\<close>

definition string_where :: "(string \<Rightarrow> bool) \<Rightarrow> json option \<Rightarrow> string option" where
  "string_where P v = (case v of Some (JStr s) \<Rightarrow> if P s then Some s else None | _ \<Rightarrow> None)"

definition integer_from :: "int \<Rightarrow> json option \<Rightarrow> int option" where
  "integer_from low v =
     (case v of
        Some (JNum n) \<Rightarrow> (case safe_integer n of None \<Rightarrow> None | Some i \<Rightarrow> if low \<le> i then Some i else None)
      | _ \<Rightarrow> None)"

definition finite_number :: "json option \<Rightarrow> js_num option" where
  "finite_number v = (case v of Some (JNum n) \<Rightarrow> if is_finite_num n then Some n else None | _ \<Rightarrow> None)"

definition revoked_at :: "json option \<Rightarrow> js_num option option" where
  "revoked_at v = (if v = Some JNull then Some None else map_option Some (finite_number v))"

definition absent_or :: "(json option \<Rightarrow> 'a option) \<Rightarrow> json option \<Rightarrow> 'a option option" where
  "absent_or read v = (if v = None then Some None else map_option Some (read v))"

definition transport_list :: "json option \<Rightarrow> string list option" where
  "transport_list v =
     (case v of
        Some (JArr ts) \<Rightarrow>
          if 8 < length ts then None
          else those (map (\<lambda>t. string_where (\<lambda>s. s \<noteq> [] \<and> length s \<le> 32) (Some t)) ts)
      | _ \<Rightarrow> None)"

definition real_key :: "key_ops \<Rightarrow> string \<Rightarrow> bool" where
  "real_key ko s \<longleftrightarrow> (case storedSpkiToPem ko s of Inl _ \<Rightarrow> False | Inr _ \<Rightarrow> True)"

definition short_text :: "nat \<Rightarrow> string \<Rightarrow> bool" where
  "short_text n s \<longleftrightarrow> s \<noteq> [] \<and> length s \<le> n"

definition device_of :: "key_ops \<Rightarrow> string \<Rightarrow> json \<Rightarrow> enrolled_record option" where
  "device_of ko deviceId v =
     (if \<not> short_text 128 deviceId \<or> deviceId \<in> set FORBIDDEN_DEVICE_IDS then None
      else if \<not> is_plain_object v \<or> \<not> only_keys DEVICE_KEYS v then None
      else if own_field ''deviceId'' v \<noteq> Some (JStr deviceId) then None
      else
        (case (string_where (short_text 256) (own_field ''ownerId'' v), string_where (short_text 200) (own_field ''deviceName'' v),
               string_where (isCanonicalB64url 1 1024) (own_field ''credentialId'' v),
               string_where (real_key ko) (own_field ''publicKeySpki'' v),
               string_where (real_key ko) (own_field ''cheapLaneKeySpki'' v),
               integer_from 0 (own_field ''signCount'' v), absent_or transport_list (own_field ''transports'' v),
               absent_or (string_where (isCanonicalB64url 1 64)) (own_field ''userHandle'' v),
               integer_from 1 (own_field ''generation'' v), revoked_at (own_field ''revokedAt'' v),
               finite_number (own_field ''enrolledAt'' v)) of
           (Some owner, Some name, Some cred, Some key, Some lane, Some n, Some transports, Some handle, Some gen,
            Some revoked, Some enrolled) \<Rightarrow>
             Some \<lparr>en_deviceId = deviceId, en_ownerId = owner, en_deviceName = name, en_credentialId = cred,
                   en_publicKeySpki = key, en_cheapLaneKeySpki = lane, en_signCount = n, en_transports = transports,
                   en_userHandle = handle, en_generation = gen, en_revokedAt = revoked, en_enrolledAt = enrolled\<rparr>
         | _ \<Rightarrow> None))"

text \<open>The table: every record in shape, no credential and no cheap-lane key twice.\<close>

fun devices_of :: "key_ops \<Rightarrow> string list \<Rightarrow> string list \<Rightarrow> (string \<times> json) list \<Rightarrow> device_table option" where
  "devices_of ko creds lanes [] = Some []"
| "devices_of ko creds lanes ((deviceId, v) # rest) =
     (case device_of ko deviceId v of
        None \<Rightarrow> None
      | Some d \<Rightarrow>
          if en_credentialId d \<in> set creds \<or> en_cheapLaneKeySpki d \<in> set lanes then None
          else map_option (Cons (deviceId, d)) (devices_of ko (en_credentialId d # creds) (en_cheapLaneKeySpki d # lanes) rest))"

definition active_count :: "device_table \<Rightarrow> nat" where
  "active_count ds = length (filter (\<lambda>e. en_revokedAt (snd e) = None) ds)"

fun owners_of :: "string list \<Rightarrow> (string \<times> json) list \<Rightarrow> (string \<times> string) list option" where
  "owners_of taken [] = Some []"
| "owners_of taken ((ownerId, v) # rest) =
     (if \<not> short_text 256 ownerId \<or> ownerId \<in> set FORBIDDEN_DEVICE_IDS then None
      else if \<not> is_plain_object v \<or> \<not> only_keys [''userId''] v then None
      else
        (case string_where (isCanonicalB64url 16 64) (own_field ''userId'' v) of
           None \<Rightarrow> None
         | Some userId \<Rightarrow>
             if userId \<in> set taken then None
             else map_option (Cons (ownerId, userId)) (owners_of (userId # taken) rest)))"

text \<open>What both versions share: the bootstrap generation and the device table.\<close>

definition registry_core :: "key_ops \<Rightarrow> json \<Rightarrow> (int \<times> device_table) option" where
  "registry_core ko v =
     (case (integer_from 1 (own_field ''bootstrapGeneration'' v), own_field ''devices'' v) of
        (Some gen, Some (JObj kvs)) \<Rightarrow>
          (case devices_of ko [] [] kvs of
             None \<Rightarrow> None
           | Some ds \<Rightarrow> if MAX_ACTIVE_DEVICES < active_count ds then None else Some (gen, ds))
      | _ \<Rightarrow> None)"

definition asPersistedEnrolledDevices :: "key_ops \<Rightarrow> json \<Rightarrow> persisted_devices option" where
  "asPersistedEnrolledDevices ko v =
     (if \<not> is_plain_object v \<or> \<not> only_keys [''version'', ''bootstrapGeneration'', ''devices'', ''owners''] v then None
      else if own_field ''version'' v \<noteq> Some (JNum (NInt 2)) then None
      else
        (case (registry_core ko v, own_field ''owners'' v) of
           (Some (gen, ds), Some (JObj okvs)) \<Rightarrow>
             (case owners_of [] okvs of
                None \<Rightarrow> None
              | Some owners \<Rightarrow>
                  if MAX_OWNERS < length owners then None
                  else if list_ex (\<lambda>e. en_ownerId (snd e) \<notin> set (map_keys owners)) ds then None
                  else Some \<lparr>pd_bootstrapGeneration = gen, pd_devices = ds, pd_owners = owners\<rparr>)
         | _ \<Rightarrow> None))"

text \<open>
  The version before owners.  The code runs the same validator with a made-up handle per owner;
  what that leaves of the owner checks is that no owner bears a forbidden name.
\<close>

definition asLegacyV1 :: "key_ops \<Rightarrow> json \<Rightarrow> (int \<times> device_table) option" where
  "asLegacyV1 ko v =
     (if \<not> is_plain_object v then None
      else if length (object_entries v) \<noteq> 3 \<or> \<not> only_keys [''version'', ''bootstrapGeneration'', ''devices''] v then None
      else if own_field ''version'' v \<noteq> Some (JNum (NInt 1)) then None
      else
        (case registry_core ko v of
           None \<Rightarrow> None
         | Some (gen, ds) \<Rightarrow>
             if list_ex (\<lambda>e. en_ownerId (snd e) \<in> set FORBIDDEN_DEVICE_IDS) ds then None else Some (gen, ds)))"

section \<open>The file's interface\<close>

datatype devices_load =
    DevicesAbsent
  | DevicesLoaded persisted_devices
  | DevicesLegacy int device_table
  | DevicesCorrupt string

record 'f device_store =
  ds_load :: "'f \<Rightarrow> 'f \<times> devices_load"
  ds_save :: "'f \<Rightarrow> persisted_devices \<Rightarrow> 'f \<times> save_outcome"

record 'f registry =
  re_world :: 'f
  re_state :: "persisted_devices option"
  re_corruptDetail :: "string option"
  re_invites :: invite_store

definition new_registry :: "'f \<Rightarrow> 'f registry" where
  "new_registry w = \<lparr>re_world = w, re_state = None, re_corruptDetail = None, re_invites = []\<rparr>"

definition quarantine :: "string \<Rightarrow> 'f registry \<Rightarrow> 'f registry" where
  "quarantine detail r = r\<lparr>re_state := None, re_corruptDetail := Some detail\<rparr>"

definition adopt :: "persisted_devices \<Rightarrow> 'f registry \<Rightarrow> 'f registry" where
  "adopt s r = r\<lparr>re_state := Some s, re_corruptDetail := None\<rparr>"

definition usable :: "'f registry \<Rightarrow> bool" where "usable r \<longleftrightarrow> re_state r \<noteq> None"

text \<open>Publish and adopt, or quarantine; the error says what went wrong.\<close>

definition first_publish ::
  "'f device_store \<Rightarrow> string \<Rightarrow> string \<Rightarrow> persisted_devices \<Rightarrow> 'f registry \<Rightarrow> 'f registry \<times> string option" where
  "first_publish st failed unproven s r =
     (case ds_save st (re_world r) s of
        (w, SaveThrew e) \<Rightarrow> let d = failed @ e in (quarantine d (r\<lparr>re_world := w\<rparr>), Some d)
      | (w, SaveNotDurable e) \<Rightarrow> let d = unproven @ e in (quarantine d (r\<lparr>re_world := w\<rparr>), Some d)
      | (w, SaveDurable) \<Rightarrow> (adopt s (r\<lparr>re_world := w\<rparr>), None))"

text \<open>\<open>pick\<close> gives a random handle that is not among those taken.\<close>

fun handles_for :: "(string list \<Rightarrow> string) \<Rightarrow> device_table \<Rightarrow> (string \<times> string) list \<Rightarrow> (string \<times> string) list" where
  "handles_for pick [] owners = owners"
| "handles_for pick ((_, d) # rest) owners =
     handles_for pick rest
       (if en_ownerId d \<in> set (map_keys owners) then owners
        else owners @ [(en_ownerId d, pick (map snd owners))])"

definition migrated :: "(string list \<Rightarrow> string) \<Rightarrow> int \<Rightarrow> device_table \<Rightarrow> persisted_devices" where
  "migrated pick gen ds =
     \<lparr>pd_bootstrapGeneration = gen, pd_devices = ds, pd_owners = object_order (handles_for pick ds [])\<rparr>"

definition initialize :: "'f device_store \<Rightarrow> (string list \<Rightarrow> string) \<Rightarrow> 'f registry \<Rightarrow> 'f registry \<times> string option" where
  "initialize st pick r =
     (case ds_load st (re_world r) of
        (w, DevicesCorrupt detail) \<Rightarrow> (quarantine detail (r\<lparr>re_world := w\<rparr>), Some detail)
      | (w, DevicesLoaded s) \<Rightarrow> (adopt s (r\<lparr>re_world := w\<rparr>), None)
      | (w, DevicesLegacy gen ds) \<Rightarrow>
          let owners = remdups (map (\<lambda>e. en_ownerId (snd e)) ds) in
          if MAX_OWNERS < length owners then
            let d = ''v1 -> v2 registry migration refused: '' @ show_nat (length owners) @ '' distinct owners exceed the '' @
                  show_nat MAX_OWNERS @ '' owner-handle ceiling - nothing was published (fail closed)''
            in (quarantine d (r\<lparr>re_world := w\<rparr>), Some d)
          else first_publish st ''v1 -> v2 registry migration persist failed: ''
                 ''v1 -> v2 registry migration not durable: '' (migrated pick gen ds) (r\<lparr>re_world := w\<rparr>)
      | (w, DevicesAbsent) \<Rightarrow>
          first_publish st ''first-boot registry persist failed: '' ''first-boot registry persist not durable: ''
            \<lparr>pd_bootstrapGeneration = 1, pd_devices = [], pd_owners = []\<rparr> (r\<lparr>re_world := w\<rparr>))"

section \<open>Reading\<close>

text \<open>An unusable registry makes these throw in the code; its callers ask first.\<close>

definition registry_get :: "'f registry \<Rightarrow> string \<Rightarrow> enrolled_record option" where
  "registry_get r deviceId = Option.bind (re_state r) (\<lambda>s. map_of (pd_devices s) deviceId)"

definition registry_list :: "'f registry \<Rightarrow> enrolled_record list" where
  "registry_list r = (case re_state r of None \<Rightarrow> [] | Some s \<Rightarrow> map snd (pd_devices s))"

definition standing :: "persisted_devices \<Rightarrow> string \<Rightarrow> int \<Rightarrow> bool" where
  "standing s deviceId generation \<longleftrightarrow>
     (case map_of (pd_devices s) deviceId of
        None \<Rightarrow> False
      | Some d \<Rightarrow> en_revokedAt d = None \<and> en_generation d = generation)"

definition ownerUserId :: "'f registry \<Rightarrow> string \<Rightarrow> string option" where
  "ownerUserId r ownerId = Option.bind (re_state r) (\<lambda>s. map_of (pd_owners s) ownerId)"

definition peekInvite :: "int \<Rightarrow> string \<Rightarrow> 'f registry \<Rightarrow> 'f registry \<times> invite option" where
  "peekInvite now inviteId r =
     (let (st, i) = peek_invite now inviteId (re_invites r) in (r\<lparr>re_invites := st\<rparr>, i))"

section \<open>Revoking\<close>

datatype revoke_outcome =
    Revoked int
  | AlreadyRevoked int
  | RevokeUnknown
  | RevokePublishFailed string
  | RevokeThrew

definition with_device :: "string \<Rightarrow> enrolled_record \<Rightarrow> persisted_devices \<Rightarrow> persisted_devices" where
  "with_device deviceId d s = s\<lparr>pd_devices := map (\<lambda>e. if fst e = deviceId then (deviceId, d) else e) (pd_devices s)\<rparr>"

definition revoke_device :: "'f device_store \<Rightarrow> string \<Rightarrow> int \<Rightarrow> 'f registry \<Rightarrow> 'f registry \<times> revoke_outcome" where
  "revoke_device st deviceId revokedAt r =
     (case re_state r of
        None \<Rightarrow> (r, RevokeThrew)
      | Some s \<Rightarrow>
          (case map_of (pd_devices s) deviceId of
             None \<Rightarrow> (r, RevokeUnknown)
           | Some d \<Rightarrow>
               if en_revokedAt d \<noteq> None then (r, AlreadyRevoked (en_generation d))
               else
                 let next = with_device deviceId (d\<lparr>en_revokedAt := Some (NInt revokedAt), en_generation := en_generation d + 1\<rparr>) s in
                 (case ds_save st (re_world r) next of
                    (w, SaveThrew e) \<Rightarrow>
                      let detail = ''revocation publish FAILED ('' @ e @ '')'' in
                      (quarantine detail (r\<lparr>re_world := w\<rparr>), RevokePublishFailed detail)
                  | (w, SaveNotDurable e) \<Rightarrow>
                      let detail = ''revocation publish durability UNPROVEN: '' @ e in
                      (quarantine detail (r\<lparr>re_world := w\<rparr>), RevokePublishFailed detail)
                  | (w, SaveDurable) \<Rightarrow> (r\<lparr>re_world := w, re_state := Some next\<rparr>, Revoked (en_generation d + 1)))))"

section \<open>Minting and enrolling\<close>

record live_kill =
  lk_isKilled :: bool
  lk_killEpoch :: int

definition killStateIsMalformed :: "live_kill \<Rightarrow> bool" where
  "killStateIsMalformed k \<longleftrightarrow> \<not> is_safe_int (lk_killEpoch k) \<or> lk_killEpoch k < 0"

definition liveWitness :: "live_kill \<Rightarrow> persisted_devices \<Rightarrow> spend_witness" where
  "liveWitness k s =
     \<lparr>wt_killed = lk_isKilled k, wt_killEpoch = lk_killEpoch k, wt_bootstrapGeneration = pd_bootstrapGeneration s,
      wt_activeDeviceCount = int (active_count (pd_devices s)), wt_deviceStanding = (\<lambda>d g. Some (standing s d g))\<rparr>"

datatype invite_issuer = BootstrapIssuer string | DeviceIssuer string

record mint_request =
  mr_inviteId :: string
  mr_tokenHash :: string
  mr_deviceName :: string
  mr_challenge :: string
  mr_assertionChallenge :: string
  mr_issuer :: invite_issuer

datatype mint_error =
    MintUnusable
  | MintMalformedKill
  | MintIssuerNotEnrolled
  | MintOwnerCeiling
  | MintHandleNotSaved string
  | MintHandleUnproven string
  | MintRefused register_error

definition issuer_facts :: "persisted_devices \<Rightarrow> invite_issuer \<Rightarrow> (invite_origin \<times> string) option" where
  "issuer_facts s i =
     (case i of
        BootstrapIssuer ownerId \<Rightarrow> Some (BootstrapOrigin (pd_bootstrapGeneration s), ownerId)
      | DeviceIssuer deviceId \<Rightarrow>
          (case map_of (pd_devices s) deviceId of
             None \<Rightarrow> None
           | Some d \<Rightarrow>
               if en_revokedAt d \<noteq> None then None
               else Some (DeviceOrigin (en_deviceId d) (en_generation d), en_ownerId d)))"

definition ensureOwnerUserId ::
  "'f device_store \<Rightarrow> (string list \<Rightarrow> string) \<Rightarrow> string \<Rightarrow> persisted_devices \<Rightarrow> 'f registry \<Rightarrow> 'f registry \<times> (mint_error + string)" where
  "ensureOwnerUserId st pick ownerId s r =
     (case map_of (pd_owners s) ownerId of
        Some userId \<Rightarrow> (r, Inr userId)
      | None \<Rightarrow>
          if MAX_OWNERS \<le> length (pd_owners s) then (r, Inl MintOwnerCeiling)
          else
            let userId = pick (map snd (pd_owners s));
                next = s\<lparr>pd_owners := object_order (pd_owners s @ [(ownerId, userId)])\<rparr>
            in (case ds_save st (re_world r) next of
                  (w, SaveThrew e) \<Rightarrow> (r\<lparr>re_world := w\<rparr>, Inl (MintHandleNotSaved e))
                | (w, SaveNotDurable e) \<Rightarrow>
                    (quarantine (''owner user-handle publish durability UNPROVEN: '' @ e) (r\<lparr>re_world := w\<rparr>),
                     Inl (MintHandleUnproven e))
                | (w, SaveDurable) \<Rightarrow> (r\<lparr>re_world := w, re_state := Some next\<rparr>, Inr userId)))"

definition mintInvite ::
  "'f device_store \<Rightarrow> (string list \<Rightarrow> string) \<Rightarrow> int \<Rightarrow> live_kill \<Rightarrow> mint_request \<Rightarrow> 'f registry \<Rightarrow>
     'f registry \<times> (mint_error + invite)" where
  "mintInvite st pick now kill req r =
     (case re_state r of
        None \<Rightarrow> (r, Inl MintUnusable)
      | Some s \<Rightarrow>
          if killStateIsMalformed kill then (r, Inl MintMalformedKill)
          else
            (case issuer_facts s (mr_issuer req) of
               None \<Rightarrow> (r, Inl MintIssuerNotEnrolled)
             | Some (origin, ownerId) \<Rightarrow>
                 (case ensureOwnerUserId st pick ownerId s r of
                    (r1, Inl e) \<Rightarrow> (r1, Inl e)
                  | (r1, Inr _) \<Rightarrow>
                      (case re_state r1 of
                         None \<Rightarrow> (r1, Inl MintUnusable)
                       | Some s1 \<Rightarrow>
                           let draft = \<lparr>iv_inviteId = mr_inviteId req, iv_tokenHash = mr_tokenHash req, iv_ownerId = ownerId,
                                 iv_deviceName = mr_deviceName req, iv_challenge = mr_challenge req,
                                 iv_assertionChallenge = mr_assertionChallenge req, iv_killEpoch = lk_killEpoch kill,
                                 iv_expiresAt = 0, iv_origin = origin\<rparr>;
                               (invites, result) =
                                 register_invite DEFAULT_TTL_MS DEFAULT_MAX now draft (liveWitness kill s1) (re_invites r1)
                           in (r1\<lparr>re_invites := invites\<rparr>, case result of Inl e \<Rightarrow> Inl (MintRefused e) | Inr iv \<Rightarrow> Inr iv)))))"

datatype commit_outcome = CommitOk enrolled_record | CommitRefused string bool

definition admitted :: "string \<Rightarrow> int \<Rightarrow> invite \<Rightarrow> enrolled_credential \<Rightarrow> string \<Rightarrow> enrolled_record" where
  "admitted deviceId now iv c spki =
     \<lparr>en_deviceId = deviceId, en_ownerId = iv_ownerId iv, en_deviceName = iv_deviceName iv,
      en_credentialId = ec_credentialId c, en_publicKeySpki = ec_publicKeySpki c, en_cheapLaneKeySpki = spki,
      en_signCount = int (ec_signCount c), en_transports = ec_transports c, en_userHandle = ec_userHandle c,
      en_generation = 1, en_revokedAt = None, en_enrolledAt = NInt now\<rparr>"

definition with_admitted :: "invite \<Rightarrow> enrolled_record \<Rightarrow> persisted_devices \<Rightarrow> persisted_devices" where
  "with_admitted iv d s =
     s\<lparr>pd_bootstrapGeneration := (if is_bootstrap iv then pd_bootstrapGeneration s + 1 else pd_bootstrapGeneration s),
       pd_devices := object_order (pd_devices s @ [(en_deviceId d, d)])\<rparr>"

definition already_enrolled :: "enrolled_credential \<Rightarrow> string \<Rightarrow> device_table \<Rightarrow> string option" where
  "already_enrolled c spki ds =
     (case find (\<lambda>e. en_credentialId (snd e) = ec_credentialId c \<or> en_cheapLaneKeySpki (snd e) = spki) ds of
        None \<Rightarrow> None
      | Some e \<Rightarrow>
          if en_credentialId (snd e) = ec_credentialId c then
            Some ''this WebAuthn credential was already enrolled here - re-enrolment requires fresh keys''
          else Some ''this cheap-lane key was already enrolled here - re-enrolment requires fresh keys'')"

text \<open>\<open>fresh_id\<close> gives a random device id that is not among the ids given.\<close>

definition commitEnrollment ::
  "key_ops \<Rightarrow> 'f device_store \<Rightarrow> (string list \<Rightarrow> string) \<Rightarrow> relying_party \<Rightarrow> int \<Rightarrow> json \<Rightarrow> live_kill \<Rightarrow> 'f registry \<Rightarrow>
     'f registry \<times> commit_outcome" where
  "commitEnrollment ko st fresh_id rp now submission kill r =
     (case re_state r of
        None \<Rightarrow>
          (r, CommitRefused (''enrolled-device registry is not usable'' @
                (case re_corruptDetail r of None \<Rightarrow> [] | Some d \<Rightarrow> '': '' @ d) @ '' - nothing enrolls'') True)
      | Some s \<Rightarrow>
          if killStateIsMalformed kill then
            (r, CommitRefused ''malformed live kill state - nothing enrolls unproven (fail closed)'' True)
          else if MAX_ACTIVE_DEVICES \<le> active_count (pd_devices s) then
            (r, CommitRefused (''device ceiling reached ('' @ show_nat MAX_ACTIVE_DEVICES @
                  '') - revoke before enrolling more'') True)
          else
            (case performEnrollment ko rp now submission (liveWitness kill s) (re_invites r) of
               (invites, EnrollmentRefused e survives) \<Rightarrow> (r\<lparr>re_invites := invites\<rparr>, CommitRefused e survives)
             | (invites, EnrollmentOk iv c spki) \<Rightarrow>
                 let r1 = r\<lparr>re_invites := invites\<rparr> in
                 (case already_enrolled c spki (pd_devices s) of
                    Some e \<Rightarrow> (r1, CommitRefused e False)
                  | None \<Rightarrow>
                      let d = admitted (fresh_id (map_keys (pd_devices s) @ FORBIDDEN_DEVICE_IDS)) now iv c spki;
                          next = with_admitted iv d s
                      in (case ds_save st (re_world r1) next of
                            (w, SaveThrew e) \<Rightarrow>
                              (r1\<lparr>re_world := w\<rparr>,
                               CommitRefused (''enrollment not admitted: durable registry publish FAILED ('' @ e @
                                 '') - the invite is spent, mint a new one'') False)
                          | (w, SaveNotDurable e) \<Rightarrow>
                              (quarantine (''enrollment publish durability UNPROVEN: '' @ e) (r1\<lparr>re_world := w\<rparr>),
                               CommitRefused (''enrollment not admitted: durable registry publish UNPROVEN ('' @ e @
                                 '') - registry quarantined until recovery, the invite is spent'') False)
                          | (w, SaveDurable) \<Rightarrow> (r1\<lparr>re_world := w, re_state := Some next\<rparr>, CommitOk d)))))"

section \<open>The registry as a machine\<close>

datatype registry_event =
    Restart
  | Initialize "string list \<Rightarrow> string"
  | RevokeDevice string int
  | MintDevice "string list \<Rightarrow> string" int live_kill mint_request
  | CommitDevice "string list \<Rightarrow> string" relying_party int json live_kill
  | PeekDevice int string

fun registry_step :: "key_ops \<Rightarrow> 'f device_store \<Rightarrow> 'f registry \<Rightarrow> registry_event \<Rightarrow> 'f registry" where
  "registry_step ko st r Restart = new_registry (re_world r)"
| "registry_step ko st r (Initialize pick) = fst (initialize st pick r)"
| "registry_step ko st r (RevokeDevice i revokedAt) = fst (revoke_device st i revokedAt r)"
| "registry_step ko st r (MintDevice pick now kill req) = fst (mintInvite st pick now kill req r)"
| "registry_step ko st r (CommitDevice fresh rp now v kill) = fst (commitEnrollment ko st fresh rp now v kill r)"
| "registry_step ko st r (PeekDevice now i) = fst (peekInvite now i r)"

section \<open>What the file promises\<close>

definition device_ok :: "key_ops \<Rightarrow> string \<Rightarrow> enrolled_record \<Rightarrow> bool" where
  "device_ok ko k d \<longleftrightarrow>
     en_deviceId d = k \<and> short_text 128 k \<and> k \<notin> set FORBIDDEN_DEVICE_IDS \<and> short_text 256 (en_ownerId d) \<and>
     short_text 200 (en_deviceName d) \<and> isCanonicalB64url 1 1024 (en_credentialId d) \<and>
     real_key ko (en_publicKeySpki d) \<and> real_key ko (en_cheapLaneKeySpki d) \<and> 0 \<le> en_signCount d \<and> 1 \<le> en_generation d"

text \<open>
  A state the strict reading could have returned: no id, credential or cheap-lane key twice in the
  whole history, at most 64 active devices, and a handle of its own for every owner of a device.
\<close>

definition devices_ok :: "key_ops \<Rightarrow> persisted_devices \<Rightarrow> bool" where
  "devices_ok ko s \<longleftrightarrow>
     1 \<le> pd_bootstrapGeneration s \<and> distinct (map_keys (pd_devices s)) \<and>
     (\<forall>(k, d) \<in> set (pd_devices s). device_ok ko k d \<and> en_ownerId d \<in> set (map_keys (pd_owners s))) \<and>
     distinct (map (\<lambda>e. en_credentialId (snd e)) (pd_devices s)) \<and>
     distinct (map (\<lambda>e. en_cheapLaneKeySpki (snd e)) (pd_devices s)) \<and>
     active_count (pd_devices s) \<le> MAX_ACTIVE_DEVICES \<and>
     distinct (map_keys (pd_owners s)) \<and> distinct (map snd (pd_owners s)) \<and> length (pd_owners s) \<le> MAX_OWNERS"

section \<open>States the program writes\<close>

text \<open>
  What every state has that the program itself made: its tables are in the order of an object's
  properties, a device stands in its first generation and is revoked into its second, and the
  bootstrap generation counts at most the enrolments.  So its numbers are safe integers.
\<close>

definition device_tidy :: "enrolled_record \<Rightarrow> bool" where
  "device_tidy d \<longleftrightarrow>
     en_generation d = (if en_revokedAt d = None then 1 else 2) \<and> is_safe_int (en_signCount d) \<and>
     (case en_revokedAt d of None \<Rightarrow> True | Some n \<Rightarrow> num_ok n) \<and> num_ok (en_enrolledAt d)"

definition table_tidy :: "int \<Rightarrow> device_table \<Rightarrow> bool" where
  "table_tidy g ds \<longleftrightarrow>
     1 \<le> g \<and> g \<le> 1 + int (length ds) \<and> distinct (map_keys ds) \<and> object_order ds = ds \<and> list_all (\<lambda>e. device_tidy (snd e)) ds"

definition tidy :: "persisted_devices \<Rightarrow> bool" where
  "tidy s \<longleftrightarrow>
     table_tidy (pd_bootstrapGeneration s) (pd_devices s) \<and> distinct (map_keys (pd_owners s)) \<and>
     object_order (pd_owners s) = pd_owners s"

definition MAX_ENROLLED_DEVICES_FILE_BYTES :: nat where
  "MAX_ENROLLED_DEVICES_FILE_BYTES = 512 * 1024"

definition compact :: "device_table \<Rightarrow> bool" where
  "compact ds \<longleftrightarrow> length ds \<le> MAX_ENROLLED_DEVICES_FILE_BYTES"

definition room_for_one :: "persisted_devices \<Rightarrow> bool" where
  "room_for_one s \<longleftrightarrow> length (pd_devices s) \<le> Suc MAX_ENROLLED_DEVICES_FILE_BYTES"

text \<open>A call whose clock reads a safe integer and whose random ids are new.\<close>

fun event_ok :: "registry_event \<Rightarrow> bool" where
  "event_ok (RevokeDevice i revokedAt) \<longleftrightarrow> is_safe_int revokedAt"
| "event_ok (CommitDevice fresh rp now v kill) \<longleftrightarrow> is_safe_int now \<and> (\<forall>ids. fresh ids \<notin> set ids)"
| "event_ok _ \<longleftrightarrow> True"

lemma object_order_map_values:
  "object_order (map (\<lambda>kv. (fst kv, f kv)) kvs) = map (\<lambda>kv. (fst kv, f kv)) (object_order kvs)"
  by (simp add: object_order_def filter_map sort_key_map comp_def)

lemma tidy_with_device:
  assumes "tidy s" and "map_of (pd_devices s) i = Some d" and "en_revokedAt d = None" and "is_safe_int t"
  shows "tidy (with_device i (d\<lparr>en_revokedAt := Some (NInt t), en_generation := en_generation d + 1\<rparr>) s)"
proof -
  let ?d = "d\<lparr>en_revokedAt := Some (NInt t), en_generation := en_generation d + 1\<rparr>"
  have eq: "map (\<lambda>e. if fst e = i then (i, ?d) else e) ds = map (\<lambda>e. (fst e, if fst e = i then ?d else snd e)) ds" for ds
    by (rule map_cong) auto
  have "device_tidy d" using assms(1) map_of_SomeD[OF assms(2)] by (auto simp: tidy_def table_tidy_def list_all_iff)
  then have "device_tidy ?d" using assms(3,4) by (simp add: device_tidy_def)
  with assms(1) show ?thesis
    by (auto simp: tidy_def table_tidy_def with_device_def eq object_order_map_values map_keys_def comp_def list_all_iff)
qed

lemma with_device_length [simp]: "length (pd_devices (with_device i d s)) = length (pd_devices s)"
  by (simp add: with_device_def)

lemma tidy_with_admitted:
  assumes "tidy s" and "device_tidy d" and "en_deviceId d \<notin> set (map_keys (pd_devices s))"
  shows "tidy (with_admitted iv d s)"
  using assms by (auto simp: tidy_def table_tidy_def with_admitted_def object_order_idem list_all_iff map_keys_def intro!: distinct_keys_object_order[unfolded map_keys_def])

lemma tidy_with_owner:
  assumes "tidy s" and "k \<notin> set (map_keys (pd_owners s))"
  shows "tidy (s\<lparr>pd_owners := object_order (pd_owners s @ [(k, u)])\<rparr>)"
  using assms by (auto simp: tidy_def object_order_idem map_keys_def intro!: distinct_keys_object_order[unfolded map_keys_def])

lemma handles_for_distinct: "distinct (map_keys owners) \<Longrightarrow> distinct (map_keys (handles_for pick ds owners))"
  by (induction pick ds owners rule: handles_for.induct) (auto simp: map_keys_def)

lemma tidy_migrated: "table_tidy g ds \<Longrightarrow> tidy (migrated pick g ds)"
  by (simp add: tidy_def migrated_def object_order_idem handles_for_distinct map_keys_def[of "[]"])

lemma tidy_first: "tidy \<lparr>pd_bootstrapGeneration = 1, pd_devices = [], pd_owners = []\<rparr>"
  by (simp add: tidy_def table_tidy_def map_keys_def)

text \<open>A signature counter comes from four bytes.\<close>

lemma enrolled_sign_count:
  assumes "performEnrollment ko rp now v w st = (st', EnrollmentOk iv c spki)"
  shows "is_safe_int (int (ec_signCount c))"
proof -
  from performEnrollment_ok[OF assms] obtain sb where "ceremony_proofs ko rp sb iv = Inr (c, spki)" .
  then obtain a ao where "verifyOwnerAssertion ko a ao = AssertionOk (ec_signCount c)"
    by (auto simp: ceremony_proofs_def split: if_split_asm sum.split_asm option.split_asm prod.split_asm assertion_verdict.split_asm)
  from accepted_counter[OF this] show ?thesis by (simp add: is_safe_int_def MAX_SAFE_INTEGER_def)
qed

text \<open>
  The history of a state goes on in a later one: every device is still there under the same keys and
  owner, a revoked one still revoked and no generation lower; every handle is unchanged.
\<close>

definition goes_on :: "persisted_devices \<Rightarrow> persisted_devices \<Rightarrow> bool" where
  "goes_on s s' \<longleftrightarrow>
     pd_bootstrapGeneration s \<le> pd_bootstrapGeneration s' \<and>
     (\<forall>k d. map_of (pd_devices s) k = Some d \<longrightarrow>
        (\<exists>d'. map_of (pd_devices s') k = Some d' \<and> en_credentialId d' = en_credentialId d \<and>
           en_publicKeySpki d' = en_publicKeySpki d \<and>
           en_cheapLaneKeySpki d' = en_cheapLaneKeySpki d \<and> en_ownerId d' = en_ownerId d \<and>
           en_generation d \<le> en_generation d' \<and> (en_revokedAt d \<noteq> None \<longrightarrow> en_revokedAt d' = en_revokedAt d))) \<and>
     (\<forall>k u. map_of (pd_owners s) k = Some u \<longrightarrow> map_of (pd_owners s') k = Some u)"

lemma goes_on_refl [simp]: "goes_on s s"
  by (simp add: goes_on_def)

lemma goes_on_trans: "goes_on s t \<Longrightarrow> goes_on t u \<Longrightarrow> goes_on s u"
  unfolding goes_on_def by (intro conjI allI impI) (fastforce dest: order.trans)+

section \<open>The promise of the file\<close>

text \<open>
  The file as the registry relies on it: \<open>current\<close> is the state a reader of the world would find and
  \<open>old\<close> the table of a file of the version before owners.  A save that returns has made it the saved
  state, which is in shape and fits the file; one that throws has not touched it; a load answers
  with it or not at all.
\<close>

locale device_store_contract =
  fixes ko :: key_ops and st :: "'f device_store" and current :: "'f \<Rightarrow> persisted_devices option"
    and old :: "'f \<Rightarrow> (int \<times> device_table) option"
  assumes saved: "tidy s \<Longrightarrow> room_for_one s \<Longrightarrow> ds_save st w s = (w', out) \<Longrightarrow> (\<forall>e. out \<noteq> SaveThrew e) \<Longrightarrow>
        current w' = Some s \<and> old w' = None \<and> devices_ok ko s \<and> compact (pd_devices s)"
    and untouched: "ds_save st w s = (w', SaveThrew e) \<Longrightarrow> current w' = current w \<and> old w' = old w"
    and load_keeps: "current (fst (ds_load st w)) = current w \<and> old (fst (ds_load st w)) = old w"
    and loaded: "snd (ds_load st w) = DevicesLoaded s \<Longrightarrow> current w = Some s \<and> devices_ok ko s"
    and absent: "snd (ds_load st w) = DevicesAbsent \<Longrightarrow> current w = None \<and> old w = None"
    and legacy: "snd (ds_load st w) = DevicesLegacy g ds \<Longrightarrow> current w = None \<and> old w = Some (g, ds)"
begin

text \<open>What lies in the file is one of the states the program makes; the registry serves exactly it.\<close>

definition clean :: "'f \<Rightarrow> bool" where
  "clean w \<longleftrightarrow> (\<forall>s. current w = Some s \<longrightarrow> tidy s \<and> compact (pd_devices s)) \<and>
     (\<forall>g ds. old w = Some (g, ds) \<longrightarrow> table_tidy g ds \<and> compact ds)"

definition serves :: "'f registry \<Rightarrow> bool" where
  "serves r \<longleftrightarrow> clean (re_world r) \<and>
     (case re_state r of None \<Rightarrow> True | Some s \<Rightarrow> current (re_world r) = Some s \<and> devices_ok ko s)"

lemma save_cases:
  assumes "clean w" and "tidy s" and "room_for_one s" and "ds_save st w s = (w', out)"
  obtains (threw) e where "out = SaveThrew e" "clean w'" "current w' = current w"
  | (landed) "\<forall>e. out \<noteq> SaveThrew e" "clean w'" "current w' = Some s" "devices_ok ko s"
proof (cases out)
  case (SaveThrew e)
  with untouched assms have "current w' = current w \<and> old w' = old w" by blast
  with SaveThrew assms(1) show thesis by (intro threw) (auto simp: clean_def)
qed (use saved[OF assms(2,3,4)] assms(2) in \<open>auto simp: clean_def intro!: landed\<close>)

lemma served:
  assumes "serves r" and "re_state r = Some s"
  shows "tidy s" "compact (pd_devices s)" "current (re_world r) = Some s" "clean (re_world r)" "devices_ok ko s"
  using assms by (auto simp: serves_def clean_def)

lemma room_for_served: "serves r \<Longrightarrow> re_state r = Some s \<Longrightarrow> length (pd_devices s') \<le> Suc (length (pd_devices s)) \<Longrightarrow>
    room_for_one s'"
  using served(2)[of r s] by (simp add: room_for_one_def compact_def)

text \<open>One call leaves what the file holds alone or lets its history go on.\<close>

definition continued :: "'f registry \<Rightarrow> 'f registry \<Rightarrow> bool" where
  "continued r r' \<longleftrightarrow>
     (\<forall>s. current (re_world r) = Some s \<longrightarrow> (\<exists>s'. current (re_world r') = Some s' \<and> goes_on s s'))"

text \<open>Both at once: the registry goes on serving the file, and its history.\<close>

definition sound :: "'f registry \<Rightarrow> 'f registry \<Rightarrow> bool" where
  "sound r r' \<longleftrightarrow> serves r' \<and> continued r r'"

lemma sound_same: "serves r \<Longrightarrow> re_world r' = re_world r \<Longrightarrow> re_state r' = re_state r \<Longrightarrow> sound r r'"
  by (auto simp: sound_def serves_def continued_def split: option.split)

lemma sound_dropped: "clean (re_world r') \<Longrightarrow> current (re_world r') = current (re_world r) \<Longrightarrow> re_state r' = None \<Longrightarrow> sound r r'"
  by (auto simp: sound_def serves_def continued_def)

text \<open>A save of a state that goes on from the served one, and what the registry may do with its outcome.\<close>

lemma sound_save:
  assumes "serves r" and "re_state r = Some s" and "tidy s'" and "length (pd_devices s') \<le> Suc (length (pd_devices s))"
    and "ds_save st (re_world r) s' = (w, out)" and "devices_ok ko s' \<Longrightarrow> goes_on s s'" and "re_world r' = w"
    and "re_state r' = None \<or> (\<exists>e. out = SaveThrew e) \<and> re_state r' = Some s \<or> (\<forall>e. out \<noteq> SaveThrew e) \<and> re_state r' = Some s'"
  shows "sound r r'"
proof -
  note sv = served[OF assms(1,2)]
  note room = room_for_served[OF assms(1,2,4)]
  from sv(4) assms(3) room assms(5) show ?thesis
  proof (cases rule: save_cases)
    case (threw e)
    with assms(7,8) sv show ?thesis by (auto simp: sound_def serves_def continued_def)
  next
    case landed
    with assms(6,7,8) sv show ?thesis by (auto simp: sound_def serves_def continued_def)
  qed
qed

lemma first_publish_sound:
  assumes "clean (re_world r)" and "current (re_world r) = None" and "tidy s" and "room_for_one s"
  shows "sound r (fst (first_publish st a b s r))"
proof -
  obtain w out where o: "ds_save st (re_world r) s = (w, out)" by fastforce
  from assms(1,3,4) o show ?thesis
  proof (cases rule: save_cases)
    case (threw e)
    with o assms show ?thesis
      by (auto simp: first_publish_def Let_def sound_def serves_def continued_def quarantine_def)
  next
    case landed
    with o assms show ?thesis
      by (cases out) (auto simp: first_publish_def Let_def sound_def serves_def continued_def quarantine_def adopt_def)
  qed
qed

lemma initialize_sound: "clean (re_world r) \<Longrightarrow> sound r (fst (initialize st pick r))"
proof -
  assume c: "clean (re_world r)"
  obtain w l where l: "ds_load st (re_world r) = (w, l)" by fastforce
  have k: "current w = current (re_world r)" "old w = old (re_world r)" using load_keeps[of "re_world r"] l by auto
  with c have cw: "clean w" by (simp add: clean_def)
  have at_w: "sound r r' = sound (r\<lparr>re_world := w\<rparr>) r'" for r' using k by (simp add: sound_def continued_def)
  show ?thesis
  proof (cases l)
    case DevicesAbsent
    with absent[of "re_world r"] l k have "current w = None" by simp
    from first_publish_sound[OF _ _ tidy_first, of "r\<lparr>re_world := w\<rparr>"] cw this show ?thesis
      by (simp add: initialize_def l DevicesAbsent at_w room_for_one_def)
  next
    case (DevicesLoaded s)
    with loaded[of "re_world r" s] l k cw show ?thesis
      by (auto simp: initialize_def adopt_def sound_def serves_def continued_def)
  next
    case (DevicesLegacy g ds)
    with legacy[of "re_world r" g ds] l k have w: "current w = None" "old w = Some (g, ds)" by auto
    with cw have "table_tidy g ds" "compact ds" by (auto simp: clean_def)
    then have "tidy (migrated pick g ds)" "room_for_one (migrated pick g ds)"
      by (auto dest: tidy_migrated simp: room_for_one_def compact_def migrated_def)
    from first_publish_sound[OF _ _ this, of "r\<lparr>re_world := w\<rparr>"] cw w show ?thesis
      by (auto simp: initialize_def l DevicesLegacy at_w Let_def intro!: sound_dropped simp: quarantine_def)
  qed (use cw k l in \<open>auto simp: initialize_def quarantine_def intro!: sound_dropped\<close>)
qed

lemma map_of_with_device:
  "map_of (pd_devices (with_device i d s)) k = (if k = i then map_option (\<lambda>_. d) (map_of (pd_devices s) i) else map_of (pd_devices s) k)"
proof -
  have "map_of (map (\<lambda>e. if fst e = i then (i, d) else e) ds) k =
      (if k = i then map_option (\<lambda>_. d) (map_of ds i) else map_of ds k)" for ds
    by (induction ds) auto
  then show ?thesis by (simp add: with_device_def)
qed

lemma with_device_keeps [simp]:
  "pd_bootstrapGeneration (with_device i d s) = pd_bootstrapGeneration s" "pd_owners (with_device i d s) = pd_owners s"
  by (simp_all add: with_device_def)

lemma goes_on_with_device:
  assumes "map_of (pd_devices s) i = Some d" and "en_revokedAt d = None"
  shows "goes_on s (with_device i (d\<lparr>en_revokedAt := x, en_generation := en_generation d + 1\<rparr>) s)"
  using assms by (auto simp: goes_on_def map_of_with_device)

lemma map_of_ordered: "distinct (map_keys (object_order m)) \<Longrightarrow> map_of (object_order m) = map_of m"
  by (metis card_distinct distinct_card length_map length_object_order map_keys_def map_of_object_order set_keys_object_order)

lemma goes_on_with_admitted: "devices_ok ko (with_admitted iv d s) \<Longrightarrow> goes_on s (with_admitted iv d s)"
  by (auto simp: goes_on_def with_admitted_def devices_ok_def map_of_ordered map_add_def)

lemma goes_on_with_owner:
  "devices_ok ko (s\<lparr>pd_owners := object_order (pd_owners s @ [x])\<rparr>) \<Longrightarrow>
     goes_on s (s\<lparr>pd_owners := object_order (pd_owners s @ [x])\<rparr>)"
  by (auto simp: goes_on_def devices_ok_def map_of_ordered map_add_def)

lemma revoke_sound:
  assumes r: "serves r" and t: "is_safe_int t"
  shows "sound r (fst (revoke_device st i t r))"
proof (cases "re_state r")
  case (Some s)
  show ?thesis
  proof (cases "map_of (pd_devices s) i")
    case (Some d)
    show ?thesis
    proof (cases "en_revokedAt d")
      case None
      let ?next = "with_device i (d\<lparr>en_revokedAt := Some (NInt t), en_generation := en_generation d + 1\<rparr>) s"
      obtain w out where o: "ds_save st (re_world r) ?next = (w, out)" by fastforce
      note go = sound_save[OF r \<open>re_state r = Some s\<close> tidy_with_device[OF served(1)[OF r \<open>re_state r = Some s\<close>] Some None t] _ o
          goes_on_with_device[OF Some None]]
      show ?thesis
        using o \<open>re_state r = Some s\<close> Some None
        by (cases out) (auto simp: revoke_device_def Let_def quarantine_def intro!: go)
    qed (use \<open>re_state r = Some s\<close> Some r in \<open>simp add: revoke_device_def sound_same\<close>)
  qed (use \<open>re_state r = Some s\<close> r in \<open>simp add: revoke_device_def sound_same\<close>)
qed (use r in \<open>simp add: revoke_device_def sound_same\<close>)

lemma ensure_sound:
  assumes r: "serves r" and s: "re_state r = Some s"
  shows "sound r (fst (ensureOwnerUserId st pick owner s r))"
proof (cases "map_of (pd_owners s) owner")
  case None
  let ?next = "s\<lparr>pd_owners := object_order (pd_owners s @ [(owner, pick (map snd (pd_owners s)))])\<rparr>"
  obtain w out where o: "ds_save st (re_world r) ?next = (w, out)" by fastforce
  from None have "owner \<notin> set (map_keys (pd_owners s))" by (simp add: set_map_keys domIff)
  note go = sound_save[OF r s tidy_with_owner[OF served(1)[OF r s] this] _ o goes_on_with_owner]
  show ?thesis
    using o None r s
    by (cases out) (auto simp: ensureOwnerUserId_def Let_def quarantine_def sound_same intro!: go)
qed (use r in \<open>simp add: ensureOwnerUserId_def sound_same\<close>)

lemma sound_invites [simp]: "sound r (r'\<lparr>re_invites := i\<rparr>) = sound r r'"
  by (simp add: sound_def serves_def continued_def split: option.split)

lemma mint_sound:
  assumes r: "serves r"
  shows "sound r (fst (mintInvite st pick now kill req r))"
proof (cases "re_state r")
  case (Some s)
  have e: "ensureOwnerUserId st pick owner s r = (r1, x) \<Longrightarrow> sound r r1" for owner r1 x
    using ensure_sound[OF r Some, of pick owner] by simp
  show ?thesis
    using r Some by (auto simp: mintInvite_def Let_def sound_same dest: e split: option.split prod.split sum.split)
qed (use r in \<open>simp add: mintInvite_def sound_same\<close>)

lemma device_tidy_admitted:
  "is_safe_int now \<Longrightarrow> is_safe_int (int (ec_signCount c)) \<Longrightarrow> device_tidy (admitted i now iv c spki)"
  by (simp add: device_tidy_def admitted_def)

lemma commit_sound:
  assumes r: "serves r" and now: "is_safe_int now" and fresh: "\<forall>ids. fresh ids \<notin> set ids"
  shows "sound r (fst (commitEnrollment ko st fresh rp now v kill r))"
proof (cases "re_state r")
  case (Some s)
  have g: "sound r r'"
    if p: "performEnrollment ko rp now v (liveWitness kill s) (re_invites r) = (i, EnrollmentOk iv c spki)"
      and o: "ds_save st (re_world r) (with_admitted iv (admitted (fresh (map_keys (pd_devices s) @ FORBIDDEN_DEVICE_IDS)) now iv c spki) s) = (w, out)"
      and r': "re_world r' = w" "re_state r' = None \<or> (\<exists>e. out = SaveThrew e) \<and> re_state r' = Some s \<or> (\<forall>e. out \<noteq> SaveThrew e) \<and>
        re_state r' = Some (with_admitted iv (admitted (fresh (map_keys (pd_devices s) @ FORBIDDEN_DEVICE_IDS)) now iv c spki) s)"
    for i iv c spki w out r'
  proof -
    let ?d = "admitted (fresh (map_keys (pd_devices s) @ FORBIDDEN_DEVICE_IDS)) now iv c spki"
    have "device_tidy ?d" using now enrolled_sign_count[OF p] by (rule device_tidy_admitted)
    moreover have "en_deviceId ?d \<notin> set (map_keys (pd_devices s))"
      using fresh[rule_format, of "map_keys (pd_devices s) @ FORBIDDEN_DEVICE_IDS"] by (simp add: admitted_def)
    ultimately have "tidy (with_admitted iv ?d s)" by (rule tidy_with_admitted[OF served(1)[OF r Some]])
    from sound_save[OF r Some this _ o goes_on_with_admitted r'] show ?thesis by (simp add: with_admitted_def)
  qed
  show ?thesis
    using r Some unfolding commitEnrollment_def
    by (auto simp: Let_def sound_same quarantine_def intro: g
        split: option.split prod.split save_outcome.split enrollment_outcome.split)
qed (use r in \<open>simp add: commitEnrollment_def sound_same\<close>)

lemma registry_step_sound: "serves r \<Longrightarrow> event_ok e \<Longrightarrow> sound r (registry_step ko st r e)"
proof (cases e)
  case Restart
  then show "serves r \<Longrightarrow> ?thesis" by (auto simp: new_registry_def serves_def intro!: sound_dropped)
qed (auto simp: initialize_sound revoke_sound mint_sound commit_sound peekInvite_def sound_same serves_def[of r] split: prod.split)

lemma registry_run_sound:
  assumes "serves r" and "list_all event_ok es"
  shows "serves (foldl (registry_step ko st) r es)"
  using assms by (induction es arbitrary: r) (auto dest: registry_step_sound simp: sound_def)

lemma registry_run_continued:
  assumes "serves r" and "list_all event_ok es" and "current (re_world r) = Some s"
  shows "\<exists>s'. current (re_world (foldl (registry_step ko st) r es)) = Some s' \<and> goes_on s s'"
  using assms
proof (induction es arbitrary: r s)
  case (Cons e es)
  from Cons.prems have st: "serves (registry_step ko st r e)" "continued r (registry_step ko st r e)"
    using registry_step_sound[of r e] by (auto simp: sound_def)
  with Cons.prems(3) obtain s1 where "current (re_world (registry_step ko st r e)) = Some s1" "goes_on s s1"
    by (auto simp: continued_def)
  with Cons.IH[OF st(1)] Cons.prems(2) show ?case by (auto intro: goes_on_trans)
qed auto

lemma new_registry_serves: "clean w \<Longrightarrow> serves (new_registry w)"
  by (simp add: serves_def new_registry_def)

text \<open>A device reported revoked stands in no later state, whatever happens, restarts included.\<close>

lemma revoked_for_good:
  assumes "serves r" and "is_safe_int t" and "revoke_device st i t r = (r', out)"
    and "out = Revoked g \<or> out = AlreadyRevoked g" and "list_all event_ok es"
    and "re_state (foldl (registry_step ko st) r' es) = Some s"
  shows "\<not> standing s i gen"
proof -
  have r': "serves r'" using revoke_sound[OF assms(1,2), of i] assms(3) by (simp add: sound_def)
  from assms(3,4) obtain s0 d where d: "re_state r' = Some s0" "map_of (pd_devices s0) i = Some d" "en_revokedAt d \<noteq> None"
    by (auto simp: revoke_device_def Let_def map_of_with_device
        split: option.split_asm prod.split_asm if_split_asm save_outcome.split_asm)
  from registry_run_continued[OF r' assms(5) served(3)[OF r' d(1)]] served(3)[OF registry_run_sound[OF r' assms(5)] assms(6)]
  have "goes_on s0 s" by auto
  with d(2,3) show ?thesis by (fastforce simp: goes_on_def standing_def)
qed

end

end
