(* ===== verification/DevicesFile.thy ===== *)
theory DevicesFile
  imports EnrolledDevices OwnedFiles
begin

text \<open>
  The file of the registry, the class \<open>EnrolledDeviceFileStore\<close> of
  \<open>packages/control-plane/src/enrolled-devices.ts\<close>: the pinned directory, the marker with its exact
  note, the strict load that ends with a durability barrier, and the save that validates its own
  bytes.  It interprets \<open>device_store_contract\<close> over \<open>OwnedFiles\<close>, so what the registry relies on
  is proved of the file.  The text of a platform error is \<open>err\<close>.  A marker cannot appear between
  the check and the create, as one process owns the directory.
\<close>

section \<open>The JSON of a state\<close>

definition optional_field :: "string \<Rightarrow> json option \<Rightarrow> (string \<times> json) list" where
  "optional_field k v = (case v of None \<Rightarrow> [] | Some j \<Rightarrow> [(k, j)])"

definition device_json :: "enrolled_record \<Rightarrow> json" where
  "device_json d =
     JObj ([(''deviceId'', JStr (en_deviceId d)), (''ownerId'', JStr (en_ownerId d)), (''deviceName'', JStr (en_deviceName d)),
            (''credentialId'', JStr (en_credentialId d)), (''publicKeySpki'', JStr (en_publicKeySpki d)),
            (''cheapLaneKeySpki'', JStr (en_cheapLaneKeySpki d)), (''signCount'', JNum (NInt (en_signCount d)))] @
           optional_field ''transports'' (map_option (\<lambda>ts. JArr (map JStr ts)) (en_transports d)) @
           optional_field ''userHandle'' (map_option JStr (en_userHandle d)) @
           [(''generation'', JNum (NInt (en_generation d))),
            (''revokedAt'', case en_revokedAt d of None \<Rightarrow> JNull | Some n \<Rightarrow> JNum n), (''enrolledAt'', JNum (en_enrolledAt d))])"

definition table_json :: "device_table \<Rightarrow> (string \<times> json) list" where
  "table_json ds = map (\<lambda>e. (fst e, device_json (snd e))) ds"

definition owners_json :: "(string \<times> string) list \<Rightarrow> (string \<times> json) list" where
  "owners_json os = map (\<lambda>e. (fst e, JObj [(''userId'', JStr (snd e))])) os"

definition devices_json :: "persisted_devices \<Rightarrow> json" where
  "devices_json s =
     JObj [(''version'', JNum (NInt 2)), (''bootstrapGeneration'', JNum (NInt (pd_bootstrapGeneration s))),
           (''devices'', JObj (table_json (pd_devices s))), (''owners'', JObj (owners_json (pd_owners s)))]"

definition devices_text :: "persisted_devices \<Rightarrow> string" where
  "devices_text s = json_pretty (devices_json s) @ [CHR 0x0A]"

section \<open>Place and marker\<close>

record file_place =
  fp_path :: string
  fp_dirPath :: string
  fp_dev :: nat
  fp_ino :: nat
  fp_trusted :: "nat list"
  fp_process :: os_process

definition MARKER_NOTE :: string where
  "MARKER_NOTE =
     ''This marker records that the OwnerSwitch enrolled-device registry has been written.'' @ [CHR 0x0A] @
     ''While it exists, a missing registry file loads as CORRUPT (no enrollment, no witness).'' @ [CHR 0x0A]"

definition MAX_MARKER_BYTES :: nat where "MAX_MARKER_BYTES = 4096"

definition markerPath :: "file_place \<Rightarrow> string" where
  "markerPath pl = fp_path pl @ ''.initialized''"

fun show_octal :: "nat \<Rightarrow> string" where
  "show_octal n = (if n < 8 then [digit_char n] else show_octal (n div 8) @ [digit_char (n mod 8)])"

declare show_octal.simps [simp del]

definition dirIdentityViolation :: "file_place \<Rightarrow> string \<Rightarrow> owned_disk \<Rightarrow> owned_disk \<times> string option" where
  "dirIdentityViolation pl err dk =
     on_call dk
       (\<lambda>dk1. (dk1, Some (''registry directory '' @ quoted (fp_dirPath pl) @ '' is gone: '' @ err)))
       (\<lambda>dk1. (dk1,
          if od_dir dk1 = DirGone then Some (''registry directory '' @ quoted (fp_dirPath pl) @ '' is gone: '' @ err)
          else if od_dir dk1 = DirIs (fp_dev pl) (fp_ino pl) then None
          else Some (''registry directory '' @ quoted (fp_dirPath pl) @
            '' is not the directory this store was opened with - the namespace was swapped'')))"

definition leafViolation :: "file_place \<Rightarrow> leaf \<Rightarrow> string \<Rightarrow> string option" where
  "leafViolation pl lf what =
     (case lf of
        LeafFile f \<Rightarrow>
          if of_uid f \<notin> set (fp_trusted pl) then
            Some (what @ '' is owned by uid '' @ show_nat (of_uid f) @
              '' - not root, this process, or a configured trusted uid'')
          else if of_mode f AND 4095 \<noteq> 384 then
            Some (what @ '' has mode '' @ show_octal (of_mode f AND 4095) @
              '' - this registry is private to the control plane, EXACTLY 0600'')
          else None
      | _ \<Rightarrow> Some (what @ '' is not a regular file''))"

datatype marker_state = MarkerAbsent | MarkerValid | MarkerCorrupt string

definition markerState :: "file_place \<Rightarrow> string \<Rightarrow> owned_disk \<Rightarrow> owned_disk \<times> marker_state" where
  "markerState pl err dk =
     on_call dk (\<lambda>dk1. (dk1, MarkerCorrupt (''cannot open '' @ markerPath pl @ '': '' @ err))) (\<lambda>dk1.
     case od_marker dk1 of
       None \<Rightarrow> (dk1, MarkerAbsent)
     | Some (LeafLink _) \<Rightarrow> (dk1, MarkerCorrupt (markerPath pl @ '' is a symlink - refusing to follow it''))
     | Some lf \<Rightarrow>
         on_call dk1 (\<lambda>dk2. (dk2, MarkerCorrupt (''cannot stat '' @ markerPath pl @ '': '' @ err))) (\<lambda>dk2.
         case leafViolation pl lf (markerPath pl) of
           Some violation \<Rightarrow> (dk2, MarkerCorrupt violation)
         | None \<Rightarrow>
             (case lf of
                LeafFile f \<Rightarrow>
                  if MAX_MARKER_BYTES < byte_length (of_text f) then
                    (dk2, MarkerCorrupt (markerPath pl @ '' is '' @ show_nat (byte_length (of_text f)) @
                       '' bytes - not the marker this store writes''))
                  else
                    (case read_whole MAX_MARKER_BYTES (byte_length (of_text f)) 0 dk2 of
                       (dk3, WholeFile) \<Rightarrow>
                         if of_text f \<noteq> MARKER_NOTE then
                           (dk3, MarkerCorrupt (markerPath pl @ '' does not carry this store's marker note''))
                         else (dk3, MarkerValid)
                     | (dk3, _) \<Rightarrow> (dk3, MarkerCorrupt (''cannot stat '' @ markerPath pl @ '': '' @ err)))
              | _ \<Rightarrow> (dk2, MarkerCorrupt (markerPath pl @ '' is not a regular file'')))))"

text \<open>\<open>Inl\<close> where it throws; otherwise whether the marker is durable.\<close>

definition ensure_marker :: "file_place \<Rightarrow> string \<Rightarrow> owned_disk \<Rightarrow> owned_disk \<times> (string + bool)" where
  "ensure_marker pl err dk =
     (case markerState pl err dk of
        (dk1, MarkerValid) \<Rightarrow> (dk1, Inr True)
      | (dk1, MarkerCorrupt d) \<Rightarrow> (dk1, Inl (''marker unusable: '' @ d))
      | (dk1, MarkerAbsent) \<Rightarrow>
          (case create_marker (fp_process pl) 384 None MARKER_NOTE dk1 of
             (dk2, False) \<Rightarrow> (dk2, Inl err)
           | (dk2, True) \<Rightarrow> (let (dk3, ok) = fsync_dir dk2 in (dk3, Inr ok))))"

section \<open>Loading\<close>

definition read_state :: "file_place \<Rightarrow> string \<Rightarrow> marker_state \<Rightarrow> owned_disk \<Rightarrow> owned_disk \<times> (devices_load + string)" where
  "read_state pl err marker dk =
     (let cannot_read = Inl (DevicesCorrupt (''cannot read '' @ fp_path pl @ '': '' @ err)) in
     on_call dk (\<lambda>dk1. (dk1, cannot_read)) (\<lambda>dk1.
     case od_state dk1 of
       None \<Rightarrow>
         (dk1,
          if marker = MarkerValid then
            Inl (DevicesCorrupt (fp_path pl @ '' is missing but the store is initialised ('' @ markerPath pl @
              '' exists) - deleting the registry must not un-enroll silently''))
          else Inl DevicesAbsent)
     | Some (LeafLink _) \<Rightarrow> (dk1, Inl (DevicesCorrupt (fp_path pl @ '' is a symlink - refusing to follow it'')))
     | Some lf \<Rightarrow>
         on_call dk1 (\<lambda>dk2. (dk2, cannot_read)) (\<lambda>dk2.
         case leafViolation pl lf (fp_path pl) of
           Some violation \<Rightarrow> (dk2, Inl (DevicesCorrupt violation))
         | None \<Rightarrow>
             (case lf of
                LeafFile f \<Rightarrow>
                  (case read_whole MAX_ENROLLED_DEVICES_FILE_BYTES (byte_length (of_text f)) 0 dk2 of
                     (dk3, ReadError) \<Rightarrow> (dk3, cannot_read)
                   | (dk3, OverLimit) \<Rightarrow>
                       (dk3, Inl (DevicesCorrupt (fp_path pl @ '' exceeds the '' @ show_nat MAX_ENROLLED_DEVICES_FILE_BYTES @
                          ''-byte registry limit - refusing to read it'')))
                   | (dk3, WholeFile) \<Rightarrow>
                       on_call dk3
                         (\<lambda>dk4. (dk4, Inl (DevicesCorrupt (fp_path pl @ '' is visible but cannot be fsynced ('' @ err @
                            '') - refusing to serve a state a power cut may undo''))))
                         (\<lambda>dk4. (dk4, Inr (of_text f))))
              | _ \<Rightarrow> (dk2, cannot_read)))))"

definition state_of :: "key_ops \<Rightarrow> json \<Rightarrow> devices_load option" where
  "state_of ko v =
     (case asPersistedEnrolledDevices ko v of
        Some s \<Rightarrow> Some (DevicesLoaded s)
      | None \<Rightarrow> (case asLegacyV1 ko v of None \<Rightarrow> None | Some (g, ds) \<Rightarrow> Some (DevicesLegacy g ds)))"

definition load_devices :: "key_ops \<Rightarrow> file_place \<Rightarrow> string \<Rightarrow> owned_disk \<Rightarrow> owned_disk \<times> devices_load" where
  "load_devices ko pl err dk =
     (case dirIdentityViolation pl err dk of
        (dk1, Some d) \<Rightarrow> (dk1, DevicesCorrupt d)
      | (dk1, None) \<Rightarrow>
          (case markerState pl err dk1 of
             (dk2, MarkerCorrupt d) \<Rightarrow> (dk2, DevicesCorrupt d)
           | (dk2, marker) \<Rightarrow>
               (case read_state pl err marker dk2 of
                  (dk3, Inl out) \<Rightarrow> (dk3, out)
                | (dk3, Inr raw) \<Rightarrow>
                    (case json_parse raw of
                       None \<Rightarrow> (dk3, DevicesCorrupt (''cannot parse '' @ fp_path pl @ '': '' @ err))
                     | Some v \<Rightarrow>
                         (case state_of ko v of
                            None \<Rightarrow> (dk3, DevicesCorrupt (''unexpected shape in '' @ fp_path pl))
                          | Some out \<Rightarrow>
                              (case (if marker = MarkerAbsent then ensure_marker pl err dk3 else (dk3, Inr True)) of
                                 (dk4, Inl e) \<Rightarrow>
                                   (dk4, DevicesCorrupt (''registry state exists but its marker cannot be established: '' @ e))
                               | (dk4, Inr False) \<Rightarrow>
                                   (dk4, DevicesCorrupt (''registry state exists but its marker could not be established '' @
                                      ''DURABLY (fsync failed)''))
                               | (dk4, Inr True) \<Rightarrow>
                                   (case fsync_dir dk4 of
                                      (dk5, True) \<Rightarrow> (dk5, out)
                                    | (dk5, False) \<Rightarrow>
                                        (dk5, DevicesCorrupt (''the directory entry for '' @ fp_path pl @
                                           '' could not be fsynced - the visible registry is UNPROVEN and will not be '' @
                                           ''served (a power cut could resurface older state)'')))))))))"

section \<open>Saving\<close>

definition save_devices :: "key_ops \<Rightarrow> file_place \<Rightarrow> string \<Rightarrow> owned_disk \<Rightarrow> persisted_devices \<Rightarrow> owned_disk \<times> save_outcome" where
  "save_devices ko pl err dk s =
     (case dirIdentityViolation pl err dk of
        (dk1, Some d) \<Rightarrow> (dk1, SaveThrew (''refusing to publish: '' @ d))
      | (dk1, None) \<Rightarrow>
          let body = devices_text s in
          if MAX_ENROLLED_DEVICES_FILE_BYTES < byte_length body then
            (dk1, SaveThrew (''refusing to publish: serialized registry is '' @ show_nat (byte_length body) @
               '' bytes, over the '' @ show_nat MAX_ENROLLED_DEVICES_FILE_BYTES @ ''-byte load limit''))
          else if Option.bind (json_parse body) (asPersistedEnrolledDevices ko) = None then
            (dk1, SaveThrew (''refusing to publish: the serialized registry does not satisfy the loader's schema - '' @
               ''a publish the next restart would refuse is not a publish''))
          else
            (case ensure_marker pl err dk1 of
               (dk2, Inl e) \<Rightarrow> (dk2, SaveThrew e)
             | (dk2, Inr markerDurable) \<Rightarrow>
                 (case publish_file (fp_process pl) 384 None body dk2 of
                    (dk3, False) \<Rightarrow> (dk3, SaveThrew err)
                  | (dk3, True) \<Rightarrow>
                      (let (dk4, dirDurable) = fsync_dir dk3 in
                       (dk4,
                        if markerDurable \<and> dirDurable then SaveDurable
                        else SaveNotDurable (''the directory entry for '' @ fp_path pl @ '' could not be fsynced - '' @
                          ''the new registry is visible but a power cut may resurface the previous one''))))))"

definition devices_store :: "key_ops \<Rightarrow> file_place \<Rightarrow> string \<Rightarrow> owned_disk device_store" where
  "devices_store ko pl err = \<lparr>ds_load = load_devices ko pl err, ds_save = save_devices ko pl err\<rparr>"

section \<open>What the bytes say\<close>

lemma plain_names [simp]:
  "\<not> array_index_key ''bootstrapGeneration''" "\<not> array_index_key ''devices''" "\<not> array_index_key ''owners''"
  "\<not> array_index_key ''userId''" "\<not> array_index_key ''deviceId''" "\<not> array_index_key ''ownerId''"
  "\<not> array_index_key ''deviceName''" "\<not> array_index_key ''credentialId''" "\<not> array_index_key ''publicKeySpki''"
  "\<not> array_index_key ''cheapLaneKeySpki''" "\<not> array_index_key ''signCount''" "\<not> array_index_key ''transports''"
  "\<not> array_index_key ''userHandle''" "\<not> array_index_key ''generation''" "\<not> array_index_key ''revokedAt''"
  "\<not> array_index_key ''enrolledAt''"
  by (simp_all add: array_index_key_def is_digit_def code_unit_def)

lemma device_json_ok: "device_tidy d \<Longrightarrow> json_ok (device_json d)"
  by (auto simp: device_json_def device_tidy_def map_keys_def optional_field_def object_order_plain is_safe_int_def
      MAX_SAFE_INTEGER_def list_all_iff split: option.split)

lemma is_safe_small: "0 \<le> n \<Longrightarrow> n \<le> 9007199254740991 \<Longrightarrow> is_safe_int n"
  by (simp add: is_safe_int_def MAX_SAFE_INTEGER_def)

lemma devices_json_ok:
  assumes "tidy s" and "room_for_one s"
  shows "json_ok (devices_json s)"
proof -
  have keys: "map_keys (table_json ds) = map_keys ds" "map_keys (owners_json os) = map_keys os" for ds os
    by (simp_all add: table_json_def owners_json_def map_keys_def comp_def)
  have user: "json_ok (JObj [(''userId'', JStr u)])" for u by (simp add: map_keys_def object_order_plain)
  have "is_safe_int (pd_bootstrapGeneration s)"
    using assms by (intro is_safe_small) (auto simp: tidy_def table_tidy_def room_for_one_def MAX_ENROLLED_DEVICES_FILE_BYTES_def)
  moreover have "json_ok (JObj (table_json (pd_devices s)))"
    using assms(1) by (auto simp: keys tidy_def table_tidy_def table_json_def object_order_map list_all_iff device_json_ok)
  moreover have "json_ok (JObj (owners_json (pd_owners s)))"
    using assms(1) unfolding json_ok.simps(3) keys
    by (auto simp: tidy_def owners_json_def object_order_map_values list_all_iff user simp del: json_ok.simps)
  ultimately show ?thesis
    by (simp add: devices_json_def map_keys_def object_order_plain is_safe_small)
qed

text \<open>A device is read back from its JSON or refused, never as another one.\<close>

lemma string_where_str [simp]: "string_where P (Some (JStr s)) = (if P s then Some s else None)"
  by (simp add: string_where_def)

lemma transport_list_json: "transport_list (Some (JArr (map JStr ts))) \<in> {None, Some ts}"
proof -
  have "those (map (\<lambda>t. string_where P (Some t)) (map JStr xs)) \<in> {None, Some xs}" for P xs
    by (induction xs) (auto simp: option.map_sel split: option.splits)
  then show ?thesis by (simp add: transport_list_def)
qed

lemma device_fields:
  "own_field ''deviceId'' (device_json d) = Some (JStr (en_deviceId d))"
  "own_field ''ownerId'' (device_json d) = Some (JStr (en_ownerId d))"
  "own_field ''deviceName'' (device_json d) = Some (JStr (en_deviceName d))"
  "own_field ''credentialId'' (device_json d) = Some (JStr (en_credentialId d))"
  "own_field ''publicKeySpki'' (device_json d) = Some (JStr (en_publicKeySpki d))"
  "own_field ''cheapLaneKeySpki'' (device_json d) = Some (JStr (en_cheapLaneKeySpki d))"
  "own_field ''signCount'' (device_json d) = Some (JNum (NInt (en_signCount d)))"
  "own_field ''transports'' (device_json d) = map_option (\<lambda>ts. JArr (map JStr ts)) (en_transports d)"
  "own_field ''userHandle'' (device_json d) = map_option JStr (en_userHandle d)"
  "own_field ''generation'' (device_json d) = Some (JNum (NInt (en_generation d)))"
  "own_field ''revokedAt'' (device_json d) = Some (case en_revokedAt d of None \<Rightarrow> JNull | Some n \<Rightarrow> JNum n)"
  "own_field ''enrolledAt'' (device_json d) = Some (JNum (en_enrolledAt d))"
  "is_plain_object (device_json d)"
  "only_keys DEVICE_KEYS (device_json d)"
  by (simp_all add: device_json_def optional_field_def only_keys_def DEVICE_KEYS_def split: option.split)

lemma integer_from_int [simp]:
  "integer_from low (Some (JNum (NInt i))) = (if is_safe_int i \<and> low \<le> i then Some i else None)"
  by (simp add: integer_from_def)

lemma absent_or_transports:
  "absent_or transport_list (map_option (\<lambda>ts. JArr (map JStr ts)) x) \<in> {None, Some x}"
  using transport_list_json by (cases x) (auto simp: absent_or_def)

lemma absent_or_string: "absent_or (string_where P) (map_option JStr x) \<in> {None, Some x}"
  by (cases x) (auto simp: absent_or_def)

lemma revoked_at_json: "revoked_at (Some (case x of None \<Rightarrow> JNull | Some n \<Rightarrow> JNum n)) \<in> {None, Some x}"
  by (cases x) (auto simp: revoked_at_def finite_number_def)

lemma finite_number_json: "finite_number (Some (JNum n)) \<in> {None, Some n}"
  by (simp add: finite_number_def)

lemma device_of_json:
  assumes "device_of ko k (device_json d) = Some d'"
  shows "d' = d"
  using assms absent_or_transports[of "en_transports d"] absent_or_string[of "isCanonicalB64url 1 64" "en_userHandle d"]
    revoked_at_json[of "en_revokedAt d"] finite_number_json[of "en_enrolledAt d"]
  by (cases d) (auto simp: device_of_def device_fields split: if_split_asm option.split_asm)

lemma devices_of_json: "devices_of ko creds lanes (table_json ds) = Some ds' \<Longrightarrow> ds' = ds"
proof (induction ds arbitrary: creds lanes ds')
  case (Cons e ds)
  then show ?case
    by (auto simp: table_json_def split: option.split_asm if_split_asm dest: device_of_json)
qed (simp add: table_json_def)

lemma owners_of_json: "owners_of taken (owners_json os) = Some os' \<Longrightarrow> os' = os"
  by (induction os arbitrary: taken os') (auto simp: owners_json_def split: option.split_asm if_split_asm)

text \<open>What the strict reading accepts of the JSON of a state is that state.\<close>

lemma persisted_json:
  assumes "asPersistedEnrolledDevices ko (devices_json s) = Some s'"
  shows "s' = s"
proof -
  have o: "own_field ''owners'' (devices_json s) = Some (JObj (owners_json (pd_owners s)))" by (simp add: devices_json_def)
  from assms obtain g ds os where c: "registry_core ko (devices_json s) = Some (g, ds)"
      "owners_of [] (owners_json (pd_owners s)) = Some os"
      "s' = \<lparr>pd_bootstrapGeneration = g, pd_devices = ds, pd_owners = os\<rparr>"
    unfolding asPersistedEnrolledDevices_def o by (auto split: if_split_asm option.split_asm prod.split_asm)
  from c(1) have "g = pd_bootstrapGeneration s" "devices_of ko [] [] (table_json (pd_devices s)) = Some ds"
    by (auto simp: registry_core_def devices_json_def split: option.split_asm if_split_asm)
  with devices_of_json owners_of_json[OF c(2)] c(3) show ?thesis by simp
qed

text \<open>Whatever text it comes from, an accepted state is in shape.\<close>

lemma device_of_ok: "device_of ko k v = Some d \<Longrightarrow> device_ok ko k d"
  by (auto simp: device_of_def device_ok_def string_where_def integer_from_def
      split: if_split_asm option.split_asm json.split_asm)

lemma devices_of_ok:
  "devices_of ko creds lanes kvs = Some ds \<Longrightarrow>
     map_keys ds = map_keys kvs \<and>
     (\<forall>(k, d) \<in> set ds. device_ok ko k d \<and> en_credentialId d \<notin> set creds \<and> en_cheapLaneKeySpki d \<notin> set lanes) \<and>
     distinct (map (\<lambda>e. en_credentialId (snd e)) ds) \<and> distinct (map (\<lambda>e. en_cheapLaneKeySpki (snd e)) ds)"
proof (induction kvs arbitrary: creds lanes ds)
  case (Cons e kvs)
  obtain k v where e: "e = (k, v)" by fastforce
  from Cons.prems[unfolded e] obtain d rest where d: "device_of ko k v = Some d"
      "en_credentialId d \<notin> set creds" "en_cheapLaneKeySpki d \<notin> set lanes" "ds = (k, d) # rest"
      "devices_of ko (en_credentialId d # creds) (en_cheapLaneKeySpki d # lanes) kvs = Some rest"
    by (auto split: option.split_asm if_split_asm)
  from device_of_ok[OF d(1)] Cons.IH[OF d(5)] d(2-4) show ?case by (fastforce simp: e map_keys_def)
qed (simp add: map_keys_def)

lemma owners_of_ok:
  "owners_of taken kvs = Some os \<Longrightarrow>
     map_keys os = map_keys kvs \<and> (\<forall>e \<in> set os. snd e \<notin> set taken) \<and> distinct (map snd os)"
proof (induction kvs arbitrary: taken os)
  case (Cons e kvs)
  obtain k v where e: "e = (k, v)" by fastforce
  from Cons.prems[unfolded e] obtain u rest where r: "u \<notin> set taken" "os = (k, u) # rest"
      "owners_of (u # taken) kvs = Some rest"
    by (auto split: option.split_asm if_split_asm)
  from Cons.IH[OF r(3)] r(1,2) show ?case by (auto simp: e map_keys_def)
qed (simp add: map_keys_def)

lemma own_field_keys_ok: "keys_ok v \<Longrightarrow> own_field k v = Some j \<Longrightarrow> keys_ok j"
  by (cases v) (fastforce simp: list_all_iff dest!: map_of_SomeD)+

lemma persisted_ok:
  assumes "asPersistedEnrolledDevices ko v = Some s" and "keys_ok v"
  shows "devices_ok ko s"
proof -
  from assms(1) obtain g ds okvs os where c: "registry_core ko v = Some (g, ds)" "own_field ''owners'' v = Some (JObj okvs)"
      "owners_of [] okvs = Some os" "length os \<le> MAX_OWNERS" "\<not> list_ex (\<lambda>e. en_ownerId (snd e) \<notin> set (map_keys os)) ds"
      "s = \<lparr>pd_bootstrapGeneration = g, pd_devices = ds, pd_owners = os\<rparr>"
    unfolding asPersistedEnrolledDevices_def by (auto split: if_split_asm option.split_asm prod.split_asm json.split_asm)
  from c(1) obtain kvs where k: "1 \<le> g" "own_field ''devices'' v = Some (JObj kvs)" "devices_of ko [] [] kvs = Some ds"
      "active_count ds \<le> MAX_ACTIVE_DEVICES"
    by (auto simp: registry_core_def integer_from_def split: option.split_asm if_split_asm json.split_asm)
  from own_field_keys_ok[OF assms(2) k(2)] own_field_keys_ok[OF assms(2) c(2)]
  have "distinct (map_keys kvs)" "distinct (map_keys okvs)" by simp_all
  with devices_of_ok[OF k(3)] owners_of_ok[OF c(3)] c(4-6) k(1,4) show ?thesis
    by (auto simp: devices_ok_def list_ex_iff)
qed

lemma devices_text_parses:
  "tidy s \<Longrightarrow> room_for_one s \<Longrightarrow> json_parse (devices_text s) = Some (devices_json s)"
  unfolding devices_text_def using devices_json_ok by (simp add: json_parse_pretty is_ws_def)

text \<open>A text of the right size says at most so many devices.\<close>

lemma sum_list_member: "x \<in> set xs \<Longrightarrow> f x \<le> sum_list (map f xs)" for f :: "'a \<Rightarrow> nat"
  by (induction xs) auto

lemma need_member: "(k, v) \<in> set kvs \<Longrightarrow> need v \<le> need (JObj kvs)"
  using sum_list_member[of "(k, v)" kvs "\<lambda>p. Suc (need (snd p))"] by simp

lemma need_members: "length kvs \<le> need (JObj kvs)"
  by (induction kvs) auto

lemma devices_text_length: "tidy s \<Longrightarrow> room_for_one s \<Longrightarrow> length (pd_devices s) \<le> byte_length (devices_text s)"
proof -
  assume s: "tidy s" "room_for_one s"
  have "length (pd_devices s) \<le> need (JObj (table_json (pd_devices s)))"
    using need_members[of "table_json (pd_devices s)"] by (simp add: table_json_def)
  also have "\<dots> \<le> need (devices_json s)" unfolding devices_json_def by (rule need_member[of "''devices''"]) simp
  also have "\<dots> \<le> length (json_pretty (devices_json s))"
    using need_le_printed[OF devices_json_ok[OF s]] by (simp add: json_pretty_def)
  also have "\<dots> \<le> length (devices_text s)" by (simp add: devices_text_def)
  also have "\<dots> \<le> byte_length (devices_text s)"
  proof -
    have "length t \<le> byte_length t" for t by (induction t) (auto simp: byte_length_def)
    then show ?thesis .
  qed
  finally show ?thesis .
qed

section \<open>What the steps do to the file\<close>

text \<open>The marker and the state on the way: only \<open>rename\<close> touches the state.\<close>

definition same_state :: "owned_disk \<Rightarrow> owned_disk \<Rightarrow> bool" where
  "same_state dk dk' \<longleftrightarrow> od_dir dk' = od_dir dk \<and> od_state dk' = od_state dk"

lemma same_state_leaves: "same_leaves dk dk' \<Longrightarrow> same_state dk dk'"
  by (simp add: same_leaves_def same_state_def)

lemma same_state_trans: "same_state a b \<Longrightarrow> same_state b c \<Longrightarrow> same_state a c"
  by (simp add: same_state_def)

lemma dirIdentityViolation_same: "same_leaves dk (fst (dirIdentityViolation pl err dk))"
  unfolding dirIdentityViolation_def by (rule on_call_rule) auto

lemma markerState_same: "same_leaves dk (fst (markerState pl err dk))"
  unfolding markerState_def
proof (rule on_call_rule, simp, goal_cases)
  case (1 dk1)
  have "same_leaves dk1 (fst (on_call dk1 (\<lambda>dk2. (dk2, MarkerCorrupt (a dk2))) (\<lambda>dk2. case leafViolation pl lf p of
      Some violation \<Rightarrow> (dk2, MarkerCorrupt violation)
    | None \<Rightarrow> (case lf of LeafFile f \<Rightarrow>
        if MAX_MARKER_BYTES < byte_length (of_text f) then (dk2, b f)
        else (case read_whole MAX_MARKER_BYTES (byte_length (of_text f)) 0 dk2 of
            (dk3, WholeFile) \<Rightarrow> if of_text f \<noteq> MARKER_NOTE then (dk3, c) else (dk3, MarkerValid) | (dk3, _) \<Rightarrow> (dk3, d))
      | _ \<Rightarrow> (dk2, e)))))" for lf a b c d e p
    by (rule on_call_rule, simp)
       (auto split: option.split leaf.split prod.split read_end.split dest!: read_whole_rule intro: same_leaves_trans)
  with 1(1) show ?case by (auto split: option.split leaf.split intro: same_leaves_trans)
qed

lemma ensure_marker_state: "same_state dk (fst (ensure_marker pl err dk))"
proof -
  obtain dk1 m where m: "markerState pl err dk = (dk1, m)" by fastforce
  obtain dk2 ok where c: "create_marker (fp_process pl) 384 None MARKER_NOTE dk1 = (dk2, ok)" by fastforce
  from markerState_same[of dk pl err] m have 1: "same_state dk dk1" by (auto intro: same_state_leaves)
  from create_marker_rule[of dk1 "fp_process pl" 384 None MARKER_NOTE] c have 2: "same_state dk1 dk2"
    by (simp add: same_state_def)
  from fsync_dir_rule[of dk2] have 3: "same_state dk2 (fst (fsync_dir dk2))" by (auto intro: same_state_leaves)
  from m c 1 2 3 show ?thesis
    by (cases m) (auto simp: ensure_marker_def split: prod.split bool.split intro: same_state_trans)
qed

lemma read_state_effect:
  assumes "read_state pl err marker dk = (dk', r)"
  shows "same_leaves dk dk' \<and>
     (case r of
        Inr raw \<Rightarrow> \<exists>f. od_state dk = Some (LeafFile f) \<and> of_text f = raw \<and> leafViolation pl (LeafFile f) (fp_path pl) = None \<and>
          byte_length raw \<le> MAX_ENROLLED_DEVICES_FILE_BYTES
      | Inl out \<Rightarrow> (\<exists>e. out = DevicesCorrupt e) \<or> out = DevicesAbsent \<and> od_state dk = None \<and> marker \<noteq> MarkerValid)"
  (is "?P dk' r")
proof -
  let ?Q = "\<lambda>x. ?P (fst x) (snd x)"
  have "?Q (read_state pl err marker dk)"
    unfolding read_state_def Let_def
  proof (rule on_call_rule, simp, goal_cases)
    case (1 dk1)
    then have s1: "same_leaves dk dk1" by simp
    show ?case
    proof (cases "od_state dk1")
      case None
      with s1 show ?thesis by auto
    next
      case (Some lf)
      show ?thesis
      proof (cases "leafViolation pl lf (fp_path pl)")
        case None
        then obtain f where f: "lf = LeafFile f" by (auto simp: leafViolation_def split: leaf.split_asm)
        show ?thesis
          unfolding Some f option.case leaf.case None[unfolded f]
        proof (rule on_call_rule, goal_cases)
          case (2 dk2)
          obtain dk3 e where rd: "read_whole MAX_ENROLLED_DEVICES_FILE_BYTES (byte_length (of_text f)) 0 dk2 = (dk3, e)"
            by fastforce
          from read_whole_rule[OF rd] s1 2(1) have s3: "same_leaves dk dk3"
              "e = WholeFile \<longrightarrow> byte_length (of_text f) \<le> MAX_ENROLLED_DEVICES_FILE_BYTES"
            by (auto intro: same_leaves_trans)
          have f': "od_state dk = Some (LeafFile f)" using Some f s1 by auto
          show ?case
          proof (cases e)
            case WholeFile
            show ?thesis
              unfolding rd WholeFile prod.case read_end.case
              by (rule on_call_rule) (use s3 f' WholeFile None f in \<open>auto intro: same_leaves_trans\<close>)
          qed (use rd s3 in auto)
        qed (use s1 in \<open>auto intro: same_leaves_trans\<close>)
      next
        case (Some v)
        note here = \<open>od_state dk1 = Some lf\<close>
        have "?Q (on_call dk1 (\<lambda>dk2. (dk2, Inl (DevicesCorrupt a))) (\<lambda>dk2. (dk2, Inl (DevicesCorrupt v))))" for a
          by (rule on_call_rule) (use s1 in \<open>auto intro: same_leaves_trans\<close>)
        with s1 Some show ?thesis unfolding here option.case by (cases lf) simp_all
      qed
    qed
  qed
  with assms show ?thesis by simp
qed

text \<open>What a reader of the bytes would find, whoever owns them.\<close>

definition state_text :: "owned_disk \<Rightarrow> string option" where
  "state_text dk = (case od_state dk of Some (LeafFile f) \<Rightarrow> Some (of_text f) | _ \<Rightarrow> None)"

definition file_current :: "key_ops \<Rightarrow> owned_disk \<Rightarrow> persisted_devices option" where
  "file_current ko dk = Option.bind (Option.bind (state_text dk) json_parse) (asPersistedEnrolledDevices ko)"

definition file_old :: "key_ops \<Rightarrow> owned_disk \<Rightarrow> (int \<times> device_table) option" where
  "file_old ko dk =
     (if file_current ko dk \<noteq> None then None
      else Option.bind (Option.bind (state_text dk) json_parse) (asLegacyV1 ko))"

lemma same_state_reads:
  "same_state dk dk' \<Longrightarrow> file_current ko dk' = file_current ko dk" "same_state dk dk' \<Longrightarrow> file_old ko dk' = file_old ko dk"
  by (simp_all add: same_state_def file_current_def file_old_def state_text_def)

lemma state_of_says:
  assumes "state_text dk = Some raw" and "json_parse raw = Some v" and "state_of ko v = Some out"
  shows "case out of DevicesLoaded s \<Rightarrow> file_current ko dk = Some s \<and> devices_ok ko s
     | DevicesLegacy g ds \<Rightarrow> file_current ko dk = None \<and> file_old ko dk = Some (g, ds) | _ \<Rightarrow> False"
  using assms persisted_ok[OF _ json_parse_keys_ok[OF assms(2)]]
  by (auto simp: state_of_def file_current_def file_old_def split: option.split_asm)

lemma load_devices_effect:
  assumes "load_devices ko pl err dk = (dk', out)"
  shows "same_state dk dk' \<and>
     (case out of DevicesLoaded s \<Rightarrow> file_current ko dk = Some s \<and> devices_ok ko s
      | DevicesLegacy g ds \<Rightarrow> file_current ko dk = None \<and> file_old ko dk = Some (g, ds)
      | DevicesAbsent \<Rightarrow> od_state dk = None | DevicesCorrupt _ \<Rightarrow> True)"
proof -
  obtain dk1 dv where d: "dirIdentityViolation pl err dk = (dk1, dv)" by fastforce
  obtain dk2 m where m: "markerState pl err dk1 = (dk2, m)" by fastforce
  obtain dk3 rs where r: "read_state pl err m dk2 = (dk3, rs)" by fastforce
  obtain dk4 em where e: "(if m = MarkerAbsent then ensure_marker pl err dk3 else (dk3, Inr True)) = (dk4, em)" by fastforce
  obtain dk5 ok where f: "fsync_dir dk4 = (dk5, ok)" by fastforce
  have 1: "same_state dk dk1" using dirIdentityViolation_same[of dk pl err] d by (auto intro: same_state_leaves)
  have 2: "same_state dk1 dk2" using markerState_same[of dk1 pl err] m by (auto intro: same_state_leaves)
  have 3: "same_state dk2 dk3" using read_state_effect[OF r] by (auto intro: same_state_leaves)
  have 4: "same_state dk3 dk4" using ensure_marker_state[of dk3 pl err] e by (auto simp: same_state_def split: if_split_asm)
  have 5: "same_state dk4 dk5" using fsync_dir_rule[of dk4] f by (auto intro: same_state_leaves)
  note chain = 1 same_state_trans[OF 1 2] same_state_trans[OF same_state_trans[OF 1 2] 3]
    same_state_trans[OF same_state_trans[OF same_state_trans[OF 1 2] 3] 4]
    same_state_trans[OF same_state_trans[OF same_state_trans[OF same_state_trans[OF 1 2] 3] 4] 5]
  show ?thesis
  proof (cases rs)
    case (Inl out')
    from read_state_effect[OF r] Inl have out': "(\<exists>e. out' = DevicesCorrupt e) \<or> out' = DevicesAbsent \<and> od_state dk2 = None" by auto
    have "od_state dk2 = od_state dk" using chain(2) by (simp add: same_state_def)
    with assms d m r Inl out' chain show ?thesis
      by (cases dv; cases m) (auto simp: load_devices_def)
  next
    case (Inr raw)
    from read_state_effect[OF r] Inr chain(2) have raw: "state_text dk = Some raw"
      by (auto simp: state_text_def same_state_def)
    show ?thesis
    proof (cases "Option.bind (json_parse raw) (state_of ko)")
      case None
      then have "json_parse raw = None \<or> (\<exists>v. json_parse raw = Some v \<and> state_of ko v = None)" by (cases "json_parse raw") auto
      with assms d m r Inr chain show ?thesis
        by (cases dv; cases m) (auto simp: load_devices_def)
    next
      case (Some out')
      then obtain v where v: "json_parse raw = Some v" "state_of ko v = Some out'" by (auto simp: bind_eq_Some_conv)
      note says = state_of_says[OF raw v]
      have "out = out' \<and> dk' = dk5 \<or> (\<exists>e. out = DevicesCorrupt e) \<and> same_state dk dk'"
        using assms d m r Inr v e f chain
        by (cases dv; cases m; cases em) (auto simp: load_devices_def split: bool.split_asm)
      with says chain show ?thesis by (auto split: devices_load.split devices_load.split_asm)
    qed
  qed
qed

lemma save_devices_effect:
  assumes "save_devices ko pl err dk s = (dk', out)"
  shows "if \<exists>e. out = SaveThrew e then same_state dk dk'
     else od_dir dk' = od_dir dk \<and> state_text dk' = Some (devices_text s) \<and>
       od_state dk' = Some (LeafFile (published_file (fp_process pl) 384 None (devices_text s))) \<and>
       byte_length (devices_text s) \<le> MAX_ENROLLED_DEVICES_FILE_BYTES \<and>
       Option.bind (json_parse (devices_text s)) (asPersistedEnrolledDevices ko) \<noteq> None"
proof -
  obtain dk1 dv where d: "dirIdentityViolation pl err dk = (dk1, dv)" by fastforce
  obtain dk2 m where m: "ensure_marker pl err dk1 = (dk2, m)" by fastforce
  obtain dk3 ok where p: "publish_file (fp_process pl) 384 None (devices_text s) dk2 = (dk3, ok)" by fastforce
  obtain dk4 fs where f: "fsync_dir dk3 = (dk4, fs)" by fastforce
  have 1: "same_state dk dk1" using dirIdentityViolation_same[of dk pl err] d by (auto intro: same_state_leaves)
  have 2: "same_state dk1 dk2" using ensure_marker_state[of dk1 pl err] m by simp
  have 3: "od_dir dk3 = od_dir dk2" "od_state dk3 = (if ok then Some (LeafFile (published_file (fp_process pl) 384 None (devices_text s))) else od_state dk2)"
    using publish_file_rule[of dk2 "fp_process pl" 384 None "devices_text s"] p by auto
  have 4: "same_state dk3 dk4" using fsync_dir_rule[of dk3] f by (auto intro: same_state_leaves)
  show ?thesis
  proof (cases "dv = None \<and> byte_length (devices_text s) \<le> MAX_ENROLLED_DEVICES_FILE_BYTES \<and>
      Option.bind (json_parse (devices_text s)) (asPersistedEnrolledDevices ko) \<noteq> None \<and> (\<exists>b. m = Inr b) \<and> ok")
    case True
    with assms d m p f have "dk' = dk4" "\<not> (\<exists>e. out = SaveThrew e)"
      by (auto simp: save_devices_def Let_def split: if_split_asm)
    with True 1 2 3 4 show ?thesis by (auto simp: same_state_def state_text_def published_file_def)
  next
    case False
    then have "same_state dk dk' \<and> (\<exists>e. out = SaveThrew e)"
      using assms d m p 1 2 3
      by (cases dv; cases m; cases ok) (auto simp: save_devices_def Let_def same_state_def split: if_split_asm)
    then show ?thesis by auto
  qed
qed

interpretation devices_file: device_store_contract "ko" "devices_store ko pl err" "file_current ko" "file_old ko" for ko pl err
proof (unfold_locales, goal_cases)
  case (1 s w w' out)
  then have e: "save_devices ko pl err w s = (w', out)" by (simp add: devices_store_def)
  from save_devices_effect[OF e] 1(4) have w': "state_text w' = Some (devices_text s)"
      "byte_length (devices_text s) \<le> MAX_ENROLLED_DEVICES_FILE_BYTES"
      "Option.bind (json_parse (devices_text s)) (asPersistedEnrolledDevices ko) \<noteq> None" by auto
  note parses = devices_text_parses[OF 1(1,2)]
  from w'(3) parses obtain s' where s': "asPersistedEnrolledDevices ko (devices_json s) = Some s'" by auto
  from persisted_json[OF this] s' w'(1) parses have c: "file_current ko w' = Some s" by (simp add: file_current_def)
  from persisted_ok[OF s' json_parse_keys_ok[OF parses]] persisted_json[OF s'] have "devices_ok ko s" by simp
  moreover have "compact (pd_devices s)" using devices_text_length[OF 1(1,2)] w'(2) by (simp add: compact_def)
  ultimately show ?case using c by (simp add: file_old_def)
next
  case (2 w s w' e)
  then have "save_devices ko pl err w s = (w', SaveThrew e)" by (simp add: devices_store_def)
  from save_devices_effect[OF this] show ?case by (auto simp: same_state_reads)
next
  case (3 w)
  obtain w' out where l: "load_devices ko pl err w = (w', out)" by fastforce
  from load_devices_effect[OF l] show ?case by (auto simp: devices_store_def l same_state_reads)
next
  case (4 w s)
  obtain w' out where l: "load_devices ko pl err w = (w', out)" by fastforce
  from load_devices_effect[OF l] 4 show ?case by (auto simp: devices_store_def l)
next
  case (5 w)
  obtain w' out where l: "load_devices ko pl err w = (w', out)" by fastforce
  from load_devices_effect[OF l] 5 show ?case by (auto simp: devices_store_def l file_current_def file_old_def state_text_def)
next
  case (6 w g ds)
  obtain w' out where l: "load_devices ko pl err w = (w', out)" by fastforce
  from load_devices_effect[OF l] 6 show ?case by (auto simp: devices_store_def l)
qed

section \<open>When no call fails\<close>

text \<open>The pinned directory with our own files in it, or none.\<close>

definition our_leaf :: "file_place \<Rightarrow> leaf \<Rightarrow> bool" where
  "our_leaf pl lf \<longleftrightarrow> leafViolation pl lf [] = None"

definition in_place :: "file_place \<Rightarrow> owned_disk \<Rightarrow> bool" where
  "in_place pl dk \<longleftrightarrow>
     steady dk \<and> od_dir dk = DirIs (fp_dev pl) (fp_ino pl) \<and> op_uid (fp_process pl) \<in> set (fp_trusted pl) \<and>
     od_marker dk \<in> {None, Some (LeafFile (published_file (fp_process pl) 384 None MARKER_NOTE))} \<and>
     od_state dk \<noteq> Some LeafDirectory"

lemma own_leaf_ok: "in_place pl dk \<Longrightarrow> leafViolation pl (LeafFile (published_file (fp_process pl) 384 None b)) w = None"
  by (simp add: in_place_def leafViolation_def published_file_def)

lemma in_place_same: "in_place pl dk \<Longrightarrow> same_leaves dk dk' \<Longrightarrow> steady dk' \<Longrightarrow> in_place pl dk'"
  by (auto simp: in_place_def same_leaves_def)

lemma place_kept:
  assumes "in_place pl dk"
  obtains dk1 where "dirIdentityViolation pl err dk = (dk1, None)" "in_place pl dk1" "same_leaves dk dk1"
proof -
  have "snd (dirIdentityViolation pl err dk) = None \<and> in_place pl (fst (dirIdentityViolation pl err dk)) \<and>
      same_leaves dk (fst (dirIdentityViolation pl err dk))"
    unfolding dirIdentityViolation_def
    by (rule on_call_rule) (use assms in \<open>auto simp: in_place_def same_leaves_def\<close>)
  then show thesis by (metis prod.collapse that)
qed

lemma marker_note_small: "byte_length MARKER_NOTE \<le> MAX_MARKER_BYTES" "length MARKER_NOTE = byte_length MARKER_NOTE"
  by (simp_all add: MARKER_NOTE_def byte_length_def MAX_MARKER_BYTES_def code_unit_def)

lemma markerState_placed:
  assumes "in_place pl dk"
  obtains dk1 where "markerState pl err dk = (dk1, if od_marker dk = None then MarkerAbsent else MarkerValid)"
    "in_place pl dk1" "same_leaves dk dk1"
proof -
  have "snd (markerState pl err dk) = (if od_marker dk = None then MarkerAbsent else MarkerValid) \<and>
      in_place pl (fst (markerState pl err dk))"
    unfolding markerState_def
  proof (rule on_call_rule, goal_cases)
    case (2 dk1)
    then have i: "in_place pl dk1" "od_marker dk1 = od_marker dk"
      using assms in_place_same[OF assms] by (auto simp: in_place_def)
    show ?case
    proof (cases "od_marker dk")
      case (Some lf)
      with assms have lf: "lf = LeafFile (published_file (fp_process pl) 384 None MARKER_NOTE)" by (simp add: in_place_def)
      show ?thesis
        unfolding i(2) Some option.case lf leaf.case
      proof (rule on_call_rule, goal_cases)
        case (2 dk2)
        have i2: "in_place pl dk2" using in_place_same[OF i(1)] 2 i(1) by (auto simp: in_place_def)
        obtain dk3 e where r: "read_whole MAX_MARKER_BYTES (byte_length MARKER_NOTE) 0 dk2 = (dk3, e)" by fastforce
        from read_whole_rule[OF r] i2 marker_note_small(1) in_place_same[OF i2] have "e = WholeFile" "in_place pl dk3"
          by (auto simp: in_place_def)
        with r marker_note_small(1) show ?case by (simp add: own_leaf_ok[OF i2]) (simp add: published_file_def)
      qed (use i in \<open>simp add: in_place_def\<close>)
    qed (use i in simp)
  qed (use assms in \<open>simp add: in_place_def\<close>)
  then show thesis using markerState_same[of dk pl err] that by (metis prod.collapse)
qed

lemma fsync_placed:
  assumes "in_place pl dk"
  obtains dk' where "fsync_dir dk = (dk', True)" "in_place pl dk'" "od_state dk' = od_state dk" "od_marker dk' = od_marker dk"
proof -
  obtain dk' ok where f: "fsync_dir dk = (dk', ok)" by fastforce
  from fsync_dir_rule[of dk] f assms in_place_same[OF assms, of dk'] that[of dk'] show thesis
    by (auto simp: in_place_def same_leaves_def)
qed

lemma ensure_placed:
  assumes "in_place pl dk"
  obtains dk1 where "ensure_marker pl err dk = (dk1, Inr True)" "in_place pl dk1" "od_state dk1 = od_state dk"
    "od_marker dk1 \<noteq> None"
proof -
  obtain dk1 where m: "markerState pl err dk = (dk1, if od_marker dk = None then MarkerAbsent else MarkerValid)"
      "in_place pl dk1" "same_leaves dk dk1" by (rule markerState_placed[OF assms])
  show thesis
  proof (cases "od_marker dk")
    case None
    obtain dk2 ok where c: "create_marker (fp_process pl) 384 None MARKER_NOTE dk1 = (dk2, ok)" by fastforce
    from create_marker_rule[of dk1 "fp_process pl" 384 None MARKER_NOTE] c m(2)
    have ok: "ok" "in_place pl dk2" "od_state dk2 = od_state dk1" "od_marker dk2 \<noteq> None" by (auto simp: in_place_def)
    obtain dk3 where "fsync_dir dk2 = (dk3, True)" "in_place pl dk3" "od_state dk3 = od_state dk2" "od_marker dk3 = od_marker dk2"
      by (rule fsync_placed[OF ok(2)])
    with m c None ok that[of dk3] same_leavesD[OF m(3)] show thesis by (simp add: ensure_marker_def)
  next
    case (Some x)
    with m that[of dk1] same_leavesD[OF m(3)] show thesis by (simp add: ensure_marker_def)
  qed
qed

lemma save_placed:
  assumes "in_place pl dk" and "byte_length (devices_text s) \<le> MAX_ENROLLED_DEVICES_FILE_BYTES"
    and "Option.bind (json_parse (devices_text s)) (asPersistedEnrolledDevices ko) \<noteq> None"
  obtains dk' where "save_devices ko pl err dk s = (dk', SaveDurable)" "in_place pl dk'"
    "od_state dk' = Some (LeafFile (published_file (fp_process pl) 384 None (devices_text s)))" "od_marker dk' \<noteq> None"
proof -
  obtain dk1 where 1: "dirIdentityViolation pl err dk = (dk1, None)" "in_place pl dk1" by (rule place_kept[OF assms(1)])
  obtain dk2 where 2: "ensure_marker pl err dk1 = (dk2, Inr True)" "in_place pl dk2" "od_marker dk2 \<noteq> None"
    by (rule ensure_placed[OF 1(2)])
  obtain dk3 ok where p: "publish_file (fp_process pl) 384 None (devices_text s) dk2 = (dk3, ok)" by fastforce
  from publish_file_rule[of dk2 "fp_process pl" 384 None "devices_text s"] p 2
  have 3: "ok" "in_place pl dk3" "od_state dk3 = Some (LeafFile (published_file (fp_process pl) 384 None (devices_text s)))"
      "od_marker dk3 \<noteq> None" by (auto simp: in_place_def)
  obtain dk4 where "fsync_dir dk3 = (dk4, True)" "in_place pl dk4" "od_state dk4 = od_state dk3" "od_marker dk4 = od_marker dk3"
    by (rule fsync_placed[OF 3(2)])
  with 1 2 3 p assms(2,3) that[of dk4] show thesis by (simp add: save_devices_def Let_def)
qed

lemma load_placed:
  assumes "in_place pl dk" and "od_state dk = Some (LeafFile (published_file (fp_process pl) 384 None raw))"
    and "byte_length raw \<le> MAX_ENROLLED_DEVICES_FILE_BYTES" and "json_parse raw = Some v" and "state_of ko v = Some out"
  obtains dk' where "load_devices ko pl err dk = (dk', out)" "in_place pl dk'" "od_state dk' = od_state dk"
proof -
  obtain dk1 where 1: "dirIdentityViolation pl err dk = (dk1, None)" "in_place pl dk1" "same_leaves dk dk1"
    by (rule place_kept[OF assms(1)])
  obtain dk2 where 2: "markerState pl err dk1 = (dk2, if od_marker dk1 = None then MarkerAbsent else MarkerValid)"
      "in_place pl dk2" "same_leaves dk1 dk2" by (rule markerState_placed[OF 1(2)])
  let ?m = "if od_marker dk1 = None then MarkerAbsent else MarkerValid"
  have st: "od_state dk2 = Some (LeafFile (published_file (fp_process pl) 384 None raw))" 
    using assms(2) same_leavesD[OF 1(3)] same_leavesD[OF 2(3)] by simp
  have r: "snd (read_state pl err ?m dk2) = Inr raw \<and> in_place pl (fst (read_state pl err ?m dk2))"
    unfolding read_state_def Let_def
  proof (rule on_call_rule, goal_cases)
    case (2 d1)
    then have i1: "in_place pl d1" "od_state d1 = od_state dk2"
      using \<open>in_place pl dk2\<close> in_place_same[OF \<open>in_place pl dk2\<close>] by (auto simp: in_place_def)
    show ?case
      unfolding i1(2) st option.case leaf.case
    proof (rule on_call_rule, goal_cases)
      case (2 d2)
      have i2: "in_place pl d2" using in_place_same[OF i1(1)] 2 i1(1) by (auto simp: in_place_def)
      obtain d3 e where rd: "read_whole MAX_ENROLLED_DEVICES_FILE_BYTES (byte_length raw) 0 d2 = (d3, e)" by fastforce
      from read_whole_rule[OF rd] i2 assms(3) in_place_same[OF i2] have e: "e = WholeFile" "in_place pl d3"
        by (auto simp: in_place_def)
      have raw: "of_text (published_file (fp_process pl) 384 None raw) = raw" by (simp add: published_file_def)
      show ?case
        unfolding own_leaf_ok[OF i2] option.case raw rd e(1) prod.case read_end.case
        by (rule on_call_rule) (use e in_place_same[OF e(2)] in \<open>auto simp: in_place_def\<close>)
    qed (use i1 in \<open>simp add: in_place_def\<close>)
  qed (use 2 in \<open>simp add: in_place_def\<close>)
  then obtain dk3 where 3: "read_state pl err ?m dk2 = (dk3, Inr raw)" "in_place pl dk3" by (metis prod.collapse)
  have s3: "od_state dk3 = od_state dk" using read_state_effect[OF 3(1)] st assms(2) by auto
  obtain dk4 where 4: "(if ?m = MarkerAbsent then ensure_marker pl err dk3 else (dk3, Inr True)) = (dk4, Inr True)"
      "in_place pl dk4" "od_state dk4 = od_state dk3"
  proof (cases "?m = MarkerAbsent")
    case True
    obtain dk4 where "ensure_marker pl err dk3 = (dk4, Inr True)" "in_place pl dk4" "od_state dk4 = od_state dk3"
      by (rule ensure_placed[OF 3(2)])
    with True that show thesis by simp
  qed (use 3 that in simp)
  obtain dk5 where 5: "fsync_dir dk4 = (dk5, True)" "in_place pl dk5" "od_state dk5 = od_state dk4" by (rule fsync_placed[OF 4(2)])
  have "load_devices ko pl err dk = (dk5, out)"
  proof (cases "od_marker dk1")
    case None
    with 1 2 3 4 5(1) assms(4,5) show ?thesis by (auto simp: load_devices_def split: prod.split)
  next
    case (Some x)
    with 1 2 3 4 5(1) assms(4,5) show ?thesis by (auto simp: load_devices_def split: prod.split)
  qed
  with 5 4(3) s3 that show thesis by simp
qed

section \<open>Properties\<close>

text \<open>What was found at the first start, if anything, is a file the program could have written.\<close>

definition own_writing :: "key_ops \<Rightarrow> owned_disk \<Rightarrow> bool" where
  "own_writing ko w \<longleftrightarrow>
     (\<forall>s. file_current ko w = Some s \<longrightarrow> tidy s \<and> compact (pd_devices s)) \<and>
     (\<forall>g ds. file_old ko w = Some (g, ds) \<longrightarrow> table_tidy g ds \<and> compact ds)"

lemma serves_start: "own_writing ko w \<Longrightarrow> devices_file.serves ko (new_registry w)"
  by (rule devices_file.new_registry_serves) (simp add: own_writing_def devices_file.clean_def)

text \<open>
  The registry serves nothing but what its file holds: after any calls, restarts and failing
  system calls, the state in memory is the one a reader of the file would find, and it is in shape
  (no id, credential or key twice, at most 64 active devices, a handle of its own for every owner).
\<close>

theorem registry_serves_the_file:
  assumes "own_writing ko w" and "list_all event_ok es"
    and "re_state (foldl (registry_step ko (devices_store ko pl err)) (new_registry w) es) = Some s"
  shows "file_current ko (re_world (foldl (registry_step ko (devices_store ko pl err)) (new_registry w) es)) = Some s \<and>
    devices_ok ko s"
  using devices_file.served(3,5)[OF devices_file.registry_run_sound[OF serves_start[OF assms(1)] assms(2)] assms(3)] by simp

text \<open>
  C19: Revocation is for good.  A device that was reported revoked stands in no later state of the
  registry, whatever is called and whatever system calls fail afterwards, restarts included.
\<close>

theorem revoked_device_never_stands:
  assumes "own_writing ko w" and "list_all event_ok es" and "is_safe_int t"
    and "revoke_device (devices_store ko pl err) i t
      (foldl (registry_step ko (devices_store ko pl err)) (new_registry w) es) = (r, out)"
    and "out = Revoked g \<or> out = AlreadyRevoked g" and "list_all event_ok es'"
    and "re_state (foldl (registry_step ko (devices_store ko pl err)) r es') = Some s"
  shows "\<not> standing s i gen"
  by (rule devices_file.revoked_for_good[OF devices_file.registry_run_sound[OF serves_start[OF assms(1)] assms(2)] assms(3-7)])

definition demo_device :: enrolled_record where
  "demo_device = \<lparr>en_deviceId = ''d'', en_ownerId = ''o'', en_deviceName = ''p'', en_credentialId = ''AQID'',
     en_publicKeySpki = ''AQID'', en_cheapLaneKeySpki = ''AQID'', en_signCount = 0, en_transports = None,
     en_userHandle = None, en_generation = 1, en_revokedAt = None, en_enrolledAt = NInt 5\<rparr>"

definition demo_devices :: persisted_devices where
  "demo_devices = \<lparr>pd_bootstrapGeneration = 2, pd_devices = [(''d'', demo_device)],
     pd_owners = [(''o'', ''AAAAAAAAAAAAAAAAAAAAAA'')]\<rparr>"

definition demo_place :: file_place where
  "demo_place = \<lparr>fp_path = ''/r/f'', fp_dirPath = ''/r'', fp_dev = 1, fp_ino = 2, fp_trusted = [0],
     fp_process = \<lparr>op_uid = 0, op_gid = 0, op_umask = 18\<rparr>\<rparr>"

definition demo_owned :: owned_disk where
  "demo_owned = \<lparr>od_dir = DirIs 1 2,
     od_state = Some (LeafFile (published_file (fp_process demo_place) 384 None (devices_text demo_devices))),
     od_marker = None, od_calls = [Completes, Transfers 3]\<rparr>"

definition demo_revoked :: persisted_devices where
  "demo_revoked = with_device ''d'' (demo_device\<lparr>en_revokedAt := Some (NInt 7), en_generation := 2\<rparr>) demo_devices"

lemma demo_decode:
  "b64_decode ''AQID'' = [1, 2, 3]" "b64_decode ''AAAAAAAAAAAAAAAAAAAAAA'' = [0, 0, 0, 0, 0, 0, 0, 0, 0, 0, 0, 0, 0, 0, 0, 0]"
  by (simp_all add: b64_decode_def map_filter_simps b64_value_def b64url_value_def code_unit_def)

lemma demo_encode:
  "b64url_encode [1, 2, 3] = ''AQID''" "b64url_encode [0, 0, 0, 0, 0, 0, 0, 0, 0, 0, 0, 0, 0, 0, 0, 0] = ''AAAAAAAAAAAAAAAAAAAAAA''"
  by (simp_all add: b64url_encode_def b64_char_def) (simp_all add: char_of_def bit_0)

lemma demo_canonical:
  "canonicalB64url ''AQID'' = Some [1, 2, 3]" "canonicalB64url ''AAAAAAAAAAAAAAAAAAAAAA'' = Some [0, 0, 0, 0, 0, 0, 0, 0, 0, 0, 0, 0, 0, 0, 0, 0]"
  unfolding canonicalB64url_def demo_decode demo_encode by (simp_all add: b64url_value_def code_unit_def Let_def)

lemma demo_strings:
  "real_key demo_ops ''AQID''" "isCanonicalB64url 16 64 ''AAAAAAAAAAAAAAAAAAAAAA''" "isCanonicalB64url 1 1024 ''AQID''"
  by (simp_all add: real_key_def storedSpkiToPem_def isCanonicalB64url_def demo_canonical demo_ops_def is_p256_def
      del: One_nat_def)

lemma tidy_demo: "tidy demo_devices" "tidy demo_revoked" "room_for_one demo_devices" "room_for_one demo_revoked"
  by (simp_all add: tidy_def table_tidy_def demo_devices_def demo_revoked_def demo_device_def with_device_def device_tidy_def
      map_keys_def object_order_plain array_index_key_def is_digit_def code_unit_def is_safe_int_def MAX_SAFE_INTEGER_def
      room_for_one_def)

lemma only_keys_devices: "only_keys [''version'', ''bootstrapGeneration'', ''devices'', ''owners''] (devices_json s)"
  "only_keys [''userId''] (JObj [(''userId'', JStr u)])"
  by (simp_all add: only_keys_def devices_json_def)

lemma devices_fields:
  "is_plain_object (devices_json s)" "own_field ''version'' (devices_json s) = Some (JNum (NInt 2))"
  "own_field ''bootstrapGeneration'' (devices_json s) = Some (JNum (NInt (pd_bootstrapGeneration s)))"
  "own_field ''devices'' (devices_json s) = Some (JObj (table_json (pd_devices s)))"
  "own_field ''owners'' (devices_json s) = Some (JObj (owners_json (pd_owners s)))"
  by (simp_all add: devices_json_def)

lemma persisted_demo:
  "asPersistedEnrolledDevices demo_ops (devices_json demo_devices) = Some demo_devices"
  "asPersistedEnrolledDevices demo_ops (devices_json demo_revoked) = Some demo_revoked"
  by (simp_all add: asPersistedEnrolledDevices_def devices_fields only_keys_devices registry_core_def table_json_def owners_json_def
      demo_devices_def demo_revoked_def with_device_def device_of_def device_fields absent_or_def demo_device_def
      short_text_def FORBIDDEN_DEVICE_IDS_def demo_strings is_safe_int_def MAX_SAFE_INTEGER_def revoked_at_def finite_number_def
      active_count_def MAX_ACTIVE_DEVICES_def MAX_OWNERS_def map_keys_def del: One_nat_def)

lemma demo_text_small:
  "byte_length (devices_text demo_devices) \<le> MAX_ENROLLED_DEVICES_FILE_BYTES"
  "byte_length (devices_text demo_revoked) \<le> MAX_ENROLLED_DEVICES_FILE_BYTES"
  by (simp_all add: byte_length_def MAX_ENROLLED_DEVICES_FILE_BYTES_def devices_text_def json_pretty_def devices_json_def
      table_json_def owners_json_def device_json_def optional_field_def demo_devices_def demo_revoked_def with_device_def
      demo_device_def json_string_text_def quoted_def escape_char_def code_unit_def is_safe_int_def MAX_SAFE_INTEGER_def
      show_int_def show_nat.simps digit_char_def sum_list_replicate)

lemma revoked_device_never_stands_witness:
  "\<exists>r s. revoke_device (devices_store demo_ops demo_place ''e'') ''d'' 7
       (registry_step demo_ops (devices_store demo_ops demo_place ''e'') (new_registry demo_owned) (Initialize (\<lambda>_. [])))
     = (r, Revoked 2) \<and>
     re_state (foldl (registry_step demo_ops (devices_store demo_ops demo_place ''e'')) r [Restart, Initialize (\<lambda>_. [])]) = Some s \<and>
     \<not> standing s ''d'' 1 \<and> \<not> standing s ''d'' 2"
proof -
  let ?st = "devices_store demo_ops demo_place ''e''" and ?pick = "\<lambda>_ :: string list. [] :: string"
  have placed: "in_place demo_place demo_owned"
    by (simp add: in_place_def demo_place_def demo_owned_def steady_def)
  have parses: "json_parse (devices_text demo_devices) = Some (devices_json demo_devices)"
      "json_parse (devices_text demo_revoked) = Some (devices_json demo_revoked)"
    using tidy_demo by (simp_all add: devices_text_parses)
  have accepted: "Option.bind (json_parse (devices_text demo_revoked)) (asPersistedEnrolledDevices demo_ops) \<noteq> None"
    unfolding parses Option.bind.simps persisted_demo by simp
  have reads: "state_of demo_ops (devices_json demo_devices) = Some (DevicesLoaded demo_devices)"
      "state_of demo_ops (devices_json demo_revoked) = Some (DevicesLoaded demo_revoked)"
    by (simp_all add: state_of_def persisted_demo)
  obtain w1 where w1: "load_devices demo_ops demo_place ''e'' demo_owned = (w1, DevicesLoaded demo_devices)" "in_place demo_place w1"
    by (rule load_placed[OF placed _ demo_text_small(1) parses(1) reads(1)]) (simp add: demo_owned_def)
  let ?r1 = "registry_step demo_ops ?st (new_registry demo_owned) (Initialize ?pick)"
  have r1: "re_state ?r1 = Some demo_devices" "re_world ?r1 = w1"
    by (simp_all add: initialize_def devices_store_def new_registry_def w1(1) adopt_def)
  obtain w2 where w2: "save_devices demo_ops demo_place ''e'' w1 demo_revoked = (w2, SaveDurable)" "in_place demo_place w2"
      "od_state w2 = Some (LeafFile (published_file (fp_process demo_place) 384 None (devices_text demo_revoked)))"
    by (rule save_placed[OF w1(2) demo_text_small(2) accepted])
  have next_state: "with_device ''d'' (demo_device\<lparr>en_revokedAt := Some (NInt 7), en_generation := en_generation demo_device + 1\<rparr>) demo_devices
      = demo_revoked" by (simp add: demo_revoked_def demo_device_def)
  have found: "map_of (pd_devices demo_devices) ''d'' = Some demo_device" "en_revokedAt demo_device = None" "en_generation demo_device = 1"
    by (simp_all add: demo_devices_def demo_device_def)
  have saves: "ds_save ?st w1 demo_revoked = (w2, SaveDurable)" by (simp add: devices_store_def w2(1))
  obtain r where r: "revoke_device ?st ''d'' 7 ?r1 = (r, Revoked 2)" "re_world r = w2"
    using next_state saves found by (simp add: revoke_device_def r1 Let_def del: registry_step.simps)
  obtain w3 where w3: "load_devices demo_ops demo_place ''e'' w2 = (w3, DevicesLoaded demo_revoked)"
    by (rule load_placed[OF w2(2,3) demo_text_small(2) parses(2) reads(2)])
  have s: "re_state (foldl (registry_step demo_ops ?st) r [Restart, Initialize ?pick]) = Some demo_revoked"
    by (simp add: initialize_def devices_store_def new_registry_def r(2) w3 adopt_def)
  have "state_text demo_owned = Some (devices_text demo_devices)"
    by (simp add: state_text_def demo_owned_def published_file_def)
  then have "file_current demo_ops demo_owned = Some demo_devices" by (simp add: file_current_def parses persisted_demo)
  moreover have "compact (pd_devices demo_devices)"
    by (simp add: compact_def demo_devices_def MAX_ENROLLED_DEVICES_FILE_BYTES_def)
  ultimately have own: "own_writing demo_ops demo_owned"
    using tidy_demo(1) by (simp add: own_writing_def file_old_def)
  have "\<not> standing demo_revoked ''d'' g" for g
    by (rule revoked_device_never_stands[OF own _ _ _ _ _ s, where es = "[Initialize ?pick]" and t = 7 and i = "''d''" and out = "Revoked 2" and g = 2])
       (use r in \<open>simp_all add: is_safe_int_def MAX_SAFE_INTEGER_def del: registry_step.simps\<close>)
  with r s show ?thesis by blast
qed

end
