(* ===== verification/RenderableAlert.thy ===== *)
theory RenderableAlert
  imports MergeArgs
begin

text \<open>
  The alert the owner sees, \<open>packages/shared/src/renderable-alert.ts\<close>: the conformance rules of the
  envelope and its canonical text, over which the server and the owner app both hash.

  In the modelled code units, U+0000 to U+00FF, a code point is a code unit, and the forbidden
  categories come to the control ranges and the soft hyphen, as in \<open>MergeArgs\<close>.
\<close>

section \<open>Definitions\<close>

record alert_limits =
  al_agentId :: nat
  al_tool :: nat
  al_summary :: nat

definition RENDERABLE_ALERT_V1_LIMITS :: alert_limits where
  "RENDERABLE_ALERT_V1_LIMITS = \<lparr>al_agentId = 64, al_tool = 64, al_summary = 200\<rparr>"

record renderable_alert =
  ra_agentId :: string
  ra_tool :: string
  ra_summary :: string

datatype alert_field = FieldAgentId | FieldTool | FieldSummary | FieldV | FieldEnvelope

datatype alert_reason =
    Malformed
  | UnexpectedProperty
  | UnsupportedVersion
  | NotAString
  | TooLong
  | ForbiddenCharacter

type_synonym alert_violation = "alert_field \<times> alert_reason"

text \<open>\<open>RENDERABLE_ALERT_FORBIDDEN.test\<close>\<close>

definition forbidden_in :: "string \<Rightarrow> bool" where
  "forbidden_in s \<longleftrightarrow> list_ex unsafe_display_char s"

definition codePointLength :: "string \<Rightarrow> nat" where
  "codePointLength s = length s"

definition ALLOWED_KEYS :: "string list" where
  "ALLOWED_KEYS = [''v'', ''agentId'', ''tool'', ''summary'']"

definition field_violation :: "alert_field \<Rightarrow> nat \<Rightarrow> json option \<Rightarrow> alert_violation option" where
  "field_violation f limit v =
     (case v of
        Some (JStr s) \<Rightarrow>
          if limit < codePointLength s then Some (f, TooLong)
          else if forbidden_in s then Some (f, ForbiddenCharacter)
          else None
      | _ \<Rightarrow> Some (f, NotAString))"

definition validateRenderableAlert :: "json \<Rightarrow> alert_violation option" where
  "validateRenderableAlert v =
     (if \<not> is_plain_object v then Some (FieldEnvelope, Malformed)
      else if \<exists>k \<in> set (map_keys (object_entries v)). k \<notin> set ALLOWED_KEYS then Some (FieldEnvelope, UnexpectedProperty)
      else if own_field ''v'' v \<noteq> Some (JNum (NInt 1)) then Some (FieldV, UnsupportedVersion)
      else
        (case field_violation FieldAgentId (al_agentId RENDERABLE_ALERT_V1_LIMITS) (own_field ''agentId'' v) of
           Some e \<Rightarrow> Some e
         | None \<Rightarrow>
             (case field_violation FieldTool (al_tool RENDERABLE_ALERT_V1_LIMITS) (own_field ''tool'' v) of
                Some e \<Rightarrow> Some e
              | None \<Rightarrow>
                  field_violation FieldSummary (al_summary RENDERABLE_ALERT_V1_LIMITS) (own_field ''summary'' v))))"

definition alert_json :: "renderable_alert \<Rightarrow> json" where
  "alert_json a =
     JObj [(''v'', JNum (NInt 1)), (''agentId'', JStr (ra_agentId a)), (''tool'', JStr (ra_tool a)),
       (''summary'', JStr (ra_summary a))]"

text \<open>The throw of \<open>assertRenderableAlert\<close> is an \<open>Inl\<close>; the text is of the four fields, in canonical order.\<close>

definition assertRenderableAlert :: "json \<Rightarrow> alert_violation + renderable_alert" where
  "assertRenderableAlert v =
     (case validateRenderableAlert v of
        Some e \<Rightarrow> Inl e
      | None \<Rightarrow>
          (case (own_field ''agentId'' v, own_field ''tool'' v, own_field ''summary'' v) of
             (Some (JStr a), Some (JStr t), Some (JStr s)) \<Rightarrow> Inr \<lparr>ra_agentId = a, ra_tool = t, ra_summary = s\<rparr>
           | _ \<Rightarrow> Inl (FieldEnvelope, Malformed)))"

definition canonicalRenderableAlert :: "json \<Rightarrow> alert_violation + string" where
  "canonicalRenderableAlert v =
     (case assertRenderableAlert v of Inl e \<Rightarrow> Inl e | Inr a \<Rightarrow> Inr (canonicalJson (alert_json a)))"

section \<open>Facts\<close>

text \<open>What a conforming alert shows: three short texts without a character that can lie.\<close>

definition shows_safely :: "renderable_alert \<Rightarrow> bool" where
  "shows_safely a \<longleftrightarrow>
     length (ra_agentId a) \<le> 64 \<and> length (ra_tool a) \<le> 64 \<and> length (ra_summary a) \<le> 200 \<and>
     isSafeToDisplay (ra_agentId a) \<and> isSafeToDisplay (ra_tool a) \<and> isSafeToDisplay (ra_summary a)"

lemma field_violation_None:
  "field_violation f limit v = None \<longleftrightarrow> (\<exists>s. v = Some (JStr s) \<and> length s \<le> limit \<and> isSafeToDisplay s)"
  by (auto simp: field_violation_def codePointLength_def forbidden_in_def isSafeToDisplay_def
      split: option.split json.split)

lemma first_violation_None:
  "(case x of Some e \<Rightarrow> Some e | None \<Rightarrow> y) = None \<longleftrightarrow> x = None \<and> y = None"
  by (cases x) auto

lemma validateRenderableAlert_None:
  "validateRenderableAlert v = None \<longleftrightarrow>
     is_plain_object v \<and> set (map_keys (object_entries v)) \<subseteq> set ALLOWED_KEYS \<and>
     own_field ''v'' v = Some (JNum (NInt 1)) \<and>
     (\<exists>a. own_field ''agentId'' v = Some (JStr (ra_agentId a)) \<and> own_field ''tool'' v = Some (JStr (ra_tool a)) \<and>
       own_field ''summary'' v = Some (JStr (ra_summary a)) \<and> shows_safely a)"
proof -
  have parts: "(\<exists>a. P (ra_agentId a) \<and> Q (ra_tool a) \<and> R (ra_summary a) \<and> shows_safely a) \<longleftrightarrow>
     (\<exists>x y z. P x \<and> Q y \<and> R z \<and> shows_safely \<lparr>ra_agentId = x, ra_tool = y, ra_summary = z\<rparr>)" for P Q R
  proof
    assume "\<exists>a. P (ra_agentId a) \<and> Q (ra_tool a) \<and> R (ra_summary a) \<and> shows_safely a"
    then obtain a where "P (ra_agentId a) \<and> Q (ra_tool a) \<and> R (ra_summary a) \<and> shows_safely a" by blast
    then show "\<exists>x y z. P x \<and> Q y \<and> R z \<and> shows_safely \<lparr>ra_agentId = x, ra_tool = y, ra_summary = z\<rparr>"
      by (cases a) auto
  qed (metis renderable_alert.select_convs(1-3))
  show ?thesis
    unfolding parts[of "\<lambda>x. own_field ''agentId'' v = Some (JStr x)" "\<lambda>x. own_field ''tool'' v = Some (JStr x)"
        "\<lambda>x. own_field ''summary'' v = Some (JStr x)"]
    by (auto simp: validateRenderableAlert_def first_violation_None field_violation_None
        RENDERABLE_ALERT_V1_LIMITS_def shows_safely_def subset_iff simp del: own_field.simps is_plain_object.simps)
qed

lemma assertRenderableAlert_Inr:
  "assertRenderableAlert v = Inr a \<longleftrightarrow>
     is_plain_object v \<and> set (map_keys (object_entries v)) \<subseteq> set ALLOWED_KEYS \<and>
     own_field ''v'' v = Some (JNum (NInt 1)) \<and> own_field ''agentId'' v = Some (JStr (ra_agentId a)) \<and>
     own_field ''tool'' v = Some (JStr (ra_tool a)) \<and> own_field ''summary'' v = Some (JStr (ra_summary a)) \<and>
     shows_safely a"
proof (cases "validateRenderableAlert v")
  case None
  then show ?thesis
    by (cases a) (auto simp: assertRenderableAlert_def shows_safely_def
        dest!: validateRenderableAlert_None[THEN iffD1])
next
  case (Some e)
  then have "validateRenderableAlert v \<noteq> None" by simp
  with Some show ?thesis unfolding assertRenderableAlert_def validateRenderableAlert_None by auto
qed

lemma alert_json_wf: "json_wf (alert_json a)"
  by (simp add: alert_json_def map_keys_def is_safe_int_def MAX_SAFE_INTEGER_def)

lemma alert_json_fields:
  "own_field ''agentId'' (alert_json a) = Some (JStr (ra_agentId a))"
  "own_field ''tool'' (alert_json a) = Some (JStr (ra_tool a))"
  "own_field ''summary'' (alert_json a) = Some (JStr (ra_summary a))"
  by (simp_all add: alert_json_def)

lemma assert_alert_json: "shows_safely a \<Longrightarrow> assertRenderableAlert (alert_json a) = Inr a"
  unfolding assertRenderableAlert_Inr alert_json_fields
  by (simp add: alert_json_def ALLOWED_KEYS_def map_keys_def)

text \<open>The canonical text is one alert's alone, so that a hash of it names what was shown.\<close>

lemma canonical_alert_text:
  assumes "canonicalRenderableAlert v = Inr t" and "canonicalRenderableAlert w = Inr t"
  shows "assertRenderableAlert v = assertRenderableAlert w"
proof -
  obtain a b where a: "assertRenderableAlert v = Inr a" "canonicalJson (alert_json a) = t"
    and b: "assertRenderableAlert w = Inr b" "canonicalJson (alert_json b) = t"
    using assms by (auto simp: canonicalRenderableAlert_def split: sum.splits)
  obtain ks ls where "alert_json a = JObj ks" "alert_json b = JObj ls" by (simp add: alert_json_def)
  then have same: "map_option sortDeep (own_field k (alert_json a)) = map_option sortDeep (own_field k (alert_json b))" for k
    using same_bytes_same_fields[of ks ls k] a(2) b(2) alert_json_wf[of a] alert_json_wf[of b] by simp
  from same[of "''agentId''"] same[of "''tool''"] same[of "''summary''"] have "a = b"
    unfolding alert_json_fields by (cases a; cases b) simp
  with a b show ?thesis by simp
qed

end
