(* ===== verification/DeviceStanding.thy ===== *)
theory DeviceStanding
  imports DevicesFile
begin

text \<open>
  The durable standing of owner devices, \<open>packages/control-plane/src/device-standing.ts\<close>: the strict
  reading of the file (\<open>asPersistedDeviceStanding\<close>), the walk that trusts the path to it
  (\<open>canonicalTrustedStandingPath\<close>) and the class \<open>DeviceStandingFileStore\<close> over \<open>OwnedFiles\<close>.
  The directory is there and the marker does not appear between check and create, as one process
  owns it; the text of a platform error is \<open>err\<close>.
\<close>

section \<open>The strict reading\<close>

record device_standing =
  ds_generation :: int
  ds_revokedAt :: "js_num option"
  ds_spki :: "string option"

type_synonym standing_table = "(string \<times> device_standing) list"

record persisted_standing =
  pt_version :: nat
  pt_devices :: standing_table

datatype standing_load = StandingAbsent | StandingLoaded persisted_standing | StandingCorrupt string

definition MAX_DEVICE_STANDING_FILE_BYTES :: nat where "MAX_DEVICE_STANDING_FILE_BYTES = 256 * 1024"

definition b64url_text :: "string \<Rightarrow> bool" where
  "b64url_text s \<longleftrightarrow> s \<noteq> [] \<and> list_all (\<lambda>c. b64url_value c \<noteq> None) s"

definition standing_of :: "nat \<Rightarrow> string \<Rightarrow> json \<Rightarrow> device_standing option" where
  "standing_of version deviceId v =
     (if deviceId = [] \<or> CHR '':'' \<in> set deviceId then None
      else if deviceId \<in> set FORBIDDEN_DEVICE_IDS then None
      else if \<not> is_plain_object v \<or> \<not> only_keys [''generation'', ''revokedAt'', ''spki''] v then None
      else
        (case (integer_from 1 (own_field ''generation'' v), revoked_at (own_field ''revokedAt'' v)) of
           (Some gen, Some revoked) \<Rightarrow>
             (case own_field ''spki'' v of
                None \<Rightarrow> Some \<lparr>ds_generation = gen, ds_revokedAt = revoked, ds_spki = None\<rparr>
              | Some w \<Rightarrow>
                  if version \<noteq> 2 then None
                  else
                    (case string_where b64url_text (Some w) of
                       None \<Rightarrow> None
                     | Some spki \<Rightarrow> Some \<lparr>ds_generation = gen, ds_revokedAt = revoked, ds_spki = Some spki\<rparr>))
         | _ \<Rightarrow> None))"

fun standings_of :: "nat \<Rightarrow> (string \<times> json) list \<Rightarrow> standing_table option" where
  "standings_of version [] = Some []"
| "standings_of version ((deviceId, v) # rest) =
     (case standing_of version deviceId v of
        None \<Rightarrow> None
      | Some d \<Rightarrow> map_option (Cons (deviceId, d)) (standings_of version rest))"

definition standing_version :: "json option \<Rightarrow> nat option" where
  "standing_version v =
     (if v = Some (JNum (NInt 1)) then Some 1 else if v = Some (JNum (NInt 2)) then Some 2 else None)"

definition asPersistedDeviceStanding :: "json \<Rightarrow> persisted_standing option" where
  "asPersistedDeviceStanding v =
     (if \<not> is_plain_object v \<or> \<not> only_keys [''version'', ''devices''] v then None
      else
        (case standing_version (own_field ''version'' v) of
           None \<Rightarrow> None
         | Some version \<Rightarrow>
             (case own_field ''devices'' v of
                Some (JObj kvs) \<Rightarrow>
                  map_option (\<lambda>ds. \<lparr>pt_version = version, pt_devices = ds\<rparr>) (standings_of version kvs)
              | _ \<Rightarrow> None)))"

section \<open>The path\<close>

text \<open>
  What the walk sees: the resolved parent and its ancestors up to the root, each with its owner and
  mode, or \<open>None\<close> where \<open>stat\<close> fails.  \<open>Inl\<close> is the throw.
\<close>

record path_view =
  pv_absolute :: bool
  pv_resolved :: "string option"
  pv_ancestors :: "(string \<times> (nat \<times> nat) option) list"

definition ancestor_violation :: "string \<Rightarrow> nat list \<Rightarrow> string \<times> (nat \<times> nat) option \<Rightarrow> string option" where
  "ancestor_violation label trusted a =
     (case snd a of
        None \<Rightarrow> Some (label @ '' ancestor '' @ quoted (fst a) @ '' is unreadable'')
      | Some (uid, mode) \<Rightarrow>
          if uid \<notin> set trusted then
            Some (label @ '' ancestor '' @ quoted (fst a) @ '' is owned by uid '' @ show_nat uid @
              '' - not root, this process, or an explicitly trusted uid; an untrusted owner could swap the registry path'')
          else if mode AND 18 \<noteq> 0 then
            Some (label @ '' ancestor '' @ quoted (fst a) @ '' is group- or world-writable (mode '' @
              show_octal (mode AND 511) @ '') - a writable ancestor lets the registry be replaced wholesale'')
          else None)"

fun first_violation :: "(string \<times> (nat \<times> nat) option \<Rightarrow> string option) \<Rightarrow> (string \<times> (nat \<times> nat) option) list \<Rightarrow> string option" where
  "first_violation f [] = None"
| "first_violation f (a # as) = (case f a of Some e \<Rightarrow> Some e | None \<Rightarrow> first_violation f as)"

definition canonicalTrustedStandingPath ::
  "string \<Rightarrow> string \<Rightarrow> string \<Rightarrow> string \<Rightarrow> nat \<Rightarrow> nat list \<Rightarrow> bool \<Rightarrow> string \<Rightarrow> path_view \<Rightarrow> string + string" where
  "canonicalTrustedStandingPath label path dir base uid alsoTrust unsafe err pv =
     (if \<not> pv_absolute pv then Inl (label @ '' path must be absolute, got '' @ quoted path)
      else
        (case pv_resolved pv of
           None \<Rightarrow> Inl (label @ '' directory '' @ quoted dir @ '' cannot be resolved: '' @ err)
         | Some realParent \<Rightarrow>
             (case (if unsafe then None else first_violation (ancestor_violation label (0 # uid # alsoTrust)) (pv_ancestors pv)) of
                Some e \<Rightarrow> Inl e
              | None \<Rightarrow> Inr (realParent @ CHR ''/'' # base))))"

section \<open>The file store\<close>

record standing_place =
  sp_path :: string
  sp_mode :: nat
  sp_group :: "nat option"
  sp_trusted :: "nat list"
  sp_process :: os_process

definition boundaryViolation :: "standing_place \<Rightarrow> owned_file \<Rightarrow> string option" where
  "boundaryViolation pl f =
     (let mode = of_mode f AND 4095 in
      if of_uid f \<notin> set (sp_trusted pl) then
        Some (''owned by uid '' @ show_nat (of_uid f) @ '' - not root, this process, or a configured trusted uid'')
      else if mode = 384 then None
      else if mode = 416 then
        (case sp_group pl of
           None \<Rightarrow> Some ''mode 0640 but no read-only group is configured - group-read to an unvetted group''
         | Some g \<Rightarrow>
             if of_gid f \<noteq> g then
               Some (''mode 0640 with gid '' @ show_nat (of_gid f) @ '' - expected the configured read-only group '' @ show_nat g)
             else None)
      else Some (''mode '' @ show_octal mode @ '' - only 0600 (private) or 0640 (configured read-only group) is standing''))"

definition standing_marker :: "standing_place \<Rightarrow> string" where
  "standing_marker pl = sp_path pl @ ''.initialized''"

definition STANDING_NOTE :: string where
  "STANDING_NOTE =
     ''This marker records that the OwnerSwitch device-standing store has been written.'' @ [CHR 0x0A] @
     ''While it exists, a missing standing file loads as CORRUPT (all devices revoked).'' @ [CHR 0x0A]"

text \<open>\<open>None\<close> where it throws; otherwise whether the marker is durable.  A dangling link makes the create fail with EEXIST.\<close>

definition ensure_standing_marker :: "standing_place \<Rightarrow> owned_disk \<Rightarrow> owned_disk \<times> bool option" where
  "ensure_standing_marker pl dk =
     (if leaf_exists (od_marker dk) then (dk, Some True)
      else if od_marker dk \<noteq> None then on_call dk (\<lambda>dk1. (dk1, None)) (\<lambda>dk1. (dk1, Some True))
      else
        (case create_marker (sp_process pl) (sp_mode pl) (sp_group pl) STANDING_NOTE dk of
           (dk1, False) \<Rightarrow> (dk1, None)
         | (dk1, True) \<Rightarrow> (let (dk2, ok) = fsync_dir dk1 in (dk2, Some ok))))"

definition read_standing :: "standing_place \<Rightarrow> string \<Rightarrow> owned_disk \<Rightarrow> owned_disk \<times> (standing_load + string)" where
  "read_standing pl err dk =
     (let cannot_read = Inl (StandingCorrupt (''cannot read '' @ sp_path pl @ '': '' @ err)) in
     on_call dk (\<lambda>dk1. (dk1, cannot_read)) (\<lambda>dk1.
     case od_state dk1 of
       None \<Rightarrow>
         (dk1,
          if leaf_exists (od_marker dk1) then
            Inl (StandingCorrupt (sp_path pl @ '' is missing but the store is initialised ('' @ standing_marker pl @
              '' exists) - deleting the standing file must not resurrect a revoked device''))
          else Inl StandingAbsent)
     | Some (LeafLink _) \<Rightarrow> (dk1, Inl (StandingCorrupt (sp_path pl @ '' is a symlink - refusing to follow it'')))
     | Some lf \<Rightarrow>
         on_call dk1 (\<lambda>dk2. (dk2, cannot_read)) (\<lambda>dk2.
         case lf of
           LeafFile f \<Rightarrow>
             (case boundaryViolation pl f of
                Some violation \<Rightarrow>
                  (dk2, Inl (StandingCorrupt (sp_path pl @ '' fails the standing boundary: '' @ violation)))
              | None \<Rightarrow>
                  (case read_whole MAX_DEVICE_STANDING_FILE_BYTES (byte_length (of_text f)) 0 dk2 of
                     (dk3, ReadError) \<Rightarrow> (dk3, cannot_read)
                   | (dk3, OverLimit) \<Rightarrow>
                       (dk3, Inl (StandingCorrupt (sp_path pl @ '' exceeds the '' @ show_nat MAX_DEVICE_STANDING_FILE_BYTES @
                          ''-byte standing limit - refusing to read it'')))
                   | (dk3, WholeFile) \<Rightarrow> (dk3, Inr (of_text f))))
         | _ \<Rightarrow> (dk2, Inl (StandingCorrupt (sp_path pl @ '' is not a regular file''))))))"

definition load_standing :: "standing_place \<Rightarrow> string \<Rightarrow> owned_disk \<Rightarrow> owned_disk \<times> standing_load" where
  "load_standing pl err dk =
     (case read_standing pl err dk of
        (dk1, Inl out) \<Rightarrow> (dk1, out)
      | (dk1, Inr raw) \<Rightarrow>
          (case json_parse raw of
             None \<Rightarrow> (dk1, StandingCorrupt (''cannot parse '' @ sp_path pl @ '': '' @ err))
           | Some v \<Rightarrow>
               (case asPersistedDeviceStanding v of
                  None \<Rightarrow> (dk1, StandingCorrupt (''unexpected shape in '' @ sp_path pl))
                | Some s \<Rightarrow> (fst (ensure_standing_marker pl dk1), StandingLoaded s))))"

definition standing_json :: "device_standing \<Rightarrow> json" where
  "standing_json d =
     JObj ([(''generation'', JNum (NInt (ds_generation d))),
            (''revokedAt'', case ds_revokedAt d of None \<Rightarrow> JNull | Some n \<Rightarrow> JNum n)] @
           optional_field ''spki'' (map_option JStr (ds_spki d)))"

definition persisted_standing_json :: "persisted_standing \<Rightarrow> json" where
  "persisted_standing_json s =
     JObj [(''version'', JNum (NInt (int (pt_version s)))),
           (''devices'', JObj (map (\<lambda>e. (fst e, standing_json (snd e))) (pt_devices s)))]"

definition standing_text :: "persisted_standing \<Rightarrow> string" where
  "standing_text s = json_pretty (persisted_standing_json s) @ [CHR 0x0A]"

text \<open>What \<open>stat\<close> finds published, against what was asked for.\<close>

definition published_boundary :: "standing_place \<Rightarrow> string \<Rightarrow> owned_disk \<Rightarrow> owned_disk \<times> string option" where
  "published_boundary pl err dk =
     on_call dk (\<lambda>dk1. (dk1, Some (''cannot stat the published file: '' @ err))) (\<lambda>dk1.
     (dk1,
      case od_state dk1 of
        Some (LeafFile f) \<Rightarrow>
          if of_mode f AND 511 \<noteq> sp_mode pl then
            Some (''published mode '' @ show_octal (of_mode f AND 511) @ '' != requested '' @ show_octal (sp_mode pl))
          else
            (case sp_group pl of
               None \<Rightarrow> None
             | Some g \<Rightarrow>
                 if of_gid f \<noteq> g then
                   Some (''published gid '' @ show_nat (of_gid f) @ '' != requested '' @ show_nat g)
                 else None)
      | _ \<Rightarrow> Some (''cannot stat the published file: '' @ err)))"

definition save_standing :: "standing_place \<Rightarrow> string \<Rightarrow> owned_disk \<Rightarrow> persisted_standing \<Rightarrow> owned_disk \<times> save_outcome" where
  "save_standing pl err dk s =
     on_call dk (\<lambda>dk1. (dk1, SaveThrew err)) (\<lambda>dk1.
     case ensure_standing_marker pl dk1 of
       (dk2, None) \<Rightarrow> (dk2, SaveThrew err)
     | (dk2, Some markerDurable) \<Rightarrow>
         (case publish_file (sp_process pl) (sp_mode pl) (sp_group pl) (standing_text s) dk2 of
            (dk3, False) \<Rightarrow> (dk3, SaveThrew err)
          | (dk3, True) \<Rightarrow>
              (let (dk4, dirDurable) = fsync_dir dk3; (dk5, wrong) = published_boundary pl err dk4 in
               (dk5,
                case wrong of
                  Some d \<Rightarrow> SaveNotDurable (''standing published but boundary wrong - '' @ d)
                | None \<Rightarrow>
                    if markerDurable \<and> dirDurable then SaveDurable
                    else SaveNotDurable (''the directory entry for '' @ sp_path pl @ '' could not be fsynced - '' @
                      ''the new standing is visible but a power cut may resurface the previous one'')))))"

record 'f standing_store =
  ss_load :: "'f \<Rightarrow> 'f \<times> standing_load"
  ss_save :: "'f \<Rightarrow> persisted_standing \<Rightarrow> 'f \<times> save_outcome"

definition standing_file_store :: "standing_place \<Rightarrow> string \<Rightarrow> owned_disk standing_store" where
  "standing_file_store pl err = \<lparr>ss_load = load_standing pl err, ss_save = save_standing pl err\<rparr>"

section \<open>Facts\<close>

text \<open>A table as the control plane writes it: one entry per device, in enumeration order, strict in every entry.\<close>

definition entry_ok :: "nat \<Rightarrow> string \<times> device_standing \<Rightarrow> bool" where
  "entry_ok version e \<longleftrightarrow>
     fst e \<noteq> [] \<and> CHR '':'' \<notin> set (fst e) \<and> fst e \<notin> set FORBIDDEN_DEVICE_IDS \<and>
     1 \<le> ds_generation (snd e) \<and> is_safe_int (ds_generation (snd e)) \<and>
     (case ds_revokedAt (snd e) of None \<Rightarrow> True | Some n \<Rightarrow> num_ok n) \<and>
     (case ds_spki (snd e) of None \<Rightarrow> True | Some k \<Rightarrow> version = 2 \<and> b64url_text k)"

definition standing_tidy :: "persisted_standing \<Rightarrow> bool" where
  "standing_tidy s \<longleftrightarrow>
     pt_version s \<in> {1, 2} \<and> distinct (map_keys (pt_devices s)) \<and> object_order (pt_devices s) = pt_devices s \<and>
     list_all (entry_ok (pt_version s)) (pt_devices s)"

lemma num_ok_finite: "num_ok n \<Longrightarrow> is_finite_num n"
  by (cases n) auto

lemma standing_fields:
  "own_field ''generation'' (standing_json d) = Some (JNum (NInt (ds_generation d)))"
  "own_field ''revokedAt'' (standing_json d) = Some (case ds_revokedAt d of None \<Rightarrow> JNull | Some n \<Rightarrow> JNum n)"
  "own_field ''spki'' (standing_json d) = map_option JStr (ds_spki d)"
  "is_plain_object (standing_json d)" "only_keys [''generation'', ''revokedAt'', ''spki''] (standing_json d)"
  by (simp_all add: standing_json_def optional_field_def only_keys_def split: option.split)

lemma standing_of_json: "entry_ok version (k, d) \<Longrightarrow> standing_of version k (standing_json d) = Some d"
  by (cases d) (auto simp: standing_of_def standing_fields entry_ok_def revoked_at_def finite_number_def num_ok_finite
      split: option.splits)

lemma standings_of_json:
  "list_all (entry_ok version) ds \<Longrightarrow> standings_of version (map (\<lambda>e. (fst e, standing_json (snd e))) ds) = Some ds"
  by (induction ds) (auto simp: standing_of_json)

lemma standing_json_ok: "entry_ok version (k, d) \<Longrightarrow> json_ok (standing_json d)"
  by (auto simp: standing_json_def entry_ok_def map_keys_def optional_field_def object_order_plain array_index_key_def is_digit_def
      code_unit_def split: option.split_asm)

lemma persisted_standing_json_ok:
  assumes "standing_tidy s"
  shows "json_ok (persisted_standing_json s)"
proof -
  have keys: "map_keys (map (\<lambda>e. (fst e, standing_json (snd e))) (pt_devices s)) = map_keys (pt_devices s)"
    by (simp add: map_keys_def comp_def)
  have devices: "json_ok (JObj (map (\<lambda>e. (fst e, standing_json (snd e))) (pt_devices s)))"
    using assms standing_json_ok
    by (fastforce simp: keys standing_tidy_def object_order_map list_all_iff)
  have "is_safe_int (int (pt_version s))"
    using assms by (auto simp: standing_tidy_def is_safe_int_def MAX_SAFE_INTEGER_def)
  with devices show ?thesis
    by (simp add: persisted_standing_json_def map_keys_def object_order_plain array_index_key_def is_digit_def code_unit_def)
qed

lemma persisted_reads_back: "standing_tidy s \<Longrightarrow> asPersistedDeviceStanding (persisted_standing_json s) = Some s"
  by (cases s) (auto simp: asPersistedDeviceStanding_def persisted_standing_json_def only_keys_def standing_tidy_def
      standing_version_def standings_of_json)

lemma standing_text_reads_back:
  "standing_tidy s \<Longrightarrow> json_parse (standing_text s) = Some (persisted_standing_json s)"
  unfolding standing_text_def by (rule json_parse_pretty[OF persisted_standing_json_ok]) (simp_all add: is_ws_def)

section \<open>What the store does to the disk\<close>

lemma ensure_standing_marker_rule:
  "case ensure_standing_marker pl dk of (dk', r) \<Rightarrow>
     od_state dk' = od_state dk \<and> (r \<noteq> None \<longrightarrow> od_marker dk \<noteq> Some (LeafLink False) \<longrightarrow> leaf_exists (od_marker dk')) \<and> (steady dk \<longrightarrow> steady dk' \<and> r = Some True)"
proof (cases "od_marker dk")
  case None
  obtain dk1 ok where c: "create_marker (sp_process pl) (sp_mode pl) (sp_group pl) STANDING_NOTE dk = (dk1, ok)" by fastforce
  obtain dk2 ok2 where f: "fsync_dir dk1 = (dk2, ok2)" by fastforce
  show ?thesis
    using create_marker_rule[of dk "sp_process pl" "sp_mode pl" "sp_group pl" STANDING_NOTE] fsync_dir_rule[of dk1] c f None
    by (cases ok) (auto simp: ensure_standing_marker_def same_leaves_def)
next
  case (Some m)
  have "case on_call dk (\<lambda>dk1. (dk1, None)) (\<lambda>dk1. (dk1, Some True)) of (dk', r) \<Rightarrow>
      same_leaves dk dk' \<and> (steady dk \<longrightarrow> steady dk' \<and> r = Some True)"
    by (rule on_call_rule) auto
  moreover have "leaf_exists (Some m) \<or> m = LeafLink False" by (cases m) auto
  ultimately show ?thesis using Some by (auto simp: ensure_standing_marker_def same_leaves_def split: prod.split_asm)
qed

lemma published_boundary_rule:
  "case published_boundary pl err dk of (dk', wrong) \<Rightarrow> same_leaves dk dk' \<and> (steady dk \<longrightarrow> steady dk')"
  unfolding published_boundary_def by (rule on_call_rule) auto

definition on_file :: "standing_place \<Rightarrow> persisted_standing \<Rightarrow> owned_disk \<Rightarrow> bool" where
  "on_file pl s dk \<longleftrightarrow>
     od_state dk = Some (LeafFile (published_file (sp_process pl) (sp_mode pl) (sp_group pl) (standing_text s)))"

lemma save_standing_rule:
  "case save_standing pl err dk s of (dk', out) \<Rightarrow>
     (case out of
        SaveThrew _ \<Rightarrow> od_state dk' = od_state dk
      | _ \<Rightarrow> on_file pl s dk' \<and> (od_marker dk \<noteq> Some (LeafLink False) \<longrightarrow> leaf_exists (od_marker dk')))"
  unfolding save_standing_def
proof (rule on_call_rule, goal_cases)
  case (2 dk1)
  obtain dk2 m where e: "ensure_standing_marker pl dk1 = (dk2, m)" by fastforce
  obtain dk3 ok where p: "publish_file (sp_process pl) (sp_mode pl) (sp_group pl) (standing_text s) dk2 = (dk3, ok)" by fastforce
  obtain dk4 durable where f: "fsync_dir dk3 = (dk4, durable)" by fastforce
  obtain dk5 wrong where b: "published_boundary pl err dk4 = (dk5, wrong)" by fastforce
  show ?case
    using 2 ensure_standing_marker_rule[where pl = pl and dk = dk1] publish_file_rule[of dk2 "sp_process pl" "sp_mode pl" "sp_group pl" "standing_text s"]
      fsync_dir_rule[of dk3] published_boundary_rule[where pl = pl and err = err and dk = dk4] e p f b
    by (cases m; cases ok) (auto simp: on_file_def same_leaves_def split: option.split)
qed (auto simp: same_leaves_def)

definition place_ok :: "standing_place \<Rightarrow> bool" where
  "place_ok pl \<longleftrightarrow> op_uid (sp_process pl) \<in> set (sp_trusted pl) \<and>
     (sp_mode pl = 384 \<or> (sp_mode pl = 416 \<and> sp_group pl \<noteq> None))"

lemma own_file_trusted:
  "place_ok pl \<Longrightarrow> boundaryViolation pl (published_file (sp_process pl) (sp_mode pl) (sp_group pl) body) = None"
  by (auto simp: place_ok_def boundaryViolation_def published_file_def Let_def)

lemma load_on_file:
  assumes "place_ok pl" and "standing_tidy s" and "byte_length (standing_text s) \<le> MAX_DEVICE_STANDING_FILE_BYTES"
    and "on_file pl s dk" and "steady dk"
  shows "snd (load_standing pl err dk) = StandingLoaded s"
proof -
  let ?f = "published_file (sp_process pl) (sp_mode pl) (sp_group pl) (standing_text s)"
  have body: "of_text ?f = standing_text s" by (simp add: published_file_def)
  have "snd (read_standing pl err dk) = Inr (standing_text s)"
    unfolding read_standing_def Let_def
  proof (rule on_call_rule, goal_cases)
    case (2 dk1)
    with assms(4) have st: "od_state dk1 = Some (LeafFile ?f)" and "steady dk1"
      using assms(5) by (auto simp: on_file_def same_leaves_def)
    show ?case
      unfolding st option.case leaf.case
    proof (rule on_call_rule, goal_cases)
      case (2 dk2)
      obtain dk3 e where r: "read_whole MAX_DEVICE_STANDING_FILE_BYTES (byte_length (standing_text s)) 0 dk2 = (dk3, e)"
        by fastforce
      from read_whole_rule[OF r] 2 \<open>steady dk1\<close> assms(3) have "e = WholeFile" by auto
      with r show ?case by (simp add: own_file_trusted[OF assms(1)] body)
    qed (use \<open>steady dk1\<close> in simp)
  qed (use assms(5) in simp)
  then show ?thesis
    using standing_text_reads_back[OF assms(2)] persisted_reads_back[OF assms(2)]
    by (auto simp: load_standing_def split: prod.split)
qed

lemma load_standing_cases:
  assumes "load_standing pl err dk = (dk', StandingLoaded s)"
  shows "\<exists>f. od_state dk = Some (LeafFile f) \<and> boundaryViolation pl f = None \<and>
     Option.bind (json_parse (of_text f)) asPersistedDeviceStanding = Some s"
proof -
  have read: "case read_standing pl err dk of (dk1, Inl out) \<Rightarrow> out \<noteq> StandingLoaded s
     | (dk1, Inr raw) \<Rightarrow> \<exists>f. od_state dk = Some (LeafFile f) \<and> boundaryViolation pl f = None \<and> of_text f = raw"
    unfolding read_standing_def Let_def
  proof (rule on_call_rule, goal_cases)
    case (2 dk1)
    then have st: "od_state dk1 = od_state dk" by auto
    show ?case
    proof (cases "od_state dk1")
      case (Some lf)
      show ?thesis
      proof (cases lf)
        case (LeafFile f)
        have f: "od_state dk = Some (LeafFile f)" using st Some LeafFile by simp
        show ?thesis unfolding Some LeafFile option.case leaf.case
          by (rule on_call_rule) (use f in \<open>auto split: option.split prod.split read_end.split\<close>)
      next
        case LeafDirectory
        show ?thesis unfolding Some LeafDirectory option.case leaf.case by (rule on_call_rule) auto
      next
        case LeafSpecial
        show ?thesis unfolding Some LeafSpecial option.case leaf.case by (rule on_call_rule) auto
      qed (use Some in simp)
    qed simp
  qed simp
  from assms read show ?thesis
    by (auto simp: load_standing_def split: prod.splits sum.splits option.splits)
qed

section \<open>Properties\<close>

text \<open>
  A save is all or nothing and survives a restart: where it throws, the file is what it was;
  otherwise, whatever it said of durability, the next load that meets no failing call and finds the
  file as it was left gives back exactly the saved standing, and if someone has deleted the file in
  between, the load is corrupt, so that a revoked device does not come back by removing the file.
\<close>

theorem saved_standing_survives:
  assumes "save_standing pl err dk s = (dk', out)"
    and "place_ok pl" and "standing_tidy s" and "byte_length (standing_text s) \<le> MAX_DEVICE_STANDING_FILE_BYTES"
    and "od_marker dk \<noteq> Some (LeafLink False)"
  shows "(\<exists>e. out = SaveThrew e) \<and> od_state dk' = od_state dk \<or>
     (\<forall>dk2. steady dk2 \<longrightarrow> od_marker dk2 = od_marker dk' \<longrightarrow>
        (od_state dk2 = od_state dk' \<longrightarrow> snd (load_standing pl err dk2) = StandingLoaded s) \<and>
        (od_state dk2 = None \<longrightarrow> (\<exists>detail. snd (load_standing pl err dk2) = StandingCorrupt detail)))"
proof (cases "\<exists>e. out = SaveThrew e")
  case True
  then show ?thesis using save_standing_rule[where pl = pl and err = err and dk = dk and s = s] assms(1) by auto
next
  case False
  then have on: "on_file pl s dk'" and plain: "leaf_exists (od_marker dk')"
    using save_standing_rule[where pl = pl and err = err and dk = dk and s = s] assms(1,5) by (auto split: save_outcome.splits)
  have loads: "snd (load_standing pl err dk2) = StandingLoaded s" if "steady dk2" "od_state dk2 = od_state dk'" for dk2
    using load_on_file[OF assms(2-4) _ that(1)] on that(2) by (simp add: on_file_def)
  have missing: "\<exists>detail. snd (load_standing pl err dk2) = StandingCorrupt detail"
    if "steady dk2" "od_marker dk2 = od_marker dk'" "od_state dk2 = None" for dk2
  proof -
    have "\<exists>detail. snd (read_standing pl err dk2) = Inl (StandingCorrupt detail)"
      unfolding read_standing_def Let_def
      by (rule on_call_rule) (use that plain in \<open>auto simp: same_leaves_def\<close>)
    then show ?thesis by (auto simp: load_standing_def split: prod.split)
  qed
  from loads missing show ?thesis by blast
qed

text \<open>
  Standing is only ever read from a file that nobody else could have written: a regular file, owned
  by a trusted user, private or readable by the one group that was configured, with nothing but a
  strict table in it.
\<close>

theorem standing_read_is_trusted:
  assumes "load_standing pl err dk = (dk', StandingLoaded s)"
  shows "\<exists>f. od_state dk = Some (LeafFile f) \<and> of_uid f \<in> set (sp_trusted pl) \<and>
     (of_mode f AND 4095 = 384 \<or> of_mode f AND 4095 = 416 \<and> sp_group pl = Some (of_gid f)) \<and>
     Option.bind (json_parse (of_text f)) asPersistedDeviceStanding = Some s"
  using load_standing_cases[OF assms]
  by (auto simp: boundaryViolation_def Let_def split: if_split_asm option.split_asm)

section \<open>Witnesses\<close>

definition demo_standing :: persisted_standing where
  "demo_standing = \<lparr>pt_version = 2, pt_devices = [(''dev_a'', \<lparr>ds_generation = 2, ds_revokedAt = Some (NInt 7), ds_spki = Some ''Zm8''\<rparr>)]\<rparr>"

definition demo_standing_place :: standing_place where
  "demo_standing_place =
     \<lparr>sp_path = ''/d/s'', sp_mode = 416, sp_group = Some 9, sp_trusted = [0, 5],
      sp_process = \<lparr>op_uid = 5, op_gid = 5, op_umask = 0\<rparr>\<rparr>"

definition demo_standing_disk :: owned_disk where
  "demo_standing_disk = \<lparr>od_dir = DirIs 1 1, od_state = None, od_marker = None, od_calls = []\<rparr>"

lemma demo_standing_tidy: "standing_tidy demo_standing"
  by (simp add: standing_tidy_def demo_standing_def map_keys_def object_order_plain array_index_key_def is_digit_def code_unit_def
      entry_ok_def FORBIDDEN_DEVICE_IDS_def is_safe_int_def MAX_SAFE_INTEGER_def b64url_text_def b64url_value_def)

lemma demo_standing_small: "byte_length (standing_text demo_standing) \<le> MAX_DEVICE_STANDING_FILE_BYTES"
  by (simp add: byte_length_def MAX_DEVICE_STANDING_FILE_BYTES_def standing_text_def json_pretty_def persisted_standing_json_def
      standing_json_def optional_field_def demo_standing_def json_string_text_def escape_char_def code_unit_def quoted_def
      is_safe_int_def MAX_SAFE_INTEGER_def show_int_def show_nat.simps digit_char_def sum_list_replicate)

lemma saved_standing_survives_witness:
  "(case save_standing demo_standing_place [] demo_standing_disk demo_standing of (dk', out) \<Rightarrow>
     (\<exists>e. out = SaveThrew e) \<and> od_state dk' = None \<or>
     (\<forall>dk2. steady dk2 \<longrightarrow> od_marker dk2 = od_marker dk' \<longrightarrow>
        (od_state dk2 = od_state dk' \<longrightarrow> snd (load_standing demo_standing_place [] dk2) = StandingLoaded demo_standing) \<and>
        (od_state dk2 = None \<longrightarrow> (\<exists>detail. snd (load_standing demo_standing_place [] dk2) = StandingCorrupt detail))))"
proof -
  obtain dk' out where save: "save_standing demo_standing_place [] demo_standing_disk demo_standing = (dk', out)" by fastforce
  have "place_ok demo_standing_place" "od_marker demo_standing_disk \<noteq> Some (LeafLink False)"
    by (simp_all add: place_ok_def demo_standing_place_def demo_standing_disk_def)
  from saved_standing_survives[OF save this(1) demo_standing_tidy demo_standing_small this(2)] save
  show ?thesis by (simp add: demo_standing_disk_def)
qed

definition demo_written :: owned_disk where
  "demo_written = demo_standing_disk\<lparr>od_state :=
     Some (LeafFile (published_file (sp_process demo_standing_place) (sp_mode demo_standing_place) (sp_group demo_standing_place)
       (standing_text demo_standing)))\<rparr>"

lemma standing_read_is_trusted_witness:
  "\<exists>f. od_state demo_written = Some (LeafFile f) \<and> of_uid f \<in> set (sp_trusted demo_standing_place) \<and>
     (of_mode f AND 4095 = 384 \<or> of_mode f AND 4095 = 416 \<and> sp_group demo_standing_place = Some (of_gid f)) \<and>
     Option.bind (json_parse (of_text f)) asPersistedDeviceStanding = Some demo_standing"
proof -
  have "snd (load_standing demo_standing_place [] demo_written) = StandingLoaded demo_standing"
    by (rule load_on_file[OF _ demo_standing_tidy demo_standing_small])
      (simp_all add: place_ok_def demo_standing_place_def on_file_def demo_written_def demo_standing_disk_def steady_def)
  then obtain dk' where "load_standing demo_standing_place [] demo_written = (dk', StandingLoaded demo_standing)"
    by (metis prod.collapse)
  from standing_read_is_trusted[OF this] show ?thesis .
qed

end
