(* ===== verification/Server.thy ===== *)
theory Server
  imports DeviceStanding RenderableAlert TwoGo VetoWindow License SignedKillState StatusClient
begin

text \<open>
  The ground of the control plane's HTTP layer, \<open>packages/control-plane/src/server.ts\<close>: its options,
  the state behind its handlers, what a request and a reply are, and the authentications and small
  readings the handlers share.  The handlers themselves are in \<open>ServerKill\<close>, \<open>ServerVeto\<close>
  and \<open>ServerDevices\<close>, and \<open>ServerRun\<close> interleaves them.

  A handler is cut at the await of its body: the part before runs when the request arrives, the
  part after when the body is there.  Each part runs at one instant \<open>now\<close>, all its clock
  readings being taken to agree.  Random values are arguments.  What
  \<open>node:http\<close> and the URL parser give (method, target, path, query, headers, remote address) are
  the fields of \<open>request\<close>.
\<close>

section \<open>Options\<close>

record server_passkey =
  sk_key :: owner_passkey
  sk_rpId :: string
  sk_origin :: string

record licensing =
  lc_token :: "string option"
  lc_vendorPublicKeyPem :: string
  lc_deploymentId :: "string option"

text \<open>
  The options with the libraries and stores behind them: the keyed digest, the key operations, the
  check of an Ed25519 signature under a PEM key, and the three stores, whose worlds are
  \<open>'f\<close>, \<open>'d\<close> and \<open>'s\<close>.
\<close>

record ('f, 'd, 's) config =
  cf_mac :: mac
  cf_keys :: key_ops
  cf_ed25519 :: "string \<Rightarrow> byte_list \<Rightarrow> byte_list \<Rightarrow> bool option"
  cf_switchStore :: "'f kill_store option"
  cf_deviceStore :: "'d device_store"
  cf_standingStore :: "'s standing_store option"
  cf_deviceSecret :: "string option"
  cf_grantKey :: "string option"
  cf_grantTtlMs :: int
  cf_killStateKey :: "string option"
  cf_ownerPasskey :: "server_passkey option"
  cf_licensing :: "licensing option"
  cf_enrollment :: "(relying_party \<times> string) option"
  cf_dev :: bool

definition MAX_CEREMONY_RECORDS :: nat where "MAX_CEREMONY_RECORDS = 256"
definition MIN_VETO_RESPONSE_MS :: int where "MIN_VETO_RESPONSE_MS = 60000"
definition DELIVERY_TTL_MS :: int where "DELIVERY_TTL_MS = 2 * 60000"
definition KILL_STATE_TTL_MS :: int where "KILL_STATE_TTL_MS = 5000"
definition COMMIT_REQUEST_SKEW_MS :: int where "COMMIT_REQUEST_SKEW_MS = 30000"
definition APPROVAL_CHALLENGE_TTL_MS :: int where "APPROVAL_CHALLENGE_TTL_MS = 2 * 60000"
definition LOGIN_CHALLENGE_TTL_MS :: int where "LOGIN_CHALLENGE_TTL_MS = 2 * 60000"
definition MAX_LOGIN_CHALLENGES :: nat where "MAX_LOGIN_CHALLENGES = 256"
definition RESTORE_CHALLENGE_TTL_MS :: int where "RESTORE_CHALLENGE_TTL_MS = 2 * 60000"

section \<open>State\<close>

record delivery =
  dl_windowId :: string
  dl_revision :: nat
  dl_renderHash :: string
  dl_callHash :: string
  dl_deviceId :: string
  dl_deviceGeneration :: int
  dl_expiresAt :: int
  dl_consumed :: bool

record approval_challenge =
  ac_challenge :: string
  ac_callHash :: string
  ac_renderHash :: string
  ac_killEpoch :: int
  ac_expiresAt :: int

record login_challenge =
  lg_expiresAt :: int
  lg_killEpoch :: int

record ceremony_record =
  cr_ceremony :: ceremony
  cr_epoch :: int
  cr_agentId :: "string option"

record restore_challenge =
  rc_challenge :: string
  rc_killEpoch :: int
  rc_expiresAt :: int

text \<open>
  The closure of \<open>createControlPlane\<close>.  The cache of parsed keys is left out: it holds what parsing
  gives again.
\<close>

record ('f, 'd, 's) server =
  sv_switch :: "'f kill_switch"
  sv_windows :: "(string \<times> veto_window) list"
  sv_seenNonces :: nonce_store
  sv_sessions :: session_store
  sv_ownerDevices :: "(string \<times> enrolled_device) list"
  sv_enrolled :: "'d registry option"
  sv_standing :: 's
  sv_quarantined :: bool
  sv_unenrolled :: standing_table
  sv_deliveries :: "(string \<times> delivery) list"
  sv_granted :: "string list"
  sv_minted :: "(string \<times> string) list"
  sv_windowToGrant :: "(string \<times> string) list"
  sv_committed :: "string list"
  sv_approvals :: "(string \<times> approval_challenge) list"
  sv_signCount :: nat
  sv_logins :: "(string \<times> login_challenge) list"
  sv_ceremonies :: "(string \<times> ceremony_record) list"
  sv_restores :: "(string \<times> restore_challenge) list"

abbreviation killed_now :: "('f, 'd, 's) server \<Rightarrow> bool" where
  "killed_now sv \<equiv> sw_killed (sv_switch sv)"

abbreviation epoch_now :: "('f, 'd, 's) server \<Rightarrow> int" where
  "epoch_now sv \<equiv> sw_epoch (sv_switch sv)"

section \<open>Requests and replies\<close>

record request =
  rq_method :: string
  rq_url :: string
  rq_target :: "(string \<times> (string \<times> string) list) option"
  rq_header :: "string \<Rightarrow> string option"
  rq_remote :: "string option"

text \<open>
  A reply is a status and a JSON body.  Three refusals quote the reason of another module, which
  that module's model keeps as a value without its prose.
\<close>

datatype reply =
    Reply nat json
  | LicenseNeeded license_refusal
  | NotOneMerge merge_args_error
  | Unrenderable "merge_args_error + string"

definition error_reply :: "nat \<Rightarrow> string \<Rightarrow> reply" where
  "error_reply status e = Reply status (JObj [(''error'', JStr e)])"

definition unauthorized :: reply where "unauthorized = error_reply 401 ''unauthorized''"

definition internal_error :: reply where "internal_error = error_reply 500 ''internal error''"

definition not_found :: reply where "not_found = error_reply 404 ''not found''"

definition parseJsonBody :: "string \<Rightarrow> string + json" where
  "parseJsonBody raw =
     (let trimmed = js_trim raw in
      if trimmed = [] then Inr (JObj [])
      else
        (case json_parse trimmed of
           None \<Rightarrow> Inl ''malformed JSON body''
         | Some v \<Rightarrow> if is_plain_object v then Inr v else Inl ''body must be a JSON object''))"

definition bad_json :: "string \<Rightarrow> reply" where "bad_json e = error_reply 400 e"

text \<open>\<open>Number\<close> of a string: white space around, radix prefixes, an optional sign, decimal literals and \<open>Infinity\<close>.\<close>

definition radix_value :: "nat \<Rightarrow> string \<Rightarrow> nat option" where
  "radix_value r ds =
     (if ds \<noteq> [] \<and> list_all (\<lambda>c. case hex_value c of None \<Rightarrow> False | Some d \<Rightarrow> d < r) ds
      then Some (foldl (\<lambda>a c. r * a + the (hex_value c)) 0 ds) else None)"

definition nat_number :: "nat \<Rightarrow> js_num" where
  "nat_number n = (case nearest_double n 1 of Whole v \<Rightarrow> NInt (int v) | Infinite \<Rightarrow> NNonFinite | Broken \<Rightarrow> NNonFinite)"

fun radix_of :: "char \<Rightarrow> nat option" where
  "radix_of c =
     (if c \<in> {CHR ''x'', CHR ''X''} then Some 16 else if c \<in> {CHR ''o'', CHR ''O''} then Some 8
      else if c \<in> {CHR ''b'', CHR ''B''} then Some 2 else None)"

definition decimal_number :: "string \<Rightarrow> js_num" where
  "decimal_number t =
     (let (neg, u) = exponent_sign t; (ip, s2) = span_digits u;
          (fp, s3) = (case s2 of c # cs \<Rightarrow> if c = CHR ''.'' then span_digits cs else ([], s2) | [] \<Rightarrow> ([], []))
      in if ip @ fp = [] then NNonFinite
         else (case parse_exponent s3 of Some (ex, []) \<Rightarrow> literal_value neg ip fp ex | _ \<Rightarrow> NNonFinite))"

definition js_Number :: "string \<Rightarrow> js_num" where
  "js_Number s =
     (let t = js_trim s in
      if t = [] then NInt 0
      else
        (case t of
           z # x # ds \<Rightarrow>
             (case (if z = CHR ''0'' then radix_of x else None) of
                Some r \<Rightarrow> (case radix_value r ds of Some n \<Rightarrow> nat_number n | None \<Rightarrow> NNonFinite)
              | None \<Rightarrow> decimal_number t)
         | _ \<Rightarrow> decimal_number t))"

definition header_text :: "request \<Rightarrow> string \<Rightarrow> string" where
  "header_text rq k = (case rq_header rq k of None \<Rightarrow> [] | Some v \<Rightarrow> v)"

text \<open>Both credentials have the same headers; the fields of the owner device's are the same.\<close>

definition deviceCredentialFrom :: "request \<Rightarrow> device_credential option" where
  "deviceCredentialFrom rq =
     (let deviceId = header_text rq ''x-device-id''; timestamp = header_text rq ''x-device-timestamp'';
          nonce = header_text rq ''x-device-nonce''; sg = header_text rq ''x-device-signature''
      in if deviceId = [] \<or> timestamp = [] \<or> nonce = [] \<or> sg = [] then None
         else Some \<lparr>dc_deviceId = deviceId, dc_timestamp = js_Number timestamp, dc_nonce = nonce, dc_signature = sg\<rparr>)"

definition lower_char :: "char \<Rightarrow> char" where
  "lower_char c = (if 65 \<le> code_unit c \<and> code_unit c \<le> 90 then char_of (code_unit c + 32) else c)"

definition bearerToken :: "request \<Rightarrow> string option" where
  "bearerToken rq =
     (let h = header_text rq ''authorization''; token = drop 7 h in
      if map lower_char (take 7 h) = ''bearer '' \<and> token \<noteq> [] \<and> \<not> list_ex line_terminator token then Some token else None)"

section \<open>Who is asking\<close>

definition ownerSessionFrom ::
  "int \<Rightarrow> request \<Rightarrow> ('f, 'd, 's) server \<Rightarrow> ('f, 'd, 's) server \<times> owner_session option" where
  "ownerSessionFrom now rq sv =
     (case bearerToken rq of
        None \<Rightarrow> (sv, None)
      | Some token \<Rightarrow>
          let (sessions, s) = verifyOwnerSession token now (sv_sessions sv) in (sv\<lparr>sv_sessions := sessions\<rparr>, s))"

definition validDeviceIdFrom ::
  "('f, 'd, 's) config \<Rightarrow> int \<Rightarrow> request \<Rightarrow> string \<Rightarrow> ('f, 'd, 's) server \<Rightarrow> ('f, 'd, 's) server \<times> string option" where
  "validDeviceIdFrom cf now rq raw sv =
     (case cf_deviceSecret cf of
        None \<Rightarrow> (sv, None)
      | Some secret \<Rightarrow>
          (case deviceCredentialFrom rq of
             None \<Rightarrow> (sv, None)
           | Some c \<Rightarrow>
               let (seen, ok) = verifyDeviceSignature (cf_mac cf) c raw secret now DEVICE_SKEW_MS (sv_seenNonces sv) in
               (sv\<lparr>sv_seenNonces := seen\<rparr>, if ok then Some (dc_deviceId c) else None)))"

text \<open>
  A record whose key the strict parser refuses resolves no device; an admitted record has passed
  that parser, so the throw of the code does not happen for one.
\<close>

definition resolveOwnerDevice ::
  "('f, 'd, 's) config \<Rightarrow> ('f, 'd, 's) server \<Rightarrow> string \<Rightarrow> enrolled_device option" where
  "resolveOwnerDevice cf sv deviceId =
     (case map_of (sv_ownerDevices sv) deviceId of
        Some d \<Rightarrow> Some d
      | None \<Rightarrow>
          (case Option.bind (sv_enrolled sv) (\<lambda>r. registry_get r deviceId) of
             None \<Rightarrow> None
           | Some rec \<Rightarrow>
               (case enrolledOwnerDeviceFromSpki (cf_keys cf) deviceId (en_cheapLaneKeySpki rec) of
                  Inl _ \<Rightarrow> None
                | Inr d \<Rightarrow> Some (d\<lparr>ed_generation := en_generation rec, ed_revokedAt := en_revokedAt rec\<rparr>))))"

definition ownerDeviceLaneWired :: "('f, 'd, 's) server \<Rightarrow> bool" where
  "ownerDeviceLaneWired sv \<longleftrightarrow> sv_ownerDevices sv \<noteq> [] \<or> sv_enrolled sv \<noteq> None"

definition validOwnerDeviceIdFrom ::
  "('f, 'd, 's) config \<Rightarrow> int \<Rightarrow> request \<Rightarrow> string \<Rightarrow> ('f, 'd, 's) server \<Rightarrow> ('f, 'd, 's) server \<times> string option" where
  "validOwnerDeviceIdFrom cf now rq raw sv =
     (if \<not> ownerDeviceLaneWired sv then (sv, None)
      else
        (case deviceCredentialFrom rq of
           None \<Rightarrow> (sv, None)
         | Some c \<Rightarrow>
             let (seen, d) = verifyOwnerDeviceSignature (cf_keys cf) c (toUpperCase (rq_method rq)) (rq_url rq) raw
                   (resolveOwnerDevice cf sv) now DEVICE_SKEW_MS (sv_seenNonces sv)
             in (sv\<lparr>sv_seenNonces := seen\<rparr>, d)))"

text \<open>The credential of the stopping routes: a device signature or else an owner session.\<close>

definition authenticate_stop ::
  "('f, 'd, 's) config \<Rightarrow> int \<Rightarrow> request \<Rightarrow> string \<Rightarrow> ('f, 'd, 's) server \<Rightarrow> ('f, 'd, 's) server \<times> bool" where
  "authenticate_stop cf now rq raw sv =
     (case validDeviceIdFrom cf now rq raw sv of
        (sv1, Some _) \<Rightarrow> (sv1, True)
      | (sv1, None) \<Rightarrow> (let (sv2, s) = ownerSessionFrom now rq sv1 in (sv2, s \<noteq> None)))"

section \<open>Standing and windows\<close>

definition witnessStanding :: "('f, 'd, 's) config \<Rightarrow> ('f, 'd, 's) server \<Rightarrow> string option \<Rightarrow> int option \<Rightarrow> bool" where
  "witnessStanding cf sv deviceId generation \<longleftrightarrow>
     \<not> killed_now sv \<and> \<not> sv_quarantined sv \<and>
     (case (deviceId, generation) of
        (Some d, Some g) \<Rightarrow>
          (case resolveOwnerDevice cf sv d of
             None \<Rightarrow> False
           | Some device \<Rightarrow> ed_revokedAt device = None \<and> ed_generation device = g)
      | _ \<Rightarrow> False)"

text \<open>\<open>tick\<close> of a window of the server, and of the one with this id.\<close>

definition tick_now :: "('f, 'd, 's) config \<Rightarrow> int \<Rightarrow> ('f, 'd, 's) server \<Rightarrow> veto_window \<Rightarrow> veto_window" where
  "tick_now cf now sv w = tick_window (Some (witnessStanding cf sv)) now w"

definition set_window :: "string \<Rightarrow> veto_window \<Rightarrow> ('f, 'd, 's) server \<Rightarrow> ('f, 'd, 's) server" where
  "set_window i w sv = sv\<lparr>sv_windows := AList.update i w (sv_windows sv)\<rparr>"

definition no_window :: "string \<Rightarrow> reply" where
  "no_window i = error_reply 404 (''no veto window '' @ quoted i)"

fun status_text :: "veto_status \<Rightarrow> string" where
  "status_text Pending = ''pending''"
| "status_text Vetoed = ''vetoed''"
| "status_text Released = ''released''"
| "status_text Extended = ''extended''"
| "status_text Held = ''held''"

fun veto_error_text :: "veto_error \<Rightarrow> string" where
  "veto_error_text (CannotVetoIn s) = ''cannot veto in status '' @ quoted (status_text s)"
| "veto_error_text CannotApproveVetoed = ''cannot approve a vetoed window''"
| "veto_error_text AlreadyApproved = ''window already approved''"

section \<open>What the handlers share\<close>

definition sha256Hex :: "('f, 'd, 's) config \<Rightarrow> string \<Rightarrow> string" where
  "sha256Hex cf t = hex_encode (ko_sha256 (cf_keys cf) (utf8 t))"

text \<open>A key that is configured and not empty.\<close>

definition given_key :: "string option \<Rightarrow> string option" where
  "given_key k = (if k = Some [] then None else k)"

definition degradedFields :: "('f, 'd, 's) server \<Rightarrow> (string \<times> json) list" where
  "degradedFields sv =
     (if persistenceDegraded (sv_switch sv) then [(''persistenceDegraded'', JBool True)] else []) @
     (if sw_quarantineFailed (sv_switch sv) then
        [(''unhealthy'', JStr (''stale kill state could not be quarantined - durable state is untrustworthy; '' @
           ''owner intervention required''))]
      else [])"

definition clear_challenges :: "('f, 'd, 's) server \<Rightarrow> ('f, 'd, 's) server" where
  "clear_challenges sv = sv\<lparr>sv_approvals := [], sv_logins := [], sv_restores := []\<rparr>"

definition at_clock :: "int \<Rightarrow> clock" where "at_clock now = (NInt now, NInt now)"

definition claimed_source :: "json \<Rightarrow> kill_source" where
  "claimed_source body =
     (case own_field ''source'' body of
        Some (JStr s) \<Rightarrow> (case map_of KILL_SOURCES s of Some k \<Rightarrow> k | None \<Rightarrow> SrcApi)
      | _ \<Rightarrow> SrcApi)"

text \<open>The server engages the switch on its own behalf, and voids what was minted before.\<close>

definition engage_for_standing :: "('f, 'd, 's) config \<Rightarrow> int \<Rightarrow> string \<Rightarrow> ('f, 'd, 's) server \<Rightarrow> ('f, 'd, 's) server" where
  "engage_for_standing cf now reason sv =
     clear_challenges (sv\<lparr>sv_switch := engage (cf_switchStore cf) SrcApi (Some reason) False (at_clock now) (sv_switch sv)\<rparr>)"

definition assertionFrom :: "json option \<Rightarrow> assertion option" where
  "assertionFrom v =
     (case v of
        None \<Rightarrow> None
      | Some a \<Rightarrow>
          if \<not> is_plain_object a then None
          else
            (case (string_where (\<lambda>s. s \<noteq> []) (own_field ''credentialId'' a),
                   string_where (\<lambda>s. s \<noteq> [] \<and> length s \<le> 8 * 1024) (own_field ''clientDataJSON'' a),
                   string_where (\<lambda>s. s \<noteq> [] \<and> length s \<le> 8 * 1024) (own_field ''authenticatorData'' a),
                   string_where (\<lambda>s. s \<noteq> [] \<and> length s \<le> 4 * 1024) (own_field ''signature'' a)) of
               (Some cid, Some cdj, Some ad, Some sg) \<Rightarrow>
                 Some \<lparr>wa_credentialId = cid, wa_clientDataJSON = cdj, wa_authenticatorData = ad, wa_signature = sg\<rparr>
             | _ \<Rightarrow> None))"

text \<open>The check of an assertion over a challenge against the enrolled passkey and the last counter.\<close>

definition check_assertion ::
  "('f, 'd, 's) config \<Rightarrow> server_passkey \<Rightarrow> string \<Rightarrow> assertion \<Rightarrow> ('f, 'd, 's) server \<Rightarrow> assertion_verdict" where
  "check_assertion cf pk challenge a sv =
     verifyOwnerAssertion (cf_keys cf) a
       \<lparr>ao_passkey = sk_key pk, ao_rpId = sk_rpId pk, ao_expectedChallenge = challenge,
        ao_expectedOrigin = sk_origin pk, ao_lastSignCount = sv_signCount sv\<rparr>"

section \<open>What authentication leaves alone\<close>

text \<open>Authentication touches the nonces and the sessions only.\<close>

definition same_but_auth :: "('f, 'd, 's) server \<Rightarrow> ('f, 'd, 's) server \<Rightarrow> bool" where
  "same_but_auth sv sv' \<longleftrightarrow> (\<exists>seen sessions. sv' = sv\<lparr>sv_seenNonces := seen, sv_sessions := sessions\<rparr>)"

lemma same_but_auth_refl [simp]: "same_but_auth sv sv"
  unfolding same_but_auth_def by (intro exI[of _ "sv_seenNonces sv"] exI[of _ "sv_sessions sv"]) simp

lemma same_but_auth_iff:
  "same_but_auth sv sv' \<longleftrightarrow> sv' = sv\<lparr>sv_seenNonces := sv_seenNonces sv', sv_sessions := sv_sessions sv'\<rparr>"
  unfolding same_but_auth_def by (metis server.select_convs(3,4) server.surjective server.update_convs(3,4))

lemma same_but_auth_trans: "same_but_auth a b \<Longrightarrow> same_but_auth b c \<Longrightarrow> same_but_auth a c"
  unfolding same_but_auth_iff by (cases a; cases b; cases c) simp

lemma same_but_auth_updates [simp]:
  "same_but_auth sv (sv\<lparr>sv_seenNonces := seen\<rparr>)" "same_but_auth sv (sv\<lparr>sv_sessions := sessions\<rparr>)"
  unfolding same_but_auth_def
  by (intro exI[of _ seen] exI[of _ "sv_sessions sv"]; simp) (intro exI[of _ "sv_seenNonces sv"] exI[of _ sessions]; simp)

lemma same_but_authD:
  assumes "same_but_auth sv sv'"
  shows "sv_switch sv' = sv_switch sv" "sv_windows sv' = sv_windows sv" "sv_ownerDevices sv' = sv_ownerDevices sv"
    "sv_enrolled sv' = sv_enrolled sv" "sv_standing sv' = sv_standing sv" "sv_quarantined sv' = sv_quarantined sv"
    "sv_unenrolled sv' = sv_unenrolled sv" "sv_deliveries sv' = sv_deliveries sv" "sv_granted sv' = sv_granted sv"
    "sv_minted sv' = sv_minted sv" "sv_windowToGrant sv' = sv_windowToGrant sv" "sv_committed sv' = sv_committed sv"
    "sv_approvals sv' = sv_approvals sv" "sv_signCount sv' = sv_signCount sv" "sv_logins sv' = sv_logins sv"
    "sv_ceremonies sv' = sv_ceremonies sv" "sv_restores sv' = sv_restores sv"
  using assms by (auto simp: same_but_auth_def)

lemma auth_keeps:
  "same_but_auth sv (fst (ownerSessionFrom now rq sv))" "same_but_auth sv (fst (validDeviceIdFrom cf now rq raw sv))"
  "same_but_auth sv (fst (validOwnerDeviceIdFrom cf now rq raw sv))"
  by (auto simp: ownerSessionFrom_def validDeviceIdFrom_def validOwnerDeviceIdFrom_def Let_def split: option.split prod.split)

lemma authenticate_stop_keeps: "same_but_auth sv (fst (authenticate_stop cf now rq raw sv))"
proof -
  obtain sv1 d where v: "validDeviceIdFrom cf now rq raw sv = (sv1, d)" by fastforce
  have k: "same_but_auth sv sv1" using auth_keeps(2)[of sv cf now rq raw] v by simp
  have "same_but_auth sv (fst (ownerSessionFrom now rq sv1))" by (rule same_but_auth_trans[OF k auth_keeps(1)])
  then show ?thesis using k by (auto simp: authenticate_stop_def v split: option.split prod.split)
qed

end
