(* ===== verification/ServerKill.thy ===== *)
theory ServerKill
  imports Server
begin

text \<open>
  The stopping and restoring routes of \<open>packages/control-plane/src/server.ts\<close>: the kill state in its
  open and its signed form, the commit of a grant for dispatch, kills and alerts, and the restore
  ceremony with its challenge.  A handler that looks at the session before its body has a
  head, named \<open>..._head\<close>, that answers or hands the session on.
\<close>

section \<open>Reading the kill state\<close>

definition agents_json :: "string list \<Rightarrow> json" where
  "agents_json ids = JArr (map JStr ids)"

definition last_kill_fields :: "kill_event option \<Rightarrow> (string \<times> json) list" where
  "last_kill_fields ke =
     (case ke of
        None \<Rightarrow> []
      | Some e \<Rightarrow> optional_field ''reason'' (map_option JStr (ke_reason e)) @ [(''at'', JNum (ke_at e))])"

definition getStatus :: "('f, 'd, 's) server \<Rightarrow> reply" where
  "getStatus sv =
     (if \<not> killed_now sv then
        Reply 200 (JObj ([(''killed'', JBool False), (''epoch'', JNum (NInt (epoch_now sv))),
          (''killedAgents'', agents_json (killedAgents (sv_switch sv)))] @ degradedFields sv))
      else
        Reply 200 (JObj ([(''killed'', JBool True)] @ last_kill_fields (sw_lastKill (sv_switch sv)) @
          [(''epoch'', JNum (NInt (epoch_now sv))), (''killedAgents'', agents_json (killedAgents (sv_switch sv)))] @
          degradedFields sv)))"

text \<open>A grant is vouched for while its window is known and not vetoed and its agent not stopped.\<close>

definition grant_window :: "('f, 'd, 's) server \<Rightarrow> string \<Rightarrow> veto_window option" where
  "grant_window sv jti = Option.bind (map_of (sv_minted sv) jti) (map_of (sv_windows sv))"

definition grant_live :: "('f, 'd, 's) server \<Rightarrow> string \<Rightarrow> bool" where
  "grant_live sv jti \<longleftrightarrow>
     (case grant_window sv jti of
        None \<Rightarrow> False
      | Some w \<Rightarrow> vw_status w \<noteq> Vetoed \<and> \<not> agentKilled (sv_switch sv) (call_agentId (vw_call w)))"

definition state_envelope :: "int \<Rightarrow> string \<Rightarrow> grant_claim \<Rightarrow> ('f, 'd, 's) server \<Rightarrow> envelope" where
  "state_envelope now nonce claim sv =
     \<lparr>ev_killed = killed_now sv, ev_epoch = epoch_now sv, ev_nonce = nonce,
      ev_expiresAt = NInt (now + KILL_STATE_TTL_MS), ev_claim = claim\<rparr>"

definition signed_state :: "('f, 'd, 's) config \<Rightarrow> string \<Rightarrow> envelope \<Rightarrow> (string \<times> json) list" where
  "signed_state cf key e = signed_json (cf_mac cf) key (envelope_fields e)"

definition query_get :: "request \<Rightarrow> string \<Rightarrow> string option" where
  "query_get rq k = Option.bind (rq_target rq) (\<lambda>t. map_of (snd t) k)"

definition getSignedKillState :: "('f, 'd, 's) config \<Rightarrow> int \<Rightarrow> request \<Rightarrow> ('f, 'd, 's) server \<Rightarrow> reply" where
  "getSignedKillState cf now rq sv =
     (case given_key (cf_killStateKey cf) of
        None \<Rightarrow> error_reply 501 ''signed kill-state channel is not configured''
      | Some key \<Rightarrow>
          (case query_get rq ''nonce'' of
             None \<Rightarrow> error_reply 400 ''kill-state requires a nonce (1-128 chars)''
           | Some nonce \<Rightarrow>
               if nonce = [] \<or> 128 < length nonce then error_reply 400 ''kill-state requires a nonce (1-128 chars)''
               else
                 (case query_get rq ''jti'' of
                    None \<Rightarrow> Reply 200 (JObj (signed_state cf key (state_envelope now nonce NoClaim sv) @ degradedFields sv))
                  | Some jti \<Rightarrow>
                      if 256 < length jti then error_reply 400 ''kill-state jti probe too long''
                      else
                        Reply 200 (JObj (signed_state cf key (state_envelope now nonce
                          (if jti = [] then NoClaim else GrantLive jti (grant_live sv jti)) sv) @ degradedFields sv)))))"

section \<open>Committing a grant for dispatch\<close>

text \<open>The fields of a commit request, \<open>None\<close> where one is missing or malformed.\<close>

definition commit_request :: "json \<Rightarrow> (string \<times> string \<times> js_num \<times> string) option" where
  "commit_request body =
     (case (string_where (\<lambda>s. s \<noteq> [] \<and> length s \<le> 256) (own_field ''jti'' body),
            string_where (\<lambda>s. s \<noteq> [] \<and> length s \<le> 128) (own_field ''nonce'' body),
            finite_number (own_field ''ts'' body), string_where (\<lambda>s. s \<noteq> []) (own_field ''sig'' body)) of
        (Some jti, Some nonce, Some ts, Some sg) \<Rightarrow> Some (jti, nonce, ts, sg)
      | _ \<Rightarrow> None)"

text \<open>\<open>Math.abs(now - ts) > skew\<close>: the difference is rounded only where the number is not an integer.\<close>

fun too_far :: "int \<Rightarrow> int \<Rightarrow> js_num \<Rightarrow> bool" where
  "too_far skew now (NInt i) = (skew < \<bar>now - i\<bar>)"
| "too_far skew now (NFrac t) = (rat_of_int skew < \<bar>to_double (rat_of_int now - to_double (literal_rat t))\<bar>)"
| "too_far skew now NNonFinite = True"

definition may_commit :: "('f, 'd, 's) server \<Rightarrow> string \<Rightarrow> bool" where
  "may_commit sv jti \<longleftrightarrow>
     (case grant_window sv jti of
        None \<Rightarrow> False
      | Some w \<Rightarrow>
          vw_status w \<noteq> Vetoed \<and> \<not> killed_now sv \<and> \<not> agentKilled (sv_switch sv) (call_agentId (vw_call w)) \<and>
          vw_approvalEpoch w = Some (epoch_now sv))"

definition commit_grant :: "string \<Rightarrow> ('f, 'd, 's) server \<Rightarrow> ('f, 'd, 's) server \<times> bool" where
  "commit_grant jti sv =
     (if may_commit sv jti then (sv\<lparr>sv_committed := List.insert jti (sv_committed sv)\<rparr>, True) else (sv, False))"

definition postGrantCommit ::
  "('f, 'd, 's) config \<Rightarrow> int \<Rightarrow> string \<Rightarrow> ('f, 'd, 's) server \<Rightarrow> ('f, 'd, 's) server \<times> reply" where
  "postGrantCommit cf now raw sv =
     (case given_key (cf_killStateKey cf) of
        None \<Rightarrow> (sv, error_reply 501 ''signed kill-state channel is not configured'')
      | Some key \<Rightarrow>
          (case parseJsonBody raw of
             Inl e \<Rightarrow> (sv, bad_json e)
           | Inr body \<Rightarrow>
               (case commit_request body of
                  None \<Rightarrow> (sv, error_reply 400 ''commit requires {jti, nonce, ts, sig}'')
                | Some (jti, nonce, ts, sg) \<Rightarrow>
                    if hex_decode sg \<noteq> kill_state_mac (cf_mac cf) key (JObj (commit_fields jti nonce ts)) then (sv, unauthorized)
                    else if too_far COMMIT_REQUEST_SKEW_MS now ts then
                      (sv, error_reply 401 ''commit request timestamp is stale'')
                    else
                      (let (sv1, committed) = commit_grant jti sv in
                       (sv1, Reply 200 (JObj (signed_state cf key
                          (state_envelope now nonce (GrantCommitted jti committed) sv1))))))))"

section \<open>Stopping\<close>

definition string_of_field :: "json option \<Rightarrow> string option" where
  "string_of_field v = (case v of Some (JStr s) \<Rightarrow> Some s | _ \<Rightarrow> None)"

definition AGENT_ID_RULE :: string where
  "AGENT_ID_RULE = ''agentId must be printable ASCII, 1-128 chars, no leading/trailing spaces''"

text \<open>The scope of a body: none, a valid agent id, or an unusable one (\<open>Inl\<close>).\<close>

definition scope_from :: "json \<Rightarrow> unit + string option" where
  "scope_from body =
     (case own_field ''agentId'' body of
        None \<Rightarrow> Inr None
      | Some (JStr a) \<Rightarrow> if isValidAgentId a then Inr (Some a) else Inl ()
      | Some _ \<Rightarrow> Inl ())"

definition kill_all :: "('f, 'd, 's) config \<Rightarrow> int \<Rightarrow> kill_source \<Rightarrow> string option \<Rightarrow> bool \<Rightarrow> ('f, 'd, 's) server \<Rightarrow>
     ('f, 'd, 's) server \<times> reply" where
  "kill_all cf now src reason unauth sv =
     (let sv1 = clear_challenges (sv\<lparr>sv_switch := engage (cf_switchStore cf) src reason unauth (at_clock now) (sv_switch sv)\<rparr>)
      in (sv1, Reply 200 (JObj ([(''killed'', JBool True), (''epoch'', JNum (NInt (epoch_now sv1)))] @ degradedFields sv1))))"

definition kill_agent :: "('f, 'd, 's) config \<Rightarrow> int \<Rightarrow> string \<Rightarrow> kill_source \<Rightarrow> string option \<Rightarrow> bool \<Rightarrow> ('f, 'd, 's) server \<Rightarrow>
     ('f, 'd, 's) server \<times> reply" where
  "kill_agent cf now agent src reason unauth sv =
     (let (sw, escalated) = engageAgent (cf_switchStore cf) agent src reason unauth (at_clock now) (sv_switch sv);
          sv1 = clear_challenges (sv\<lparr>sv_switch := sw\<rparr>)
      in (sv1, Reply 200 (JObj ([(''killed'', JBool (killed_now sv1)), (''epoch'', JNum (NInt (epoch_now sv1))),
            (if escalated then (''escalatedToGlobal'', JBool True) else (''killedAgent'', JStr agent))] @ degradedFields sv1))))"

definition postKill ::
  "('f, 'd, 's) config \<Rightarrow> int \<Rightarrow> request \<Rightarrow> string \<Rightarrow> ('f, 'd, 's) server \<Rightarrow> ('f, 'd, 's) server \<times> reply" where
  "postKill cf now rq raw sv =
     (case authenticate_stop cf now rq raw sv of (sv1, authenticated) \<Rightarrow>
      if \<not> authenticated \<and> \<not> isLoopbackAddress (rq_remote rq) then (sv1, unauthorized)
      else
        (case parseJsonBody raw of
           Inl e \<Rightarrow> (sv1, bad_json e)
         | Inr body \<Rightarrow>
             let src = (if authenticated then claimed_source body else SrcApi);
                 reason = string_of_field (own_field ''reason'' body)
             in (case scope_from body of
                   Inl _ \<Rightarrow> (sv1, error_reply 400 AGENT_ID_RULE)
                 | Inr (Some agent) \<Rightarrow> kill_agent cf now agent src reason (\<not> authenticated) sv1
                 | Inr None \<Rightarrow> kill_all cf now src reason (\<not> authenticated) sv1)))"

definition postAlert ::
  "('f, 'd, 's) config \<Rightarrow> int \<Rightarrow> request \<Rightarrow> string \<Rightarrow> ('f, 'd, 's) server \<Rightarrow> ('f, 'd, 's) server \<times> reply" where
  "postAlert cf now rq raw sv =
     (case authenticate_stop cf now rq raw sv of (sv1, authenticated) \<Rightarrow>
      if \<not> authenticated \<and> \<not> isLoopbackAddress (rq_remote rq) then (sv1, unauthorized)
      else
        (case parseJsonBody raw of
           Inl e \<Rightarrow> (sv1, bad_json e)
         | Inr body \<Rightarrow>
             let src = (if authenticated then claimed_source body else SrcApi) in
             (sv1\<lparr>sv_switch := alert src (string_of_field (own_field ''reason'' body)) (\<not> authenticated) (NInt now) (sv_switch sv1)\<rparr>,
              Reply 200 (JObj [(''alerted'', JBool True), (''killed'', JBool (killed_now sv1))]))))"

section \<open>Starting a restore: GO 1/2\<close>

definition session_head :: "int \<Rightarrow> request \<Rightarrow> ('f, 'd, 's) server \<Rightarrow> ('f, 'd, 's) server \<times> (reply + owner_session)" where
  "session_head now rq sv =
     (case ownerSessionFrom now rq sv of
        (sv1, None) \<Rightarrow> (sv1, Inl unauthorized)
      | (sv1, Some s) \<Rightarrow> (sv1, Inr s))"

text \<open>Is there anything for a ceremony of this scope to restore; what to answer if not.\<close>

definition restorable :: "('f, 'd, 's) server \<Rightarrow> string option \<Rightarrow> bool" where
  "restorable sv scope \<longleftrightarrow>
     (case scope of
        None \<Rightarrow> killed_now sv
      | Some a \<Rightarrow> \<not> killed_now sv \<and> agentKilled (sv_switch sv) a)"

definition nothing_to_restore :: "('f, 'd, 's) server \<Rightarrow> string option \<Rightarrow> string" where
  "nothing_to_restore sv scope =
     (if scope = None then ''not killed - nothing to restore''
      else if killed_now sv then ''the global kill switch is engaged - restore it first, then the agent''
      else ''agent is not scope-killed - nothing to restore'')"

definition ceremony_dead :: "int \<Rightarrow> ('f, 'd, 's) server \<Rightarrow> ceremony_record \<Rightarrow> bool" where
  "ceremony_dead now sv r \<longleftrightarrow>
     expiresAt (cr_ceremony r) \<le> now \<or> ce_status (cr_ceremony r) = Completed \<or> cr_epoch r \<noteq> epoch_now sv \<or>
     (case cr_agentId r of None \<Rightarrow> False | Some a \<Rightarrow> \<not> agentKilled (sv_switch sv) a)"

definition purge_ceremonies :: "int \<Rightarrow> ('f, 'd, 's) server \<Rightarrow> ('f, 'd, 's) server" where
  "purge_ceremonies now sv = sv\<lparr>sv_ceremonies := filter (\<lambda>e. \<not> ceremony_dead now sv (snd e)) (sv_ceremonies sv)\<rparr>"

definition own_ceremony :: "string \<Rightarrow> string option \<Rightarrow> string \<times> ceremony_record \<Rightarrow> bool" where
  "own_ceremony ownerId scope e \<longleftrightarrow> ce_ownerId (cr_ceremony (snd e)) = ownerId \<and> cr_agentId (snd e) = scope"

fun state_text_of :: "ceremony_state \<Rightarrow> string" where
  "state_text_of Go1 = ''go1''"
| "state_text_of Ready = ''ready''"
| "state_text_of Completed = ''completed''"
| "state_text_of Expired = ''expired''"

definition ceremony_fields :: "int \<Rightarrow> string \<Rightarrow> ceremony_record \<Rightarrow> (string \<times> json) list" where
  "ceremony_fields now st r =
     [(''state'', JStr st), (''cooldownRemainingMs'', JNum (NInt (cooldownRemainingMs now (cr_ceremony r)))),
      (''expiresAt'', JNum (NInt (expiresAt (cr_ceremony r))))] @ optional_field ''agentId'' (map_option JStr (cr_agentId r))"

definition tick_record :: "int \<Rightarrow> ceremony_record \<Rightarrow> ceremony_record" where
  "tick_record now r = r\<lparr>cr_ceremony := tick now (cr_ceremony r)\<rparr>"

definition set_ceremony :: "string \<Rightarrow> ceremony_record \<Rightarrow> ('f, 'd, 's) server \<Rightarrow> ('f, 'd, 's) server" where
  "set_ceremony i r sv = sv\<lparr>sv_ceremonies := AList.update i r (sv_ceremonies sv)\<rparr>"

definition ceremony_reply :: "nat \<Rightarrow> int \<Rightarrow> string \<Rightarrow> ceremony_record \<Rightarrow> reply" where
  "ceremony_reply status now i r =
     Reply status (JObj ((''id'', JStr i) # ceremony_fields now (state_text_of (ce_status (cr_ceremony r))) r))"

text \<open>The one license gate.\<close>

definition license_refusal_now :: "('f, 'd, 's) config \<Rightarrow> int \<Rightarrow> license_refusal option" where
  "license_refusal_now cf now =
     (case cf_licensing cf of
        None \<Rightarrow> None
      | Some l \<Rightarrow>
          (case verifyLicense (cf_ed25519 cf (lc_vendorPublicKeyPem l))
                  (case lc_token l of None \<Rightarrow> [] | Some t \<Rightarrow> t) now (lc_deploymentId l) of
             Inl e \<Rightarrow> Some e
           | Inr _ \<Rightarrow> None))"

definition open_ceremony ::
  "int \<Rightarrow> string \<Rightarrow> string \<Rightarrow> string option \<Rightarrow> ('f, 'd, 's) server \<Rightarrow> ('f, 'd, 's) server \<times> reply" where
  "open_ceremony now uuid ownerId scope sv =
     (let i = ''cer_'' @ uuid;
          r = tick_record now \<lparr>cr_ceremony = new_ceremony i ownerId None None now, cr_epoch = epoch_now sv, cr_agentId = scope\<rparr>
      in (set_ceremony i r sv, ceremony_reply 201 now i r))"

definition postCeremonyStart ::
  "('f, 'd, 's) config \<Rightarrow> int \<Rightarrow> string \<Rightarrow> owner_session \<Rightarrow> string \<Rightarrow> ('f, 'd, 's) server \<Rightarrow> ('f, 'd, 's) server \<times> reply" where
  "postCeremonyStart cf now uuid session raw sv =
     (case parseJsonBody raw of
        Inl e \<Rightarrow> (sv, bad_json e)
      | Inr body \<Rightarrow>
          (case scope_from body of
             Inl _ \<Rightarrow> (sv, error_reply 400 AGENT_ID_RULE)
           | Inr scope \<Rightarrow>
               if \<not> restorable sv scope then (sv, error_reply 409 (nothing_to_restore sv scope))
               else
                 let sv1 = purge_ceremonies now sv in
                 (case find (own_ceremony (os_ownerId session) scope) (sv_ceremonies sv1) of
                    Some (i, r) \<Rightarrow>
                      let r1 = tick_record now r in (set_ceremony i r1 sv1, ceremony_reply 200 now i r1)
                  | None \<Rightarrow>
                      (case license_refusal_now cf now of
                         Some e \<Rightarrow> (sv1, LicenseNeeded e)
                       | None \<Rightarrow>
                           if MAX_CEREMONY_RECORDS \<le> length (sv_ceremonies sv1) then
                             (sv1, error_reply 409 ''ceremony rejected'')
                           else open_ceremony now uuid (os_ownerId session) scope sv1))))"

definition no_ceremony :: "string \<Rightarrow> reply" where
  "no_ceremony i = error_reply 404 (''no ceremony '' @ quoted i)"

text \<open>The ceremony with this id if it is the owner's: another's reads as absent.\<close>

definition ceremony_of :: "('f, 'd, 's) server \<Rightarrow> owner_session \<Rightarrow> string \<Rightarrow> ceremony_record option" where
  "ceremony_of sv session i =
     (case map_of (sv_ceremonies sv) i of
        None \<Rightarrow> None
      | Some r \<Rightarrow> if ce_ownerId (cr_ceremony r) = os_ownerId session then Some r else None)"

definition getCeremony ::
  "int \<Rightarrow> request \<Rightarrow> string \<Rightarrow> ('f, 'd, 's) server \<Rightarrow> ('f, 'd, 's) server \<times> reply" where
  "getCeremony now rq i sv =
     (case session_head now rq sv of
        (sv1, Inl refusal) \<Rightarrow> (sv1, refusal)
      | (sv1, Inr session) \<Rightarrow>
          (case ceremony_of sv1 session i of
             None \<Rightarrow> (sv1, no_ceremony i)
           | Some r \<Rightarrow>
               let r1 = tick_record now r;
                   st = (if ce_status (cr_ceremony r1) = Completed then ''consumed''
                         else if cr_epoch r \<noteq> epoch_now sv1 \<or>
                           (case cr_agentId r of None \<Rightarrow> False | Some a \<Rightarrow> \<not> agentKilled (sv_switch sv1) a) then ''expired''
                         else state_text_of (ce_status (cr_ceremony r1)))
               in (set_ceremony i r1 sv1, Reply 200 (JObj (ceremony_fields now st r1)))))"

section \<open>The challenge of GO 2/2\<close>

definition restore_challenge_head ::
  "('f, 'd, 's) config \<Rightarrow> int \<Rightarrow> request \<Rightarrow> string \<Rightarrow> ('f, 'd, 's) server \<Rightarrow>
     ('f, 'd, 's) server \<times> (reply + server_passkey \<times> ceremony_record)" where
  "restore_challenge_head cf now rq i sv =
     (case session_head now rq sv of
        (sv1, Inl refusal) \<Rightarrow> (sv1, Inl refusal)
      | (sv1, Inr session) \<Rightarrow>
          (sv1,
           case cf_ownerPasskey cf of
             None \<Rightarrow> Inl (error_reply 501 ''no owner approval passkey is enrolled - GO 2/2 is session-only on this control plane'')
           | Some pk \<Rightarrow>
               if sw_quarantineFailed (sv_switch sv1) then
                 Inl (error_reply 409 ''restore is unavailable - durable kill state is untrustworthy'')
               else
                 (case ceremony_of sv1 session i of
                    None \<Rightarrow> Inl (no_ceremony i)
                  | Some r \<Rightarrow>
                      if \<not> restorable sv1 (cr_agentId r) then Inl (error_reply 409 ''not killed - nothing to restore'')
                      else if cr_epoch r \<noteq> epoch_now sv1 then
                        Inl (error_reply 409 ''the ceremony is bound to a superseded kill epoch - start a fresh one'')
                      else Inr (pk, r))))"

text \<open>
  After the body: the record is still the object the head found, which is the one in the map unless
  it was purged since; a purged one is ticked without being put back.
\<close>

definition postRestoreChallenge ::
  "int \<Rightarrow> string \<Rightarrow> string \<Rightarrow> server_passkey \<times> ceremony_record \<Rightarrow> ('f, 'd, 's) server \<Rightarrow> ('f, 'd, 's) server \<times> reply" where
  "postRestoreChallenge now challenge i found sv =
     (let (pk, r0) = found;
          r = (case map_of (sv_ceremonies sv) i of None \<Rightarrow> r0 | Some r \<Rightarrow> r)
      in
      if \<not> restorable sv (cr_agentId r) \<or> cr_epoch r \<noteq> epoch_now sv then
        (sv, error_reply 409 ''the kill epoch moved while starting GO 2/2 - start a fresh ceremony'')
      else
        let r1 = tick_record now r;
            sv1 = (if i \<in> set (map_keys (sv_ceremonies sv)) then set_ceremony i r1 sv else sv)
        in
        if ce_status (cr_ceremony r1) \<noteq> Ready then
          (sv1, error_reply 409 (''GO 2/2 is not yet available (ceremony state '' @
             quoted (state_text_of (ce_status (cr_ceremony r1))) @ '') - wait out the cooldown''))
        else
          (sv1\<lparr>sv_restores := AList.update i \<lparr>rc_challenge = challenge, rc_killEpoch = epoch_now sv1,
                 rc_expiresAt = now + RESTORE_CHALLENGE_TTL_MS\<rparr> (sv_restores sv1)\<rparr>,
           Reply 200 (JObj ([(''challenge'', JStr challenge), (''rpId'', JStr (sk_rpId pk)),
             (''credentialId'', JStr (pk_credentialId (sk_key pk))), (''purpose'', JStr ''restore-go2''), (''ceremonyId'', JStr i),
             (''killEpoch'', JNum (NInt (epoch_now sv1))), (''expiresAt'', JNum (NInt (now + RESTORE_CHALLENGE_TTL_MS)))] @
             optional_field ''agentId'' (map_option JStr (cr_agentId r))))))"

section \<open>Restoring: GO 2/2\<close>

definition restore_rejected :: reply where "restore_rejected = error_reply 409 ''restore rejected''"

text \<open>The spending of the challenge: the state without it, and the refusal or the go-ahead.\<close>

definition assert_restore ::
  "('f, 'd, 's) config \<Rightarrow> int \<Rightarrow> string \<Rightarrow> json option \<Rightarrow> ('f, 'd, 's) server \<Rightarrow> ('f, 'd, 's) server \<times> reply option" where
  "assert_restore cf now ceremonyId a sv =
     (case cf_ownerPasskey cf of
        None \<Rightarrow> (sv, None)
      | Some pk \<Rightarrow>
          let sv1 = sv\<lparr>sv_restores := AList.delete ceremonyId (sv_restores sv)\<rparr> in
          (case map_of (sv_restores sv) ceremonyId of
             None \<Rightarrow>
               (sv1, Some (error_reply 401 (''no live GO 2/2 assertion challenge - request POST /restore/ceremony/:id/challenge '' @
                  ''and sign it with the enrolled passkey (challenges are single-use and short-lived)'')))
           | Some chal \<Rightarrow>
               if rc_expiresAt chal \<le> now then
                 (sv1, Some (error_reply 401 (''no live GO 2/2 assertion challenge - request POST /restore/ceremony/:id/challenge '' @
                    ''and sign it with the enrolled passkey (challenges are single-use and short-lived)'')))
               else if rc_killEpoch chal \<noteq> epoch_now sv then
                 (sv1, Some (error_reply 401 ''the GO 2/2 challenge was minted in a different kill epoch - request a fresh one''))
               else
                 (case assertionFrom a of
                    None \<Rightarrow>
                      (sv1, Some (error_reply 400 (''restore requires assertion: {credentialId, clientDataJSON, authenticatorData, '' @
                         ''signature}, each base64url'')))
                  | Some wa \<Rightarrow>
                      (case check_assertion cf pk (rc_challenge chal) wa sv of
                         AssertionThrew \<Rightarrow> (sv1, Some internal_error)
                       | AssertionRefused e \<Rightarrow> (sv1, Some (error_reply 401 (''passkey assertion rejected: '' @ e)))
                       | AssertionOk n \<Rightarrow> (sv1\<lparr>sv_signCount := max (sv_signCount sv) n\<rparr>, None)))))"

text \<open>The ceremony is confirmed and the authorization it gives is spent at once.\<close>

definition spend_ceremony ::
  "('f, 'd, 's) config \<Rightarrow> int \<Rightarrow> string \<Rightarrow> ceremony_record \<Rightarrow> ('f, 'd, 's) server \<Rightarrow> ('f, 'd, 's) server \<times> reply" where
  "spend_ceremony cf now i r sv =
     (case confirm now now (cr_ceremony r) of (c, outcome) \<Rightarrow>
      let sv1 = set_ceremony i (r\<lparr>cr_ceremony := c\<rparr>) sv in
      (case outcome of
         Inl _ \<Rightarrow> (sv1, restore_rejected)
       | Inr authz \<Rightarrow>
           (case (case cr_agentId r of
                    None \<Rightarrow> restore (cf_switchStore cf) authz (at_clock now) (sv_switch sv1)
                  | Some a \<Rightarrow> restoreAgent (cf_switchStore cf) a authz (at_clock now) (sv_switch sv1)) of
              Inl _ \<Rightarrow> (sv1, restore_rejected)
            | Inr sw \<Rightarrow>
                (sv1\<lparr>sv_switch := sw\<rparr>,
                 Reply 200 (JObj (case cr_agentId r of
                     None \<Rightarrow> [(''killed'', JBool False)]
                   | Some a \<Rightarrow> [(''killed'', JBool (sw_killed sw)), (''restoredAgent'', JStr a)]))))))"

definition postRestore ::
  "('f, 'd, 's) config \<Rightarrow> int \<Rightarrow> owner_session \<Rightarrow> string \<Rightarrow> ('f, 'd, 's) server \<Rightarrow> ('f, 'd, 's) server \<times> reply" where
  "postRestore cf now session raw sv =
     (case parseJsonBody raw of
        Inl e \<Rightarrow> (sv, bad_json e)
      | Inr body \<Rightarrow>
          let ceremonyId = (case string_of_field (own_field ''ceremonyId'' body) of None \<Rightarrow> [] | Some s \<Rightarrow> s) in
          if sw_quarantineFailed (sv_switch sv) then (sv, restore_rejected)
          else
            (case ceremony_of sv session ceremonyId of
               None \<Rightarrow> (sv, restore_rejected)
             | Some r \<Rightarrow>
                 if cr_epoch r \<noteq> epoch_now sv then (sv, restore_rejected)
                 else if \<not> restorable sv (cr_agentId r) then (sv, restore_rejected)
                 else
                   (case assert_restore cf now ceremonyId (own_field ''assertion'' body) sv of
                      (sv1, Some refusal) \<Rightarrow> (sv1, refusal)
                    | (sv1, None) \<Rightarrow> spend_ceremony cf now ceremonyId r sv1)))"

end
