(* ===== verification/ServerVeto.thy ===== *)
theory ServerVeto
  imports Server
begin

text \<open>
  The veto lane of \<open>packages/control-plane/src/server.ts\<close>: windows registered for held calls, the
  owner's veto and approval, the approval challenge, the foreground detail and its acknowledgement,
  the polling routes that release or hand out a merge grant, and the passkey login.
\<close>

section \<open>Registering a window\<close>

definition toolCallFrom :: "json option \<Rightarrow> tool_call option" where
  "toolCallFrom v =
     (case v of
        None \<Rightarrow> None
      | Some c \<Rightarrow>
          if \<not> is_plain_object c then None
          else
            (case (string_where isValidAgentId (own_field ''agentId'' c), string_where (\<lambda>s. s \<noteq> []) (own_field ''tool'' c)) of
               (Some agent, Some tool) \<Rightarrow>
                 (case own_field ''args'' c of
                    None \<Rightarrow> Some \<lparr>call_agentId = agent, call_tool = tool, call_args = None, call_timestamp = None\<rparr>
                  | Some a \<Rightarrow>
                      if is_plain_object a then
                        Some \<lparr>call_agentId = agent, call_tool = tool, call_args = Some a, call_timestamp = None\<rparr>
                      else None)
             | _ \<Rightarrow> None))"

definition call_bytes :: "tool_call \<Rightarrow> string" where
  "call_bytes c = canonicalJson (case call_args c of None \<Rightarrow> JObj [] | Some a \<Rightarrow> a)"

definition merge_purpose :: "string \<Rightarrow> string \<Rightarrow> bool" where
  "merge_purpose connector operation \<longleftrightarrow> connector = GITHUB_CONNECTOR \<and> operation = MERGE_PULL_REQUEST"

text \<open>\<open>Inl\<close> is what is thrown: a text, or the refusal of the merge schema.\<close>

definition vetoPurposeFrom :: "json option \<Rightarrow> tool_call \<Rightarrow> reply + veto_purpose option" where
  "vetoPurposeFrom v call =
     (case v of
        None \<Rightarrow> Inr None
      | Some p \<Rightarrow>
          if \<not> is_plain_object p then Inl (error_reply 400 ''purpose must be an object with string connector and operation'')
          else
            (case find (\<lambda>k. k \<notin> {''connector'', ''operation'', ''policyVersion''}) (map_keys (object_entries p)) of
               Some k \<Rightarrow>
                 Inl (error_reply 400 (''unknown purpose field '' @ quoted k @ '' - allowed: connector, operation, policyVersion''))
             | None \<Rightarrow>
                 (case string_where (\<lambda>s. s \<noteq> []) (own_field ''connector'' p) of
                    None \<Rightarrow> Inl (error_reply 400 ''purpose.connector must be a non-empty string'')
                  | Some con \<Rightarrow>
                      (case string_where (\<lambda>s. s \<noteq> []) (own_field ''operation'' p) of
                         None \<Rightarrow> Inl (error_reply 400 ''purpose.operation must be a non-empty string'')
                       | Some opn \<Rightarrow>
                           (case absent_or (string_where (\<lambda>_. True)) (own_field ''policyVersion'' p) of
                              None \<Rightarrow> Inl (error_reply 400 ''purpose.policyVersion must be a string when present'')
                            | Some pol \<Rightarrow>
                                let purpose = Inr (Some \<lparr>vp_connector = con, vp_operation = opn,
                                      vp_policyVersion = (case pol of None \<Rightarrow> [] | Some s \<Rightarrow> s)\<rparr>)
                                in if merge_purpose con opn then
                                     (case parseMergePrArgs (call_bytes call) of
                                        Inl e \<Rightarrow> Inl (NotOneMerge e)
                                      | Inr _ \<Rightarrow> purpose)
                                   else purpose)))))"

definition postRegisterVeto ::
  "('f, 'd, 's) config \<Rightarrow> int \<Rightarrow> byte_list \<Rightarrow> request \<Rightarrow> string \<Rightarrow> ('f, 'd, 's) server \<Rightarrow> ('f, 'd, 's) server \<times> reply" where
  "postRegisterVeto cf now rnd rq raw sv =
     (case validDeviceIdFrom cf now rq raw sv of
        (sv1, None) \<Rightarrow> (sv1, unauthorized)
      | (sv1, Some _) \<Rightarrow>
          (case parseJsonBody raw of
             Inl e \<Rightarrow> (sv1, bad_json e)
           | Inr body \<Rightarrow>
               (case toolCallFrom (own_field ''call'' body) of
                  None \<Rightarrow> (sv1, error_reply 400 ''call must be an object with string agentId and tool'')
                | Some call \<Rightarrow>
                    if agentKilled (sv_switch sv1) (call_agentId call) then
                      (sv1, error_reply 409 (''agent '' @ quoted (call_agentId call) @
                         '' is scope-killed - no new review windows until an owner restores it''))
                    else
                      (case vetoPurposeFrom (own_field ''purpose'' body) call of
                         Inl refusal \<Rightarrow> (sv1, refusal)
                       | Inr purpose \<Rightarrow>
                           let i = ''veto_'' @ hex_encode rnd; w = new_window call (epoch_now sv1) None None purpose now in
                           (set_window i w sv1,
                            Reply 201 (JObj [(''id'', JStr i), (''status'', JStr (status_text (vw_status w)))]))))))"

section \<open>What may become a grant\<close>

definition grantEligibleArgs :: "veto_window \<Rightarrow> string option" where
  "grantEligibleArgs w =
     (case vw_purpose w of
        None \<Rightarrow> None
      | Some p \<Rightarrow>
          if \<not> merge_purpose (vp_connector p) (vp_operation p) then None
          else
            (case parseMergePrArgs (call_bytes (vw_call w)) of
               Inl _ \<Rightarrow> None
             | Inr _ \<Rightarrow> Some (call_bytes (vw_call w))))"

definition grant_for :: "('f, 'd, 's) config \<Rightarrow> string \<Rightarrow> veto_window \<Rightarrow> string \<Rightarrow> int \<Rightarrow> int \<Rightarrow> merge_grant" where
  "grant_for cf jti w args approvalEpoch expires =
     (let p = (case vw_purpose w of None \<Rightarrow> \<lparr>vp_connector = [], vp_operation = [], vp_policyVersion = []\<rparr> | Some p \<Rightarrow> p) in
      \<lparr>mg_jti = jti, mg_agentId = call_agentId (vw_call w), mg_tool = call_tool (vw_call w), mg_connector = vp_connector p,
       mg_operation = vp_operation p, mg_policyVersion = vp_policyVersion p, mg_canonicalArgs = args,
       mg_callHash = sha256Hex cf args, mg_killEpoch = approvalEpoch, mg_expiresAt = NInt expires\<rparr>)"

definition mintGrant ::
  "('f, 'd, 's) config \<Rightarrow> byte_list \<Rightarrow> string \<Rightarrow> veto_window \<Rightarrow> string \<Rightarrow> int \<Rightarrow> int \<Rightarrow> ('f, 'd, 's) server \<Rightarrow>
     ('f, 'd, 's) server \<times> (string + json)" where
  "mintGrant cf rnd windowId w args approvalEpoch expires sv =
     (let jti = ''grant_'' @ windowId @ ''_'' @ hex_encode rnd in
      (sv\<lparr>sv_minted := AList.update jti windowId (sv_minted sv),
          sv_windowToGrant := AList.update windowId jti (sv_windowToGrant sv)\<rparr>,
       signMergeGrant (cf_mac cf) (grant_for cf jti w args approvalEpoch expires)
         (case cf_grantKey cf of None \<Rightarrow> [] | Some k \<Rightarrow> k)))"

section \<open>Polling a window\<close>

definition poll_status :: "('f, 'd, 's) server \<Rightarrow> veto_window \<Rightarrow> string" where
  "poll_status sv w =
     (if vw_status w = Released \<and> vw_killEpoch w \<noteq> epoch_now sv then ''spent'' else status_text (vw_status w))"

definition pacing :: "bool \<Rightarrow> veto_window \<Rightarrow> (string \<times> json) list" where
  "pacing deviceRead w =
     (if deviceRead then [(''deadline'', JNum (NInt (vw_deadline w))), (''delivered'', JBool (vw_delivered w))] else [])"

definition status_reply :: "string \<Rightarrow> (string \<times> json) list \<Rightarrow> reply" where
  "status_reply s extra = Reply 200 (JObj ((''status'', JStr s) # extra))"

text \<open>The grant lane: what a poll of a grant-eligible window answers.\<close>

definition poll_grant ::
  "('f, 'd, 's) config \<Rightarrow> int \<Rightarrow> byte_list \<Rightarrow> string \<Rightarrow> bool \<Rightarrow> string \<Rightarrow> veto_window \<Rightarrow> ('f, 'd, 's) server \<Rightarrow>
     ('f, 'd, 's) server \<times> reply" where
  "poll_grant cf now rnd i deviceRead args w sv =
     (let approvalEpoch = (case vw_approvalEpoch w of None \<Rightarrow> -1 | Some e \<Rightarrow> e);
          expires = (case vw_approvedAt w of None \<Rightarrow> now | Some t \<Rightarrow> t) + cf_grantTtlMs cf
      in
      if vw_status w = Vetoed then (sv, status_reply ''vetoed'' [])
      else if vw_approvedBy w = None then (sv, status_reply ''pending'' (pacing deviceRead w))
      else if i \<in> set (sv_granted sv) then (sv, status_reply ''spent'' [])
      else if killed_now sv \<or> approvalEpoch \<noteq> epoch_now sv then (sv, status_reply ''spent'' [])
      else if expires \<le> now then (sv, status_reply ''spent'' [])
      else
        (case mintGrant cf rnd i w args approvalEpoch expires (sv\<lparr>sv_granted := i # sv_granted sv\<rparr>) of
           (sv1, Inl _) \<Rightarrow> (sv1, internal_error)
         | (sv1, Inr grant) \<Rightarrow> (sv1, status_reply ''released'' [(''grant'', grant)])))"

definition getVeto_head :: "string \<Rightarrow> ('f, 'd, 's) server \<Rightarrow> reply + unit" where
  "getVeto_head i sv = (if map_of (sv_windows sv) i = None then Inl (no_window i) else Inr ())"

text \<open>After the body; no window is ever removed, so the one the head found is there.\<close>

definition getVeto ::
  "('f, 'd, 's) config \<Rightarrow> int \<Rightarrow> byte_list \<Rightarrow> request \<Rightarrow> string \<Rightarrow> string \<Rightarrow> ('f, 'd, 's) server \<Rightarrow> ('f, 'd, 's) server \<times> reply" where
  "getVeto cf now rnd rq i raw sv =
     (case validDeviceIdFrom cf now rq raw sv of (sv1, d) \<Rightarrow>
      (case map_of (sv_windows sv1) i of
         None \<Rightarrow> (sv1, no_window i)
       | Some w0 \<Rightarrow>
           let w = tick_now cf now sv1 w0; sv2 = set_window i w sv1 in
           (case (if given_key (cf_grantKey cf) = None then None else grantEligibleArgs w) of
              Some args \<Rightarrow> poll_grant cf now rnd i (d \<noteq> None) args w sv2
            | None \<Rightarrow> (sv2, status_reply (poll_status sv2 w) (pacing (d \<noteq> None) w)))))"

definition open_fields :: "string \<times> veto_window \<Rightarrow> json" where
  "open_fields e =
     JObj [(''id'', JStr (fst e)), (''status'', JStr (status_text (vw_status (snd e)))),
       (''agentId'', JStr (call_agentId (vw_call (snd e)))), (''tool'', JStr (call_tool (vw_call (snd e)))),
       (''deadline'', JNum (NInt (vw_deadline (snd e)))), (''delivered'', JBool (vw_delivered (snd e)))]"

definition tick_all :: "('f, 'd, 's) config \<Rightarrow> int \<Rightarrow> ('f, 'd, 's) server \<Rightarrow> ('f, 'd, 's) server" where
  "tick_all cf now sv = sv\<lparr>sv_windows := map (\<lambda>e. (fst e, tick_now cf now sv (snd e))) (sv_windows sv)\<rparr>"

definition getVetoPending ::
  "('f, 'd, 's) config \<Rightarrow> int \<Rightarrow> request \<Rightarrow> string \<Rightarrow> ('f, 'd, 's) server \<Rightarrow> ('f, 'd, 's) server \<times> reply" where
  "getVetoPending cf now rq raw sv =
     (case validDeviceIdFrom cf now rq raw sv of
        (sv1, None) \<Rightarrow> (sv1, unauthorized)
      | (sv1, Some _) \<Rightarrow>
          let sv2 = tick_all cf now sv1 in
          (sv2, Reply 200 (JObj [(''windows'',
             JArr (map open_fields (filter (\<lambda>e. window_open (snd e)) (sv_windows sv2))))])))"

section \<open>The owner's answer\<close>

definition committed_window :: "('f, 'd, 's) server \<Rightarrow> string \<Rightarrow> bool" where
  "committed_window sv i \<longleftrightarrow>
     (case map_of (sv_windowToGrant sv) i of None \<Rightarrow> False | Some jti \<Rightarrow> jti \<in> set (sv_committed sv))"

text \<open>A veto by this name, from either lane.\<close>

definition veto_by :: "string \<Rightarrow> string \<Rightarrow> veto_window \<Rightarrow> ('f, 'd, 's) server \<Rightarrow> ('f, 'd, 's) server \<times> reply" where
  "veto_by name i w sv =
     (if vw_status w = Vetoed then (sv, status_reply ''vetoed'' [])
      else if committed_window sv i then
        (sv, error_reply 409 ''the approved merge is already committed for dispatch (in flight) - too late to veto'')
      else
        (case veto name w of
           Inl e \<Rightarrow> (sv, error_reply 409 (veto_error_text e))
         | Inr w1 \<Rightarrow> (set_window i w1 sv, status_reply (status_text (vw_status w1)) [])))"

definition lower_or_digit :: "char \<Rightarrow> bool" where
  "lower_or_digit c \<longleftrightarrow> (97 \<le> code_unit c \<and> code_unit c \<le> 122) \<or> is_digit c"

definition channel_name :: "string \<Rightarrow> bool" where
  "channel_name s \<longleftrightarrow>
     (let kind = drop 8 s in
      take 8 s = ''channel:'' \<and> kind \<noteq> [] \<and> length kind \<le> 63 \<and> lower_or_digit (hd kind) \<and>
      list_all (\<lambda>c. lower_or_digit c \<or> c = CHR ''-'') (tl kind))"

definition postDeviceVeto ::
  "('f, 'd, 's) config \<Rightarrow> int \<Rightarrow> request \<Rightarrow> string \<Rightarrow> string \<Rightarrow> ('f, 'd, 's) server \<Rightarrow> ('f, 'd, 's) server \<times> reply" where
  "postDeviceVeto cf now rq i raw sv =
     (case validDeviceIdFrom cf now rq raw sv of (sv1, fleetId) \<Rightarrow>
      (case (if fleetId = None then validOwnerDeviceIdFrom cf now rq raw sv1 else (sv1, None)) of (sv2, ownerDeviceId) \<Rightarrow>
       let by_device = (case fleetId of Some d \<Rightarrow> Some (''device:'' @ d)
                        | None \<Rightarrow> map_option (\<lambda>d. ''owner-device:'' @ d) ownerDeviceId)
       in
       (case by_device of
          None \<Rightarrow> (sv2, unauthorized)
        | Some device \<Rightarrow>
            (case map_of (sv_windows sv2) i of
               None \<Rightarrow> (sv2, no_window i)
             | Some w \<Rightarrow>
                 (case parseJsonBody raw of
                    Inl e \<Rightarrow> (sv2, bad_json e)
                  | Inr body \<Rightarrow>
                      if own_field ''decision'' body \<notin> {None, Some (JStr ''veto'')} then
                        (sv2, error_reply 403 (''a device credential carries exactly one verb here: veto - approval requires '' @
                           ''the owner's session and passkey''))
                      else
                        (case absent_or (string_where channel_name) (own_field ''attribution'' body) of
                           None \<Rightarrow>
                             (sv2, error_reply 400 (''attribution must be '' @ quoted ''channel:<kind>'' @
                                '' (lowercase alphanumeric/hyphen), e.g. '' @ quoted ''channel:sms-reply''))
                         | Some attribution \<Rightarrow>
                             veto_by (case attribution of None \<Rightarrow> device | Some a \<Rightarrow> a) i w sv2))))))"

section \<open>Approving\<close>

definition APPROVE_NEEDS :: string where
  "APPROVE_NEEDS =
     ''no live approval ceremony for this window - request POST /veto/:id/approval-challenge '' @
     ''and sign it with the enrolled passkey (challenges are single-use and short-lived)''"

text \<open>The second factor of an approval: the state with the challenge spent, and the refusal or the go-ahead.\<close>

definition assert_approval ::
  "('f, 'd, 's) config \<Rightarrow> int \<Rightarrow> string \<Rightarrow> string \<Rightarrow> json option \<Rightarrow> ('f, 'd, 's) server \<Rightarrow> ('f, 'd, 's) server \<times> reply option" where
  "assert_approval cf now i args a sv =
     (case cf_ownerPasskey cf of
        None \<Rightarrow>
          (sv,
           if cf_dev cf then None
           else Some (error_reply 403 (''no owner approval passkey is enrolled - a production control plane refuses '' @
             ''session-only merge approval; enroll a passkey (ownerPasskey) or run dev mode'')))
      | Some pk \<Rightarrow>
          let sv1 = sv\<lparr>sv_approvals := AList.delete i (sv_approvals sv)\<rparr> in
          (case map_of (sv_approvals sv) i of
             None \<Rightarrow> (sv1, Some (error_reply 401 APPROVE_NEEDS))
           | Some chal \<Rightarrow>
               if ac_expiresAt chal \<le> now then (sv1, Some (error_reply 401 APPROVE_NEEDS))
               else if ac_killEpoch chal \<noteq> epoch_now sv then
                 (sv1, Some (error_reply 401 ''the approval ceremony was minted in a different kill epoch - request a fresh one''))
               else if ac_callHash chal \<noteq> sha256Hex cf args then
                 (sv1, Some (error_reply 401 ''the approval ceremony was minted for different call bytes''))
               else
                 (case assertionFrom a of
                    None \<Rightarrow>
                      (sv1, Some (error_reply 400 (''approve requires assertion: {credentialId, clientDataJSON, authenticatorData, '' @
                         ''signature}, each base64url'')))
                  | Some wa \<Rightarrow>
                      (case check_assertion cf pk (ac_challenge chal) wa sv of
                         AssertionThrew \<Rightarrow> (sv1, Some internal_error)
                       | AssertionRefused e \<Rightarrow> (sv1, Some (error_reply 401 (''passkey assertion rejected: '' @ e)))
                       | AssertionOk n \<Rightarrow> (sv1\<lparr>sv_signCount := max (sv_signCount sv) n\<rparr>, None)))))"

definition approve_window ::
  "('f, 'd, 's) config \<Rightarrow> int \<Rightarrow> owner_session \<Rightarrow> string \<Rightarrow> veto_window \<Rightarrow> json \<Rightarrow> ('f, 'd, 's) server \<Rightarrow>
     ('f, 'd, 's) server \<times> reply" where
  "approve_window cf now session i w body sv =
     (case grantEligibleArgs w of
        None \<Rightarrow>
          (sv, error_reply 400 (''this window is not grant-eligible (only a github/merge_pull_request call with '' @
             ''valid closed arguments can be actively approved); it releases on the veto lane's own terms, not by approval''))
      | Some args \<Rightarrow>
          if killed_now sv then
            (sv, error_reply 409 ''cannot approve while the kill switch is engaged - restore first, then re-approve'')
          else if agentKilled (sv_switch sv) (call_agentId (vw_call w)) then
            (sv, error_reply 409 ''cannot approve - this window's agent is scope-killed; restore the agent first, then re-approve'')
          else
            (case assert_approval cf now i args (own_field ''assertion'' body) sv of
               (sv1, Some refusal) \<Rightarrow> (sv1, refusal)
             | (sv1, None) \<Rightarrow>
                 (case approve (os_ownerId session) (epoch_now sv1) now w of
                    Inl e \<Rightarrow> (sv1, error_reply 409 (veto_error_text e))
                  | Inr w1 \<Rightarrow> (set_window i w1 sv1, status_reply ''approved'' []))))"

definition postVeto ::
  "('f, 'd, 's) config \<Rightarrow> int \<Rightarrow> request \<Rightarrow> string \<Rightarrow> string \<Rightarrow> ('f, 'd, 's) server \<Rightarrow> ('f, 'd, 's) server \<times> reply" where
  "postVeto cf now rq i raw sv =
     (case ownerSessionFrom now rq sv of
        (sv1, None) \<Rightarrow> postDeviceVeto cf now rq i raw sv1
      | (sv1, Some session) \<Rightarrow>
          (case map_of (sv_windows sv1) i of
             None \<Rightarrow> (sv1, no_window i)
           | Some w \<Rightarrow>
               (case parseJsonBody raw of
                  Inl e \<Rightarrow> (sv1, bad_json e)
                | Inr body \<Rightarrow>
                    (case own_field ''decision'' body of
                       Some (JStr d) \<Rightarrow>
                         if d = ''approve'' then approve_window cf now session i w body sv1
                         else if d = ''veto'' then veto_by (os_ownerId session) i w sv1
                         else (sv1, error_reply 400 (''decision must be '' @ quoted ''veto'' @ '' or '' @ quoted ''approve''))
                     | None \<Rightarrow> veto_by (os_ownerId session) i w sv1
                     | Some JNull \<Rightarrow> veto_by (os_ownerId session) i w sv1
                     | Some _ \<Rightarrow> (sv1, error_reply 400 (''decision must be '' @ quoted ''veto'' @ '' or '' @ quoted ''approve''))))))"

definition renderable_json :: "renderable_approval \<Rightarrow> json" where
  "renderable_json a =
     JObj [(''action'', JStr (ren_action a)), (''owner'', JStr (ren_owner a)), (''repo'', JStr (ren_repo a)),
       (''pullNumber'', JNum (NInt (ren_pullNumber a))), (''expectedHeadSha'', JStr (ren_expectedHeadSha a)),
       (''expectedBaseRef'', JStr (ren_expectedBaseRef a)), (''mergeMethod'', JStr (ren_mergeMethod a))]"

definition approval_of_bytes :: "string \<Rightarrow> reply + renderable_approval" where
  "approval_of_bytes args =
     (case parseMergePrArgs args of
        Inl e \<Rightarrow> Inl (Unrenderable (Inl e))
      | Inr a \<Rightarrow> (case buildRenderableApproval a of Inl f \<Rightarrow> Inl (Unrenderable (Inr f)) | Inr r \<Rightarrow> Inr r))"

definition KILLED_NO_CEREMONY :: string where
  "KILLED_NO_CEREMONY = ''cannot open an approval ceremony while the kill switch is engaged''"

definition approval_challenge_head ::
  "('f, 'd, 's) config \<Rightarrow> int \<Rightarrow> request \<Rightarrow> string \<Rightarrow> ('f, 'd, 's) server \<Rightarrow>
     ('f, 'd, 's) server \<times> (reply + server_passkey \<times> string)" where
  "approval_challenge_head cf now rq i sv =
     (case ownerSessionFrom now rq sv of
        (sv1, None) \<Rightarrow> (sv1, Inl unauthorized)
      | (sv1, Some _) \<Rightarrow>
          (sv1,
           case cf_ownerPasskey cf of
             None \<Rightarrow> Inl (error_reply 501 ''no owner approval passkey is enrolled on this control plane'')
           | Some pk \<Rightarrow>
               (case map_of (sv_windows sv1) i of
                  None \<Rightarrow> Inl (no_window i)
                | Some w \<Rightarrow>
                    (case grantEligibleArgs w of
                       None \<Rightarrow> Inl (error_reply 400 ''approval ceremonies exist only for grant-eligible windows'')
                     | Some args \<Rightarrow>
                         if killed_now sv1 then Inl (error_reply 409 KILLED_NO_CEREMONY) else Inr (pk, args)))))"

definition postApprovalChallenge ::
  "('f, 'd, 's) config \<Rightarrow> int \<Rightarrow> string \<Rightarrow> string \<Rightarrow> server_passkey \<times> string \<Rightarrow> ('f, 'd, 's) server \<Rightarrow>
     ('f, 'd, 's) server \<times> reply" where
  "postApprovalChallenge cf now challenge i found sv =
     (let (pk, args) = found in
      if killed_now sv then (sv, error_reply 409 KILLED_NO_CEREMONY)
      else
        (case approval_of_bytes args of
           Inl refusal \<Rightarrow> (sv, refusal)
         | Inr r \<Rightarrow>
             let renderHash = sha256Hex cf (canonicalJson (renderable_json r)); until = now + APPROVAL_CHALLENGE_TTL_MS in
             (sv\<lparr>sv_approvals := AList.update i \<lparr>ac_challenge = challenge, ac_callHash = sha256Hex cf args,
                  ac_renderHash = renderHash, ac_killEpoch = epoch_now sv, ac_expiresAt = until\<rparr> (sv_approvals sv)\<rparr>,
              Reply 200 (JObj [(''challenge'', JStr challenge), (''rpId'', JStr (sk_rpId pk)),
                (''credentialId'', JStr (pk_credentialId (sk_key pk))), (''renderable'', renderable_json r),
                (''renderHash'', JStr renderHash), (''callHash'', JStr (sha256Hex cf args)), (''expiresAt'', JNum (NInt until))]))))"

section \<open>Showing a window and confirming that it was seen\<close>

definition decisionCompleteSummary :: "veto_window \<Rightarrow> string option" where
  "decisionCompleteSummary w =
     (case vw_purpose w of
        Some p \<Rightarrow>
          if \<not> merge_purpose (vp_connector p) (vp_operation p) then None
          else
            (case grantEligibleArgs w of
               None \<Rightarrow> None
             | Some args \<Rightarrow>
                 (case approval_of_bytes args of
                    Inl _ \<Rightarrow> None
                  | Inr a \<Rightarrow>
                      Some (''Merge '' @ ren_owner a @ ''/'' @ ren_repo a @ ''#'' @ show_int (ren_pullNumber a) @
                        '' into '' @ ren_expectedBaseRef a @ '' - '' @
                        (if ren_mergeMethod a = ''default'' then ''merge'' else ren_mergeMethod a) @
                        '', head '' @ take 12 (ren_expectedHeadSha a))))
      | None \<Rightarrow>
          let args = call_bytes (vw_call w); summary = (if args = ''{}'' then ''(no arguments)'' else args) in
          if forbidden_in summary then None
          else if al_summary RENDERABLE_ALERT_V1_LIMITS < codePointLength summary then None
          else Some summary)"

definition ackableContent :: "veto_window \<Rightarrow> renderable_alert option" where
  "ackableContent w =
     (case decisionCompleteSummary w of
        None \<Rightarrow> None
      | Some summary \<Rightarrow>
          let a = \<lparr>ra_agentId = call_agentId (vw_call w), ra_tool = call_tool (vw_call w), ra_summary = summary\<rparr> in
          if validateRenderableAlert (alert_json a) = None then Some a else None)"

definition strip_text :: "string \<Rightarrow> nat \<Rightarrow> string" where
  "strip_text t cap = take cap (filter (\<lambda>c. \<not> forbidden_in [c]) t)"

definition displayEnvelope :: "veto_window \<Rightarrow> renderable_alert option \<Rightarrow> renderable_alert" where
  "displayEnvelope w ackable =
     (case ackable of
        Some a \<Rightarrow> a
      | None \<Rightarrow>
          \<lparr>ra_agentId = strip_text (call_agentId (vw_call w)) (al_agentId RENDERABLE_ALERT_V1_LIMITS),
           ra_tool = strip_text (call_tool (vw_call w)) (al_tool RENDERABLE_ALERT_V1_LIMITS),
           ra_summary = ''This action needs full owner approval - open OwnerSwitch to review.''\<rparr>)"

definition renderContentHashOf :: "('f, 'd, 's) config \<Rightarrow> renderable_alert \<Rightarrow> string" where
  "renderContentHashOf cf a =
     (case canonicalRenderableAlert (alert_json a) of
        Inl _ \<Rightarrow> []
      | Inr t \<Rightarrow> b64url_encode (ko_sha256 (cf_keys cf) (utf8 t)))"

definition callHashOf :: "('f, 'd, 's) config \<Rightarrow> veto_window \<Rightarrow> string" where
  "callHashOf cf w = sha256Hex cf (call_bytes (vw_call w))"

definition not_wired :: "string \<Rightarrow> reply" where
  "not_wired detail = error_reply 501 (''delivery confirmation is not wired: '' @ detail)"

definition ackable_now :: "('f, 'd, 's) server \<Rightarrow> veto_window \<Rightarrow> renderable_alert option" where
  "ackable_now sv w =
     (if \<not> sv_quarantined sv \<and> \<not> killed_now sv \<and> window_open w then ackableContent w else None)"

definition detail_fields :: "string \<Rightarrow> veto_window \<Rightarrow> renderable_alert \<Rightarrow> (string \<times> json) list" where
  "detail_fields i w disp =
     [(''v'', JNum (NInt 1)), (''windowId'', JStr i), (''agentId'', JStr (ra_agentId disp)), (''tool'', JStr (ra_tool disp)),
      (''summary'', JStr (ra_summary disp)), (''status'', JStr (status_text (vw_status w))),
      (''revision'', JNum (NInt (int (vw_revision w)))), (''deadline'', JNum (NInt (vw_deadline w)))]"

definition delivery_for ::
  "('f, 'd, 's) config \<Rightarrow> int \<Rightarrow> string \<Rightarrow> string \<Rightarrow> veto_window \<Rightarrow> renderable_alert \<Rightarrow> ('f, 'd, 's) server \<Rightarrow> delivery" where
  "delivery_for cf now device i w a sv =
     \<lparr>dl_windowId = i, dl_revision = vw_revision w, dl_renderHash = renderContentHashOf cf a, dl_callHash = callHashOf cf w,
      dl_deviceId = device,
      dl_deviceGeneration = (case resolveOwnerDevice cf sv device of None \<Rightarrow> 0 | Some d \<Rightarrow> ed_generation d),
      dl_expiresAt = now + DELIVERY_TTL_MS, dl_consumed = False\<rparr>"

definition getVetoDetail ::
  "('f, 'd, 's) config \<Rightarrow> int \<Rightarrow> byte_list \<Rightarrow> request \<Rightarrow> string \<Rightarrow> string \<Rightarrow> ('f, 'd, 's) server \<Rightarrow> ('f, 'd, 's) server \<times> reply" where
  "getVetoDetail cf now rnd rq i raw sv =
     (if \<not> ownerDeviceLaneWired sv then
        (sv, not_wired ''no owner device enrolled (ownerDeviceKeys or the enrollment registry)'')
      else
        (case validOwnerDeviceIdFrom cf now rq raw sv of
           (sv1, None) \<Rightarrow> (sv1, unauthorized)
         | (sv1, Some device) \<Rightarrow>
             (case map_of (sv_windows sv1) i of
                None \<Rightarrow> (sv1, no_window i)
              | Some w0 \<Rightarrow>
                  let w = tick_now cf now sv1 w0; sv2 = set_window i w sv1; ackable = ackable_now sv2 w;
                      base = detail_fields i w (displayEnvelope w ackable)
                  in (case ackable of
                        None \<Rightarrow> (sv2, Reply 200 (JObj (base @ [(''deliveryId'', JNull)])))
                      | Some a \<Rightarrow>
                          let deliveryId = ''del_'' @ hex_encode rnd; dl = delivery_for cf now device i w a sv2 in
                          (sv2\<lparr>sv_deliveries := AList.update deliveryId dl (sv_deliveries sv2)\<rparr>,
                           Reply 200 (JObj (base @ [(''renderable'', alert_json a), (''deliveryId'', JStr deliveryId),
                             (''renderContentHash'', JStr (dl_renderHash dl)),
                             (''deliveryExpiresAt'', JNum (NInt (dl_expiresAt dl)))])))))))"

text \<open>
  The judgement of an acknowledgement against the delivery it names: why it is refused, and whether
  the delivery is thrown away with it.
\<close>

definition ack_refusal ::
  "('f, 'd, 's) config \<Rightarrow> int \<Rightarrow> string \<Rightarrow> string \<Rightarrow> veto_window \<Rightarrow> json \<Rightarrow> delivery \<Rightarrow> ('f, 'd, 's) server \<Rightarrow> (string \<times> bool) option" where
  "ack_refusal cf now device i w body dl sv =
     (if dl_consumed dl then Some (''this delivery was already used to confirm - fetch a fresh detail'', False)
      else if dl_expiresAt dl \<le> now then Some (''delivery expired - fetch a fresh detail'', True)
      else if dl_windowId dl \<noteq> i then Some (''delivery is for a different window'', False)
      else if dl_deviceId dl \<noteq> device then Some (''delivery belongs to a different device'', False)
      else if map_option ed_generation (resolveOwnerDevice cf sv device) \<noteq> Some (dl_deviceGeneration dl) then
        Some (''delivery was minted under a superseded device generation - fetch a fresh detail'', True)
      else if dl_revision dl \<noteq> vw_revision w \<or> own_field ''revision'' body \<noteq> Some (JNum (NInt (int (vw_revision w)))) then
        Some (''stale delivery - the window advanced since it was rendered; re-fetch the detail'', False)
      else
        (case ackableContent w of
           None \<Rightarrow> Some (''this window is no longer ackable - it requires full owner approval'', False)
         | Some a \<Rightarrow>
             let currentHash = renderContentHashOf cf a;
                 echoed = (case own_field ''renderContentHash'' body of Some (JStr s) \<Rightarrow> s | _ \<Rightarrow> [])
             in
             if dl_renderHash dl \<noteq> currentHash \<or> echoed \<noteq> currentHash then
               Some (''render hash mismatch - the detail does not match the current window'', False)
             else if dl_callHash dl \<noteq> callHashOf cf w then
               Some (''call mismatch - the detail was minted for different call bytes'', False)
             else if vw_deadline w - MIN_VETO_RESPONSE_MS < now then
               Some (''ack arrived inside the minimum veto-response floor (60 s before the deadline) - not counted; '' @
                 ''the window will extend or hold, re-ack against the new deadline'', False)
             else None))"

definition accept_ack ::
  "('f, 'd, 's) config \<Rightarrow> int \<Rightarrow> string \<Rightarrow> string \<Rightarrow> veto_window \<Rightarrow> string \<Rightarrow> delivery \<Rightarrow> ('f, 'd, 's) server \<Rightarrow>
     ('f, 'd, 's) server \<times> reply" where
  "accept_ack cf now device i w deliveryId dl sv =
     (let w1 = markDelivered (Some device) (Some (dl_deviceGeneration dl)) now w;
          sv1 = set_window i w1 (sv\<lparr>sv_deliveries := AList.update deliveryId (dl\<lparr>dl_consumed := True\<rparr>) (sv_deliveries sv)\<rparr>)
      in (sv1, status_reply (status_text (vw_status w)) [(''delivered'', JBool True), (''deadline'', JNum (NInt (vw_deadline w1))),
            (''revision'', JNum (NInt (int (vw_revision w1))))]))"

definition SEEN_CLOSED :: "('f, 'd, 's) server \<Rightarrow> string" where
  "SEEN_CLOSED sv =
     ''no delivery evidence is accepted right now: the control plane is '' @
     (if killed_now sv then ''KILLED'' else ''standing-quarantined (a revocation could not be durably persisted)'') @
     '' - the owner-device lane reopens after recovery/restore''"

definition postVetoSeen ::
  "('f, 'd, 's) config \<Rightarrow> int \<Rightarrow> request \<Rightarrow> string \<Rightarrow> string \<Rightarrow> ('f, 'd, 's) server \<Rightarrow> ('f, 'd, 's) server \<times> reply" where
  "postVetoSeen cf now rq i raw sv =
     (if \<not> ownerDeviceLaneWired sv then
        (sv, not_wired (''no owner-app device is enrolled on this control plane (neither ownerDeviceKeys nor the enrollment '' @
           ''registry), so no device may flip the release-permitting 'delivered' bit - windows walk to held (passkey approval) instead.''))
      else
        (case validOwnerDeviceIdFrom cf now rq raw sv of
           (sv1, None) \<Rightarrow> (sv1, unauthorized)
         | (sv1, Some device) \<Rightarrow>
             (case map_of (sv_windows sv1) i of
                None \<Rightarrow> (sv1, no_window i)
              | Some w0 \<Rightarrow>
                  let w = tick_now cf now sv1 w0; sv2 = set_window i w sv1 in
                  if vw_delivered w0 then
                    (sv2, status_reply (status_text (vw_status w)) [(''delivered'', JBool True), (''deadline'', JNum (NInt (vw_deadline w)))])
                  else if sv_quarantined sv1 \<or> killed_now sv1 then (sv1, error_reply 503 (SEEN_CLOSED sv1))
                  else if \<not> window_open w then (sv2, error_reply 409 (''cannot ack in status '' @ quoted (status_text (vw_status w))))
                  else
                    (case parseJsonBody raw of
                       Inl e \<Rightarrow> (sv2, bad_json e)
                     | Inr body \<Rightarrow>
                         let deliveryId = (case own_field ''deliveryId'' body of Some (JStr s) \<Rightarrow> s | _ \<Rightarrow> []) in
                         (case map_of (sv_deliveries sv2) deliveryId of
                            None \<Rightarrow> (sv2, error_reply 409 ''unknown or expired delivery - fetch GET /veto/:id/detail first'')
                          | Some dl \<Rightarrow>
                              (case ack_refusal cf now device i w body dl sv2 of
                                 Some (e, drop_it) \<Rightarrow>
                                   (if drop_it then sv2\<lparr>sv_deliveries := AList.delete deliveryId (sv_deliveries sv2)\<rparr> else sv2,
                                    error_reply 409 e)
                               | None \<Rightarrow> accept_ack cf now device i w deliveryId dl sv2))))))"

section \<open>Login\<close>

definition passkey_head :: "('f, 'd, 's) config \<Rightarrow> reply + server_passkey" where
  "passkey_head cf =
     (case cf_ownerPasskey cf of
        None \<Rightarrow> Inl (error_reply 501 ''no owner approval passkey is enrolled on this control plane'')
      | Some pk \<Rightarrow> Inr pk)"

definition postSessionChallenge ::
  "int \<Rightarrow> string \<Rightarrow> server_passkey \<Rightarrow> ('f, 'd, 's) server \<Rightarrow> ('f, 'd, 's) server \<times> reply" where
  "postSessionChallenge now challenge pk sv =
     (let sv1 = sv\<lparr>sv_logins := filter (\<lambda>e. now < lg_expiresAt (snd e)) (sv_logins sv)\<rparr>; until = now + LOGIN_CHALLENGE_TTL_MS in
      if MAX_LOGIN_CHALLENGES \<le> length (sv_logins sv1) then
        (sv1, error_reply 503 ''too many pending login challenges - retry shortly'')
      else
        (sv1\<lparr>sv_logins := AList.update challenge \<lparr>lg_expiresAt = until, lg_killEpoch = epoch_now sv1\<rparr> (sv_logins sv1)\<rparr>,
         Reply 200 (JObj [(''challenge'', JStr challenge), (''rpId'', JStr (sk_rpId pk)),
           (''credentialId'', JStr (pk_credentialId (sk_key pk))), (''expiresAt'', JNum (NInt until))])))"

definition NO_LOGIN :: string where
  "NO_LOGIN = ''no live login challenge - request POST /session/challenge first''"

definition postSession ::
  "('f, 'd, 's) config \<Rightarrow> int \<Rightarrow> string \<Rightarrow> server_passkey \<Rightarrow> string \<Rightarrow> ('f, 'd, 's) server \<Rightarrow> ('f, 'd, 's) server \<times> reply" where
  "postSession cf now token pk raw sv =
     (case parseJsonBody raw of
        Inl e \<Rightarrow> (sv, bad_json e)
      | Inr body \<Rightarrow>
          (case string_where (\<lambda>s. s \<noteq> []) (own_field ''challenge'' body) of
             None \<Rightarrow> (sv, error_reply 400 ''session requires the challenge and a passkey assertion'')
           | Some challenge \<Rightarrow>
               let sv1 = sv\<lparr>sv_logins := AList.delete challenge (sv_logins sv)\<rparr> in
               (case map_of (sv_logins sv) challenge of
                  None \<Rightarrow> (sv1, error_reply 401 NO_LOGIN)
                | Some lg \<Rightarrow>
                    if lg_expiresAt lg \<le> now then (sv1, error_reply 401 NO_LOGIN)
                    else if lg_killEpoch lg \<noteq> epoch_now sv then
                      (sv1, error_reply 401 ''the login challenge was minted in a different kill epoch - request a fresh one'')
                    else
                      (case assertionFrom (own_field ''assertion'' body) of
                         None \<Rightarrow> (sv1, error_reply 400 ''session requires a well-formed passkey assertion'')
                       | Some wa \<Rightarrow>
                           (case check_assertion cf pk challenge wa sv of
                              AssertionThrew \<Rightarrow> (sv1, internal_error)
                            | AssertionRefused e \<Rightarrow> (sv1, error_reply 401 (''passkey assertion rejected: '' @ e))
                            | AssertionOk n \<Rightarrow>
                                let (sessions, s) = createOwnerSession token ''owner'' None now (sv_sessions sv1) in
                                (sv1\<lparr>sv_signCount := max (sv_signCount sv) n, sv_sessions := sessions\<rparr>,
                                 Reply 200 (JObj [(''token'', JStr (os_token s)), (''expiresAt'', JNum (NInt (os_expiresAt s)))])))))))"

end
