(* ===== verification/ServerDevices.thy ===== *)
theory ServerDevices
  imports Server
begin

text \<open>
  The device lane of \<open>packages/control-plane/src/server.ts\<close>: the standing that is exported to the
  escalation service, revocation of both kinds of devices, enrolment with the supersession of a
  static alias, and the invites.  The start of the control plane, with its checks of the options
  and its reading of the standing, is not modelled; the properties hold from any start.
\<close>

section \<open>The exported standing\<close>

text \<open>
  History first, where an entry of the registry's kind is a tombstone until the registry vouches
  for it again; then the static devices; then what the registry vouches for.
\<close>

definition tombstone :: "string \<times> device_standing \<Rightarrow> string \<times> device_standing" where
  "tombstone e =
     (if ds_spki (snd e) \<noteq> None \<or> starts_with ''dev_'' (fst e) then
        (fst e, (snd e)\<lparr>ds_revokedAt := Some (case ds_revokedAt (snd e) of None \<Rightarrow> NInt 0 | Some t \<Rightarrow> t)\<rparr>)
      else e)"

definition put_all :: "(string \<times> 'v) list \<Rightarrow> (string \<times> 'v) list \<Rightarrow> (string \<times> 'v) list" where
  "put_all kvs m = foldl (\<lambda>m kv. AList.update (fst kv) (snd kv) m) m kvs"

definition static_standing :: "string \<times> enrolled_device \<Rightarrow> string \<times> device_standing" where
  "static_standing e =
     (fst e, \<lparr>ds_generation = ed_generation (snd e), ds_revokedAt = ed_revokedAt (snd e), ds_spki = None\<rparr>)"

definition registry_standing :: "enrolled_record \<Rightarrow> string \<times> device_standing" where
  "registry_standing r =
     (en_deviceId r, \<lparr>ds_generation = en_generation r, ds_revokedAt = en_revokedAt r, ds_spki = Some (en_cheapLaneKeySpki r)\<rparr>)"

definition exported_standing :: "('f, 'd, 's) server \<Rightarrow> persisted_standing" where
  "exported_standing sv =
     \<lparr>pt_version = 2,
      pt_devices = object_order
        (put_all (case sv_enrolled sv of None \<Rightarrow> [] | Some r \<Rightarrow> map registry_standing (registry_list r))
          (put_all (map static_standing (sv_ownerDevices sv)) (put_all (map tombstone (sv_unenrolled sv)) [])))\<rparr>"

text \<open>Whether the export is durable, with the detail when it is not.\<close>

definition persistStanding :: "('f, 'd, 's) config \<Rightarrow> ('f, 'd, 's) server \<Rightarrow> ('f, 'd, 's) server \<times> string option" where
  "persistStanding cf sv =
     (case cf_standingStore cf of
        None \<Rightarrow> (sv, Some ''no standing registry configured (dev)'')
      | Some st \<Rightarrow>
          (case ss_save st (sv_standing sv) (exported_standing sv) of
             (w, SaveDurable) \<Rightarrow> (sv\<lparr>sv_standing := w\<rparr>, None)
           | (w, SaveNotDurable d) \<Rightarrow> (sv\<lparr>sv_standing := w\<rparr>, Some d)
           | (w, SaveThrew d) \<Rightarrow> (sv\<lparr>sv_standing := w\<rparr>, Some d)))"

section \<open>Severing a device\<close>

text \<open>Its deliveries are purged and its evidence cleared, window by window; how often it was.\<close>

definition sever_evidence :: "('f, 'd, 's) config \<Rightarrow> int \<Rightarrow> string \<Rightarrow> ('f, 'd, 's) server \<Rightarrow> ('f, 'd, 's) server \<times> nat" where
  "sever_evidence cf now d sv =
     (let pass = map (\<lambda>e. (fst e, revokeDeliveryEvidence (Some (witnessStanding cf sv)) d now (snd e))) (sv_windows sv) in
      (sv\<lparr>sv_deliveries := filter (\<lambda>e. dl_deviceId (snd e) \<noteq> d) (sv_deliveries sv),
          sv_windows := map (\<lambda>e. (fst e, fst (snd e))) pass\<rparr>,
       length (filter (\<lambda>e. snd (snd e)) pass)))"

definition revoke_static :: "int \<Rightarrow> string \<Rightarrow> enrolled_device \<Rightarrow> ('f, 'd, 's) server \<Rightarrow> ('f, 'd, 's) server" where
  "revoke_static now d device sv =
     sv\<lparr>sv_ownerDevices :=
        AList.update d (device\<lparr>ed_revokedAt := Some (NInt now), ed_generation := ed_generation device + 1\<rparr>) (sv_ownerDevices sv)\<rparr>"

section \<open>POST /devices/:id/revoke\<close>

definition revoked_fields :: "string \<Rightarrow> int \<Rightarrow> (string \<times> json) list" where
  "revoked_fields d gen = [(''revoked'', JBool True), (''deviceId'', JStr d), (''generation'', JNum (NInt gen))]"

definition generation_of :: "('f, 'd, 's) server \<Rightarrow> string \<Rightarrow> int" where
  "generation_of sv d = (case map_of (sv_ownerDevices sv) d of None \<Rightarrow> 0 | Some x \<Rightarrow> ed_generation x)"

definition retry_static :: "('f, 'd, 's) config \<Rightarrow> string \<Rightarrow> ('f, 'd, 's) server \<Rightarrow> ('f, 'd, 's) server \<times> reply" where
  "retry_static cf d sv =
     (let already = revoked_fields d (generation_of sv d) @ [(''alreadyRevoked'', JBool True)] in
      if sv_quarantined sv \<and> cf_standingStore cf \<noteq> None then
        (case persistStanding cf sv of
           (sv1, None) \<Rightarrow> (sv1\<lparr>sv_quarantined := False\<rparr>, Reply 200 (JObj already))
         | (sv1, Some detail) \<Rightarrow>
             (sv1, Reply 503 (JObj (already @ [(''durable'', JBool False), (''quarantined'', JBool True),
                (''error'', JStr (''revoked IN MEMORY ONLY - standing persistence still failing ('' @ detail @
                   ''); the owner-device lane stays closed''))]))))
      else (sv, Reply 200 (JObj already)))"

definition sever_static :: "('f, 'd, 's) config \<Rightarrow> int \<Rightarrow> string \<Rightarrow> enrolled_device \<Rightarrow> ('f, 'd, 's) server \<Rightarrow> ('f, 'd, 's) server \<times> reply" where
  "sever_static cf now d device sv =
     (case sever_evidence cf now d (revoke_static now d device sv) of (sv1, cleared) \<Rightarrow>
      (case persistStanding cf sv1 of (sv2, failed) \<Rightarrow>
       let base = revoked_fields d (generation_of sv2 d) @ [(''evidenceCleared'', JNum (NInt (int cleared)))] in
       (case failed of
          None \<Rightarrow> (sv2\<lparr>sv_quarantined := False\<rparr>, Reply 200 (JObj (base @ [(''durable'', JBool True)])))
        | Some detail \<Rightarrow>
            if cf_standingStore cf \<noteq> None then
              (engage_for_standing cf now (''device-standing persistence FAILED while revoking '' @ quoted d @ '' ('' @ detail @
                  '') - fail-closed kill so a restart cannot resurrect the device from the stale registry. '' @
                  ''Repair the standing path, re-run the revoke, then restore via 2GO.'')
                (sv2\<lparr>sv_quarantined := True\<rparr>),
               Reply 503 (JObj (base @ [(''durable'', JBool False), (''quarantined'', JBool True), (''killed'', JBool True),
                 (''error'', JStr (''revoked IN MEMORY ONLY - standing persistence failed ('' @ detail @
                    ''); the owner-device lane is quarantined and the KILL SWITCH is engaged (durably), so a restart boots '' @
                    ''killed instead of resurrecting the device. Repair the registry, retry this revoke, then restore via 2GO.''))])))
            else
              (sv2\<lparr>sv_quarantined := False\<rparr>,
               Reply 200 (JObj (base @ [(''durable'', JBool False), (''durabilityDetail'', JStr detail)]))))))"

definition sever_enrolled ::
  "('f, 'd, 's) config \<Rightarrow> int \<Rightarrow> string \<Rightarrow> int \<Rightarrow> bool \<Rightarrow> ('f, 'd, 's) server \<Rightarrow> ('f, 'd, 's) server \<times> reply" where
  "sever_enrolled cf now d gen already sv =
     (case sever_evidence cf now d sv of (sv1, cleared) \<Rightarrow>
      (case persistStanding cf sv1 of (sv2, failed) \<Rightarrow>
       let base = revoked_fields d gen @ [(''evidenceCleared'', JNum (NInt (int cleared)))] in
       (case (cf_standingStore cf, failed) of
          (Some _, Some detail) \<Rightarrow>
            (engage_for_standing cf now (''device-standing export FAILED after revoking enrolled device '' @ quoted d @ '' ('' @
                detail @ '') - the stale standing file would keep the revoked phone's push-enrollment lane alive in the '' @
                ''escalation service; fail-closed kill. Repair the standing path, re-run the revoke, then restore via 2GO.'')
              (sv2\<lparr>sv_quarantined := True\<rparr>),
             Reply 503 (JObj (base @ [(''alreadyRevoked'', JBool already), (''durable'', JBool True), (''standingExported'', JBool False),
               (''quarantined'', JBool True), (''killed'', JBool True),
               (''error'', JStr (''revoked durably in the registry, but the shared standing file could not be re-exported ('' @
                  detail @ '') - the escalation service would still trust the stale entry, so the standing lane is quarantined '' @
                  ''and the KILL SWITCH is engaged (durably). Repair the standing path, retry this revoke, then restore via 2GO.''))])))
        | _ \<Rightarrow>
            (sv2\<lparr>sv_quarantined := False\<rparr>,
             Reply 200 (JObj (base @ (if already then [(''alreadyRevoked'', JBool True)] else []) @ [(''durable'', JBool True)]))))))"

definition revokeEnrolledDevice ::
  "('f, 'd, 's) config \<Rightarrow> int \<Rightarrow> string \<Rightarrow> ('f, 'd, 's) server \<Rightarrow> ('f, 'd, 's) server \<times> reply" where
  "revokeEnrolledDevice cf now d sv =
     (case sv_enrolled sv of
        None \<Rightarrow> (sv, error_reply 404 (''no enrolled owner device '' @ quoted d))
      | Some r \<Rightarrow>
          if \<not> usable r then
            (sv, error_reply 404 (''cannot revoke '' @ quoted d @ '': the enrolled-device registry is quarantined ('' @
               (case re_corruptDetail r of None \<Rightarrow> ''unusable'' | Some c \<Rightarrow> c) @
               '') - every dev_ identity is already refused while quarantined; repair the registry, then retry''))
          else
            (case revoke_device (cf_deviceStore cf) d now r of (r1, outcome) \<Rightarrow>
             let sv1 = sv\<lparr>sv_enrolled := Some r1\<rparr> in
             (case outcome of
                RevokeThrew \<Rightarrow> (sv1, internal_error)
              | RevokeUnknown \<Rightarrow> (sv1, error_reply 404 (''no enrolled owner device '' @ quoted d))
              | RevokePublishFailed detail \<Rightarrow>
                  (engage_for_standing cf now (''enrolled-device registry publish FAILED while revoking '' @ quoted d @ '' ('' @
                      detail @ '') - fail-closed kill so a restart cannot resurrect the device from the stale registry. '' @
                      ''Repair the registry path, re-run the revoke, then restore via 2GO.'') sv1,
                   Reply 503 (JObj [(''revoked'', JBool True), (''deviceId'', JStr d), (''durable'', JBool False),
                     (''quarantined'', JBool True), (''killed'', JBool True),
                     (''error'', JStr (''revocation NOT durably recorded ('' @ detail @
                        ''); the enrolled-device registry is quarantined (no dev_ identity authenticates in this process) '' @
                        ''and the KILL SWITCH is engaged (durably), so a restart boots killed instead of resurrecting the device. '' @
                        ''Repair the registry, retry this revoke, then restore via 2GO.''))]))
              | Revoked gen \<Rightarrow> sever_enrolled cf now d gen False sv1
              | AlreadyRevoked gen \<Rightarrow> sever_enrolled cf now d gen True sv1)))"

definition postDeviceRevoke ::
  "('f, 'd, 's) config \<Rightarrow> int \<Rightarrow> request \<Rightarrow> string \<Rightarrow> string \<Rightarrow> ('f, 'd, 's) server \<Rightarrow> ('f, 'd, 's) server \<times> reply" where
  "postDeviceRevoke cf now rq d raw sv =
     (case authenticate_stop cf now rq raw sv of (sv1, authenticated) \<Rightarrow>
      if \<not> authenticated \<and> \<not> isLoopbackAddress (rq_remote rq) then (sv1, unauthorized)
      else
        (case map_of (sv_ownerDevices sv1) d of
           None \<Rightarrow> revokeEnrolledDevice cf now d sv1
         | Some device \<Rightarrow>
             if ed_revokedAt device \<noteq> None then retry_static cf d sv1
             else sever_static cf now d device sv1))"

section \<open>Enrolment\<close>

definition MAX_ENROLL_BODY_BYTES :: nat where "MAX_ENROLL_BODY_BYTES = 256 * 1024"

definition liveKillSnapshot :: "('f, 'd, 's) server \<Rightarrow> live_kill" where
  "liveKillSnapshot sv = \<lparr>lk_isKilled = killed_now sv, lk_killEpoch = epoch_now sv\<rparr>"

definition enroll_not_configured :: reply where
  "enroll_not_configured = error_reply 501 ''device enrollment is not configured''"

definition enroll_head :: "('f, 'd, 's) config \<Rightarrow> ('f, 'd, 's) server \<Rightarrow> reply + relying_party" where
  "enroll_head cf sv =
     (case (sv_enrolled sv, cf_enrollment cf) of
        (Some r, Some (rp, _)) \<Rightarrow>
          if usable r then Inr rp
          else Inl (error_reply 503 ''enrolled-device registry is not usable - enrollment refuses until recovery'')
      | _ \<Rightarrow> Inl enroll_not_configured)"

text \<open>
  The static devices that hold the key just enrolled, revoked one by one with their evidence; the
  id of the last one.
\<close>

definition sever_alias ::
  "('f, 'd, 's) config \<Rightarrow> int \<Rightarrow> byte_list \<Rightarrow> string \<Rightarrow> ('f, 'd, 's) server \<times> string option \<Rightarrow> ('f, 'd, 's) server \<times> string option" where
  "sever_alias cf now der d acc =
     (case map_of (sv_ownerDevices (fst acc)) d of
        None \<Rightarrow> acc
      | Some device \<Rightarrow>
          if ed_revokedAt device \<noteq> None \<or> pub_der (ed_publicKey device) \<noteq> der then acc
          else (fst (sever_evidence cf now d (revoke_static now d device (fst acc))), Some d))"

definition sever_aliases ::
  "('f, 'd, 's) config \<Rightarrow> int \<Rightarrow> enrolled_record \<Rightarrow> ('f, 'd, 's) server \<Rightarrow> ('f, 'd, 's) server \<times> string option" where
  "sever_aliases cf now rec sv =
     (case enrolledOwnerDeviceFromSpki (cf_keys cf) (en_deviceId rec) (en_cheapLaneKeySpki rec) of
        Inl _ \<Rightarrow> (sv, None)
      | Inr d \<Rightarrow>
          foldl (\<lambda>acc i. sever_alias cf now (pub_der (ed_publicKey d)) i acc) (sv, None) (map_keys (sv_ownerDevices sv)))"

definition export_enrolment ::
  "('f, 'd, 's) config \<Rightarrow> int \<Rightarrow> string \<Rightarrow> string option \<Rightarrow> ('f, 'd, 's) server \<Rightarrow> ('f, 'd, 's) server" where
  "export_enrolment cf now deviceId severed sv =
     (case persistStanding cf sv of (sv1, failed) \<Rightarrow>
      (case (cf_standingStore cf, failed, severed) of
         (Some _, Some detail, Some alias) \<Rightarrow>
           engage_for_standing cf now (''device-standing persistence FAILED while superseding static device '' @ quoted alias @
               '' (now enrolled as '' @ quoted deviceId @ ''): '' @ detail @
               '' - fail-closed kill so a restart cannot leave one key trusted under two identities. '' @
               ''Repair the standing path, then restore via 2GO.'')
             (sv1\<lparr>sv_quarantined := True\<rparr>)
       | _ \<Rightarrow> sv1))"

definition postDeviceEnroll ::
  "('f, 'd, 's) config \<Rightarrow> int \<Rightarrow> (string list \<Rightarrow> string) \<Rightarrow> relying_party \<Rightarrow> string \<Rightarrow> ('f, 'd, 's) server \<Rightarrow>
     ('f, 'd, 's) server \<times> reply" where
  "postDeviceEnroll cf now fresh_id rp raw sv =
     (if MAX_ENROLL_BODY_BYTES < byte_length raw then (sv, error_reply 413 ''enrollment request too large'')
      else
        (case parseJsonBody raw of
           Inl e \<Rightarrow> (sv, bad_json e)
         | Inr body \<Rightarrow>
             (case sv_enrolled sv of
                None \<Rightarrow> (sv, enroll_not_configured)
              | Some r \<Rightarrow>
                  (case commitEnrollment (cf_keys cf) (cf_deviceStore cf) fresh_id rp now body (liveKillSnapshot sv) r of
                     (r1, CommitRefused reason survives) \<Rightarrow>
                       (sv\<lparr>sv_enrolled := Some r1\<rparr>,
                        Reply (if \<not> usable r1 then 503 else if survives then 400 else 410)
                          (JObj [(''error'', JStr reason), (''inviteSurvives'', JBool survives)]))
                   | (r1, CommitOk rec) \<Rightarrow>
                       (case sever_aliases cf now rec (sv\<lparr>sv_enrolled := Some r1\<rparr>) of (sv1, severed) \<Rightarrow>
                        (export_enrolment cf now (en_deviceId rec) severed sv1,
                         Reply 201 (JObj [(''deviceId'', JStr (en_deviceId rec))])))))))"

definition device_summary :: "enrolled_record \<Rightarrow> json" where
  "device_summary d =
     JObj [(''deviceId'', JStr (en_deviceId d)), (''name'', JStr (en_deviceName d)), (''enrolledAt'', JNum (en_enrolledAt d)),
       (''revokedAt'', case en_revokedAt d of None \<Rightarrow> JNull | Some t \<Rightarrow> JNum t), (''pushRegistered'', JBool False)]"

definition not_usable :: reply where
  "not_usable = error_reply 503 ''enrolled-device registry is not usable''"

definition getDevices :: "int \<Rightarrow> request \<Rightarrow> ('f, 'd, 's) server \<Rightarrow> ('f, 'd, 's) server \<times> reply" where
  "getDevices now rq sv =
     (case sv_enrolled sv of
        None \<Rightarrow> (sv, enroll_not_configured)
      | Some r \<Rightarrow>
          (case ownerSessionFrom now rq sv of
             (sv1, None) \<Rightarrow> (sv1, unauthorized)
           | (sv1, Some session) \<Rightarrow>
               (sv1,
                if \<not> usable r then not_usable
                else Reply 200 (JObj [(''devices'',
                  JArr (map device_summary (filter (\<lambda>d. en_ownerId d = os_ownerId session) (registry_list r))))]))))"

definition enrollmentContractFor :: "relying_party \<times> string \<Rightarrow> 'd registry \<Rightarrow> invite \<Rightarrow> json option" where
  "enrollmentContractFor rp r iv =
     (case ownerUserId r (iv_ownerId iv) of
        None \<Rightarrow> None
      | Some userId \<Rightarrow>
          Some (JObj [(''inviteId'', JStr (iv_inviteId iv)), (''expiresAt'', JNum (NInt (iv_expiresAt iv))),
            (''ownerId'', JStr (iv_ownerId iv)), (''rpId'', JStr (rp_rpId (fst rp))), (''rpName'', JStr (snd rp)),
            (''user'', JObj [(''id'', JStr userId), (''name'', JStr (iv_ownerId iv)), (''displayName'', JStr (iv_ownerId iv))]),
            (''pubKeyCredParams'', JArr [JObj [(''type'', JStr ''public-key''), (''alg'', JNum (NInt (- 7)))]]),
            (''authenticatorSelection'', JObj [(''authenticatorAttachment'', JStr ''platform''),
               (''residentKey'', JStr ''preferred''), (''userVerification'', JStr ''required'')]),
            (''challenge'', JStr (iv_challenge iv)), (''assertionChallenge'', JStr (iv_assertionChallenge iv)),
            (''deviceName'', JStr (iv_deviceName iv))]))"

definition getEnrollContract ::
  "('f, 'd, 's) config \<Rightarrow> int \<Rightarrow> string \<Rightarrow> ('f, 'd, 's) server \<Rightarrow> ('f, 'd, 's) server \<times> reply" where
  "getEnrollContract cf now inviteId sv =
     (case (sv_enrolled sv, cf_enrollment cf) of
        (Some r, Some rp) \<Rightarrow>
          if \<not> usable r then (sv, not_usable)
          else
            (case peekInvite now inviteId r of (r1, found) \<Rightarrow>
             (sv\<lparr>sv_enrolled := Some r1\<rparr>,
              case Option.bind found (enrollmentContractFor rp r1) of
                None \<Rightarrow> error_reply 404 ''unknown, expired, or already-spent invite''
              | Some contract \<Rightarrow> Reply 200 (JObj [(''invite'', contract)])))
      | _ \<Rightarrow> (sv, enroll_not_configured))"

text \<open>The mint over the local socket, not a route: the request is exactly three strings.\<close>

datatype mint_refusal = MintText string | MintThrew mint_error

definition bootstrapMintInvite ::
  "('f, 'd, 's) config \<Rightarrow> int \<Rightarrow> (string list \<Rightarrow> string) \<Rightarrow> string \<Rightarrow> string \<Rightarrow> string \<Rightarrow> json \<Rightarrow> ('f, 'd, 's) server \<Rightarrow>
     ('f, 'd, 's) server \<times> (mint_refusal + json)" where
  "bootstrapMintInvite cf now pick rndId challenge assertionChallenge req sv =
     (case (sv_enrolled sv, cf_enrollment cf) of
        (Some r, Some rp) \<Rightarrow>
          if \<not> is_plain_object req then (sv, Inl (MintText ''request must be a JSON object''))
          else
            (case (string_where (\<lambda>s. s \<noteq> []) (own_field ''tokenHash'' req), string_where (short_text 256) (own_field ''ownerId'' req),
                   string_where (\<lambda>s. s \<noteq> []) (own_field ''deviceName'' req), length (object_entries req) = 3) of
               (Some tokenHash, Some ownerId, Some deviceName, True) \<Rightarrow>
                 (case mintInvite (cf_deviceStore cf) pick now (liveKillSnapshot sv)
                        \<lparr>mr_inviteId = ''inv_'' @ rndId, mr_tokenHash = tokenHash, mr_deviceName = deviceName,
                         mr_challenge = challenge, mr_assertionChallenge = assertionChallenge,
                         mr_issuer = BootstrapIssuer ownerId\<rparr> r of
                    (r1, Inl e) \<Rightarrow> (sv\<lparr>sv_enrolled := Some r1\<rparr>, Inl (MintThrew e))
                  | (r1, Inr iv) \<Rightarrow>
                      (sv\<lparr>sv_enrolled := Some r1\<rparr>,
                       case enrollmentContractFor rp r1 iv of
                         None \<Rightarrow> Inl (MintText ''owner user handle missing after mint - refusing'')
                       | Some contract \<Rightarrow> Inr contract))
             | _ \<Rightarrow> (sv, Inl (MintText ''exactly {tokenHash, ownerId, deviceName} (strings) is required'')))
      | _ \<Rightarrow> (sv, Inl (MintText ''device enrollment is not configured'')))"

end
