(* ===== verification/ServerMoves.thy ===== *)
theory ServerMoves
  imports ServerKill ServerVeto ServerDevices
begin

text \<open>
  What the control plane of \<open>packages/control-plane/src/server.ts\<close> may do to its state: the moves,
  each with the guard under which a handler makes it, and the lemma per handler that whatever
  it is sent, it makes only moves, one after the other.  \<open>S\<close> is the set of owner sessions that may restore.  The invariants of the server are proved of
  the moves once and hold of every handler.
\<close>

section \<open>The moves\<close>

inductive move ::
  "('f, 'd, 's) config \<Rightarrow> int \<Rightarrow> owner_session set \<Rightarrow> ('f, 'd, 's) server \<Rightarrow> ('f, 'd, 's) server \<Rightarrow> bool" for cf now S where
  m_auth: "same_but_auth sv sv' \<Longrightarrow> move cf now S sv sv'"
| m_engage: "move cf now S sv (clear_challenges
     (sv\<lparr>sv_switch := engage (cf_switchStore cf) src reason unauth (at_clock now) (sv_switch sv)\<rparr>))"
| m_engageAgent: "isValidAgentId agent \<Longrightarrow> move cf now S sv (clear_challenges
     (sv\<lparr>sv_switch := fst (engageAgent (cf_switchStore cf) agent src reason unauth (at_clock now) (sv_switch sv))\<rparr>))"
| m_alert: "move cf now S sv (sv\<lparr>sv_switch := alert src reason unauth (NInt now) (sv_switch sv)\<rparr>)"
| m_commit: "may_commit sv jti \<Longrightarrow> move cf now S sv (sv\<lparr>sv_committed := List.insert jti (sv_committed sv)\<rparr>)"
| m_purge: "move cf now S sv (purge_ceremonies now sv)"
| m_open: "restorable sv scope \<Longrightarrow> find (own_ceremony ownerId scope) (sv_ceremonies sv) = None \<Longrightarrow>
     length (sv_ceremonies sv) < MAX_CEREMONY_RECORDS \<Longrightarrow> license_refusal_now cf now = None \<Longrightarrow>
     move cf now S sv (fst (open_ceremony now uuid ownerId scope sv))"
| m_tick_ceremony: "(i, r) \<in> set (sv_ceremonies sv) \<Longrightarrow> move cf now S sv (set_ceremony i (tick_record now r) sv)"
| m_restore_challenge: "cf_ownerPasskey cf = Some pk \<Longrightarrow> restorable sv scope \<Longrightarrow>
     move cf now S sv (sv\<lparr>sv_restores := AList.update i \<lparr>rc_challenge = challenge, rc_killEpoch = epoch_now sv,
       rc_expiresAt = now + RESTORE_CHALLENGE_TTL_MS\<rparr> (sv_restores sv)\<rparr>)"
| m_assert_restore: "move cf now S sv (fst (assert_restore cf now i a sv))"
| m_restore: "session \<in> S \<Longrightarrow> \<not> sw_quarantineFailed (sv_switch sv) \<Longrightarrow> ceremony_of sv session i = Some r \<Longrightarrow>
     cr_epoch r = epoch_now sv \<Longrightarrow> restorable sv (cr_agentId r) \<Longrightarrow> assert_restore cf now i a sv = (sv1, None) \<Longrightarrow>
     move cf now S sv (fst (spend_ceremony cf now i r sv1))"
| m_register: "\<not> agentKilled (sv_switch sv) (call_agentId call) \<Longrightarrow>
     move cf now S sv (set_window i (new_window call (epoch_now sv) None None purpose now) sv)"
| m_tick: "map_of (sv_windows sv) i = Some w \<Longrightarrow> move cf now S sv (set_window i (tick_now cf now sv w) sv)"
| m_tick_all: "move cf now S sv (tick_all cf now sv)"
| m_grant: "length rnd = 8 \<Longrightarrow> map_of (sv_windows sv) i = Some w \<Longrightarrow> grantEligibleArgs w = Some args \<Longrightarrow>
     move cf now S sv (fst (poll_grant cf now rnd i deviceRead args w sv))"
| m_veto: "map_of (sv_windows sv) i = Some w \<Longrightarrow> \<not> committed_window sv i \<Longrightarrow> veto name w = Inr w1 \<Longrightarrow>
     move cf now S sv (set_window i w1 sv)"
| m_assert_approval: "move cf now S sv (fst (assert_approval cf now i args a sv))"
| m_approve: "map_of (sv_windows sv) i = Some w \<Longrightarrow> grantEligibleArgs w = Some args \<Longrightarrow> \<not> killed_now sv \<Longrightarrow>
     \<not> agentKilled (sv_switch sv) (call_agentId (vw_call w)) \<Longrightarrow> assert_approval cf now i args a sv = (sv1, None) \<Longrightarrow>
     approve ownerId (epoch_now sv1) now w = Inr w1 \<Longrightarrow> move cf now S sv (set_window i w1 sv1)"
| m_approval_challenge: "\<not> killed_now sv \<Longrightarrow> cf_ownerPasskey cf = Some pk \<Longrightarrow> ac_killEpoch c = epoch_now sv \<Longrightarrow>
     ac_expiresAt c = now + APPROVAL_CHALLENGE_TTL_MS \<Longrightarrow> move cf now S sv (sv\<lparr>sv_approvals := AList.update i c (sv_approvals sv)\<rparr>)"
| m_delivery: "map_of (sv_windows sv) i = Some w \<Longrightarrow> ackable_now sv w = Some shown \<Longrightarrow>
     move cf now S sv (sv\<lparr>sv_deliveries := AList.update deliveryId (delivery_for cf now device i w shown sv) (sv_deliveries sv)\<rparr>)"
| m_delivery_gone: "move cf now S sv (sv\<lparr>sv_deliveries := AList.delete deliveryId (sv_deliveries sv)\<rparr>)"
| m_deliver: "map_of (sv_windows sv) i = Some w \<Longrightarrow> window_open w \<Longrightarrow> \<not> sv_quarantined sv \<Longrightarrow> \<not> killed_now sv \<Longrightarrow>
     map_of (sv_deliveries sv) deliveryId = Some dl \<Longrightarrow> ack_refusal cf now device i w body dl sv = None \<Longrightarrow>
     move cf now S sv (fst (accept_ack cf now device i w deliveryId dl sv))"
| m_logins: "move cf now S sv (sv\<lparr>sv_logins := filter (\<lambda>e. now < lg_expiresAt (snd e)) (sv_logins sv)\<rparr>)"
| m_login_challenge: "length (sv_logins sv) < MAX_LOGIN_CHALLENGES \<Longrightarrow>
     move cf now S sv (sv\<lparr>sv_logins := AList.update challenge
       \<lparr>lg_expiresAt = now + LOGIN_CHALLENGE_TTL_MS, lg_killEpoch = epoch_now sv\<rparr> (sv_logins sv)\<rparr>)"
| m_login_spent: "move cf now S sv (sv\<lparr>sv_logins := AList.delete challenge (sv_logins sv)\<rparr>)"
| m_session: "map_of (sv_logins sv) challenge = Some lg \<Longrightarrow> now < lg_expiresAt lg \<Longrightarrow> lg_killEpoch lg = epoch_now sv \<Longrightarrow>
     check_assertion cf pk challenge wa sv = AssertionOk n \<Longrightarrow>
     createOwnerSession token ''owner'' None now (sv_sessions sv) = (sessions, s) \<Longrightarrow>
     move cf now S sv (sv\<lparr>sv_logins := AList.delete challenge (sv_logins sv), sv_signCount := max (sv_signCount sv) n,
       sv_sessions := sessions\<rparr>)"
| m_evidence: "move cf now S sv (fst (sever_evidence cf now d sv))"
| m_revoke_static: "map_of (sv_ownerDevices sv) d = Some device \<Longrightarrow> ed_revokedAt device = None \<Longrightarrow>
     move cf now S sv (revoke_static now d device sv)"
| m_persist: "move cf now S sv (fst (persistStanding cf sv))"
| m_quarantine: "move cf now S sv (sv\<lparr>sv_quarantined := True\<rparr>)"
| m_lift: "persistStanding cf sv0 = (sv, failed) \<Longrightarrow> cf_standingStore cf = None \<or> failed = None \<Longrightarrow>
     move cf now S sv (sv\<lparr>sv_quarantined := False\<rparr>)"
| m_registry_revoke: "sv_enrolled sv = Some r \<Longrightarrow> usable r \<Longrightarrow>
     move cf now S sv (sv\<lparr>sv_enrolled := Some (fst (revoke_device (cf_deviceStore cf) d now r))\<rparr>)"
| m_registry_enroll: "sv_enrolled sv = Some r \<Longrightarrow>
     move cf now S sv (sv\<lparr>sv_enrolled := Some (fst (commitEnrollment (cf_keys cf) (cf_deviceStore cf) fresh_id rp now body
       (liveKillSnapshot sv) r))\<rparr>)"
| m_registry_peek: "sv_enrolled sv = Some r \<Longrightarrow> move cf now S sv (sv\<lparr>sv_enrolled := Some (fst (peekInvite now inviteId r))\<rparr>)"
| m_registry_mint: "sv_enrolled sv = Some r \<Longrightarrow>
     move cf now S sv (sv\<lparr>sv_enrolled := Some (fst (mintInvite (cf_deviceStore cf) pick now (liveKillSnapshot sv) mint r))\<rparr>)"

abbreviation moves ::
  "('f, 'd, 's) config \<Rightarrow> int \<Rightarrow> owner_session set \<Rightarrow> ('f, 'd, 's) server \<Rightarrow> ('f, 'd, 's) server \<Rightarrow> bool" where
  "moves cf now S \<equiv> rtranclp (move cf now S)"

lemma moves_trans: "moves cf now S a b \<Longrightarrow> moves cf now S b c \<Longrightarrow> moves cf now S a c"
  by (rule rtranclp_trans)

lemma moves_one: "move cf now S a b \<Longrightarrow> moves cf now S a b"
  by (rule r_into_rtranclp)

lemma moves_auth: "same_but_auth sv sv' \<Longrightarrow> moves cf now S sv sv'"
  by (rule moves_one) (rule m_auth)

lemmas moves_intros = moves_one move.intros(2-)

section \<open>Stopping and restoring\<close>

lemma moves_engage: "moves cf now S sv (engage_for_standing cf now reason sv)"
  unfolding engage_for_standing_def by (rule moves_one) (rule m_engage)

lemma moves_postKill: "moves cf now S sv (fst (postKill cf now rq raw sv))"
proof -
  obtain sv1 ok where a: "authenticate_stop cf now rq raw sv = (sv1, ok)" by fastforce
  have s: "moves cf now S sv sv1"
    using authenticate_stop_keeps[of sv cf now rq raw] a by (simp add: moves_auth)
  have agent: "moves cf now S sv1 (fst (kill_agent cf now agent src reason un sv1))" if "isValidAgentId agent" for agent src reason un
    using m_engageAgent[OF that, of cf now S sv1 src reason un]
    by (auto simp: kill_agent_def Let_def split: prod.split intro: moves_one)
  have all: "moves cf now S sv1 (fst (kill_all cf now src reason un sv1))" for src reason un
    using m_engage[of cf now S sv1 src reason un] by (auto simp: kill_all_def Let_def intro: moves_one)
  have valid: "scope_from body = Inr (Some agent) \<Longrightarrow> isValidAgentId agent" for body agent
    by (auto simp: scope_from_def split: option.splits json.splits if_splits)
  have "moves cf now S sv1 (fst (postKill cf now rq raw sv))"
    by (auto simp: postKill_def a Let_def split: sum.split option.split intro: agent all valid)
  with s show ?thesis by (rule moves_trans)
qed

lemma moves_postAlert: "moves cf now S sv (fst (postAlert cf now rq raw sv))"
proof -
  obtain sv1 ok where a: "authenticate_stop cf now rq raw sv = (sv1, ok)" by fastforce
  have s: "moves cf now S sv sv1"
    using authenticate_stop_keeps[of sv cf now rq raw] a by (simp add: moves_auth)
  have "moves cf now S sv1 (fst (postAlert cf now rq raw sv))"
    by (auto simp: postAlert_def a Let_def split: sum.split intro: moves_one m_alert)
  with s show ?thesis by (rule moves_trans)
qed

lemma moves_postGrantCommit: "moves cf now S sv (fst (postGrantCommit cf now raw sv))"
proof -
  have "moves cf now S sv (fst (commit_grant jti sv))" for jti
    by (auto simp: commit_grant_def intro: moves_one m_commit)
  then show ?thesis
    by (auto simp: postGrantCommit_def Let_def split: sum.split option.split prod.split) (metis fst_conv)+
qed

lemma moves_session_head: "session_head now rq sv = (sv1, x) \<Longrightarrow> moves cf now S sv sv1"
  using auth_keeps(1)[of sv now rq] by (auto simp: session_head_def moves_auth split: prod.splits option.splits)

lemma moves_tick_ceremony:
  "(i, r) \<in> set (sv_ceremonies sv) \<Longrightarrow> moves cf now S sv (set_ceremony i (tick_record now r) sv)"
  by (rule moves_one) (rule m_tick_ceremony)

lemma find_in: "find P xs = Some x \<Longrightarrow> x \<in> set xs"
  by (induction xs) (auto split: if_splits)

lemma moves_postCeremonyStart: "moves cf now S sv (fst (postCeremonyStart cf now uuid session raw sv))"
proof -
  let ?p = "purge_ceremonies now sv"
  have purge: "moves cf now S sv ?p" by (rule moves_one) (rule m_purge)
  have alive: "restorable ?p scope = restorable sv scope" for scope
    by (simp add: restorable_def purge_ceremonies_def split: option.split)
  have keep: "moves cf now S sv (set_ceremony i (tick_record now r) ?p)" if "find P (sv_ceremonies ?p) = Some (i, r)" for P i r
    using purge moves_tick_ceremony[OF find_in[OF that]] by (rule moves_trans)
  have opened: "moves cf now S sv (fst (open_ceremony now uuid ow scope ?p))"
    if "restorable sv scope" "find (own_ceremony ow scope) (sv_ceremonies ?p) = None" "license_refusal_now cf now = None"
      "\<not> MAX_CEREMONY_RECORDS \<le> length (sv_ceremonies ?p)" for scope ow
    using that by (intro moves_trans[OF purge] moves_one m_open) (simp_all add: alive)
  show ?thesis
    by (auto simp: postCeremonyStart_def Let_def split: sum.split option.split intro: purge keep opened)
qed

lemma moves_getCeremony: "moves cf now S sv (fst (getCeremony now rq i sv))"
proof -
  obtain sv1 x where h: "session_head now rq sv = (sv1, x)" by fastforce
  have s: "moves cf now S sv sv1" by (rule moves_session_head[OF h])
  have "moves cf now S sv1 (fst (getCeremony now rq i sv))"
    by (auto simp: getCeremony_def h Let_def ceremony_of_def split: sum.split option.splits if_splits
        intro: moves_tick_ceremony map_of_SomeD)
  with s show ?thesis by (rule moves_trans)
qed

lemma moves_restore_challenge_head: "moves cf now S sv (fst (restore_challenge_head cf now rq i sv))"
proof -
  obtain sv1 x where h: "session_head now rq sv = (sv1, x)" by fastforce
  show ?thesis using moves_session_head[OF h] by (auto simp: restore_challenge_head_def h split: sum.split)
qed

text \<open>The passkey handed on by the head is the enrolled one.\<close>

lemma moves_postRestoreChallenge:
  assumes "cf_ownerPasskey cf = Some (fst found)"
  shows "moves cf now S sv (fst (postRestoreChallenge now challenge i found sv))"
proof -
  obtain pk r0 where f: "found = (pk, r0)" by fastforce
  define r where "r = (case map_of (sv_ceremonies sv) i of None \<Rightarrow> r0 | Some r \<Rightarrow> r)"
  define sv1 where "sv1 = (if i \<in> set (map_keys (sv_ceremonies sv)) then set_ceremony i (tick_record now r) sv else sv)"
  have "i \<in> set (map_keys (sv_ceremonies sv)) \<Longrightarrow> map_of (sv_ceremonies sv) i = Some r"
    by (auto simp: r_def map_keys_def split: option.split dest: weak_map_of_SomeI)
  then have s: "moves cf now S sv sv1" by (auto simp: sv1_def intro: moves_tick_ceremony map_of_SomeD)
  have same: "restorable sv1 scope = restorable sv scope" for scope
    by (simp add: sv1_def set_ceremony_def restorable_def split: option.split)
  have c: "restorable sv1 scope \<Longrightarrow> moves cf now S sv1 (sv1\<lparr>sv_restores := AList.update i \<lparr>rc_challenge = challenge, rc_killEpoch = epoch_now sv1,
       rc_expiresAt = now + RESTORE_CHALLENGE_TTL_MS\<rparr> (sv_restores sv1)\<rparr>)" for scope
    using assms by (intro moves_one m_restore_challenge) auto
  show ?thesis
    using s moves_trans[OF s c]
    by (auto simp: postRestoreChallenge_def f Let_def r_def[symmetric] sv1_def[symmetric] same)
qed

lemma moves_postRestore:
  assumes "session \<in> S"
  shows "moves cf now S sv (fst (postRestore cf now session raw sv))"
proof -
  have a: "assert_restore cf now i x sv = (sv1, y) \<Longrightarrow> moves cf now S sv sv1" for i x sv1 y
    using m_assert_restore[of cf now S sv i x] by (auto intro: moves_one)
  have "moves cf now S sv (fst (spend_ceremony cf now i r sv1))"
    if "\<not> sw_quarantineFailed (sv_switch sv)" "ceremony_of sv session i = Some r" "cr_epoch r = epoch_now sv"
      "restorable sv (cr_agentId r)" "assert_restore cf now i x sv = (sv1, None)" for i r x sv1
    by (rule moves_one) (rule m_restore[OF assms that])
  then show ?thesis
    by (auto simp: postRestore_def Let_def split: sum.split option.split prod.split intro: a)
qed

section \<open>The veto lane\<close>

lemma moves_postRegisterVeto: "moves cf now S sv (fst (postRegisterVeto cf now rnd rq raw sv))"
proof -
  obtain sv1 d where a: "validDeviceIdFrom cf now rq raw sv = (sv1, d)" by fastforce
  have s: "moves cf now S sv sv1" using auth_keeps(2)[of sv cf now rq raw] a by (simp add: moves_auth)
  have "moves cf now S sv1 (set_window i (new_window call (epoch_now sv1) None None purpose now) sv1)"
    if "\<not> agentKilled (sv_switch sv1) (call_agentId call)" for i call purpose
    by (rule moves_one) (rule m_register[OF that])
  then have "moves cf now S sv1 (fst (postRegisterVeto cf now rnd rq raw sv))"
    by (auto simp: postRegisterVeto_def a Let_def split: sum.split option.split)
  with s show ?thesis by (rule moves_trans)
qed

lemma moves_tick_window:
  "map_of (sv_windows sv) i = Some w \<Longrightarrow> moves cf now S sv (set_window i (tick_now cf now sv w) sv)"
  by (rule moves_one) (rule m_tick)

lemma set_window_get [simp]: "map_of (sv_windows (set_window i w sv)) i = Some w"
  by (simp add: set_window_def update_conv')

lemma moves_getVeto:
  assumes "length rnd = 8"
  shows "moves cf now S sv (fst (getVeto cf now rnd rq i raw sv))"
proof -
  obtain sv1 d where a: "validDeviceIdFrom cf now rq raw sv = (sv1, d)" by fastforce
  have s: "moves cf now S sv sv1" using auth_keeps(2)[of sv cf now rq raw] a by (simp add: moves_auth)
  have t: "moves cf now S sv1 (set_window i (tick_now cf now sv1 w) sv1)" if "map_of (sv_windows sv1) i = Some w" for w
    using that by (rule moves_tick_window)
  have g: "moves cf now S sv1 (fst (poll_grant cf now rnd i dr args (tick_now cf now sv1 w) (set_window i (tick_now cf now sv1 w) sv1)))"
    if "map_of (sv_windows sv1) i = Some w" "grantEligibleArgs (tick_now cf now sv1 w) = Some args" for w args dr
    by (rule moves_trans[OF t[OF that(1)]]) (rule moves_one, rule m_grant[OF assms set_window_get that(2)])
  have "moves cf now S sv1 (fst (getVeto cf now rnd rq i raw sv))"
    by (auto simp: getVeto_def a Let_def split: option.split intro: t g)
  with s show ?thesis by (rule moves_trans)
qed

lemma moves_getVetoPending: "moves cf now S sv (fst (getVetoPending cf now rq raw sv))"
proof -
  obtain sv1 d where a: "validDeviceIdFrom cf now rq raw sv = (sv1, d)" by fastforce
  have s: "moves cf now S sv sv1" using auth_keeps(2)[of sv cf now rq raw] a by (simp add: moves_auth)
  have "moves cf now S sv1 (fst (getVetoPending cf now rq raw sv))"
    by (auto simp: getVetoPending_def a Let_def split: option.split intro: moves_one m_tick_all)
  with s show ?thesis by (rule moves_trans)
qed

lemma moves_veto_by: "map_of (sv_windows sv) i = Some w \<Longrightarrow> moves cf now S sv (fst (veto_by name i w sv))"
  by (auto simp: veto_by_def split: sum.split intro: moves_one m_veto)

lemma moves_postDeviceVeto: "moves cf now S sv (fst (postDeviceVeto cf now rq i raw sv))"
proof -
  obtain sv1 d where a: "validDeviceIdFrom cf now rq raw sv = (sv1, d)" by fastforce
  obtain sv2 d2 where b: "(if d = None then validOwnerDeviceIdFrom cf now rq raw sv1 else (sv1, None)) = (sv2, d2)" by fastforce
  have "same_but_auth sv sv1" using auth_keeps(2)[of sv cf now rq raw] a by simp
  moreover have "same_but_auth sv1 sv2" using auth_keeps(3)[of sv1 cf now rq raw] b by (auto split: if_splits)
  ultimately have s: "moves cf now S sv sv2" by (intro moves_auth) (rule same_but_auth_trans)
  have "moves cf now S sv2 (fst (postDeviceVeto cf now rq i raw sv))"
    by (auto simp: postDeviceVeto_def a b Let_def split: option.split sum.split intro: moves_veto_by)
  with s show ?thesis by (rule moves_trans)
qed

lemma moves_approve_window:
  assumes w: "map_of (sv_windows sv) i = Some w"
  shows "moves cf now S sv (fst (approve_window cf now session i w body sv))"
proof -
  have a: "assert_approval cf now i args x sv = (sv1, y) \<Longrightarrow> moves cf now S sv sv1" for args x sv1 y
    using m_assert_approval[of cf now S sv i args x] by (auto intro: moves_one)
  have "moves cf now S sv (set_window i w1 sv1)"
    if "grantEligibleArgs w = Some args" "\<not> killed_now sv" "\<not> agentKilled (sv_switch sv) (call_agentId (vw_call w))"
      "assert_approval cf now i args x sv = (sv1, None)" "approve ow (epoch_now sv1) now w = Inr w1" for args x sv1 w1 ow
    by (rule moves_one) (rule m_approve[OF w that])
  then show ?thesis
    by (auto simp: approve_window_def Let_def split: option.split prod.split sum.split intro: a)
qed

lemma moves_postVeto: "moves cf now S sv (fst (postVeto cf now rq i raw sv))"
proof -
  obtain sv1 s where a: "ownerSessionFrom now rq sv = (sv1, s)" by fastforce
  have s: "moves cf now S sv sv1" using auth_keeps(1)[of sv now rq] a by (simp add: moves_auth)
  have "moves cf now S sv1 (fst (postVeto cf now rq i raw sv))"
    by (auto simp: postVeto_def a Let_def split: option.split sum.split json.split
        intro: moves_postDeviceVeto moves_approve_window moves_veto_by)
  with s show ?thesis by (rule moves_trans)
qed

lemma moves_approval_challenge_head: "moves cf now S sv (fst (approval_challenge_head cf now rq i sv))"
  using auth_keeps(1)[of sv now rq]
  by (auto simp: approval_challenge_head_def moves_auth split: prod.splits option.splits)

lemma moves_postApprovalChallenge:
  assumes "cf_ownerPasskey cf = Some (fst found)"
  shows "moves cf now S sv (fst (postApprovalChallenge cf now challenge i found sv))"
  using assms
  by (auto simp: postApprovalChallenge_def Let_def split: prod.split sum.split intro!: moves_one m_approval_challenge)

lemma moves_getVetoDetail: "moves cf now S sv (fst (getVetoDetail cf now rnd rq i raw sv))"
proof -
  obtain sv1 d where a: "validOwnerDeviceIdFrom cf now rq raw sv = (sv1, d)" by fastforce
  have s: "moves cf now S sv sv1" using auth_keeps(3)[of sv cf now rq raw] a by (simp add: moves_auth)
  have t: "moves cf now S sv (set_window i (tick_now cf now sv1 w) sv1)" if "map_of (sv_windows sv1) i = Some w" for w
    using s moves_tick_window[OF that] by (rule moves_trans)
  have d: "moves cf now S sv (sv2\<lparr>sv_deliveries := AList.update x (delivery_for cf now dev i v a sv2) (sv_deliveries sv2)\<rparr>)"
    if "map_of (sv_windows sv1) i = Some w" "v = tick_now cf now sv1 w" "sv2 = set_window i v sv1" "ackable_now sv2 v = Some a" for w v a sv2 x dev
    using t[OF that(1)] that by (intro moves_trans[OF _ moves_one[OF m_delivery]]) auto
  show ?thesis
    by (auto simp: getVetoDetail_def a Let_def split: option.split intro: s t d)
qed

lemma moves_postVetoSeen: "moves cf now S sv (fst (postVetoSeen cf now rq i raw sv))"
proof -
  obtain sv1 d where a: "validOwnerDeviceIdFrom cf now rq raw sv = (sv1, d)" by fastforce
  have s: "moves cf now S sv sv1" using auth_keeps(3)[of sv cf now rq raw] a by (simp add: moves_auth)
  have t: "moves cf now S sv (set_window i (tick_now cf now sv1 w) sv1)" if "map_of (sv_windows sv1) i = Some w" for w
    using s moves_tick_window[OF that] by (rule moves_trans)
  have g: "moves cf now S sv (sv2\<lparr>sv_deliveries := AList.delete x (sv_deliveries sv2)\<rparr>)"
    if "moves cf now S sv sv2" for sv2 x using that by (rule moves_trans) (rule moves_one, rule m_delivery_gone)
  have d: "moves cf now S sv (fst (accept_ack cf now dev i v x dl sv2))"
    if "map_of (sv_windows sv1) i = Some w" "v = tick_now cf now sv1 w" "sv2 = set_window i v sv1" "window_open v"
      "\<not> sv_quarantined sv1" "\<not> killed_now sv1" "map_of (sv_deliveries sv2) x = Some dl" "ack_refusal cf now dev i v body dl sv2 = None"
    for w v sv2 x dl dev body
  proof -
    have "move cf now S sv2 (fst (accept_ack cf now dev i v x dl sv2))"
      using that by (intro m_deliver) (auto simp: set_window_def update_conv')
    with t[OF that(1)] that(2,3) show ?thesis by (auto intro: moves_trans moves_one)
  qed
  show ?thesis
    by (auto simp: postVetoSeen_def a Let_def split: option.split sum.split prod.split intro: s t g d)
qed

lemma moves_postSessionChallenge: "moves cf now S sv (fst (postSessionChallenge now challenge pk sv))"
proof -
  have f: "moves cf now S sv (sv\<lparr>sv_logins := filter (\<lambda>e. now < lg_expiresAt (snd e)) (sv_logins sv)\<rparr>)"
    by (rule moves_one) (rule m_logins)
  show ?thesis
    using moves_trans[OF f moves_one[OF m_login_challenge]] f
    by (auto simp: postSessionChallenge_def Let_def not_le)
qed

lemma moves_postSession: "moves cf now S sv (fst (postSession cf now token pk raw sv))"
proof -
  have d: "moves cf now S sv (sv\<lparr>sv_logins := AList.delete c (sv_logins sv)\<rparr>)" for c
    by (rule moves_one) (rule m_login_spent)
  show ?thesis
    by (auto simp: postSession_def Let_def not_le split: option.split sum.split assertion_verdict.split prod.split
        intro: d intro!: moves_one[OF m_session])
qed

section \<open>The device lane\<close>

lemma moves_evidence: "sever_evidence cf now d sv = (sv1, n) \<Longrightarrow> moves cf now S sv sv1"
  using m_evidence[of cf now S sv d] by (auto intro: moves_one)

lemma moves_persist: "persistStanding cf sv = (sv1, failed) \<Longrightarrow> moves cf now S sv sv1"
  using m_persist[of cf now S sv] by (auto intro: moves_one)

lemma moves_quarantine_kill: "moves cf now S sv (engage_for_standing cf now reason (sv\<lparr>sv_quarantined := True\<rparr>))"
  by (rule moves_trans[OF moves_one[OF m_quarantine] moves_engage])

lemma moves_lift:
  "persistStanding cf sv = (sv1, failed) \<Longrightarrow> cf_standingStore cf = None \<or> failed = None \<Longrightarrow>
     moves cf now S sv (sv1\<lparr>sv_quarantined := False\<rparr>)"
  by (rule moves_trans[OF moves_persist moves_one[OF m_lift]])

lemma moves_retry_static: "moves cf now S sv (fst (retry_static cf d sv))"
  by (auto simp: retry_static_def Let_def split: prod.split option.split intro: moves_lift moves_persist)

lemma moves_sever:
  assumes e: "sever_evidence cf now d sv = (sv1, n)" and p: "persistStanding cf sv1 = (sv2, failed)"
  shows "moves cf now S sv (engage_for_standing cf now reason (sv2\<lparr>sv_quarantined := True\<rparr>))"
    "cf_standingStore cf = None \<or> failed = None \<Longrightarrow> moves cf now S sv (sv2\<lparr>sv_quarantined := False\<rparr>)"
  using moves_trans[OF moves_evidence[OF e] moves_trans[OF moves_persist[OF p] moves_quarantine_kill]]
    moves_trans[OF moves_evidence[OF e] moves_lift[OF p]] by auto

lemma moves_sever_static:
  assumes "map_of (sv_ownerDevices sv) d = Some device" "ed_revokedAt device = None"
  shows "moves cf now S sv (fst (sever_static cf now d device sv))"
proof -
  have r: "moves cf now S sv (revoke_static now d device sv)" by (rule moves_one) (rule m_revoke_static[OF assms])
  have "moves cf now S (revoke_static now d device sv) (fst (sever_static cf now d device sv))"
    by (auto simp: sever_static_def Let_def split: prod.split option.split intro: moves_sever)
  with r show ?thesis by (rule moves_trans)
qed

lemma moves_sever_enrolled: "moves cf now S sv (fst (sever_enrolled cf now d gen already sv))"
  by (auto simp: sever_enrolled_def Let_def split: prod.split option.split intro: moves_sever)

lemma moves_revokeEnrolledDevice: "moves cf now S sv (fst (revokeEnrolledDevice cf now d sv))"
proof (cases "sv_enrolled sv")
  case (Some r)
  have "moves cf now S sv (sv\<lparr>sv_enrolled := Some (fst (revoke_device (cf_deviceStore cf) d now r))\<rparr>)" if "usable r"
    by (rule moves_one) (rule m_registry_revoke[OF Some that])
  note m = this
  show ?thesis
    using Some m moves_trans[OF m moves_engage] moves_trans[OF m moves_sever_enrolled]
    by (auto simp: revokeEnrolledDevice_def Let_def split: prod.split revoke_outcome.split)
qed (simp add: revokeEnrolledDevice_def)

lemma moves_postDeviceRevoke: "moves cf now S sv (fst (postDeviceRevoke cf now rq d raw sv))"
proof -
  obtain sv1 ok where a: "authenticate_stop cf now rq raw sv = (sv1, ok)" by fastforce
  have s: "moves cf now S sv sv1"
    using authenticate_stop_keeps[of sv cf now rq raw] a by (simp add: moves_auth)
  have "moves cf now S sv1 (fst (postDeviceRevoke cf now rq d raw sv))"
    by (auto simp: postDeviceRevoke_def a split: option.split
        intro: moves_revokeEnrolledDevice moves_retry_static moves_sever_static)
  with s show ?thesis by (rule moves_trans)
qed

lemma moves_sever_aliases: "moves cf now S sv (fst (sever_aliases cf now rec sv))"
proof -
  have one: "moves cf now S (fst acc) (fst (sever_alias cf now der d acc))" for der d acc
  proof -
    have "moves cf now S (fst acc) (fst (sever_evidence cf now d (revoke_static now d device (fst acc))))"
      if "map_of (sv_ownerDevices (fst acc)) d = Some device" "ed_revokedAt device = None" for device
      by (rule moves_trans[OF moves_one[OF m_revoke_static[OF that]] moves_one[OF m_evidence]])
    then show ?thesis by (auto simp: sever_alias_def split: option.split)
  qed
  have "moves cf now S sv (fst acc) \<Longrightarrow> moves cf now S sv (fst (foldl (\<lambda>acc i. sever_alias cf now der i acc) acc ids))" for acc der ids
  proof (induction ids arbitrary: acc)
    case (Cons i ids)
    from Cons.IH[OF moves_trans[OF Cons.prems one]] show ?case by simp
  qed simp
  then show ?thesis by (auto simp: sever_aliases_def split: sum.split)
qed

lemma moves_export: "moves cf now S sv (export_enrolment cf now i severed sv)"
  using moves_trans[OF moves_persist moves_quarantine_kill]
  by (auto simp: export_enrolment_def split: prod.split option.split intro: moves_persist)

lemma moves_postDeviceEnroll: "moves cf now S sv (fst (postDeviceEnroll cf now fresh_id rp raw sv))"
proof (cases "sv_enrolled sv")
  case (Some r)
  have m: "moves cf now S sv (sv\<lparr>sv_enrolled := Some r1\<rparr>)"
    if "commitEnrollment (cf_keys cf) (cf_deviceStore cf) fresh_id rp now body (liveKillSnapshot sv) r = (r1, x)" for body r1 x
    using m_registry_enroll[OF Some, of cf now S fresh_id rp body] that by (auto intro: moves_one)
  have a: "sever_aliases cf now rec (sv\<lparr>sv_enrolled := Some r1\<rparr>) = (sv1, severed) \<Longrightarrow>
      moves cf now S (sv\<lparr>sv_enrolled := Some r1\<rparr>) (export_enrolment cf now i severed sv1)" for rec r1 sv1 severed i
    using moves_trans[OF moves_sever_aliases[of cf now S "sv\<lparr>sv_enrolled := Some r1\<rparr>" rec] moves_export] by simp
  show ?thesis
    using Some by (auto simp: postDeviceEnroll_def Let_def split: sum.split prod.split commit_outcome.split intro: m moves_trans[OF m a])
qed (simp add: postDeviceEnroll_def split: sum.split)

lemma moves_getDevices: "moves cf now S sv (fst (getDevices now rq sv))"
  using auth_keeps(1)[of sv now rq] by (auto simp: getDevices_def moves_auth split: prod.splits option.splits)

lemma moves_getEnrollContract: "moves cf now S sv (fst (getEnrollContract cf now inviteId sv))"
proof -
  have "moves cf now S sv (sv\<lparr>sv_enrolled := Some r1\<rparr>)" if "sv_enrolled sv = Some r" "peekInvite now inviteId r = (r1, x)" for r r1 x
    using m_registry_peek[OF that(1), of cf now S inviteId] that(2) by (auto intro: moves_one)
  then show ?thesis by (auto simp: getEnrollContract_def split: prod.split option.split)
qed

lemma moves_bootstrapMintInvite:
  "moves cf now S sv (fst (bootstrapMintInvite cf now pick rndId challenge assertionChallenge req sv))"
proof -
  have "moves cf now S sv (sv\<lparr>sv_enrolled := Some r1\<rparr>)"
    if "sv_enrolled sv = Some r" "mintInvite (cf_deviceStore cf) pick now (liveKillSnapshot sv) m r = (r1, x)" for r r1 x m
    using m_registry_mint[OF that(1), of cf now S pick m] that(2) by (auto intro: moves_one)
  then show ?thesis by (auto simp: bootstrapMintInvite_def Let_def split: prod.split option.split bool.split sum.split)
qed

end
