(* ===== verification/ServerRun.thy ===== *)
theory ServerRun
  imports ServerMoves
begin

text \<open>
  The HTTP surface of \<open>packages/control-plane/src/server.ts\<close> as a whole: the routing, what
  happens when a request arrives and when its body is there, and the steps of a control plane that
  serves many requests at once.
\<close>

section \<open>Routing\<close>

text \<open>
  \<open>decodeURIComponent\<close> of a path segment, which the URL parser leaves in ASCII; \<open>None\<close> is the throw,
  and stands too for a text with a character above 255, which no id has.
\<close>

fun percent_bytes :: "string \<Rightarrow> byte_list option" where
  "percent_bytes [] = Some []"
| "percent_bytes (c # cs) =
     (if c \<noteq> CHR ''%'' then map_option ((@) (utf8_unit c)) (percent_bytes cs)
      else
        (case cs of
           a # b # rest \<Rightarrow>
             (case (hex_value a, hex_value b) of
                (Some x, Some y) \<Rightarrow> map_option ((#) (16 * x + y)) (percent_bytes rest)
              | _ \<Rightarrow> None)
         | _ \<Rightarrow> None))"

definition decodeURIComponent :: "string \<Rightarrow> string option" where
  "decodeURIComponent s = Option.bind (percent_bytes s) utf8_text"

datatype endpoint =
    ToStatus | ToKillState | ToCommit | ToSessionChallenge | ToSession | ToApprovalChallenge string
  | ToKill | ToAlert | ToEnroll | ToContract string | ToDevices | ToRevoke string | ToCeremonyStart
  | ToRestoreChallenge string | ToCeremony string | ToRestore | ToRegister | ToPending | ToSeen string
  | ToDetail string | ToVeto string | ToGetVeto string | ToNothing

text \<open>The segment a route captures is not empty.\<close>

definition captured :: "(string \<Rightarrow> endpoint) \<Rightarrow> string \<Rightarrow> endpoint option" where
  "captured to s = map_option to (decodeURIComponent s)"

definition route_post :: "string list \<Rightarrow> endpoint option" where
  "route_post segments =
     (case segments of
        [a] \<Rightarrow>
          Some (if a = ''session'' then ToSession else if a = ''kill'' then ToKill else if a = ''alert'' then ToAlert
                else if a = ''restore'' then ToRestore else if a = ''veto'' then ToRegister else ToNothing)
      | [a, b] \<Rightarrow>
          if a = ''kill-state'' \<and> b = ''commit'' then Some ToCommit
          else if a = ''session'' \<and> b = ''challenge'' then Some ToSessionChallenge
          else if a = ''devices'' \<and> b = ''enroll'' then Some ToEnroll
          else if a = ''restore'' \<and> b = ''ceremony'' then Some ToCeremonyStart
          else if a = ''veto'' \<and> b \<noteq> [] then captured ToVeto b
          else Some ToNothing
      | [a, b, c] \<Rightarrow>
          if b = [] then Some ToNothing
          else if a = ''veto'' \<and> c = ''approval-challenge'' then captured ToApprovalChallenge b
          else if a = ''devices'' \<and> c = ''revoke'' then captured ToRevoke b
          else if a = ''veto'' \<and> c = ''seen'' then captured ToSeen b
          else Some ToNothing
      | [a, b, c, d] \<Rightarrow>
          if a = ''restore'' \<and> b = ''ceremony'' \<and> c \<noteq> [] \<and> d = ''challenge'' then captured ToRestoreChallenge c
          else Some ToNothing
      | _ \<Rightarrow> Some ToNothing)"

definition route_get :: "string list \<Rightarrow> endpoint option" where
  "route_get segments =
     (case segments of
        [a] \<Rightarrow>
          Some (if a = ''status'' then ToStatus else if a = ''kill-state'' then ToKillState
                else if a = ''devices'' then ToDevices else ToNothing)
      | [a, b] \<Rightarrow>
          if a = ''veto'' \<and> b = ''pending'' then Some ToPending
          else if a = ''veto'' \<and> b \<noteq> [] then captured ToGetVeto b
          else Some ToNothing
      | [a, b, c] \<Rightarrow>
          if a = ''restore'' \<and> b = ''ceremony'' \<and> c \<noteq> [] then captured ToCeremony c
          else if a = ''veto'' \<and> b \<noteq> [] \<and> c = ''detail'' then captured ToDetail b
          else Some ToNothing
      | [a, b, c, d] \<Rightarrow>
          if a = ''devices'' \<and> b = ''enroll'' \<and> c = ''contract'' \<and> d \<noteq> [] then captured ToContract d
          else Some ToNothing
      | _ \<Rightarrow> Some ToNothing)"

text \<open>\<open>None\<close> is a captured segment that does not decode.\<close>

definition route :: "string \<Rightarrow> string \<Rightarrow> endpoint option" where
  "route meth path =
     (case split_on CHR ''/'' path of
        lead # segments \<Rightarrow>
          if lead \<noteq> [] then Some ToNothing
          else if meth = ''POST'' then route_post segments
          else if meth = ''GET'' then route_get segments
          else
            (case segments of
               [a, b] \<Rightarrow> if a = ''veto'' \<and> b \<noteq> [] then captured (\<lambda>_. ToNothing) b else Some ToNothing
             | _ \<Rightarrow> Some ToNothing)
      | [] \<Rightarrow> Some ToNothing)"

section \<open>Arrival and body\<close>

text \<open>What a handler that awaits its body holds on to.\<close>

datatype awaiting =
    AwaitCommit
  | AwaitSessionChallenge server_passkey
  | AwaitSession server_passkey
  | AwaitApprovalChallenge string "server_passkey \<times> string"
  | AwaitKill request
  | AwaitAlert request
  | AwaitEnroll relying_party
  | AwaitRevoke request string
  | AwaitCeremonyStart owner_session
  | AwaitRestoreChallenge string "server_passkey \<times> ceremony_record"
  | AwaitRestore owner_session
  | AwaitRegister request
  | AwaitPending request
  | AwaitSeen request string
  | AwaitDetail request string
  | AwaitVeto request string
  | AwaitGetVeto request string

definition waits :: "('a \<Rightarrow> awaiting) \<Rightarrow> 's \<times> (reply + 'a) \<Rightarrow> 's \<times> (reply + awaiting)" where
  "waits k r = (fst r, map_sum id k (snd r))"

definition answers :: "'s \<times> reply \<Rightarrow> 's \<times> (reply + awaiting)" where
  "answers r = (fst r, Inl (snd r))"

fun arrive_at ::
  "('f, 'd, 's) config \<Rightarrow> int \<Rightarrow> request \<Rightarrow> endpoint \<Rightarrow> ('f, 'd, 's) server \<Rightarrow> ('f, 'd, 's) server \<times> (reply + awaiting)" where
  "arrive_at cf now rq ToStatus sv = answers (sv, getStatus sv)"
| "arrive_at cf now rq ToKillState sv = answers (sv, getSignedKillState cf now rq sv)"
| "arrive_at cf now rq ToCommit sv =
     (sv, if given_key (cf_killStateKey cf) = None then Inl (error_reply 501 ''signed kill-state channel is not configured'')
          else Inr AwaitCommit)"
| "arrive_at cf now rq ToSessionChallenge sv = waits AwaitSessionChallenge (sv, passkey_head cf)"
| "arrive_at cf now rq ToSession sv = waits AwaitSession (sv, passkey_head cf)"
| "arrive_at cf now rq (ToApprovalChallenge i) sv = waits (AwaitApprovalChallenge i) (approval_challenge_head cf now rq i sv)"
| "arrive_at cf now rq ToKill sv = (sv, Inr (AwaitKill rq))"
| "arrive_at cf now rq ToAlert sv = (sv, Inr (AwaitAlert rq))"
| "arrive_at cf now rq ToEnroll sv = waits AwaitEnroll (sv, enroll_head cf sv)"
| "arrive_at cf now rq (ToContract i) sv = answers (getEnrollContract cf now i sv)"
| "arrive_at cf now rq ToDevices sv = answers (getDevices now rq sv)"
| "arrive_at cf now rq (ToRevoke d) sv = (sv, Inr (AwaitRevoke rq d))"
| "arrive_at cf now rq ToCeremonyStart sv = waits AwaitCeremonyStart (session_head now rq sv)"
| "arrive_at cf now rq (ToRestoreChallenge i) sv = waits (AwaitRestoreChallenge i) (restore_challenge_head cf now rq i sv)"
| "arrive_at cf now rq (ToCeremony i) sv = answers (getCeremony now rq i sv)"
| "arrive_at cf now rq ToRestore sv = waits AwaitRestore (session_head now rq sv)"
| "arrive_at cf now rq ToRegister sv = (sv, Inr (AwaitRegister rq))"
| "arrive_at cf now rq ToPending sv = (sv, Inr (AwaitPending rq))"
| "arrive_at cf now rq (ToSeen i) sv = (sv, Inr (AwaitSeen rq i))"
| "arrive_at cf now rq (ToDetail i) sv = (sv, Inr (AwaitDetail rq i))"
| "arrive_at cf now rq (ToVeto i) sv = (sv, Inr (AwaitVeto rq i))"
| "arrive_at cf now rq (ToGetVeto i) sv = waits (\<lambda>_. AwaitGetVeto rq i) (sv, getVeto_head i sv)"
| "arrive_at cf now rq ToNothing sv = (sv, Inl not_found)"

definition arrive ::
  "('f, 'd, 's) config \<Rightarrow> int \<Rightarrow> request \<Rightarrow> ('f, 'd, 's) server \<Rightarrow> ('f, 'd, 's) server \<times> (reply + awaiting)" where
  "arrive cf now rq sv =
     (case Option.bind (rq_target rq) (\<lambda>t. route (rq_method rq) (fst t)) of
        None \<Rightarrow> (sv, Inl internal_error)
      | Some e \<Rightarrow> arrive_at cf now rq e sv)"

text \<open>What \<open>randomBytes\<close>, \<open>randomUUID\<close> and the choice of a fresh device id give to one request.\<close>

record randomness =
  rn_bytes :: "nat \<Rightarrow> byte_list"
  rn_uuid :: string
  rn_fresh :: "string list \<Rightarrow> string"

definition draws :: "randomness \<Rightarrow> bool" where
  "draws rn \<longleftrightarrow> (\<forall>n. length (rn_bytes rn n) = n)"

definition token_of :: "randomness \<Rightarrow> string" where
  "token_of rn = b64url_encode (rn_bytes rn 32)"

fun body_ready ::
  "('f, 'd, 's) config \<Rightarrow> int \<Rightarrow> randomness \<Rightarrow> string \<Rightarrow> awaiting \<Rightarrow> ('f, 'd, 's) server \<Rightarrow> ('f, 'd, 's) server \<times> reply" where
  "body_ready cf now rn raw AwaitCommit sv = postGrantCommit cf now raw sv"
| "body_ready cf now rn raw (AwaitSessionChallenge pk) sv = postSessionChallenge now (token_of rn) pk sv"
| "body_ready cf now rn raw (AwaitSession pk) sv = postSession cf now (token_of rn) pk raw sv"
| "body_ready cf now rn raw (AwaitApprovalChallenge i found) sv = postApprovalChallenge cf now (token_of rn) i found sv"
| "body_ready cf now rn raw (AwaitKill rq) sv = postKill cf now rq raw sv"
| "body_ready cf now rn raw (AwaitAlert rq) sv = postAlert cf now rq raw sv"
| "body_ready cf now rn raw (AwaitEnroll rp) sv = postDeviceEnroll cf now (rn_fresh rn) rp raw sv"
| "body_ready cf now rn raw (AwaitRevoke rq d) sv = postDeviceRevoke cf now rq d raw sv"
| "body_ready cf now rn raw (AwaitCeremonyStart s) sv = postCeremonyStart cf now (rn_uuid rn) s raw sv"
| "body_ready cf now rn raw (AwaitRestoreChallenge i found) sv = postRestoreChallenge now (token_of rn) i found sv"
| "body_ready cf now rn raw (AwaitRestore s) sv = postRestore cf now s raw sv"
| "body_ready cf now rn raw (AwaitRegister rq) sv = postRegisterVeto cf now (rn_bytes rn 6) rq raw sv"
| "body_ready cf now rn raw (AwaitPending rq) sv = getVetoPending cf now rq raw sv"
| "body_ready cf now rn raw (AwaitSeen rq i) sv = postVetoSeen cf now rq i raw sv"
| "body_ready cf now rn raw (AwaitDetail rq i) sv = getVetoDetail cf now (rn_bytes rn 12) rq i raw sv"
| "body_ready cf now rn raw (AwaitVeto rq i) sv = postVeto cf now rq i raw sv"
| "body_ready cf now rn raw (AwaitGetVeto rq i) sv = getVeto cf now (rn_bytes rn 8) rq i raw sv"

section \<open>Serving\<close>

text \<open>
  A control plane is its state and the handlers that wait for their bodies.  Requests arrive in any
  order, bodies end in any order, and a caller may hang up; the local socket mints invites.
\<close>

type_synonym ('f, 'd, 's) plane = "('f, 'd, 's) server \<times> awaiting list"

inductive serve :: "('f, 'd, 's) config \<Rightarrow> ('f, 'd, 's) plane \<Rightarrow> ('f, 'd, 's) plane \<Rightarrow> bool" for cf where
  answered: "arrive cf now rq sv = (sv', Inl reply) \<Longrightarrow> serve cf (sv, ws) (sv', ws)"
| waiting: "arrive cf now rq sv = (sv', Inr w) \<Longrightarrow> serve cf (sv, ws) (sv', w # ws)"
| body: "draws rn \<Longrightarrow> body_ready cf now rn raw w sv = (sv', reply) \<Longrightarrow> serve cf (sv, ws @ w # ws') (sv', ws @ ws')"
| hung_up: "serve cf (sv, ws @ w # ws') (sv, ws @ ws')"
| mint: "bootstrapMintInvite cf now pick rndId challenge assertionChallenge req sv = (sv', res) \<Longrightarrow> serve cf (sv, ws) (sv', ws)"

inductive_cases serveE: "serve cf (sv, ws) (sv', ws')"

section \<open>Serving is a run of moves\<close>

text \<open>A passkey a handler holds on to is the enrolled one.\<close>

fun awaiting_ok :: "('f, 'd, 's) config \<Rightarrow> awaiting \<Rightarrow> bool" where
  "awaiting_ok cf (AwaitApprovalChallenge i found) = (cf_ownerPasskey cf = Some (fst found))"
| "awaiting_ok cf (AwaitRestoreChallenge i found) = (cf_ownerPasskey cf = Some (fst found))"
| "awaiting_ok cf _ = True"

lemma awaiting_heads:
  "snd (approval_challenge_head cf now rq i sv) = Inr found \<Longrightarrow> cf_ownerPasskey cf = Some (fst found)"
  "snd (restore_challenge_head cf now rq i sv) = Inr r \<Longrightarrow> cf_ownerPasskey cf = Some (fst r)"
  by (auto simp: approval_challenge_head_def restore_challenge_head_def split: prod.splits option.splits sum.splits if_splits)

lemma arrive_at_ok: "arrive_at cf now rq e sv = (sv', Inr w) \<Longrightarrow> awaiting_ok cf w"
  by (cases e) (auto simp: waits_def answers_def map_sum_def dest: awaiting_heads split: sum.splits if_splits)

lemma arrive_ok: "arrive cf now rq sv = (sv', Inr w) \<Longrightarrow> awaiting_ok cf w"
  by (auto simp: arrive_def dest: arrive_at_ok split: option.splits)

lemma serve_awaiting: "serve cf (sv, ws) (sv', ws') \<Longrightarrow> list_all (awaiting_ok cf) ws \<Longrightarrow> list_all (awaiting_ok cf) ws'"
  by (auto elim!: serveE dest: arrive_ok)

lemma moves_arrive: "moves cf now S sv (fst (arrive cf now rq sv))"
proof -
  have "moves cf now S sv (fst (arrive_at cf now rq e sv))" for e
    using moves_session_head[of now rq sv]
    by (cases e)
       (auto simp: waits_def answers_def moves_approval_challenge_head moves_restore_challenge_head
          moves_getEnrollContract moves_getDevices moves_getCeremony intro: moves_session_head surjective_pairing)
  then show ?thesis by (auto simp: arrive_def split: option.split)
qed

text \<open>The sessions that may restore are those of the restores that wait for their body.\<close>

definition restoring :: "awaiting list \<Rightarrow> owner_session set" where
  "restoring ws = {s. AwaitRestore s \<in> set ws}"

lemma moves_body:
  "awaiting_ok cf w \<Longrightarrow> draws rn \<Longrightarrow> \<forall>s. w = AwaitRestore s \<longrightarrow> s \<in> S \<Longrightarrow> moves cf now S sv (fst (body_ready cf now rn raw w sv))"
  by (cases w)
     (simp_all add: draws_def moves_postGrantCommit moves_postSessionChallenge moves_postSession moves_postApprovalChallenge
        moves_postKill moves_postAlert moves_postDeviceEnroll moves_postDeviceRevoke moves_postCeremonyStart
        moves_postRestoreChallenge moves_postRestore moves_postRegisterVeto moves_getVetoPending moves_postVetoSeen
        moves_getVetoDetail moves_postVeto moves_getVeto)

lemma serve_moves:
  assumes "serve cf (sv, ws) (sv', ws')" "list_all (awaiting_ok cf) ws"
  shows "\<exists>now. moves cf now (restoring ws) sv sv'"
  using assms(1)
proof (cases rule: serve.cases)
  case (answered now rq reply)
  then show ?thesis using moves_arrive[of cf now _ sv rq] by auto
next
  case (waiting now rq w)
  then show ?thesis using moves_arrive[of cf now _ sv rq] by auto
next
  case (body rn now raw w reply us us')
  with assms(2) moves_body[of cf w rn "restoring ws" now sv raw] show ?thesis
    by (auto simp: restoring_def intro!: exI[of _ now])
next
  case (mint now pick rndId challenge assertionChallenge req res)
  then show ?thesis
    using moves_bootstrapMintInvite[of cf now _ sv pick rndId challenge assertionChallenge req] by auto
qed auto

text \<open>So what every move keeps, a control plane keeps, from any state without waiting handlers.\<close>

lemma moves_keep:
  assumes keep: "\<And>a b. P a \<Longrightarrow> move cf now S a b \<Longrightarrow> P b" and "P a" "moves cf now S a b"
  shows "P b"
  using assms(3,2) by (induction rule: rtranclp_induct) (auto intro: keep)

lemma serving_awaits: "(serve cf)\<^sup>*\<^sup>* (sv0, []) (sv, ws) \<Longrightarrow> list_all (awaiting_ok cf) ws"
proof -
  have "(serve cf)\<^sup>*\<^sup>* (sv0, []) p \<Longrightarrow> list_all (awaiting_ok cf) (snd p)" for p
  proof (induction rule: rtranclp_induct)
    case (step p q)
    then show ?case using serve_awaiting[of cf "fst p" "snd p" "fst q" "snd q"] by simp
  qed simp
  then show "(serve cf)\<^sup>*\<^sup>* (sv0, []) (sv, ws) \<Longrightarrow> list_all (awaiting_ok cf) ws" by fastforce
qed

lemma serving_keeps:
  assumes keep: "\<And>now S a b. P a \<Longrightarrow> move cf now S a b \<Longrightarrow> P b"
    and start: "P sv0" and run: "(serve cf)\<^sup>*\<^sup>* (sv0, []) (sv, ws)"
  shows "P sv"
proof -
  have "P (fst p)" if "(serve cf)\<^sup>*\<^sup>* (sv0, []) p" for p
    using that
  proof (induction rule: rtranclp_induct)
    case (step p q)
    from step.hyps(1) serving_awaits[of cf sv0 "fst p" "snd p"] have "list_all (awaiting_ok cf) (snd p)" by simp
    with step.hyps(2) serve_moves[of cf "fst p" "snd p" "fst q" "snd q"]
    obtain now where "moves cf now (restoring (snd p)) (fst p) (fst q)" by auto
    from this step.IH show ?case by (induction rule: rtranclp_induct) (auto intro: keep)
  qed (use start in simp)
  from this[OF run] show ?thesis by simp
qed

text \<open>
  A step that changes a reading has a move that changes it: what holds of the states before and
  after that move explains the step.
\<close>

lemma moves_change:
  "moves cf now S a b \<Longrightarrow> P a \<Longrightarrow> \<not> P b \<Longrightarrow> \<exists>c d. moves cf now S a c \<and> move cf now S c d \<and> P c \<and> \<not> P d"
  by (induction rule: rtranclp_induct) blast+

text \<open>A restore waits with a session that was accepted when it arrived.\<close>

lemma restore_waits_accepted: "arrive cf now rq sv = (sv', Inr (AwaitRestore s)) \<Longrightarrow> snd (ownerSessionFrom now rq sv) = Some s"
proof -
  have "arrive_at cf now rq e sv = (sv', Inr (AwaitRestore s)) \<Longrightarrow> snd (ownerSessionFrom now rq sv) = Some s" for e
    by (cases e) (auto simp: waits_def answers_def map_sum_def session_head_def split: sum.splits if_splits prod.splits option.splits)
  then show "arrive cf now rq sv = (sv', Inr (AwaitRestore s)) \<Longrightarrow> snd (ownerSessionFrom now rq sv) = Some s"
    by (auto simp: arrive_def split: option.splits)
qed

lemma serving_sessions:
  assumes "(serve cf)\<^sup>*\<^sup>* (sv0, []) (sv, ws)" "s \<in> restoring ws"
  shows "\<exists>sv1 ws1 now rq. (serve cf)\<^sup>*\<^sup>* (sv0, []) (sv1, ws1) \<and> snd (ownerSessionFrom now rq sv1) = Some s"
proof -
  have "s \<in> restoring (snd p) \<longrightarrow> (\<exists>sv1 ws1 now rq. (serve cf)\<^sup>*\<^sup>* (sv0, []) (sv1, ws1) \<and> snd (ownerSessionFrom now rq sv1) = Some s)"
    if "(serve cf)\<^sup>*\<^sup>* (sv0, []) p" for p
    using that
  proof (induction rule: rtranclp_induct)
    case (step p q)
    show ?case
    proof (cases "s \<in> restoring (snd p)")
      case False
      show ?thesis
      proof
        assume q: "s \<in> restoring (snd q)"
        from step.hyps(2) False q obtain now rq where "arrive cf now rq (fst p) = (fst q, Inr (AwaitRestore s))"
          by cases (auto simp: restoring_def)
        from restore_waits_accepted[OF this] step.hyps(1)
        show "\<exists>sv1 ws1 now rq. (serve cf)\<^sup>*\<^sup>* (sv0, []) (sv1, ws1) \<and> snd (ownerSessionFrom now rq sv1) = Some s"
          by (metis prod.collapse)
      qed
    qed (use step.IH in blast)
  qed (simp add: restoring_def)
  from this[OF assms(1)] assms(2) show ?thesis by simp
qed

end
