(* ===== verification/ServerSafety.thy ===== *)
theory ServerSafety
  imports ServerRun
begin

text \<open>
  What holds of a serving control plane (\<open>packages/control-plane/src/server.ts\<close>) whatever it is
  sent and however the handlers interleave: invariants of the moves, and through
  \<open>serving_keeps\<close> of every state reached from a start.
\<close>

section \<open>The start\<close>

definition fresh_plane :: "('f, 'd, 's) server \<Rightarrow> bool" where
  "fresh_plane sv \<longleftrightarrow>
     sv_windows sv = [] \<and> sv_deliveries sv = [] \<and> sv_granted sv = [] \<and> sv_minted sv = [] \<and> sv_windowToGrant sv = [] \<and>
     sv_committed sv = [] \<and> sv_approvals sv = [] \<and> sv_logins sv = [] \<and> sv_ceremonies sv = [] \<and> sv_restores sv = []"

section \<open>Grants\<close>

text \<open>Every grant is the one of its window, and names it; a committed grant's window is not vetoed.\<close>

definition names_window :: "string \<Rightarrow> string \<Rightarrow> bool" where
  "names_window jti i \<longleftrightarrow> (\<exists>h. length h = 16 \<and> jti = ''grant_'' @ i @ ''_'' @ h)"

definition grants_ok :: "('f, 'd, 's) server \<Rightarrow> bool" where
  "grants_ok sv \<longleftrightarrow>
     (\<forall>jti i. map_of (sv_minted sv) jti = Some i \<longleftrightarrow> map_of (sv_windowToGrant sv) i = Some jti) \<and>
     (\<forall>jti i. map_of (sv_minted sv) jti = Some i \<longrightarrow> i \<in> set (sv_granted sv) \<and> names_window jti i) \<and>
     (\<forall>jti \<in> set (sv_committed sv). \<exists>w. grant_window sv jti = Some w \<and> vw_status w \<noteq> Vetoed)"

lemma update_get: "map_of (AList.update k v m) x = (if x = k then Some v else map_of m x)"
  by (simp add: update_conv')

lemma grant_window_Some:
  "grant_window sv jti = Some w \<longleftrightarrow> (\<exists>i. map_of (sv_minted sv) jti = Some i \<and> map_of (sv_windows sv) i = Some w)"
  by (auto simp: grant_window_def bind_eq_Some_conv)

text \<open>The grants and the windows of a state decide it; a window that changes must not become vetoed while committed.\<close>

lemma grants_ok_cong:
  assumes "sv_minted b = sv_minted a" "sv_windowToGrant b = sv_windowToGrant a" "sv_granted b = sv_granted a"
    "sv_committed b = sv_committed a"
    and w: "\<And>i w. map_of (sv_windows a) i = Some w \<Longrightarrow> vw_status w \<noteq> Vetoed \<Longrightarrow> committed_window a i \<Longrightarrow>
      \<exists>w'. map_of (sv_windows b) i = Some w' \<and> vw_status w' \<noteq> Vetoed"
    and ok: "grants_ok a"
  shows "grants_ok b"
proof -
  have "\<exists>w. grant_window b jti = Some w \<and> vw_status w \<noteq> Vetoed" if jti: "jti \<in> set (sv_committed a)" for jti
  proof -
    from ok jti obtain v where "grant_window a jti = Some v" "vw_status v \<noteq> Vetoed" by (auto simp: grants_ok_def)
    then obtain i where i: "map_of (sv_minted a) jti = Some i" "map_of (sv_windows a) i = Some v" by (auto simp: grant_window_Some)
    from i(1) ok have "map_of (sv_windowToGrant a) i = Some jti" by (simp add: grants_ok_def)
    with jti have "committed_window a i" by (simp add: committed_window_def)
    from w[OF i(2) \<open>vw_status v \<noteq> Vetoed\<close> this] i(1) assms(1) show ?thesis by (auto simp: grant_window_Some)
  qed
  with ok assms(1-4) show ?thesis by (simp add: grants_ok_def)
qed

text \<open>Neither the clock nor a revocation vetoes a window.\<close>

lemma tick_not_vetoed: "vw_status w \<noteq> Vetoed \<Longrightarrow> vw_status (tick_window wit now w) \<noteq> Vetoed"
  by (auto simp: tick_window_def Let_def clear_delivery_def)

lemma map_of_values: "map_of (map (\<lambda>e. (fst e, f (snd e))) m) i = map_option f (map_of m i)"
  by (induction m) auto

lemma tick_all_get: "map_of (sv_windows (tick_all cf now sv)) i = map_option (tick_now cf now sv) (map_of (sv_windows sv) i)"
  by (simp add: tick_all_def map_of_values)

lemma evidence_get:
  "map_of (sv_windows (fst (sever_evidence cf now d sv))) i =
     map_option (\<lambda>w. fst (revokeDeliveryEvidence (Some (witnessStanding cf sv)) d now w)) (map_of (sv_windows sv) i)"
  using map_of_values[of "\<lambda>w. fst (revokeDeliveryEvidence (Some (witnessStanding cf sv)) d now w)"]
  by (simp add: sever_evidence_def Let_def comp_def)

lemma accept_keeps:
  "sv_minted (fst (accept_ack cf now dev i w x dl sv)) = sv_minted sv"
  "sv_windowToGrant (fst (accept_ack cf now dev i w x dl sv)) = sv_windowToGrant sv"
  "sv_granted (fst (accept_ack cf now dev i w x dl sv)) = sv_granted sv"
  "sv_committed (fst (accept_ack cf now dev i w x dl sv)) = sv_committed sv"
  "map_of (sv_windows (fst (accept_ack cf now dev i w x dl sv))) j =
     (if j = i then Some (markDelivered (Some dev) (Some (dl_deviceGeneration dl)) now w) else map_of (sv_windows sv) j)"
  by (simp_all add: accept_ack_def Let_def set_window_def update_get)

text \<open>What spends a challenge or a ceremony leaves alone.\<close>

lemma assert_approval_keeps:
  assumes "assert_approval cf now i args a sv = (sv1, res)"
  shows "sv_windows sv1 = sv_windows sv" "sv_minted sv1 = sv_minted sv" "sv_windowToGrant sv1 = sv_windowToGrant sv"
    "sv_granted sv1 = sv_granted sv" "sv_committed sv1 = sv_committed sv" "sv_switch sv1 = sv_switch sv"
    "sv_logins sv1 = sv_logins sv" "sv_ceremonies sv1 = sv_ceremonies sv" "sv_restores sv1 = sv_restores sv"
    "sv_deliveries sv1 = sv_deliveries sv" "sv_ownerDevices sv1 = sv_ownerDevices sv"
    "sv_approvals sv1 = sv_approvals sv \<or> sv_approvals sv1 = AList.delete i (sv_approvals sv)"
  using assms
  by (auto simp: assert_approval_def Let_def split: option.splits if_splits assertion_verdict.splits)

lemma assert_restore_keeps:
  assumes "assert_restore cf now i a sv = (sv1, res)"
  shows "sv_windows sv1 = sv_windows sv" "sv_minted sv1 = sv_minted sv" "sv_windowToGrant sv1 = sv_windowToGrant sv"
    "sv_granted sv1 = sv_granted sv" "sv_committed sv1 = sv_committed sv" "sv_switch sv1 = sv_switch sv"
    "sv_logins sv1 = sv_logins sv" "sv_ceremonies sv1 = sv_ceremonies sv" "sv_approvals sv1 = sv_approvals sv"
    "sv_deliveries sv1 = sv_deliveries sv" "sv_ownerDevices sv1 = sv_ownerDevices sv"
    "sv_restores sv1 = sv_restores sv \<or> sv_restores sv1 = AList.delete i (sv_restores sv)"
  using assms
  by (auto simp: assert_restore_def Let_def split: option.splits if_splits assertion_verdict.splits)

lemma spend_keeps:
  "sv_windows (fst (spend_ceremony cf now i r sv)) = sv_windows sv"
  "sv_minted (fst (spend_ceremony cf now i r sv)) = sv_minted sv"
  "sv_windowToGrant (fst (spend_ceremony cf now i r sv)) = sv_windowToGrant sv"
  "sv_granted (fst (spend_ceremony cf now i r sv)) = sv_granted sv"
  "sv_committed (fst (spend_ceremony cf now i r sv)) = sv_committed sv"
  "sv_logins (fst (spend_ceremony cf now i r sv)) = sv_logins sv"
  "sv_approvals (fst (spend_ceremony cf now i r sv)) = sv_approvals sv"
  "sv_restores (fst (spend_ceremony cf now i r sv)) = sv_restores sv"
  "sv_deliveries (fst (spend_ceremony cf now i r sv)) = sv_deliveries sv"
  "sv_ownerDevices (fst (spend_ceremony cf now i r sv)) = sv_ownerDevices sv"
  "sv_ceremonies (fst (spend_ceremony cf now i r sv)) =
     AList.update i (r\<lparr>cr_ceremony := fst (confirm now now (cr_ceremony r))\<rparr>) (sv_ceremonies sv)"
  by (simp_all add: spend_ceremony_def set_ceremony_def Let_def split: prod.split sum.split option.split)

lemma persist_same:
  "fst (persistStanding cf sv) = sv\<lparr>sv_standing := sv_standing (fst (persistStanding cf sv))\<rparr>"
  by (auto simp: persistStanding_def split: option.split prod.split save_outcome.split)

lemma hex_8: "length rnd = 8 \<Longrightarrow> length (hex_encode rnd) = 16"
  by (simp add: hex_encode_def length_concat comp_def sum_list_triv)

text \<open>A poll of the grant lane mints for a window that has no grant yet, or changes nothing.\<close>

definition mints :: "('f, 'd, 's) config \<Rightarrow> int \<Rightarrow> string \<Rightarrow> veto_window \<Rightarrow> ('f, 'd, 's) server \<Rightarrow> bool" where
  "mints cf now i w sv \<longleftrightarrow>
     vw_status w \<noteq> Vetoed \<and> vw_approvedBy w \<noteq> None \<and> i \<notin> set (sv_granted sv) \<and> \<not> killed_now sv \<and>
     (case vw_approvalEpoch w of None \<Rightarrow> -1 | Some e \<Rightarrow> e) = epoch_now sv \<and>
     now < (case vw_approvedAt w of None \<Rightarrow> now | Some t \<Rightarrow> t) + cf_grantTtlMs cf"

definition jti_of :: "string \<Rightarrow> byte_list \<Rightarrow> string" where
  "jti_of i rnd = ''grant_'' @ i @ ''_'' @ hex_encode rnd"

lemma poll_grant_state:
  "fst (poll_grant cf now rnd i dr args w sv) =
     (if mints cf now i w sv then
        sv\<lparr>sv_granted := i # sv_granted sv, sv_minted := AList.update (jti_of i rnd) i (sv_minted sv),
           sv_windowToGrant := AList.update i (jti_of i rnd) (sv_windowToGrant sv)\<rparr>
      else sv)"
  unfolding poll_grant_def mints_def jti_of_def Let_def mintGrant_def by (auto split: sum.split)

text \<open>The id of a grant ends in sixteen digits, so it names its window.\<close>

lemma jti_names_window: "names_window jti i \<Longrightarrow> names_window jti j \<Longrightarrow> i = j"
  by (auto simp: names_window_def)

lemma jti_of_names: "length rnd = 8 \<Longrightarrow> names_window (jti_of i rnd) i"
  using hex_8[of rnd] by (auto simp: names_window_def jti_of_def)

lemma grants_ok_mint:
  assumes ok: "grants_ok sv" and i: "i \<notin> set (sv_granted sv)" and j: "names_window j i"
  shows "grants_ok (sv\<lparr>sv_granted := i # sv_granted sv, sv_minted := AList.update j i (sv_minted sv),
     sv_windowToGrant := AList.update i j (sv_windowToGrant sv)\<rparr>)" (is "grants_ok ?sv")
proof -
  from ok have o1: "map_of (sv_minted sv) x = Some y \<longleftrightarrow> map_of (sv_windowToGrant sv) y = Some x" for x y by (simp add: grants_ok_def)
  from ok have o2: "map_of (sv_minted sv) x = Some y \<Longrightarrow> y \<in> set (sv_granted sv) \<and> names_window x y" for x y by (simp add: grants_ok_def)
  have un: "map_of (sv_windowToGrant sv) i \<noteq> Some x" for x using o1 o2 i by blast
  have new: "map_of (sv_minted sv) j \<noteq> Some x" for x using o2 i j jti_names_window by blast
  have "map_of (sv_minted ?sv) x = Some y \<longleftrightarrow> map_of (sv_windowToGrant ?sv) y = Some x" for x y
    using o1[of x y] un[of x] new[of y] by (auto simp: update_get)
  moreover have "map_of (sv_minted ?sv) x = Some y \<longrightarrow> y \<in> set (sv_granted ?sv) \<and> names_window x y" for x y
    using o2[of x y] j by (auto simp: update_get)
  moreover have "\<exists>w. grant_window ?sv x = Some w \<and> vw_status w \<noteq> Vetoed" if "x \<in> set (sv_committed sv)" for x
  proof -
    from ok that obtain w where "grant_window sv x = Some w" "vw_status w \<noteq> Vetoed" by (auto simp: grants_ok_def)
    moreover from new have "map_of (sv_minted sv) j = None" by (cases "map_of (sv_minted sv) j") auto
    ultimately have "x \<noteq> j" "grant_window sv x = Some w" "vw_status w \<noteq> Vetoed" by (auto simp: grant_window_Some)
    then show ?thesis by (auto simp: grant_window_Some update_get)
  qed
  ultimately show ?thesis by (simp add: grants_ok_def)
qed

lemma move_grants_ok:
  assumes ok: "grants_ok a" and m: "move cf now S a b"
  shows "grants_ok b"
  using m
proof (cases rule: move.cases)
  case m_auth
  then show ?thesis using ok same_but_authD[of a b] by (simp add: grants_ok_def grant_window_def)
next
  case (m_commit jti)
  then show ?thesis using ok by (auto simp: grants_ok_def grant_window_def may_commit_def split: option.splits)
next
  case (m_restore session i r x sv1)
  note keeps = assert_restore_keeps[OF m_restore(7)]
  show ?thesis unfolding m_restore(1) using ok by (simp add: grants_ok_def grant_window_def spend_keeps keeps)
next
  case (m_assert_restore i x)
  obtain sv1 res where "assert_restore cf now i x a = (sv1, res)" by fastforce
  with assert_restore_keeps[OF this] m_assert_restore ok show ?thesis by (simp add: grants_ok_def grant_window_def)
next
  case (m_assert_approval i args x)
  obtain sv1 res where "assert_approval cf now i args x a = (sv1, res)" by fastforce
  with assert_approval_keeps[OF this] m_assert_approval ok show ?thesis by (simp add: grants_ok_def grant_window_def)
next
  case (m_register call i purpose)
  show ?thesis unfolding m_register
    by (rule grants_ok_cong[OF _ _ _ _ _ ok]) (auto simp: set_window_def update_get new_window_def)
next
  case (m_tick i w)
  then show ?thesis
    by (intro grants_ok_cong[OF _ _ _ _ _ ok]) (auto simp: set_window_def update_get tick_now_def tick_not_vetoed)
next
  case m_tick_all
  show ?thesis unfolding m_tick_all
    by (rule grants_ok_cong[OF _ _ _ _ _ ok]) (simp_all add: tick_all_get, simp_all add: tick_all_def tick_now_def tick_not_vetoed)
next
  case (m_evidence d)
  show ?thesis unfolding m_evidence
    by (rule grants_ok_cong[OF _ _ _ _ _ ok])
       (simp_all add: evidence_get, simp_all add: sever_evidence_def Let_def tick_not_vetoed)
next
  case (m_grant rnd i w args dr)
  then show ?thesis using ok by (auto simp: poll_grant_state mints_def intro: grants_ok_mint jti_of_names)
next
  case (m_veto i w name w1)
  then show ?thesis by (intro grants_ok_cong[OF _ _ _ _ _ ok]) (auto simp: set_window_def update_get)
next
  case (m_approve i w args x sv1 ow w1)
  note keeps = assert_approval_keeps[OF m_approve(6)]
  from m_approve(7) have "vw_status w1 \<noteq> Vetoed" by (auto simp: approve_def split: if_splits)
  with m_approve show ?thesis
    by (intro grants_ok_cong[OF _ _ _ _ _ ok]) (auto simp: set_window_def update_get keeps)
next
  case (m_deliver i w x dl dev body)
  then show ?thesis
    by (intro grants_ok_cong[OF _ _ _ _ _ ok]) (auto simp: accept_keeps markDelivered_def window_open_def)
next
  case m_persist
  then show ?thesis using ok by (subst m_persist, subst persist_same) (simp add: grants_ok_def grant_window_def)
qed (use ok in \<open>simp_all add: grants_ok_def grant_window_def clear_challenges_def purge_ceremonies_def set_ceremony_def
  open_ceremony_def Let_def revoke_static_def\<close>)

section \<open>Challenges\<close>

text \<open>No challenge in a map is of another kill epoch: a kill clears them all.\<close>

definition challenges_current :: "('f, 'd, 's) server \<Rightarrow> bool" where
  "challenges_current sv \<longleftrightarrow>
     (\<forall>e \<in> set (sv_approvals sv). ac_killEpoch (snd e) = epoch_now sv) \<and>
     (\<forall>e \<in> set (sv_logins sv). lg_killEpoch (snd e) = epoch_now sv) \<and>
     (\<forall>e \<in> set (sv_restores sv). rc_killEpoch (snd e) = epoch_now sv)"

lemma in_update: "e \<in> set (AList.update k v m) \<Longrightarrow> e = (k, v) \<or> e \<in> set m"
  by (induction m) (auto split: if_splits)

lemma in_delete: "e \<in> set (AList.delete k m) \<Longrightarrow> e \<in> set m"
  by (auto simp: AList.delete_eq)

lemma spend_epoch: "epoch_now (fst (spend_ceremony cf now i r sv)) = epoch_now sv"
  by (auto simp: spend_ceremony_def set_ceremony_def Let_def restore_effect restoreAgent_effect split: prod.split sum.splits option.split)

lemma move_challenges_current:
  assumes ok: "challenges_current a" and m: "move cf now S a b"
  shows "challenges_current b"
  using m
proof (cases rule: move.cases)
  case m_auth
  then show ?thesis using ok same_but_authD[of a b] by (simp add: challenges_current_def)
next
  case (m_restore session i r x sv1)
  note keeps = assert_restore_keeps[OF m_restore(7)]
  have "challenges_current sv1" using ok keeps by (auto simp: challenges_current_def dest: in_delete)
  then show ?thesis unfolding m_restore(1) by (simp add: challenges_current_def spend_keeps spend_epoch)
next
  case (m_assert_restore i x)
  obtain sv1 res where "assert_restore cf now i x a = (sv1, res)" by fastforce
  with assert_restore_keeps[OF this] m_assert_restore ok show ?thesis by (auto simp: challenges_current_def dest: in_delete)
next
  case (m_assert_approval i args x)
  obtain sv1 res where "assert_approval cf now i args x a = (sv1, res)" by fastforce
  with assert_approval_keeps[OF this] m_assert_approval ok show ?thesis by (auto simp: challenges_current_def dest: in_delete)
next
  case (m_approve i w args x sv1 ow w1)
  note keeps = assert_approval_keeps[OF m_approve(6)]
  show ?thesis unfolding m_approve(1) using ok keeps by (auto simp: challenges_current_def set_window_def dest: in_delete)
next
  case m_persist
  then show ?thesis using ok by (subst m_persist, subst persist_same) (simp add: challenges_current_def)
next
  case (m_grant rnd i w args dr)
  then show ?thesis using ok by (auto simp: poll_grant_state challenges_current_def)
qed (use ok in \<open>auto simp: challenges_current_def clear_challenges_def purge_ceremonies_def set_ceremony_def
  open_ceremony_def Let_def revoke_static_def set_window_def tick_all_def sever_evidence_def accept_ack_def
  dest!: in_update in_delete\<close>)

section \<open>Ceremonies\<close>

definition scope_of :: "string \<times> ceremony_record \<Rightarrow> string \<times> string option" where
  "scope_of e = (ce_ownerId (cr_ceremony (snd e)), cr_agentId (snd e))"

text \<open>At most 256 ceremonies, with ids of their own, one for each owner and scope.\<close>

definition ceremonies_ok :: "('f, 'd, 's) server \<Rightarrow> bool" where
  "ceremonies_ok sv \<longleftrightarrow>
     length (sv_ceremonies sv) \<le> MAX_CEREMONY_RECORDS \<and> distinct (map_keys (sv_ceremonies sv)) \<and>
     distinct (map scope_of (sv_ceremonies sv))"

text \<open>A record updated in place keeps its owner and scope; a new one has its own.\<close>

lemma scopes_same:
  assumes "distinct (map_keys m)" "(i, r) \<in> set m" "scope_of (i, r1) = scope_of (i, r)"
  shows "map scope_of (AList.update i r1 m) = map scope_of m"
  using assms by (induction m) (auto simp: map_keys_def, (metis fst_conv image_eqI)+)

lemma scopes_new:
  assumes "distinct (map scope_of m)" "scope_of (i, r) \<notin> set (map scope_of m)"
  shows "distinct (map scope_of (AList.update i r m))"
proof -
  have sub: "set (map scope_of (AList.update i r m)) \<subseteq> insert (scope_of (i, r)) (set (map scope_of m))" for m
    using in_update[of _ i r m] by auto
  from assms show ?thesis
  proof (induction m)
    case (Cons e m)
    then show ?case using sub[of m] by (cases e) (auto simp: image_iff)
  qed simp
qed

lemma ceremonies_ok_same:
  assumes "ceremonies_ok sv" "(i, r) \<in> set (sv_ceremonies sv)" "scope_of (i, r1) = scope_of (i, r)"
    "sv_ceremonies sv' = AList.update i r1 (sv_ceremonies sv)"
  shows "ceremonies_ok sv'"
proof -
  from assms(2) have "i \<in> set (map_keys (sv_ceremonies sv))" by (force simp: map_keys_def)
  with assms scopes_same[of "sv_ceremonies sv" i r r1] show ?thesis
    by (simp add: ceremonies_ok_def distinct_keys_update length_update_present)
qed

lemma tick_scope: "scope_of (i, tick_record now r) = scope_of (i, r)"
  by (simp add: scope_of_def tick_record_def)

lemma confirm_owner: "ce_ownerId (fst (confirm now now' c)) = ce_ownerId c"
  by (simp add: confirm_def Let_def)

lemma move_ceremonies_ok:
  assumes ok: "ceremonies_ok a" and m: "move cf now S a b"
  shows "ceremonies_ok b"
  using m
proof (cases rule: move.cases)
  case m_auth
  then show ?thesis using ok same_but_authD[of a b] by (simp add: ceremonies_ok_def)
next
  case m_purge
  then show ?thesis using ok
    by (auto simp: purge_ceremonies_def ceremonies_ok_def map_keys_def distinct_map_filter intro: le_trans[OF length_filter_le])
next
  case (m_open scope ow uuid)
  let ?i = "''cer_'' @ uuid"
  let ?r = "tick_record now \<lparr>cr_ceremony = new_ceremony ?i ow None None now, cr_epoch = epoch_now a, cr_agentId = scope\<rparr>"
  have "scope_of (?i, ?r) = (ow, scope)" by (simp add: tick_scope) (simp add: scope_of_def new_ceremony_def)
  moreover have "(ow, scope) \<notin> set (map scope_of (sv_ceremonies a))"
    using m_open(3) unfolding find_None_iff by (force simp: own_ceremony_def scope_of_def)
  ultimately have "distinct (map scope_of (AList.update ?i ?r (sv_ceremonies a)))"
    using ok by (intro scopes_new) (simp_all add: ceremonies_ok_def)
  moreover have "length (AList.update ?i ?r (sv_ceremonies a)) \<le> MAX_CEREMONY_RECORDS"
    using ok m_open(4) length_update_present[of ?i "sv_ceremonies a" ?r] length_update_absent[of ?i "sv_ceremonies a" ?r]
    by (cases "?i \<in> set (map_keys (sv_ceremonies a))") (auto simp: ceremonies_ok_def)
  ultimately show ?thesis
    using ok m_open(1) by (simp add: ceremonies_ok_def open_ceremony_def Let_def set_ceremony_def distinct_keys_update)
next
  case (m_tick_ceremony i r)
  then show ?thesis by (intro ceremonies_ok_same[OF ok m_tick_ceremony(2) tick_scope]) (simp add: set_ceremony_def)
next
  case (m_restore session i r x sv1)
  note keeps = assert_restore_keeps[OF m_restore(7)]
  from m_restore(4) have "(i, r) \<in> set (sv_ceremonies a)"
    by (auto simp: ceremony_of_def split: option.splits if_splits intro: map_of_SomeD)
  then show ?thesis unfolding m_restore(1)
    by (rule ceremonies_ok_same[OF ok, where ?r1.0 = "r\<lparr>cr_ceremony := fst (confirm now now (cr_ceremony r))\<rparr>"])
       (simp_all add: scope_of_def confirm_owner spend_keeps keeps)
next
  case (m_assert_restore i x)
  obtain sv1 res where "assert_restore cf now i x a = (sv1, res)" by fastforce
  with assert_restore_keeps[OF this] m_assert_restore ok show ?thesis by (simp add: ceremonies_ok_def)
next
  case (m_assert_approval i args x)
  obtain sv1 res where "assert_approval cf now i args x a = (sv1, res)" by fastforce
  with assert_approval_keeps[OF this] m_assert_approval ok show ?thesis by (simp add: ceremonies_ok_def)
next
  case (m_approve i w args x sv1 ow w1)
  note keeps = assert_approval_keeps[OF m_approve(6)]
  show ?thesis unfolding m_approve(1) using ok keeps by (simp add: ceremonies_ok_def set_window_def)
next
  case m_persist
  then show ?thesis using ok by (subst m_persist, subst persist_same) (simp add: ceremonies_ok_def)
next
  case (m_grant rnd i w args dr)
  then show ?thesis using ok by (auto simp: poll_grant_state ceremonies_ok_def)
qed (use ok in \<open>simp_all add: ceremonies_ok_def clear_challenges_def
  Let_def revoke_static_def set_window_def tick_all_def sever_evidence_def accept_ack_def\<close>)

end
