(* ===== verification/ServerProps.thy ===== *)
theory ServerProps
  imports ServerSafety
begin

text \<open>
  What brings a change about in a serving control plane (\<open>packages/control-plane/src/server.ts\<close>):
  which move un-stops an agent, confirms a delivery, releases a window or approves it, and under
  what conditions.
\<close>

section \<open>Un-stopping\<close>

text \<open>
  GO 2/2 of this ceremony goes through now: the session owns the ceremony, which is ready and of the
  current kill epoch, and with a passkey enrolled an assertion over its live challenge verified.
\<close>

definition go2_completes ::
  "('f, 'd, 's) config \<Rightarrow> int \<Rightarrow> owner_session \<Rightarrow> string \<Rightarrow> ceremony_record \<Rightarrow> ('f, 'd, 's) server \<Rightarrow> bool" where
  "go2_completes cf now session i r sv \<longleftrightarrow>
     \<not> sw_quarantineFailed (sv_switch sv) \<and> ceremony_of sv session i = Some r \<and> cr_epoch r = epoch_now sv \<and>
     restorable sv (cr_agentId r) \<and> ce_status (tick now (cr_ceremony r)) = Ready \<and>
     (case cf_ownerPasskey cf of
        None \<Rightarrow> True
      | Some pk \<Rightarrow> \<exists>chal wa n. map_of (sv_restores sv) i = Some chal \<and> now < rc_expiresAt chal \<and>
          rc_killEpoch chal = epoch_now sv \<and> check_assertion cf pk (rc_challenge chal) wa sv = AssertionOk n)"

lemma asserted_restore:
  assumes "assert_restore cf now i a sv = (sv1, None)" "cf_ownerPasskey cf = Some pk"
  shows "\<exists>chal wa n. map_of (sv_restores sv) i = Some chal \<and> now < rc_expiresAt chal \<and>
     rc_killEpoch chal = epoch_now sv \<and> check_assertion cf pk (rc_challenge chal) wa sv = AssertionOk n"
  using assms by (auto simp: assert_restore_def Let_def not_le split: option.splits if_splits assertion_verdict.splits)

lemma spend_unstops:
  assumes "stopped (sv_switch sv) agent" "\<not> stopped (sv_switch (fst (spend_ceremony cf now i r sv))) agent"
  shows "ce_status (tick now (cr_ceremony r)) = Ready \<and> cr_agentId r \<in> {None, Some agent}"
proof -
  obtain c out where c: "confirm now now (cr_ceremony r) = (c, out)" by fastforce
  from assms obtain authz where out: "out = Inr authz"
    by (cases out) (auto simp: spend_ceremony_def c set_ceremony_def Let_def)
  then have "ce_status (tick now (cr_ceremony r)) = Ready" using c by (auto simp: confirm_def Let_def split: if_splits)
  moreover have "cr_agentId r \<in> {None, Some agent}"
  proof (cases "cr_agentId r")
    case (Some x)
    with assms out c have "x = agent"
      by (auto simp: spend_ceremony_def set_ceremony_def Let_def stopped_def agentKilled_def restoreAgent_effect
          agent_keys_simps split: sum.splits)
    with Some show ?thesis by simp
  qed simp
  ultimately show ?thesis by blast
qed

lemma move_unstops:
  assumes m: "move cf now S a b" and s: "stopped (sv_switch a) agent" "\<not> stopped (sv_switch b) agent"
  shows "\<exists>session i r. session \<in> S \<and> go2_completes cf now session i r a \<and> cr_agentId r \<in> {None, Some agent}"
  using m
proof (cases rule: move.cases)
  case m_auth
  then show ?thesis using s same_but_authD[of a b] by simp
next
  case (m_engage src reason un)
  then show ?thesis using s by (simp add: clear_challenges_def stopped_def)
next
  case (m_engageAgent x src reason un)
  have "stopped (fst (engageAgent (cf_switchStore cf) x src reason un (at_clock now) (sv_switch a))) agent"
    using stopped_step[OF s(1), of "cf_switchStore cf" "EngageAgent x src reason un (at_clock now)"]
    by (auto simp: switch_step_def)
  with m_engageAgent s show ?thesis by (simp add: clear_challenges_def)
next
  case (m_alert src reason un)
  then show ?thesis using s by (simp add: stopped_def agentKilled_def)
next
  case (m_restore session i r x sv1)
  note keeps = assert_restore_keeps[OF m_restore(7)]
  have "ce_status (tick now (cr_ceremony r)) = Ready \<and> cr_agentId r \<in> {None, Some agent}"
    using s m_restore(1) keeps by (intro spend_unstops[of sv1]) simp_all
  moreover from this m_restore asserted_restore[OF m_restore(7)] have "go2_completes cf now session i r a"
    by (auto simp: go2_completes_def split: option.split)
  ultimately show ?thesis using m_restore(2) by blast
next
  case (m_assert_restore i x)
  obtain sv1 res where "assert_restore cf now i x a = (sv1, res)" by fastforce
  with assert_restore_keeps[OF this] m_assert_restore s show ?thesis by simp
next
  case (m_assert_approval i args x)
  obtain sv1 res where "assert_approval cf now i args x a = (sv1, res)" by fastforce
  with assert_approval_keeps[OF this] m_assert_approval s show ?thesis by simp
next
  case (m_approve i w args x sv1 ow w1)
  with s assert_approval_keeps[OF m_approve(6)] show ?thesis by (simp add: set_window_def)
next
  case m_persist
  have "sv_switch b = sv_switch a" unfolding m_persist by (subst persist_same) simp
  with s show ?thesis by simp
next
  case (m_grant rnd i w args dr)
  then show ?thesis using s by (auto simp: poll_grant_state split: if_splits)
qed (use s in \<open>auto simp: purge_ceremonies_def set_ceremony_def open_ceremony_def Let_def
  revoke_static_def set_window_def tick_all_def sever_evidence_def accept_ack_def\<close>)

section \<open>What may change a window\<close>

text \<open>
  The acknowledgement of this delivery counts now: it is live, unspent and of this window at this
  revision, the device still stands at the generation it fetched under, the rendered content is the
  window's, and the owner has a minute left to answer.
\<close>

definition ack_counts :: "('f, 'd, 's) config \<Rightarrow> int \<Rightarrow> string \<Rightarrow> veto_window \<Rightarrow> delivery \<Rightarrow> ('f, 'd, 's) server \<Rightarrow> bool" where
  "ack_counts cf now i w dl sv \<longleftrightarrow>
     \<not> killed_now sv \<and> \<not> sv_quarantined sv \<and> window_open w \<and> now + MIN_VETO_RESPONSE_MS \<le> vw_deadline w \<and>
     \<not> dl_consumed dl \<and> now < dl_expiresAt dl \<and> dl_windowId dl = i \<and> dl_revision dl = vw_revision w \<and>
     dl_callHash dl = callHashOf cf w \<and>
     (\<exists>a. ackableContent w = Some a \<and> dl_renderHash dl = renderContentHashOf cf a) \<and>
     map_option ed_generation (resolveOwnerDevice cf sv (dl_deviceId dl)) = Some (dl_deviceGeneration dl)"

lemma ack_refusal_None:
  assumes "ack_refusal cf now device i w body dl sv = None" "window_open w" "\<not> sv_quarantined sv" "\<not> killed_now sv"
  shows "ack_counts cf now i w dl sv \<and> dl_deviceId dl = device"
  using assms
  by (auto simp: ack_refusal_def ack_counts_def Let_def not_le not_less split: if_splits option.splits)

text \<open>
  An approval counts now: the window is one merge and not vetoed, neither the switch nor its agent's
  stop is engaged, and with a passkey enrolled an assertion verified over the live challenge made for
  these call bytes in this kill epoch; without one the plane is a development one.
\<close>

definition approval_counts :: "('f, 'd, 's) config \<Rightarrow> int \<Rightarrow> string \<Rightarrow> veto_window \<Rightarrow> ('f, 'd, 's) server \<Rightarrow> bool" where
  "approval_counts cf now i w sv \<longleftrightarrow>
     vw_status w \<noteq> Vetoed \<and> \<not> stopped (sv_switch sv) (call_agentId (vw_call w)) \<and>
     (\<exists>args. grantEligibleArgs w = Some args \<and>
       (case cf_ownerPasskey cf of
          None \<Rightarrow> cf_dev cf
        | Some pk \<Rightarrow> \<exists>chal wa n. map_of (sv_approvals sv) i = Some chal \<and> now < ac_expiresAt chal \<and>
            ac_killEpoch chal = epoch_now sv \<and> ac_callHash chal = sha256Hex cf args \<and>
            check_assertion cf pk (ac_challenge chal) wa sv = AssertionOk n))"

lemma asserted_approval:
  assumes "assert_approval cf now i args a sv = (sv1, None)"
  shows "case cf_ownerPasskey cf of
      None \<Rightarrow> cf_dev cf
    | Some pk \<Rightarrow> \<exists>chal wa n. map_of (sv_approvals sv) i = Some chal \<and> now < ac_expiresAt chal \<and>
        ac_killEpoch chal = epoch_now sv \<and> ac_callHash chal = sha256Hex cf args \<and>
        check_assertion cf pk (ac_challenge chal) wa sv = AssertionOk n"
  using assms by (auto simp: assert_approval_def Let_def not_le split: option.splits if_splits assertion_verdict.splits)

text \<open>One window before and after a move.\<close>

inductive window_change ::
  "('f, 'd, 's) config \<Rightarrow> int \<Rightarrow> ('f, 'd, 's) server \<Rightarrow> string \<Rightarrow> veto_window option \<Rightarrow> veto_window option \<Rightarrow> bool"
  for cf now sv i where
  stays: "window_change cf now sv i v v"
| registered: "window_change cf now sv i v (Some (new_window call (epoch_now sv) None None purpose now))"
| ticked: "window_change cf now sv i (Some w) (Some (tick_window (Some (witnessStanding cf sv)) now w))"
| severed: "window_change cf now sv i (Some w) (Some (fst (revokeDeliveryEvidence (Some (witnessStanding cf sv)) d now w)))"
| vetoed: "\<not> committed_window sv i \<Longrightarrow> veto name w = Inr w1 \<Longrightarrow> window_change cf now sv i (Some w) (Some w1)"
| approved: "approval_counts cf now i w sv \<Longrightarrow> approve ownerId (epoch_now sv) now w = Inr w1 \<Longrightarrow>
     window_change cf now sv i (Some w) (Some w1)"
| delivered: "map_of (sv_deliveries sv) x = Some dl \<Longrightarrow> ack_counts cf now i w dl sv \<Longrightarrow>
     window_change cf now sv i (Some w)
       (Some (markDelivered (Some (dl_deviceId dl)) (Some (dl_deviceGeneration dl)) now w))"

lemma window_change_same: "v' = v \<Longrightarrow> window_change cf now sv i v v'"
  by (simp add: stays)

lemma window_change_one:
  assumes "map_of (sv_windows a) j = Some w" "window_change cf now a j (Some w) (Some w1)" "sv_windows sv = sv_windows a"
  shows "window_change cf now a i (map_of (sv_windows a) i) (map_of (sv_windows (set_window j w1 sv)) i)"
  using assms by (auto simp: set_window_def update_get stays)

lemma move_window:
  assumes m: "move cf now S a b"
  shows "window_change cf now a i (map_of (sv_windows a) i) (map_of (sv_windows b) i)"
  using m
proof (cases rule: move.cases)
  case m_auth
  then show ?thesis using same_but_authD[of a b] by (simp add: stays)
next
  case (m_deliver j w x dl dev body)
  from ack_refusal_None[OF m_deliver(7) m_deliver(3,4,5)] have "ack_counts cf now j w dl a" "dl_deviceId dl = dev" by auto
  with m_deliver show ?thesis by (auto simp: accept_keeps stays intro: delivered[of _ _ _ cf now j w])
next
  case (m_restore session j r x sv1)
  then show ?thesis using assert_restore_keeps[OF m_restore(7)] by (simp add: stays spend_keeps)
next
  case (m_assert_restore j x)
  obtain sv1 res where "assert_restore cf now j x a = (sv1, res)" by fastforce
  with assert_restore_keeps[OF this] m_assert_restore show ?thesis by (simp add: stays)
next
  case (m_assert_approval j args x)
  obtain sv1 res where "assert_approval cf now j args x a = (sv1, res)" by fastforce
  with assert_approval_keeps[OF this] m_assert_approval show ?thesis by (simp add: stays)
next
  case (m_approve j w args x sv1 ow w1)
  note keeps = assert_approval_keeps[OF m_approve(6)]
  have "vw_status w \<noteq> Vetoed" using m_approve(7) by (auto simp: approve_def split: if_splits)
  then have "approval_counts cf now j w a"
    using m_approve asserted_approval[OF m_approve(6)] by (auto simp: approval_counts_def stopped_def)
  then have "window_change cf now a j (Some w) (Some w1)" using m_approve(7) keeps by (intro approved) simp_all
  from window_change_one[OF m_approve(2) this] keeps m_approve(1) show ?thesis by simp
next
  case (m_veto j w name w1)
  show ?thesis unfolding m_veto(1) by (rule window_change_one[OF m_veto(2) vetoed[OF m_veto(3,4)] HOL.refl])
next
  case (m_register call j purpose)
  then show ?thesis by (auto simp: set_window_def update_get registered stays)
next
  case (m_tick j w)
  show ?thesis unfolding m_tick(1) tick_now_def by (rule window_change_one[OF m_tick(2) ticked HOL.refl])
next
  case m_tick_all
  then show ?thesis by (cases "map_of (sv_windows a) i") (simp_all add: tick_all_get tick_now_def stays ticked)
next
  case (m_evidence dev)
  then show ?thesis by (cases "map_of (sv_windows a) i") (simp_all add: evidence_get stays severed)
next
  case m_persist
  then show ?thesis by (subst m_persist, subst persist_same) (simp add: stays)
next
  case (m_grant rnd j w args dr)
  then show ?thesis by (simp add: poll_grant_state stays)
qed (simp_all add: stays clear_challenges_def purge_ceremonies_def set_ceremony_def open_ceremony_def Let_def revoke_static_def)

section \<open>Delivery, release and approval\<close>

definition window_is :: "(veto_window \<Rightarrow> bool) \<Rightarrow> ('f, 'd, 's) server \<Rightarrow> string \<Rightarrow> bool" where
  "window_is P sv i \<longleftrightarrow> (case map_of (sv_windows sv) i of None \<Rightarrow> False | Some w \<Rightarrow> P w)"

lemma window_is_Some: "window_is P sv i \<longleftrightarrow> (\<exists>w. map_of (sv_windows sv) i = Some w \<and> P w)"
  by (simp add: window_is_def split: option.split)

text \<open>A window that comes to satisfy \<open>P\<close> does so by one of these changes.\<close>

lemma move_gains:
  assumes "move cf now S a b" "\<not> window_is P a i" "window_is P b i"
  shows "\<exists>v w. map_of (sv_windows a) i = v \<and> window_change cf now a i v (Some w) \<and> P w \<and> (\<forall>u. v = Some u \<longrightarrow> \<not> P u)"
  using move_window[OF assms(1), of i] assms(2,3) by (auto simp: window_is_Some)

lemma tick_not_delivered: "vw_delivered (tick_window wit now w) \<Longrightarrow> vw_delivered w"
  using tick_keeps_evidence by blast

lemma revoke_not_delivered: "vw_delivered (fst (revokeDeliveryEvidence wit d now w)) \<Longrightarrow> vw_delivered w"
  by (auto simp: revokeDeliveryEvidence_def Let_def clear_delivery_def split: if_splits dest: tick_not_delivered)

lemma move_delivers:
  assumes "move cf now S a b" "\<not> window_is vw_delivered a i" "window_is vw_delivered b i"
  shows "\<exists>w dl x. map_of (sv_windows a) i = Some w \<and> map_of (sv_deliveries a) x = Some dl \<and> ack_counts cf now i w dl a"
proof -
  from move_gains[OF assms] obtain v w where v: "map_of (sv_windows a) i = v" and c: "window_change cf now a i v (Some w)"
    and w: "vw_delivered w" "\<forall>u. v = Some u \<longrightarrow> \<not> vw_delivered u" by blast
  from c w v show ?thesis
    by cases (auto simp: new_window_def veto_def approve_def split: if_splits dest: tick_not_delivered revoke_not_delivered)
qed

text \<open>Silence releases this window now: it is due, and the device that saw it stands.\<close>

definition silence_counts :: "('f, 'd, 's) config \<Rightarrow> int \<Rightarrow> veto_window \<Rightarrow> ('f, 'd, 's) server \<Rightarrow> bool" where
  "silence_counts cf now w sv \<longleftrightarrow>
     window_open w \<and> vw_delivered w \<and> vw_deadline w \<le> now \<and>
     witnessStanding cf sv (vw_deliveredBy w) (vw_deliveredByGeneration w)"

lemma tick_releases:
  assumes "vw_status w \<noteq> Released" "vw_status (tick_window (Some ok) now w) = Released"
  shows "window_open w \<and> vw_delivered w \<and> vw_deadline w \<le> now \<and> ok (vw_deliveredBy w) (vw_deliveredByGeneration w)"
  using released_step[of w "VTick (Some ok) now"] assms by (auto simp: releases_def witness_lost_def)

lemma move_releases:
  assumes "move cf now S a b" "\<not> window_is (\<lambda>w. vw_status w = Released) a i" "window_is (\<lambda>w. vw_status w = Released) b i"
  shows "\<exists>w. map_of (sv_windows a) i = Some w \<and> silence_counts cf now w a"
proof -
  from move_gains[OF assms] obtain v w where v: "map_of (sv_windows a) i = v" and c: "window_change cf now a i v (Some w)"
    and w: "vw_status w = Released" "\<forall>u. v = Some u \<longrightarrow> vw_status u \<noteq> Released" by blast
  from c w v show ?thesis
    by cases (auto simp: new_window_def veto_def approve_def markDelivered_def silence_counts_def split: if_splits
        dest: tick_releases)
qed

lemma tick_approved: "vw_approvedBy (tick_window wit now w) = vw_approvedBy w"
  by (auto simp: tick_window_def Let_def clear_delivery_def)

lemma revoke_approved: "vw_approvedBy (fst (revokeDeliveryEvidence wit d now w)) = vw_approvedBy w"
  by (auto simp: revokeDeliveryEvidence_def Let_def clear_delivery_def tick_approved)

lemma move_approves:
  assumes "move cf now S a b" "\<not> window_is (\<lambda>w. vw_approvedBy w \<noteq> None) a i" "window_is (\<lambda>w. vw_approvedBy w \<noteq> None) b i"
  shows "\<exists>w. map_of (sv_windows a) i = Some w \<and> approval_counts cf now i w a"
proof -
  from move_gains[OF assms] obtain v w where v: "map_of (sv_windows a) i = v" and c: "window_change cf now a i v (Some w)"
    and w: "vw_approvedBy w \<noteq> None" "\<forall>u. v = Some u \<longrightarrow> vw_approvedBy u = None" by blast
  from c w v show ?thesis
    by cases (auto simp: new_window_def veto_def markDelivered_def tick_approved revoke_approved split: if_splits)
qed

section \<open>Revoked keys-file devices\<close>

definition static_revoked :: "('f, 'd, 's) server \<Rightarrow> string \<Rightarrow> bool" where
  "static_revoked sv d \<longleftrightarrow> (case map_of (sv_ownerDevices sv) d of None \<Rightarrow> False | Some x \<Rightarrow> ed_revokedAt x \<noteq> None)"

lemma move_static_revoked:
  assumes ok: "static_revoked a d" and m: "move cf now S a b"
  shows "static_revoked b d"
  using m
proof (cases rule: move.cases)
  case m_auth
  then show ?thesis using ok same_but_authD[of a b] by (simp add: static_revoked_def)
next
  case (m_restore session i r x sv1)
  note keeps = assert_restore_keeps[OF m_restore(7)]
  show ?thesis unfolding m_restore(1) using ok by (simp add: static_revoked_def spend_keeps keeps)
next
  case (m_assert_restore i x)
  obtain sv1 res where "assert_restore cf now i x a = (sv1, res)" by fastforce
  with assert_restore_keeps[OF this] m_assert_restore ok show ?thesis by (simp add: static_revoked_def)
next
  case (m_assert_approval i args x)
  obtain sv1 res where "assert_approval cf now i args x a = (sv1, res)" by fastforce
  with assert_approval_keeps[OF this] m_assert_approval ok show ?thesis by (simp add: static_revoked_def)
next
  case (m_approve i w args x sv1 ow w1)
  note keeps = assert_approval_keeps[OF m_approve(6)]
  show ?thesis unfolding m_approve(1) using ok keeps by (simp add: static_revoked_def set_window_def)
next
  case m_persist
  then show ?thesis using ok by (subst m_persist, subst persist_same) (simp add: static_revoked_def)
next
  case (m_grant rnd i w args dr)
  then show ?thesis using ok by (auto simp: poll_grant_state static_revoked_def)
next
  case (m_revoke_static x device)
  then show ?thesis using ok by (auto simp: static_revoked_def revoke_static_def update_get)
qed (use ok in \<open>simp_all add: static_revoked_def clear_challenges_def purge_ceremonies_def set_ceremony_def
  open_ceremony_def Let_def set_window_def tick_all_def sever_evidence_def accept_ack_def\<close>)

end
