(* ===== verification/ServerDemo.thy ===== *)
theory ServerDemo
  imports ServerProps
begin

text \<open>
  Bodies that parse to what was printed, and a small control plane of
  \<open>packages/control-plane/src/server.ts\<close>, its owner and its requests, on which the guarantees are
  seen at work.
\<close>

section \<open>Bodies\<close>

lemma trim_braces: "\<not> is_js_space a \<Longrightarrow> \<not> is_js_space b \<Longrightarrow> js_trim (a # s @ [b]) = a # s @ [b]"
  by (simp add: js_trim_def)

lemma parse_own_body: "json_ok (JObj kvs) \<Longrightarrow> parseJsonBody (json_text (JObj kvs)) = Inr (JObj kvs)"
proof -
  assume ok: "json_ok (JObj kvs)"
  obtain s where s: "json_text (JObj kvs) = CHR ''{'' # s @ ''}''" by simp
  have "js_trim (json_text (JObj kvs)) = json_text (JObj kvs)"
    unfolding s by (rule trim_braces) (simp_all add: is_js_space_def code_unit_def)
  moreover have "json_text (JObj kvs) \<noteq> []" by (simp add: s)
  ultimately show ?thesis using json_parse_text[OF ok] by (simp add: parseJsonBody_def Let_def del: json_text.simps)
qed

section \<open>A small plane\<close>

definition plane_config :: "(unit, unit, unit) config" where
  "plane_config =
     \<lparr>cf_mac = demo_mac, cf_keys = demo_ops, cf_ed25519 = (\<lambda>_ _ _. None), cf_switchStore = None,
      cf_deviceStore = \<lparr>ds_load = (\<lambda>w. (w, DevicesAbsent)), ds_save = (\<lambda>w _. (w, SaveDurable))\<rparr>, cf_standingStore = None, cf_deviceSecret = None,
      cf_grantKey = Some ''k'', cf_grantTtlMs = 120000, cf_killStateKey = Some ''k'', cf_ownerPasskey = None,
      cf_licensing = None, cf_enrollment = None, cf_dev = True\<rparr>"

definition demo_plane :: "(unit, unit, unit) server" where
  "demo_plane =
     \<lparr>sv_switch = unarmed (), sv_windows = [], sv_seenNonces = [],
      sv_sessions = [(''t'', \<lparr>os_token = ''t'', os_ownerId = ''o'', os_expiresAt = 1000000\<rparr>)], sv_ownerDevices = [], sv_enrolled = None,
      sv_standing = (), sv_quarantined = False, sv_unenrolled = [], sv_deliveries = [], sv_granted = [], sv_minted = [],
      sv_windowToGrant = [], sv_committed = [], sv_approvals = [], sv_signCount = 0, sv_logins = [], sv_ceremonies = [],
      sv_restores = []\<rparr>"

definition demo_request :: "string \<Rightarrow> string \<Rightarrow> request" where
  "demo_request meth path =
     \<lparr>rq_method = meth, rq_url = path, rq_target = Some (path, []),
      rq_header = (\<lambda>k. if k = ''authorization'' then Some ''Bearer t'' else None), rq_remote = Some ''127.0.0.1''\<rparr>"

definition demo_session :: owner_session where
  "demo_session = \<lparr>os_token = ''t'', os_ownerId = ''o'', os_expiresAt = 1000000\<rparr>"

lemma demo_bearer: "bearerToken (demo_request m p) = Some ''t''"
  by (simp add: bearerToken_def demo_request_def header_text_def Let_def lower_char_def code_unit_def line_terminator_def char_of_def bit_iff_odd)

lemma demo_route:
  "route ''POST'' ''/restore'' = Some ToRestore" "route ''POST'' ''/veto/w'' = Some (ToVeto ''w'')"
  "route ''GET'' ''/veto/w'' = Some (ToGetVeto ''w'')" "route ''POST'' ''/restore/ceremony'' = Some ToCeremonyStart"
  by (simp_all add: route_def route_post_def route_get_def captured_def decodeURIComponent_def utf8_unit_def code_unit_def char_of_def bit_iff_odd)

lemma demo_owner:
  "sv_sessions sv = sv_sessions demo_plane \<Longrightarrow> now < 1000000 \<Longrightarrow> ownerSessionFrom now (demo_request m p) sv = (sv, Some demo_session)"
  by (simp add: ownerSessionFrom_def demo_bearer verifyOwnerSession_def demo_plane_def demo_session_def)

text \<open>A request with one handler and its body.\<close>

lemma serve_one:
  "arrive cf now rq sv = (sv1, Inr w) \<Longrightarrow> (serve cf)\<^sup>*\<^sup>* (sv, []) (sv1, [w])"
  by (rule r_into_rtranclp) (rule serve.waiting)

lemma serve_body:
  "draws rn \<Longrightarrow> body_ready cf now rn raw w sv = (sv', reply) \<Longrightarrow> serve cf (sv, [w]) (sv', [])"
  using serve.body[of rn cf now raw w sv sv' reply "[]" "[]"] by simp

definition demo_random :: randomness where
  "demo_random = \<lparr>rn_bytes = (\<lambda>n. replicate n 0), rn_uuid = ''u'', rn_fresh = (\<lambda>_. ''dev_x'')\<rparr>"

lemma demo_draws: "draws demo_random"
  by (simp add: draws_def demo_random_def)

lemma parse_empty: "parseJsonBody [] = Inr (JObj [])"
  by (simp add: parseJsonBody_def js_trim_def Let_def)

lemma plain_json_keys:
  "\<not> array_index_key ''decision''" "\<not> array_index_key ''ceremonyId''" "\<not> array_index_key ''assertion''"
  "\<not> array_index_key ''credentialId''" "\<not> array_index_key ''clientDataJSON''" "\<not> array_index_key ''authenticatorData''"
  "\<not> array_index_key ''signature''" "\<not> array_index_key ''type''" "\<not> array_index_key ''challenge''" "\<not> array_index_key ''origin''"
  "\<not> array_index_key ''deliveryId''" "\<not> array_index_key ''revision''" "\<not> array_index_key ''renderContentHash''"
  by (simp_all add: array_index_key_def is_digit_def code_unit_def)

section \<open>Its passkey\<close>

definition demo_passkey :: server_passkey where
  "demo_passkey = \<lparr>sk_key = \<lparr>pk_credentialId = ''p'', pk_publicKeyPem = ''P''\<rparr>, sk_rpId = ''x'', sk_origin = ''y''\<rparr>"

definition demo_client_data :: json where
  "demo_client_data = JObj [(''type'', JStr ''webauthn.get''), (''challenge'', JStr ''ch''), (''origin'', JStr ''y'')]"

definition demo_assertion :: assertion where
  "demo_assertion = \<lparr>wa_credentialId = ''p'', wa_clientDataJSON = b64url_encode (utf8 (json_text demo_client_data)),
     wa_authenticatorData = b64url_encode (replicate 32 7 @ [5, 0, 0, 0, 1]), wa_signature = b64url_encode [1]\<rparr>"

definition assertion_json :: "assertion \<Rightarrow> json" where
  "assertion_json a = JObj [(''credentialId'', JStr (wa_credentialId a)), (''clientDataJSON'', JStr (wa_clientDataJSON a)),
     (''authenticatorData'', JStr (wa_authenticatorData a)), (''signature'', JStr (wa_signature a))]"

lemma sextets_length: "length (b64_sextets bs) \<le> 2 * length bs"
  by (induction bs rule: b64_sextets.induct) simp_all

lemma b64url_length: "length (b64url_encode bs) \<le> 2 * length bs"
  using sextets_length[of bs] by (simp add: b64url_encode_def)

lemma utf8_length: "length (utf8 s) \<le> 2 * length s"
  by (induction s) (auto simp: utf8_def utf8_unit_def Let_def)

lemma b64url_nonempty: "bs \<noteq> [] \<Longrightarrow> b64url_encode bs \<noteq> []"
  by (induction bs rule: b64_sextets.induct) (simp_all add: b64url_encode_def)

lemma demo_client_length: "length (json_text demo_client_data) \<le> 200" "json_text demo_client_data \<noteq> []"
  by (simp_all add: demo_client_data_def json_string_text_def quoted_def escape_char_def code_unit_def)

lemma demo_assertion_from: "assertionFrom (Some (assertion_json demo_assertion)) = Some demo_assertion"
proof -
  let ?t = "utf8 (json_text demo_client_data)"
  have "?t \<noteq> []" using demo_client_length(2) utf8_inj[of "json_text demo_client_data" "[]"] by (auto simp: utf8_def)
  then have "b64url_encode ?t \<noteq> []" by (rule b64url_nonempty)
  moreover have "length (b64url_encode ?t) \<le> 8 * 1024"
    using b64url_length[of ?t] utf8_length[of "json_text demo_client_data"] demo_client_length(1) by simp
  moreover have "b64url_encode (replicate 32 7 @ [5, 0, 0, 0, 1]) \<noteq> []" "b64url_encode [1] \<noteq> []"
    by (rule b64url_nonempty, simp)+
  moreover have "length (b64url_encode (replicate 32 7 @ [5, 0, 0, 0, 1])) \<le> 8 * 1024"
    using b64url_length[of "replicate 32 7 @ [5, 0, 0, 0, 1]"] by simp
  moreover have "length (b64url_encode [1]) \<le> 4 * 1024" using b64url_length[of "[1]"] by simp
  ultimately show ?thesis by (simp add: assertionFrom_def assertion_json_def demo_assertion_def)
qed

lemma demo_assertion_ok:
  assumes "cf_keys cf = demo_ops" "sv_signCount sv = 0"
  shows "check_assertion cf demo_passkey ''ch'' demo_assertion sv = AssertionOk 1"
proof -
  let ?ad = "replicate 32 7 @ [5, 0, 0, 0, 1]"
  let ?ao = "\<lparr>ao_passkey = sk_key demo_passkey, ao_rpId = sk_rpId demo_passkey, ao_expectedChallenge = ''ch'',
    ao_expectedOrigin = sk_origin demo_passkey, ao_lastSignCount = 0\<rparr>"
  have "json_ok demo_client_data" by (simp add: demo_client_data_def map_keys_def object_order_plain plain_json_keys)
  then have "json_parse (json_text demo_client_data) = Some demo_client_data" by (rule json_parse_text)
  moreover have "CHR 0x5C \<notin> set (json_text demo_client_data)"
    by (simp add: demo_client_data_def json_string_text_def quoted_def escape_char_def code_unit_def)
  ultimately have d: "client_json (utf8 (json_text demo_client_data)) = Some demo_client_data"
    by (simp add: client_json_plain)
  have c: "canonicalB64url (b64url_encode (utf8 (json_text demo_client_data))) = Some (utf8 (json_text demo_client_data))"
    "canonicalB64url (b64url_encode ?ad) = Some ?ad" "canonicalB64url (b64url_encode [1]) = Some [1]"
    by (rule canonical_encode[OF utf8_bytes], (rule canonical_encode, simp add: is_bytes_def list_all_iff)+)
  have n: "read_be32 (drop 33 ?ad) = 1" by simp
  have "get_client_data_refusal ?ao demo_client_data = None"
    by (simp add: get_client_data_refusal_def demo_client_data_def demo_passkey_def)
  moreover have "auth_data_refusal demo_ops ?ao ?ad = None"
    by (simp add: auth_data_refusal_def n Let_def demo_ops_def has_flag_def FLAG_UP_def FLAG_UV_def nth_append)
  moreover have "ko_verify demo_ops x y z = Some True" for x y z by (simp add: demo_ops_def)
  moreover have "demo_client_data \<noteq> JNull" by (simp add: demo_client_data_def)
  ultimately show ?thesis
    using assms n
    by (simp add: check_assertion_def verifyOwnerAssertion_def demo_assertion_def demo_passkey_def c d del: One_nat_def)
qed

section \<open>A held merge\<close>

definition demo_merge_call :: tool_call where
  "demo_merge_call = \<lparr>call_agentId = ''a'', call_tool = ''t'', call_args = Some (merge_args_json demo_args), call_timestamp = None\<rparr>"

definition demo_merge_window :: veto_window where
  "demo_merge_window = new_window demo_merge_call 0 None None
     (Some \<lparr>vp_connector = GITHUB_CONNECTOR, vp_operation = MERGE_PULL_REQUEST, vp_policyVersion = []\<rparr>) 0"

lemma demo_eligible: "grantEligibleArgs demo_merge_window = Some (canonicalJson (merge_args_json demo_args))"
  using merge_args_roundtrip[OF demo_args_ok]
  by (simp add: grantEligibleArgs_def demo_merge_window_def new_window_def merge_purpose_def call_bytes_def demo_merge_call_def)

end
