(* ===== verification/ServerExchange.thy ===== *)
theory ServerExchange
  imports ServerDemo
begin

text \<open>
  The control plane (\<open>packages/control-plane/src/server.ts\<close>) together with those who read its
  answers: the gateway's status client, the broker's signed reader and its check of a grant, and the
  caller of a stop.
\<close>

section \<open>The commit of a grant\<close>

lemma commit_grant_state:
  "commit_grant jti sv = (if may_commit sv jti then sv\<lparr>sv_committed := List.insert jti (sv_committed sv)\<rparr> else sv, may_commit sv jti)"
  by (simp add: commit_grant_def)

lemma commit_request_json:
  "json_ok (JObj (signed_json mac key (commit_fields jti nonce (NInt t)))) \<longleftrightarrow> num_ok (NInt t)"
  by (simp add: signed_json_def commit_fields_def map_keys_def object_order_plain array_index_key_def is_digit_def code_unit_def)

lemma commit_request_read:
  assumes "jti \<noteq> []" "length jti \<le> 256" "nonce \<noteq> []" "length nonce \<le> 128" "sg \<noteq> []"
  shows "commit_request (JObj (commit_fields jti nonce (NInt t) @ [(''sig'', JStr sg)])) = Some (jti, nonce, NInt t, sg)"
  using assms by (simp add: commit_request_def commit_fields_def finite_number_def)

text \<open>What the broker sends for a commit, and what it makes of the answer.\<close>

definition commit_text :: "mac \<Rightarrow> string \<Rightarrow> string \<Rightarrow> string \<Rightarrow> int \<Rightarrow> string" where
  "commit_text mac key jti nonce sent =
     (case kill_request_of mac key (CommitProbe jti) nonce sent of
        CommitRequest body \<Rightarrow> json_text body
      | ReadRequest _ _ \<Rightarrow> [])"

definition reply_body :: "reply \<Rightarrow> json option" where
  "reply_body r = (case r of Reply status b \<Rightarrow> if status = 200 then Some b else None | _ \<Rightarrow> None)"

lemma postGrantCommit_own:
  assumes key: "cf_killStateKey cf = Some key" "key \<noteq> []" and mac: "mac_ok (cf_mac cf)"
    and jti: "jti \<noteq> []" "length jti \<le> 256" and nonce: "nonce \<noteq> []" "length nonce \<le> 128"
    and sent: "is_safe_int sent" "\<bar>now - sent\<bar> \<le> 30000"
  shows "postGrantCommit cf now (commit_text (cf_mac cf) key jti nonce sent) sv =
     (fst (commit_grant jti sv), Reply 200 (JObj (signed_state cf key
        (state_envelope now nonce (GrantCommitted jti (may_commit sv jti)) sv))))"
proof -
  let ?m = "kill_state_mac (cf_mac cf) key (JObj (commit_fields jti nonce (NInt sent)))"
  have len: "length ?m = 32" and bytes: "list_all (\<lambda>b. b < 256) ?m"
    using mac by (simp_all add: mac_ok_def kill_state_mac_def)
  have body: "signed_json (cf_mac cf) key (commit_fields jti nonce (NInt sent)) =
      commit_fields jti nonce (NInt sent) @ [(''sig'', JStr (hex_encode ?m))]" by (simp add: signed_json_def)
  have "hex_encode ?m \<noteq> []" using len by auto
  note read = commit_request_read[OF jti nonce this, of sent]
  have "json_ok (JObj (signed_json (cf_mac cf) key (commit_fields jti nonce (NInt sent))))"
    using sent(1) by (simp only: commit_request_json num_ok.simps)
  from parse_own_body[OF this]
  have parsed: "parseJsonBody (commit_text (cf_mac cf) key jti nonce sent) =
      Inr (JObj (commit_fields jti nonce (NInt sent) @ [(''sig'', JStr (hex_encode ?m))]))"
    by (simp add: commit_text_def body del: json_text.simps)
  have same: "state_envelope now nonce c (fst (commit_grant jti sv)) = state_envelope now nonce c sv" for c
    by (simp add: state_envelope_def commit_grant_state)
  show ?thesis
    using key sent(2)
    by (simp add: postGrantCommit_def given_key_def parsed read hex_decode_encode[OF bytes] COMMIT_REQUEST_SKEW_MS_def
        prod.case_eq_if same) (simp add: commit_grant_state)
qed

lemma envelope_is_ok: "0 \<le> epoch_now sv \<Longrightarrow> is_safe_int (epoch_now sv) \<Longrightarrow> envelope_ok (state_envelope now nonce c sv)"
  by (simp add: envelope_ok_def state_envelope_def)

text \<open>The fields that say how durable the state is are not among the signed ones.\<close>

lemma degraded_keys: "set (map_keys (degradedFields sv)) \<subseteq> {''persistenceDegraded'', ''unhealthy''}"
  by (auto simp: degradedFields_def map_keys_def)

lemma degraded_get:
  "map_of (degradedFields sv) k = None" if "k \<noteq> ''persistenceDegraded''" "k \<noteq> ''unhealthy''"
  using that by (auto simp: degradedFields_def)

text \<open>
  The broker's commit of a grant, from its request to its reading of the answer: signed with
  the shared key and answered while fresh, the broker reads exactly what the control plane decided,
  the commit of this grant in the state it was in, with that state's kill flag and epoch; and it
  reads it committed exactly when the control plane now holds it as committed and may dispatch it.
\<close>

theorem grant_commit_exchange:
  assumes "cf_killStateKey cf = Some key" "key \<noteq> []" "mac_ok (cf_mac cf)" "jti \<noteq> []" "length jti \<le> 256" "nonce \<noteq> []"
    "length nonce \<le> 128" "is_safe_int sent" "\<bar>now - sent\<bar> \<le> 30000" "0 \<le> epoch_now sv" "is_safe_int (epoch_now sv)"
    "read < now + 5000"
  shows "let (sv', reply) = postGrantCommit cf now (commit_text (cf_mac cf) key jti nonce sent) sv in
    signedLiveKillState (cf_mac cf) key (CommitProbe jti) nonce (reply_body reply) read =
      (plain_live (killed_now sv) (epoch_now sv))\<lparr>lk_committed := Some (may_commit sv jti)\<rparr> \<and>
    set (sv_committed sv') = set (sv_committed sv) \<union> (if may_commit sv jti then {jti} else {})"
proof -
  let ?e = "state_envelope now nonce (GrantCommitted jti (may_commit sv jti)) sv"
  have "before_num read (ev_expiresAt ?e)" using assms(12) by (simp add: state_envelope_def KILL_STATE_TTL_MS_def)
  with signed_answer_roundtrip[OF assms(3) envelope_is_ok[OF assms(10,11)], where p = "CommitProbe jti" and extra = "[]" and now = read
      and key = key and now1 = now and nonce1 = nonce and c1 = "GrantCommitted jti (may_commit sv jti)"]
  have "signedLiveKillState (cf_mac cf) key (CommitProbe jti) nonce (Some (JObj (signed_state cf key ?e))) read = live_of_envelope ?e"
    by (simp add: signed_state_def map_keys_def state_envelope_def)
  then show ?thesis
    unfolding postGrantCommit_own[OF assms(1-9)]
    by (simp add: reply_body_def commit_grant_state live_of_envelope_def state_envelope_def)
qed

section \<open>The status route\<close>

definition last_reason :: "('f, 'd, 's) server \<Rightarrow> string option" where
  "last_reason sv = Option.bind (sw_lastKill (sv_switch sv)) ke_reason"

definition status_json :: "('f, 'd, 's) server \<Rightarrow> (string \<times> json) list" where
  "status_json sv =
     (''killed'', JBool (killed_now sv)) # (if killed_now sv then last_kill_fields (sw_lastKill (sv_switch sv)) else []) @
     [(''epoch'', JNum (NInt (epoch_now sv))), (''killedAgents'', agents_json (killedAgents (sv_switch sv)))] @ degradedFields sv"

lemma getStatus_json: "getStatus sv = Reply 200 (JObj (status_json sv))"
  by (simp add: getStatus_def status_json_def)

text \<open>The state a plane serves: valid agents within the cap, numbers that print exactly.\<close>

definition servable :: "('f, 'd, 's) server \<Rightarrow> bool" where
  "servable sv \<longleftrightarrow>
     0 \<le> epoch_now sv \<and> is_safe_int (epoch_now sv) \<and> agents_ok (sw_agentKills (sv_switch sv)) \<and>
     (case sw_lastKill (sv_switch sv) of None \<Rightarrow> True | Some e \<Rightarrow> num_ok (ke_at e))"

lemma status_names:
  "\<not> array_index_key ''killed''" "\<not> array_index_key ''reason''" "\<not> array_index_key ''at''" "\<not> array_index_key ''epoch''"
  "\<not> array_index_key ''killedAgents''" "\<not> array_index_key ''persistenceDegraded''" "\<not> array_index_key ''unhealthy''"
  by (simp_all add: array_index_key_def is_digit_def code_unit_def)

lemma status_json_ok:
  assumes "servable sv"
  shows "json_ok (JObj (status_json sv))"
proof -
  have "list_all json_ok (map JStr xs)" for xs by (induction xs) simp_all
  with assms show ?thesis
    by (auto simp: servable_def status_json_def last_kill_fields_def optional_field_def agents_json_def degradedFields_def
        map_keys_def status_names split: option.split intro!: object_order_plain)
qed

lemma last_kill_get:
  "k \<noteq> ''reason'' \<Longrightarrow> k \<noteq> ''at'' \<Longrightarrow> map_of (last_kill_fields x) k = None"
  "map_of (last_kill_fields x) ''reason'' = map_option JStr (Option.bind x ke_reason)"
  by (auto simp: last_kill_fields_def optional_field_def split: option.split)

lemma degraded_marks:
  "map_of (degradedFields sv) ''persistenceDegraded'' = None \<longleftrightarrow> \<not> persistenceDegraded (sv_switch sv)"
  "map_of (degradedFields sv) ''unhealthy'' = None \<longleftrightarrow> \<not> sw_quarantineFailed (sv_switch sv)"
  by (simp_all add: degradedFields_def)

lemma status_json_fields:
  "own_field ''killed'' (JObj (status_json sv)) = Some (JBool (killed_now sv))"
  "own_field ''epoch'' (JObj (status_json sv)) = Some (JNum (NInt (epoch_now sv)))"
  "own_field ''killedAgents'' (JObj (status_json sv)) = Some (agents_json (killedAgents (sv_switch sv)))"
  "own_field ''reason'' (JObj (status_json sv)) = (if killed_now sv then map_option JStr (last_reason sv) else None)"
  "own_field ''persistenceDegraded'' (JObj (status_json sv)) = None \<longleftrightarrow> \<not> persistenceDegraded (sv_switch sv)"
  "own_field ''unhealthy'' (JObj (status_json sv)) = None \<longleftrightarrow> \<not> sw_quarantineFailed (sv_switch sv)"
  by (simp_all add: status_json_def map_add_def degraded_get last_kill_get degraded_marks last_reason_def split: option.split)

lemma status_json_read:
  assumes "servable sv"
  shows "status_of_body (JObj (status_json sv)) =
    \<lparr>ks_killed = killed_now sv, ks_reason = (if killed_now sv then last_reason sv else None),
     ks_killedAgents = killedAgents (sv_switch sv),
     ks_durable = Some (\<not> persistenceDegraded (sv_switch sv) \<and> \<not> sw_quarantineFailed (sv_switch sv)),
     ks_epoch = Some (epoch_now sv)\<rparr>"
proof -
  have "parseKilledAgents (Some (agents_json (killedAgents (sv_switch sv)))) = Some (killedAgents (sv_switch sv))"
    using assms unfolding parseKilledAgents_Some
    by (auto simp: agents_json_def servable_def agents_ok_def killedAgents_def map_keys_def list_all_iff)
  with assms show ?thesis
    unfolding status_of_body_def status_json_fields
    by (simp add: servable_def Let_def split: option.split del: own_field.simps)
qed

text \<open>
  What the control plane serves at /status the gateway reads back: killed or not, why when killed,
  the stopped agents, the kill epoch, and that the state is durable exactly when neither the
  persistence is degraded nor a quarantine failed.
\<close>

theorem status_is_read_back:
  assumes "servable sv" "length (json_text (JObj (status_json sv))) \<le> MAX_STATUS_BODY_UNITS"
  shows "getStatus sv = Reply 200 (JObj (status_json sv)) \<and>
    fetchKillState (Answer True (json_text (JObj (status_json sv)))) =
      \<lparr>ks_killed = killed_now sv, ks_reason = (if killed_now sv then last_reason sv else None),
       ks_killedAgents = killedAgents (sv_switch sv),
       ks_durable = Some (\<not> persistenceDegraded (sv_switch sv) \<and> \<not> sw_quarantineFailed (sv_switch sv)),
       ks_epoch = Some (epoch_now sv)\<rparr>"
  using assms json_parse_text[OF status_json_ok[OF assms(1)]] status_json_read[OF assms(1)]
  by (simp add: getStatus_json del: json_text.simps)

section \<open>A grant\<close>

lemma grant_for_fields:
  "mg_jti (grant_for cf jti w args ep ex) = jti" "mg_canonicalArgs (grant_for cf jti w args ep ex) = args"
  "mg_callHash (grant_for cf jti w args ep ex) = sha256Hex cf args" "mg_killEpoch (grant_for cf jti w args ep ex) = ep"
  "mg_agentId (grant_for cf jti w args ep ex) = call_agentId (vw_call w)" "mg_expiresAt (grant_for cf jti w args ep ex) = NInt ex"
  "vw_purpose w = Some p \<Longrightarrow> mg_connector (grant_for cf jti w args ep ex) = vp_connector p"
  "vw_purpose w = Some p \<Longrightarrow> mg_operation (grant_for cf jti w args ep ex) = vp_operation p"
  by (simp_all add: grant_for_def Let_def)

text \<open>
  What a poll of an approved merge hands out the broker accepts: while nothing stops it, the
  first poll within the grant's life answers a grant that verifies under the shared key until it
  expires; it is for the bytes of the window's call, under the epoch of the approval, which is the
  current one, and the control plane remembers its id as this window's.
\<close>

theorem polled_grant_verifies:
  assumes "cf_grantKey cf = Some key" "key \<noteq> []" "mac_ok (cf_mac cf)" "grantEligibleArgs w = Some args"
    "mints cf now i w sv" "vw_approvedAt w = Some t" "vw_approvalEpoch w = Some (epoch_now sv)" "is_safe_int (epoch_now sv)"
    "read < t + cf_grantTtlMs cf"
  shows "\<exists>sv' grant g. poll_grant cf now rnd i deviceRead args w sv = (sv', status_reply ''released'' [(''grant'', grant)]) \<and>
    verifyMergeGrant (cf_mac cf) (sha256Hex cf) grant key read = Inr g \<and> mg_canonicalArgs g = args \<and>
    mg_agentId g = call_agentId (vw_call w) \<and> mg_killEpoch g = epoch_now sv \<and> map_of (sv_minted sv') (mg_jti g) = Some i"
proof -
  let ?g = "grant_for cf (jti_of i rnd) w args (epoch_now sv) (t + cf_grantTtlMs cf)"
  obtain p where "vw_purpose w = Some p" "merge_purpose (vp_connector p) (vp_operation p)"
    using assms(4) by (auto simp: grantEligibleArgs_def split: option.splits if_splits)
  then have "grant_fields_ok ?g"
    using assms(8)
    by (simp add: grant_fields_ok_def grant_for_fields merge_purpose_def GITHUB_CONNECTOR_def MERGE_PULL_REQUEST_def)
  then obtain s where s: "signMergeGrant (cf_mac cf) ?g key = Inr s" "verifyMergeGrant (cf_mac cf) (sha256Hex cf) s key read = Inr ?g"
    using signed_grant_verifies[OF assms(3,2), of ?g "sha256Hex cf" read] assms(9) by (auto simp: grant_for_fields)
  have "poll_grant cf now rnd i deviceRead args w sv =
      (fst (poll_grant cf now rnd i deviceRead args w sv), status_reply ''released'' [(''grant'', s)])"
    using assms(1,5,6,7) s(1) by (auto simp: poll_grant_def mints_def mintGrant_def Let_def jti_of_def)
  moreover have "map_of (sv_minted (fst (poll_grant cf now rnd i deviceRead args w sv))) (jti_of i rnd) = Some i"
    using assms(5) by (simp add: poll_grant_state update_get)
  ultimately show ?thesis
    using s(2) by (intro exI[of _ "fst (poll_grant cf now rnd i deviceRead args w sv)"] exI[of _ s] exI[of _ ?g])
      (simp add: grant_for_fields)
qed

section \<open>A stop\<close>

text \<open>
  A stop that is heard stops.  Whoever calls from the same host or with a device's or the
  owner's credential, and sends a body that parses with a usable scope, the answer is 200 and in the
  state it leaves the whole plane is killed, or the one agent stopped, in a new epoch, with no
  approval, login or restore challenge left; no license, quarantine, failing store or waiting
  ceremony stands in its way.
\<close>

theorem heard_stop_stops:
  assumes "snd (authenticate_stop cf now rq raw sv) \<or> isLoopbackAddress (rq_remote rq)"
    and "parseJsonBody raw = Inr body" and "scope_from body = Inr scope"
  shows "let (sv', reply) = postKill cf now rq raw sv in
    reply_body reply \<noteq> None \<and> epoch_now sv' = epoch_now sv + 1 \<and>
    sv_approvals sv' = [] \<and> sv_logins sv' = [] \<and> sv_restores sv' = [] \<and>
    (case scope of None \<Rightarrow> killed_now sv' | Some agent \<Rightarrow> stopped (sv_switch sv') agent)"
proof -
  obtain sv1 ok where a: "authenticate_stop cf now rq raw sv = (sv1, ok)" by fastforce
  then have sw: "sv_switch sv1 = sv_switch sv" using authenticate_stop_keeps[of sv cf now rq raw] by (simp add: same_but_authD)
  have all: "let (sv', reply) = kill_all cf now src reason un sv1 in
      reply_body reply \<noteq> None \<and> epoch_now sv' = epoch_now sv + 1 \<and> sv_approvals sv' = [] \<and> sv_logins sv' = [] \<and>
      sv_restores sv' = [] \<and> killed_now sv'" for src reason un
    by (simp add: kill_all_def clear_challenges_def Let_def reply_body_def sw)
  have one: "let (sv', reply) = kill_agent cf now agent src reason un sv1 in
      reply_body reply \<noteq> None \<and> epoch_now sv' = epoch_now sv + 1 \<and> sv_approvals sv' = [] \<and> sv_logins sv' = [] \<and>
      sv_restores sv' = [] \<and> stopped (sv_switch sv') agent" for agent src reason un
  proof -
    have "stopped (fst (engageAgent (cf_switchStore cf) agent src reason un (at_clock now) (sv_switch sv))) agent"
      by (auto simp: engageAgent_def Let_def stopped_def agentKilled_def set_keys_update)
    then show ?thesis
      by (simp add: kill_agent_def clear_challenges_def Let_def reply_body_def sw prod.case_eq_if)
  qed
  show ?thesis
    using assms a all one by (cases scope) (auto simp: postKill_def Let_def)
qed

section \<open>A restore\<close>

text \<open>
  The way back is open.  While the plane is killed and its store trustworthy, an owner whose
  ceremony of this epoch is past its pause and within its life, and whose passkey signs the live
  challenge, gets the plane running again: the answer is 200, the switch is off, the epoch is the
  same, the challenge is spent and the ceremony cannot be used again.
\<close>

theorem ready_ceremony_restores:
  assumes killed: "killed_now sv" "\<not> sw_quarantineFailed (sv_switch sv)"
    and body: "parseJsonBody raw = Inr body" "own_field ''ceremonyId'' body = Some (JStr i)"
    and cer: "ceremony_of sv session i = Some r" "cr_epoch r = epoch_now sv" "cr_agentId r = None"
      "ce_status (tick now (cr_ceremony r)) = Ready" "ce_ceremonyId (cr_ceremony r) = i" "i \<noteq> []"
      "os_ownerId session \<noteq> []" "i \<notin> set (sw_consumed (sv_switch sv))"
    and pk: "cf_ownerPasskey cf = Some pk" "map_of (sv_restores sv) i = Some chal" "now < rc_expiresAt chal"
      "rc_killEpoch chal = epoch_now sv" "assertionFrom (own_field ''assertion'' body) = Some wa"
      "check_assertion cf pk (rc_challenge chal) wa sv = AssertionOk n"
  shows "let (sv', reply) = postRestore cf now session raw sv in
    reply = Reply 200 (JObj [(''killed'', JBool False)]) \<and> \<not> killed_now sv' \<and> epoch_now sv' = epoch_now sv \<and>
    map_of (sv_restores sv') i = None \<and> i \<in> set (sw_consumed (sv_switch sv')) \<and> n \<le> sv_signCount sv'"
proof -
  have owner: "ce_ownerId (cr_ceremony r) = os_ownerId session"
    using cer(1) by (auto simp: ceremony_of_def split: option.splits if_splits)
  let ?auth = "\<lparr>ra_ceremonyId = i, ra_ownerId = os_ownerId session, ra_completedAt = now\<rparr>"
  have confirmed: "confirm now now (cr_ceremony r) = ((tick now (cr_ceremony r))\<lparr>ce_status := Completed\<rparr>, Inr ?auth)"
    using cer(4,5) owner by (simp add: confirm_def Let_def)
  obtain sw where sw: "restore (cf_switchStore cf) ?auth (at_clock now) (sv_switch sv) = Inr sw"
    using killed(1) cer(6,7,8) by (auto simp: restore_def)
  note eff = restore_effect[OF sw]
  let ?sv1 = "sv\<lparr>sv_restores := AList.delete i (sv_restores sv), sv_signCount := max (sv_signCount sv) n\<rparr>"
  have asserted: "assert_restore cf now i (own_field ''assertion'' body) sv = (?sv1, None)"
    using pk by (simp add: assert_restore_def Let_def)
  show ?thesis
    using killed body cer(1,2,3) eff
    by (simp add: postRestore_def Let_def string_of_field_def restorable_def asserted spend_ceremony_def confirmed set_ceremony_def sw
        delete_conv')
qed

end
