(* ===== verification/ServerGuarantees.thy ===== *)
theory ServerGuarantees
  imports ServerExchange
begin

text \<open>
  The guarantees of a serving control plane (\<open>packages/control-plane/src/server.ts\<close>), from any start
  without waiting handlers and along every interleaving of requests.
\<close>

section \<open>Only GO 2/2 un-stops\<close>


definition demo_killed :: "(unit, unit, unit) server" where
  "demo_killed = demo_plane\<lparr>sv_switch := engage None SrcButton None False (at_clock 0) (unarmed ()),
     sv_ceremonies := [(''c'', \<lparr>cr_ceremony = new_ceremony ''c'' ''o'' None None 0, cr_epoch = 1, cr_agentId = None\<rparr>)]\<rparr>"



lemma demo_restore_arrives: "arrive plane_config 5 (demo_request ''POST'' ''/restore'') demo_killed = (demo_killed, Inr (AwaitRestore demo_session))"
proof -
  have "ownerSessionFrom 5 (demo_request ''POST'' ''/restore'') demo_killed = (demo_killed, Some demo_session)"
    by (rule demo_owner) (simp_all add: demo_killed_def)
  then have "session_head 5 (demo_request ''POST'' ''/restore'') demo_killed = (demo_killed, Inr demo_session)"
    by (simp add: session_head_def)
  moreover have "Option.bind (rq_target (demo_request ''POST'' ''/restore''))
      (\<lambda>t. route (rq_method (demo_request ''POST'' ''/restore'')) (fst t)) = Some ToRestore"
    by (simp add: demo_request_def demo_route)
  ultimately show ?thesis by (simp add: arrive_def waits_def)
qed



section \<open>A commit and a veto exclude each other\<close>

lemma fresh_plane_ok: "fresh_plane sv \<Longrightarrow> grants_ok sv \<and> challenges_current sv \<and> ceremonies_ok sv"
  by (simp add: fresh_plane_def grants_ok_def challenges_current_def ceremonies_ok_def map_keys_def)




lemma demo_arrives_veto:
  "arrive cf now (demo_request ''POST'' ''/veto/w'') sv = (sv, Inr (AwaitVeto (demo_request ''POST'' ''/veto/w'') ''w''))"
proof -
  have "Option.bind (rq_target (demo_request ''POST'' ''/veto/w''))
      (\<lambda>t. route (rq_method (demo_request ''POST'' ''/veto/w'')) (fst t)) = Some (ToVeto ''w'')"
    by (simp add: demo_request_def demo_route)
  then show ?thesis by (simp add: arrive_def)
qed




section \<open>Silence\<close>

text \<open>
  A control plane releases a held call on silence only while its witness stands: at the moment
  of the release the window was open and past its deadline, a device had confirmed that it was seen,
  and that very device, at the generation it confirmed under, was known and not revoked, with the
  plane neither killed nor quarantined.
\<close>

theorem silence_needs_standing_device:
  assumes run: "(serve cf)\<^sup>*\<^sup>* (sv0, []) (sv, ws)" and step: "serve cf (sv, ws) (sv', ws')"
    and "\<not> window_is (\<lambda>w. vw_status w = Released) sv i" "window_is (\<lambda>w. vw_status w = Released) sv' i"
  shows "\<exists>now sv1 w d g device. moves cf now (restoring ws) sv sv1 \<and> map_of (sv_windows sv1) i = Some w \<and>
    window_open w \<and> vw_delivered w \<and> vw_deadline w \<le> now \<and> \<not> killed_now sv1 \<and> \<not> sv_quarantined sv1 \<and>
    vw_deliveredBy w = Some d \<and> vw_deliveredByGeneration w = Some g \<and> resolveOwnerDevice cf sv1 d = Some device \<and>
    ed_revokedAt device = None \<and> ed_generation device = g"
proof -
  obtain now where "moves cf now (restoring ws) sv sv'" using serve_moves[OF step serving_awaits[OF run]] by blast
  from moves_change[where P = "\<lambda>s. \<not> window_is (\<lambda>w. vw_status w = Released) s i", OF this] assms(3,4) obtain c d
    where m: "moves cf now (restoring ws) sv c" "move cf now (restoring ws) c d"
      "\<not> window_is (\<lambda>w. vw_status w = Released) c i" "window_is (\<lambda>w. vw_status w = Released) d i" by blast
  from move_releases[OF m(2,3,4)] obtain w where w: "map_of (sv_windows c) i = Some w" "silence_counts cf now w c" by blast
  then obtain dv g device where "vw_deliveredBy w = Some dv" "vw_deliveredByGeneration w = Some g"
    "resolveOwnerDevice cf c dv = Some device" "ed_revokedAt device = None" "ed_generation device = g"
    by (auto simp: silence_counts_def witnessStanding_def split: option.splits)
  moreover have "window_open w" "vw_delivered w" "vw_deadline w \<le> now" "\<not> killed_now c" "\<not> sv_quarantined c"
    using w(2) by (simp_all add: silence_counts_def witnessStanding_def)
  ultimately show ?thesis using m(1) w(1) by blast
qed

definition plane_device :: enrolled_device where
  "plane_device = \<lparr>ed_deviceId = ''d'', ed_publicKey = \<lparr>pub_ec = True, pub_curve = None, pub_der = [], pub_pem = []\<rparr>,
     ed_generation = 1, ed_revokedAt = None\<rparr>"

definition demo_seen :: "(unit, unit, unit) server" where
  "demo_seen = demo_plane\<lparr>sv_ownerDevices := [(''d'', plane_device)],
     sv_windows := [(''w'', markDelivered (Some ''d'') (Some 1) 5 (new_window demo_call 0 None None None 0))]\<rparr>"

lemma demo_released:
  "window_is (\<lambda>w. vw_status w = Released)
     (fst (getVeto plane_config 240000 (replicate 8 0) (demo_request ''GET'' ''/veto/w'') ''w'' [] demo_seen)) ''w''"
  by (simp add: getVeto_def validDeviceIdFrom_def plane_config_def demo_seen_def demo_plane_def given_key_def grantEligibleArgs_def
      markDelivered_def new_window_def or_default_def tick_now_def tick_window_def window_open_def witness_lost_def witnessStanding_def
      resolveOwnerDevice_def plane_device_def unarmed_def set_window_def window_is_def Let_def)

lemma silence_needs_standing_device_witness:
  "\<exists>now sv1 w d g device. moves plane_config now (restoring [AwaitGetVeto (demo_request ''GET'' ''/veto/w'') ''w'']) demo_seen sv1 \<and>
    map_of (sv_windows sv1) ''w'' = Some w \<and>
    window_open w \<and> vw_delivered w \<and> vw_deadline w \<le> now \<and> \<not> killed_now sv1 \<and> \<not> sv_quarantined sv1 \<and>
    vw_deliveredBy w = Some d \<and> vw_deliveredByGeneration w = Some g \<and> resolveOwnerDevice plane_config sv1 d = Some device \<and>
    ed_revokedAt device = None \<and> ed_generation device = g"
proof (rule silence_needs_standing_device)
  let ?rq = "demo_request ''GET'' ''/veto/w''"
  let ?r = "getVeto plane_config 240000 (replicate 8 0) ?rq ''w'' [] demo_seen"
  have "Option.bind (rq_target ?rq) (\<lambda>t. route (rq_method ?rq) (fst t)) = Some (ToGetVeto ''w'')"
    by (simp add: demo_request_def demo_route)
  then have "arrive plane_config 5 ?rq demo_seen = (demo_seen, Inr (AwaitGetVeto ?rq ''w''))"
    by (simp add: arrive_def waits_def getVeto_head_def demo_seen_def)
  then show "(serve plane_config)\<^sup>*\<^sup>* (demo_seen, []) (demo_seen, [AwaitGetVeto ?rq ''w''])" by (rule serve_one)
  show "serve plane_config (demo_seen, [AwaitGetVeto ?rq ''w'']) (fst ?r, [])"
    by (rule serve_body[OF demo_draws, of _ 240000 "[]" _ _ _ "snd ?r"]) (simp add: demo_random_def)
  show "\<not> window_is (\<lambda>w. vw_status w = Released) demo_seen ''w''"
    by (simp add: window_is_def demo_seen_def markDelivered_def new_window_def)
  show "window_is (\<lambda>w. vw_status w = Released) (fst ?r) ''w''" by (rule demo_released)
qed

section \<open>Approval\<close>

text \<open>
  A control plane approves only what its owner approved: at the moment a window becomes approved
  it is exactly one merge and not vetoed, neither the plane nor its agent is stopped, and, where a
  passkey is enrolled, an assertion verified over the live challenge that was made for the bytes of
  this very call in this kill epoch; without a passkey no window is approved outside development.
\<close>

theorem approval_needs_owner:
  assumes run: "(serve cf)\<^sup>*\<^sup>* (sv0, []) (sv, ws)" and step: "serve cf (sv, ws) (sv', ws')"
    and "\<not> window_is (\<lambda>w. vw_approvedBy w \<noteq> None) sv i" "window_is (\<lambda>w. vw_approvedBy w \<noteq> None) sv' i"
  shows "\<exists>now sv1 w. moves cf now (restoring ws) sv sv1 \<and> map_of (sv_windows sv1) i = Some w \<and> approval_counts cf now i w sv1"
proof -
  obtain now where "moves cf now (restoring ws) sv sv'" using serve_moves[OF step serving_awaits[OF run]] by blast
  from moves_change[where P = "\<lambda>s. \<not> window_is (\<lambda>w. vw_approvedBy w \<noteq> None) s i", OF this] assms(3,4) obtain c d
    where m: "moves cf now (restoring ws) sv c" "move cf now (restoring ws) c d"
      "\<not> window_is (\<lambda>w. vw_approvedBy w \<noteq> None) c i" "window_is (\<lambda>w. vw_approvedBy w \<noteq> None) d i" by blast
  from move_approves[OF m(2,3,4)] m(1) show ?thesis by blast
qed

definition demo_approve_body :: string where
  "demo_approve_body = json_text (JObj [(''decision'', JStr ''approve'')])"

definition demo_asked :: "(unit, unit, unit) server" where
  "demo_asked = demo_plane\<lparr>sv_windows := [(''w'', demo_merge_window)]\<rparr>"

lemma demo_approved:
  "window_is (\<lambda>w. vw_approvedBy w \<noteq> None)
     (fst (postVeto plane_config 5 (demo_request ''POST'' ''/veto/w'') ''w'' demo_approve_body demo_asked)) ''w''"
proof -
  have "ownerSessionFrom 5 (demo_request ''POST'' ''/veto/w'') demo_asked = (demo_asked, Some demo_session)"
    by (rule demo_owner) (simp_all add: demo_asked_def)
  moreover have "parseJsonBody demo_approve_body = Inr (JObj [(''decision'', JStr ''approve'')])"
    unfolding demo_approve_body_def
    by (rule parse_own_body) (simp add: map_keys_def object_order_plain array_index_key_def is_digit_def code_unit_def)
  moreover have "map_of (sv_windows demo_asked) ''w'' = Some demo_merge_window" by (simp add: demo_asked_def)
  moreover have "\<not> killed_now demo_asked" "\<not> agentKilled (sv_switch demo_asked) x" for x
    by (simp_all add: demo_asked_def demo_plane_def unarmed_def agentKilled_def map_keys_def)
  moreover have "assert_approval plane_config 5 ''w'' args a demo_asked = (demo_asked, None)" for args a
    by (simp add: assert_approval_def plane_config_def)
  moreover have "vw_status demo_merge_window \<noteq> Vetoed" "vw_approvedBy demo_merge_window = None"
    by (simp_all add: demo_merge_window_def new_window_def)
  ultimately show ?thesis
    by (simp add: postVeto_def approve_window_def demo_eligible approve_def window_is_def)
qed

lemma approval_needs_owner_witness:
  "\<exists>now sv1 w. moves plane_config now (restoring [AwaitVeto (demo_request ''POST'' ''/veto/w'') ''w'']) demo_asked sv1 \<and>
    map_of (sv_windows sv1) ''w'' = Some w \<and> approval_counts plane_config now ''w'' w sv1"
proof (rule approval_needs_owner)
  let ?rq = "demo_request ''POST'' ''/veto/w''"
  let ?r = "postVeto plane_config 5 ?rq ''w'' demo_approve_body demo_asked"
  show "(serve plane_config)\<^sup>*\<^sup>* (demo_asked, []) (demo_asked, [AwaitVeto ?rq ''w''])" by (rule serve_one[OF demo_arrives_veto])
  show "serve plane_config (demo_asked, [AwaitVeto ?rq ''w'']) (fst ?r, [])"
    by (rule serve_body[OF demo_draws, of _ 5 demo_approve_body _ _ _ "snd ?r"]) simp
  show "\<not> window_is (\<lambda>w. vw_approvedBy w \<noteq> None) demo_asked ''w''"
    by (simp add: window_is_def demo_asked_def demo_merge_window_def new_window_def)
  show "window_is (\<lambda>w. vw_approvedBy w \<noteq> None) (fst ?r) ''w''" by (rule demo_approved)
qed

section \<open>The state stays in order\<close>

text \<open>
  Along every run the challenges and ceremonies stay in order: no challenge for an approval, a
  login or a restore is ever of another kill epoch than the current one, so none outlives a
  kill; there are never more than 256 restore ceremonies, and each owner has at most one for the
  plane and one for each agent.
\<close>

theorem plane_stays_in_order:
  assumes "challenges_current sv0" "ceremonies_ok sv0" "(serve cf)\<^sup>*\<^sup>* (sv0, []) (sv, ws)"
  shows "challenges_current sv \<and> ceremonies_ok sv"
  using serving_keeps[where P = challenges_current, OF move_challenges_current assms(1,3)] serving_keeps[where P = ceremonies_ok, OF move_ceremonies_ok assms(2,3)] by simp

lemma plane_stays_in_order_witness: "challenges_current demo_killed \<and> ceremonies_ok demo_killed"
proof (rule plane_stays_in_order)
  show "challenges_current demo_killed" by (simp add: challenges_current_def demo_killed_def demo_plane_def)
  show "ceremonies_ok demo_killed"
    by (simp add: ceremonies_ok_def demo_killed_def map_keys_def MAX_CEREMONY_RECORDS_def)
  show "(serve plane_config)\<^sup>*\<^sup>* (demo_killed, []) (demo_killed, [AwaitRestore demo_session])"
    by (rule serve_one[OF demo_restore_arrives])
qed

end
