(* ===== verification/Spec2Isabelle.thy ===== *)
theory Spec2Isabelle
  imports AgentId PolicyEngine StatusClient LimitTracker TwoGo KillSwitch KillStore VetoWindow
    Ladder CanonicalJson Executor MergeArgs MergeGrant SignedKillState BurnStore
    SecretLedger GithubMerge MergeBroker Auth Encoding Cbor WebAuthn License DeviceSig OwnerDevice
    Invite OwnedFiles EnrolledDevices DevicesFile RenderableAlert DeviceStanding
    Server ServerKill ServerVeto ServerDevices ServerMoves ServerRun ServerSafety ServerProps
    ServerDemo ServerExchange ServerGuarantees
begin

text \<open>
  OwnerSwitch is a control layer between AI agents and the tools they call.  A gateway decides
  every call against a policy and the live kill state; a control plane holds the kill switch, the
  veto windows of held calls and the ceremonies that restore; an executor carries out the one
  operation that needs a credential of its own; an escalation service alerts the owner.  This
  development models those decisions and the state behind them, one theory per component, and
  proves that they keep the promise: stopping is cheap and sticks, and nothing runs on doubt.

  \<^bold>\<open>Theories and code.\<close>
  \<^item> \<open>Numbers\<close>: JavaScript numbers, their rounding and their text.
  \<^item> \<open>Prelude\<close>: strings, JSON values and \<open>JSON.stringify\<close>, insertion-ordered
    maps, the enumeration order of objects, and the locales \<open>machine\<close> (an invariant of a step
    function), \<open>monotone_machine\<close> and \<open>single_use\<close> (a key is won at most once).
  \<^item> \<open>Json\<close>: \<open>JSON.parse\<close> in full, numbers rounded to the nearest double, with the round trips
    of \<open>JSON.stringify\<close>, indented and not.
  \<^item> \<open>AgentId\<close>: \<open>shared/src/agent-id.ts\<close>.
  \<^item> \<open>PolicyEngine\<close>: \<open>gateway/src/engine.ts\<close> with the policy types of \<open>shared/src/index.ts\<close>, and
    the regular expressions a glob is turned into, from their text on.
  \<^item> \<open>StatusClient\<close>: \<open>gateway/src/client.ts\<close>, the fail-closed reading of \<open>/status\<close>.
  \<^item> \<open>LimitTracker\<close>: \<open>gateway/src/limits.ts\<close>, the cumulative budgets and their kill latch.
  \<^item> \<open>TwoGo\<close>: \<open>control-plane/src/twogo.ts\<close>, the restore ceremony.
  \<^item> \<open>KillSwitch\<close>: \<open>control-plane/src/kill.ts\<close>; its store is the locale \<open>kill_store_contract\<close>.
  \<^item> \<open>KillStore\<close>: \<open>control-plane/src/kill-state.ts\<close>, the file behind the switch, interpreting
    that contract over a disk that holds bytes and on which every system call may fail or fall short.
  \<^item> \<open>VetoWindow\<close>: \<open>control-plane/src/veto.ts\<close>.
  \<^item> \<open>Ladder\<close>: \<open>escalation/src/ladder.ts\<close> with the types of \<open>escalation/src/types.ts\<close>.
  \<^item> \<open>CanonicalJson\<close>: \<open>canonicalJson\<close> of \<open>shared/src/merge-grant.ts\<close> and \<open>canonicalizeArgs\<close> of
    \<open>executor/src/ticket.ts\<close>.
  \<^item> \<open>Executor\<close>: \<open>executor/src/executor.ts\<close> with \<open>live-kill-state.ts\<close> and the ticket.
  \<^item> \<open>Crypto\<close>: digests and hexadecimal, as \<open>node:crypto\<close> and \<open>Buffer\<close> give them; that a signature
    pins what it signs is proved as a reduction to two texts with the same digest.
  \<^item> \<open>MergeArgs\<close>: \<open>shared/src/merge-args.ts\<close>, what a merge is and how the owner reads it.
  \<^item> \<open>MergeGrant\<close>: \<open>shared/src/merge-grant.ts\<close>, the signed authority for one merge.
  \<^item> \<open>SignedKillState\<close>: \<open>executor/src/signed-kill-state.ts\<close>, the broker's authenticated reader.
  \<^item> \<open>BurnStore\<close>: \<open>executor/src/burn-store.ts\<close>, the durable single-use ledger.
  \<^item> \<open>SecretLedger\<close>: \<open>executor/src/secret-ledger.ts\<close>, the redaction of everything that leaves.
  \<^item> \<open>GithubMerge\<close>: \<open>executor/src/github-client.ts\<close> and \<open>github-http.ts\<close>, one merge over the answers
    of GitHub, and what may be claimed about its outcome.
  \<^item> \<open>MergeBroker\<close>: \<open>executor/src/merge-broker.ts\<close>, the connections, grants and phases of the
    executing broker, over any number of starts; it composes the grant, the ledger of burns with its
    prunes, the signed reader and the client.
  \<^item> \<open>Auth\<close>: \<open>control-plane/src/auth.ts\<close>, signed requests with their replay window, owner sessions.
  \<^item> \<open>Encoding\<close>: base64, UTF-8 and big-endian counts, as \<open>Buffer\<close> gives them.
  \<^item> \<open>Cbor\<close>: \<open>control-plane/src/cbor.ts\<close>, the strict decoder behind a registration.
  \<^item> \<open>WebAuthn\<close>: \<open>control-plane/src/webauthn.ts\<close> and \<open>webauthn-register.ts\<close>, the passkey that
    confirms a restore and its enrolment.
  \<^item> \<open>License\<close>: \<open>control-plane/src/license.ts\<close>, what restoring needs and stopping never does.
  \<^item> \<open>DeviceSig\<close>: \<open>shared/src/owner-device-sig.ts\<close> and \<open>enroll-pop.ts\<close>, the bytes a device signs.
  \<^item> \<open>OwnerDevice\<close>: \<open>control-plane/src/owner-device.ts\<close>, the devices of the owner app and their
    signed requests, on one replay window with \<open>Auth\<close>.
  \<^item> \<open>Invite\<close>: \<open>control-plane/src/invite.ts\<close>, the single-use invites and the enrollment ceremony.
  \<^item> \<open>OwnedFiles\<close>: a directory with one owned file and its marker, for the device stores.
  \<^item> \<open>EnrolledDevices\<close> and \<open>DevicesFile\<close>: \<open>control-plane/src/enrolled-devices.ts\<close>, the registry of
    enrolled devices over the locale \<open>device_store_contract\<close>, and the file that interprets it.
  \<^item> \<open>DeviceStanding\<close>: \<open>control-plane/src/device-standing.ts\<close>, the standing of owner devices on disk and
    the walk that trusts the path to it.
  \<^item> \<open>RenderableAlert\<close>: \<open>shared/src/renderable-alert.ts\<close>, the alert whose bytes the owner confirms.
  \<^item> \<open>Server\<close>, \<open>ServerKill\<close>, \<open>ServerVeto\<close>, \<open>ServerDevices\<close>: \<open>control-plane/src/server.ts\<close>, its options and
    state, and the handlers of its routes: kills and restores, the veto lane with grants and login,
    devices and enrolment.  \<open>ServerRun\<close>: the routing, and a control plane that serves many requests
    at once.  \<open>ServerMoves\<close>: the state changes all handlers are composed of.  \<open>ServerSafety\<close>,
    \<open>ServerProps\<close>, \<open>ServerGuarantees\<close>: what holds along every such run; \<open>ServerExchange\<close>: what the
    gateway and the broker read of its answers; \<open>ServerDemo\<close>: a small plane to try them on.

  \<^bold>\<open>How state is modelled.\<close>  A class is a record of its fields, a method a function from the
  record to the record and its result, a throw a value of a sum or option type.  A component is
  then a deterministic machine over a datatype of its calls, and its properties speak of
  every finite list of calls, in any order.  The clock is an argument of each call.  Code that
  awaits is cut at its awaits, so that an event delivers the answer and any other event may come
  in between.

  \<^bold>\<open>What the lemmas show.\<close>  Each theory first shows that its operations keep the state well
  formed, then what every operation does on every branch, then the properties named by their
  claim in the text before them: that a stop holds until a ceremony lifts it, in memory, across
  restarts and across every disk failure, and through every interleaving of requests; that a
  grant is committed or vetoed, never both; that a release needs a confirmed alert whose witness
  still stands; that a ticket or ceremony is used once; that canonical bytes determine what
  was signed; that ceilings hold.

  \<^bold>\<open>Bounds and termination.\<close>  No function of the development runs on fuel: loops are structural
  or have a measure (the read and write loops of \<open>KillStore\<close> move at least a byte per call), so
  each returns.  Numbers of the code that are IEEE doubles are integers where the code accepts
  only safe integers, and rationals rounded as doubles where it computes with fractions.

  \<^bold>\<open>Not modelled.\<close>  Code units beyond U+00FF in strings (\<open>json_parse\<close> refuses an escape of one;
  client data, which is only compared, is read with one character standing for all of them); a dash
  of a message outside them is written as a hyphen.  Console output, HTTP transport and process
  start-up; cryptographic primitives and regular expressions given by the user are parameters.  The
  command lines, the doctor and the demos, the browser front ends, the token source and the process
  launcher are input and output around the modelled decisions; the gateway's proxy, the honeytokens,
  the button and the escalation service beyond its ladder are left to later work.
\<close>

end
